(* ===== verification/Prelude.thy ===== *)
theory Prelude
  imports Main "HOL-Library.Word"
begin

text \<open>
  Shared vocabulary of the development: the machine integer types of the C++ sources
  (\<open>std::uint8_t\<close> to \<open>std::uint64_t\<close>) as words, byte strings as lists of bytes, and the
  generic lemmas on lists, sums and words that the component theories use.  The collection
  \<open>byte_simps\<close> gathers the rewrite rules that evaluate reads of freshly written buffers,
  \<open>store_simps\<close> those that evaluate the stores into them.
\<close>

unbundle bit_operations_syntax

type_synonym u8 = "8 word"
type_synonym u16 = "16 word"
type_synonym u32 = "32 word"
type_synonym u64 = "64 word"
type_synonym bytes = "u8 list"

named_theorems byte_simps
named_theorems store_simps

text \<open>\<open>subspan\<close> of \<open>std::span\<close>: \<open>n\<close> elements from position \<open>i\<close>.\<close>

abbreviation subspan :: "'a list \<Rightarrow> nat \<Rightarrow> nat \<Rightarrow> 'a list" where
  "subspan xs i n \<equiv> take n (drop i xs)"

text \<open>Cutting a list into consecutive runs of given lengths.\<close>

fun chunks :: "nat list \<Rightarrow> 'a list \<Rightarrow> 'a list list" where
  "chunks [] xs = []"
| "chunks (n # ns) xs = take n xs # chunks ns (drop n xs)"

lemma concat_chunks: "concat (chunks ns xs) = take (sum_list ns) xs"
  by (induction ns arbitrary: xs) (simp_all add: take_add)

lemma take_eq_concat_chunks: "sum_list ns = n \<Longrightarrow> take n xs = concat (chunks ns xs)"
  by (simp add: concat_chunks)

lemma take_one_drop [byte_simps]: "i < length xs \<Longrightarrow> take (Suc 0) (drop i xs) = [xs ! i]"
  by (simp add: take_Suc hd_drop_conv_nth)

lemma subspan_nth_upt: "i + n \<le> length xs \<Longrightarrow> subspan xs i n = map ((!) xs) [i ..< i + n]"
  by (rule nth_equalityI) simp_all

lemma subspan_two: "i + 2 \<le> length xs \<Longrightarrow> subspan xs i 2 = [xs ! i, xs ! (i + 1)]"
  by (simp add: subspan_nth_upt upt_rec)

lemma subspan_four:
  "i + 4 \<le> length xs \<Longrightarrow>
    subspan xs i 4 = [xs ! i, xs ! (i + 1), xs ! (i + 2), xs ! (i + 3)]"
  by (simp add: subspan_nth_upt upt_rec eval_nat_numeral)

lemma take_two: "2 \<le> length xs \<Longrightarrow> take 2 xs = [xs ! 0, xs ! 1]"
  using subspan_two [of 0 xs] by simp

lemma take_four: "4 \<le> length xs \<Longrightarrow> take 4 xs = [xs ! 0, xs ! 1, xs ! 2, xs ! 3]"
  using subspan_four [of 0 xs] by (simp add: numeral_2_eq_2)

lemma list_update_Cons_numeral [byte_simps]:
  "(x # xs)[numeral k := v] = x # xs[pred_numeral k := v]"
  by (simp add: numeral_eq_Suc)

lemma unat_u64_less: "unat (x :: u64) < 2 ^ 64"
  using unsigned_less [of x] by simp

lemma unat_u32_less: "unat (x :: u32) < 2 ^ 32"
  using unsigned_less [of x] by simp

lemma unat_u8_less: "unat (c :: u8) < 256"
  using unsigned_less [of c] by simp

lemma unat_u16_less: "unat (x :: u16) < 2 ^ 16"
  using unsigned_less [of x] by simp

lemma unat_ucast_u64: "unat (ucast (x :: u32) :: u64) = unat x"
  using unat_u32_less [of x] by (simp add: unsigned_ucast_eq take_bit_nat_eq_self)

lemma unat_of_nat_u64: "n < 2 ^ 64 \<Longrightarrow> unat (of_nat n :: u64) = n"
  by (simp add: unat_of_nat)

lemma ucast_u32_u64_u32 [simp]: "(ucast (ucast (x :: u32) :: u64) :: u32) = x"
  by (rule bit_word_eqI) (simp add: bit_simps)

lemma unat_add_of_nat: "unat (a :: u64) + n < 2 ^ 64 \<Longrightarrow> unat (a + of_nat n) = unat a + n"
  by (simp add: unat_word_ariths unat_of_nat)

lemma unat_sub_of_nat:
  assumes "n \<le> unat (a :: u64)" shows "unat (a - of_nat n) = unat a - n"
proof -
  have "n < 2 ^ 64" using assms unat_u64_less [of a] by linarith
  then have n: "unat (of_nat n :: u64) = n" by (simp add: unat_of_nat)
  then show ?thesis using assms by (simp add: unat_sub word_le_nat_alt)
qed

end
