(* ===== verification/Bytes.thy ===== *)
theory Bytes
  imports Prelude
begin

text \<open>
  The little-endian loads and stores of \<open>protocol/Codec.h\<close> and the buffer growth of
  \<open>protocol/Codec.cpp\<close>.  A pointer \<open>p + off\<close> of the source is a buffer together with an
  offset.  Stores update a buffer in place, loads read it, and the round-trip lemmas below
  say that a load returns what a store of the same width put there.
\<close>

section \<open>Loads\<close>

definition rd_u8 :: "bytes \<Rightarrow> nat \<Rightarrow> u8" where
  "rd_u8 p i = p ! i"

definition rd_u16 :: "bytes \<Rightarrow> nat \<Rightarrow> u16" where
  "rd_u16 p i = (ucast (p ! i) :: u16) OR push_bit 8 ((ucast (p ! (i + 1)) :: u16))"

definition rd_u32 :: "bytes \<Rightarrow> nat \<Rightarrow> u32" where
  "rd_u32 p i =
     (((ucast (p ! i) :: u32) OR push_bit 8 ((ucast (p ! (i + 1)) :: u32)))
       OR push_bit 16 ((ucast (p ! (i + 2)) :: u32)))
       OR push_bit 24 ((ucast (p ! (i + 3)) :: u32))"

definition rd_u64 :: "bytes \<Rightarrow> nat \<Rightarrow> u64" where
  "rd_u64 p i =
     (ucast (rd_u32 p i) :: u64) OR push_bit 32 ((ucast (rd_u32 p (i + 4)) :: u64))"

section \<open>Stores\<close>

definition wr_u8 :: "bytes \<Rightarrow> nat \<Rightarrow> u8 \<Rightarrow> bytes" where
  "wr_u8 p i v = p[i := v]"

definition wr_u16 :: "bytes \<Rightarrow> nat \<Rightarrow> u16 \<Rightarrow> bytes" where
  "wr_u16 p i v = p[i := (ucast v :: u8), i + 1 := (ucast (drop_bit 8 v) :: u8)]"

definition wr_u32 :: "bytes \<Rightarrow> nat \<Rightarrow> u32 \<Rightarrow> bytes" where
  "wr_u32 p i v =
     p[i := (ucast v :: u8),
       i + 1 := (ucast (drop_bit 8 v) :: u8),
       i + 2 := (ucast (drop_bit 16 v) :: u8),
       i + 3 := (ucast (drop_bit 24 v) :: u8)]"

definition wr_u64 :: "bytes \<Rightarrow> nat \<Rightarrow> u64 \<Rightarrow> bytes" where
  "wr_u64 p i v =
     wr_u32 (wr_u32 p i ((ucast v :: u32))) (i + 4) ((ucast (drop_bit 32 v) :: u32))"

text \<open>\<open>memcpy\<close> into and out of a buffer; the source checks or fixes the bounds of each use.\<close>

definition memcpy_to :: "bytes \<Rightarrow> nat \<Rightarrow> bytes \<Rightarrow> bytes" where
  "memcpy_to p i src = take i p @ src @ drop (i + length src) p"

definition memcpy_from :: "bytes \<Rightarrow> nat \<Rightarrow> nat \<Rightarrow> bytes" where
  "memcpy_from p i n = subspan p i n"

text \<open>The zero-filled tail that \<open>grow\<close> appends and returns a pointer to.\<close>

definition grow :: "nat \<Rightarrow> bytes" where
  "grow n = replicate n 0"

section \<open>Little-endian byte strings\<close>

definition le16 :: "u16 \<Rightarrow> bytes" where
  "le16 v = [(ucast v :: u8), (ucast (drop_bit 8 v) :: u8)]"

definition le32 :: "u32 \<Rightarrow> bytes" where
  "le32 v = [(ucast v :: u8), (ucast (drop_bit 8 v) :: u8),
     (ucast (drop_bit 16 v) :: u8), (ucast (drop_bit 24 v) :: u8)]"

definition le64 :: "u64 \<Rightarrow> bytes" where
  "le64 v = le32 ((ucast v :: u32)) @ le32 ((ucast (drop_bit 32 v) :: u32))"

lemma length_le [simp]: "length (le16 v) = 2" "length (le32 w) = 4" "length (le64 x) = 8"
  by (simp_all add: le16_def le32_def le64_def)

lemma length_wr [simp]:
  "length (wr_u8 p i a) = length p" "length (wr_u16 p i b) = length p"
  "length (wr_u32 p i c) = length p" "length (wr_u64 p i d) = length p"
  by (simp_all add: wr_u8_def wr_u16_def wr_u32_def wr_u64_def)

lemma length_memcpy_to [simp]:
  "i + length src \<le> length p \<Longrightarrow> length (memcpy_to p i src) = length p"
  by (simp add: memcpy_to_def)

text \<open>Reassembling a word from its bytes, and taking a word of bytes apart again.\<close>

lemma join16:
  "(ucast ((ucast v :: u8)) :: u16) OR push_bit 8 ((ucast ((ucast (drop_bit 8 v) :: u8)) :: u16)) = v"
  by (rule bit_word_eqI) (auto simp: bit_simps)

lemma join32:
  "(((ucast ((ucast v :: u8)) :: u32)
      OR push_bit 8 ((ucast ((ucast (drop_bit 8 v) :: u8)) :: u32)))
      OR push_bit 16 ((ucast ((ucast (drop_bit 16 v) :: u8)) :: u32)))
      OR push_bit 24 ((ucast ((ucast (drop_bit 24 v) :: u8)) :: u32)) = v"
  by (rule bit_word_eqI) (auto simp: bit_simps not_less, rule ccontr, simp)

lemma join64:
  "(ucast ((ucast v :: u32)) :: u64) OR push_bit 32 ((ucast ((ucast (drop_bit 32 v) :: u32)) :: u64)) = v"
  by (rule bit_word_eqI) (auto simp: bit_simps)

lemma split16:
  "(ucast ((ucast a :: u16) OR push_bit 8 ((ucast b :: u16))) :: u8) = a"
  "(ucast (drop_bit 8 ((ucast a :: u16) OR push_bit 8 ((ucast b :: u16)))) :: u8) = b"
  by (rule bit_word_eqI; auto simp: bit_simps dest: bit_imp_le_length)+

lemma split32:
  fixes a b c d :: u8
  defines "w \<equiv> (((ucast a :: u32) OR push_bit 8 ((ucast b :: u32)))
      OR push_bit 16 ((ucast c :: u32))) OR push_bit 24 ((ucast d :: u32))"
  shows "(ucast w :: u8) = a" "(ucast (drop_bit 8 w) :: u8) = b"
    "(ucast (drop_bit 16 w) :: u8) = c" "(ucast (drop_bit 24 w) :: u8) = d"
  unfolding w_def by (rule bit_word_eqI; auto simp: bit_simps dest: bit_imp_le_length)+

lemma split64:
  "(ucast ((ucast a :: u64) OR push_bit 32 ((ucast b :: u64))) :: u32) = a"
  "(ucast (drop_bit 32 ((ucast a :: u64) OR push_bit 32 ((ucast b :: u64)))) :: u32) = b"
  by (rule bit_word_eqI; auto simp: bit_simps dest: bit_imp_le_length)+

lemma rd_wr_same [byte_simps]:
  "i < length p \<Longrightarrow> rd_u8 (wr_u8 p i a) i = a"
  "i + 2 \<le> length p \<Longrightarrow> rd_u16 (wr_u16 p i b) i = b"
  "i + 4 \<le> length p \<Longrightarrow> rd_u32 (wr_u32 p i c) i = c"
  by (simp_all add: rd_u8_def rd_u16_def rd_u32_def wr_u8_def wr_u16_def wr_u32_def
      nth_list_update join16 join32)

text \<open>What a load returns is what the stored bytes spell.\<close>

lemma le_rd:
  "i + 2 \<le> length p \<Longrightarrow> le16 (rd_u16 p i) = subspan p i 2"
  "i + 4 \<le> length p \<Longrightarrow> le32 (rd_u32 p i) = subspan p i 4"
  by (simp_all only: le16_def le32_def rd_u16_def rd_u32_def split16 split32 subspan_two
      subspan_four)

lemma le64_rd:
  assumes "i + 8 \<le> length p"
  shows "le64 (rd_u64 p i) = subspan p i 8"
proof -
  have "subspan p i 8 = subspan p i 4 @ subspan p (i + 4) 4"
    using take_add [of 4 4 "drop i p"] by (simp add: add.commute)
  then show ?thesis
    using assms by (simp only: le64_def rd_u64_def split64 le_rd)
qed

lemma rd_le:
  "rd_u16 (xs @ le16 b @ ys) (length xs) = b"
  "rd_u32 (xs @ le32 c @ ys) (length xs) = c"
  by (simp_all add: rd_u16_def rd_u32_def le16_def le32_def nth_append join16 join32)

lemma le_inj [simp]:
  "le16 a = le16 b \<longleftrightarrow> a = b" "le32 c = le32 d \<longleftrightarrow> c = d"
  by (metis append.left_neutral rd_le(1), metis append.left_neutral rd_le(2))

text \<open>Stores into a fresh zero buffer, evaluated to the bytes they produce.\<close>

lemmas rd_defs = rd_u8_def rd_u16_def rd_u32_def rd_u64_def memcpy_from_def
lemmas wr_defs = wr_u8_def wr_u16_def wr_u32_def wr_u64_def memcpy_to_def
lemmas le_defs = le16_def le32_def le64_def

lemma grow_numeral [byte_simps]: "grow (numeral k) = 0 # grow (pred_numeral k)" "grow 0 = []"
    "grow (Suc n) = 0 # grow n"
  by (simp_all add: grow_def numeral_eq_Suc)

text \<open>
  Stores that fill a fresh zero buffer from left to right: a store skips what is already written and
  consumes as much of the zero tail as it needs.
\<close>

lemma store_skip [store_simps]:
  "length xs \<le> i \<Longrightarrow> wr_u8 (xs @ ys) i a = xs @ wr_u8 ys (i - length xs) a"
  "length xs \<le> i \<Longrightarrow> wr_u16 (xs @ ys) i b = xs @ wr_u16 ys (i - length xs) b"
  "length xs \<le> i \<Longrightarrow> wr_u32 (xs @ ys) i c = xs @ wr_u32 ys (i - length xs) c"
  "length xs \<le> i \<Longrightarrow> wr_u64 (xs @ ys) i d = xs @ wr_u64 ys (i - length xs) d"
  "length xs \<le> i \<Longrightarrow> memcpy_to (xs @ ys) i src = xs @ memcpy_to ys (i - length xs) src"
  by (auto dest!: le_Suc_ex simp: wr_u8_def wr_u16_def wr_u32_def wr_u64_def memcpy_to_def list_update_append
      Suc_diff_le add.assoc)

lemma store_step [store_simps]:
  "0 < i \<Longrightarrow> wr_u8 (x # ys) i a = x # wr_u8 ys (i - 1) a"
  "0 < i \<Longrightarrow> wr_u16 (x # ys) i b = x # wr_u16 ys (i - 1) b"
  "0 < i \<Longrightarrow> wr_u32 (x # ys) i c = x # wr_u32 ys (i - 1) c"
  "0 < i \<Longrightarrow> wr_u64 (x # ys) i d = x # wr_u64 ys (i - 1) d"
  "0 < i \<Longrightarrow> memcpy_to (x # ys) i src = x # memcpy_to ys (i - 1) src"
  using store_skip [of "[x]" i ys] by simp_all

lemma store_here [store_simps]:
  "1 \<le> n \<Longrightarrow> wr_u8 (grow n) 0 a = a # grow (n - 1)"
  "2 \<le> n \<Longrightarrow> wr_u16 (grow n) 0 b = le16 b @ grow (n - 2)"
  "4 \<le> n \<Longrightarrow> wr_u32 (grow n) 0 c = le32 c @ grow (n - 4)"
  "8 \<le> n \<Longrightarrow> wr_u64 (grow n) 0 d = le64 d @ grow (n - 8)"
  "length src \<le> n \<Longrightarrow> memcpy_to (grow n) 0 src = src @ grow (n - length src)"
proof -
  have split: "grow n = grow k @ grow (n - k)" if "k \<le> n" for k n
    using that by (simp add: grow_def replicate_add [symmetric])
  have w: "wr_u32 (grow n) 0 c = le32 c @ grow (n - 4)" if "4 \<le> n" for n c
    using split [OF that]
    by (simp add: grow_def wr_u32_def le32_def numeral_eq_Suc)
  show "1 \<le> n \<Longrightarrow> wr_u8 (grow n) 0 a = a # grow (n - 1)"
    by (cases n) (simp_all add: grow_def wr_u8_def)
  show "2 \<le> n \<Longrightarrow> wr_u16 (grow n) 0 b = le16 b @ grow (n - 2)"
    using split [of 2 n] by (simp add: grow_def wr_u16_def le16_def numeral_eq_Suc)
  show "4 \<le> n \<Longrightarrow> wr_u32 (grow n) 0 c = le32 c @ grow (n - 4)" by (rule w)
  show "8 \<le> n \<Longrightarrow> wr_u64 (grow n) 0 d = le64 d @ grow (n - 8)"
    by (simp add: wr_u64_def w store_skip le64_def)
  show "length src \<le> n \<Longrightarrow> memcpy_to (grow n) 0 src = src @ grow (n - length src)"
    by (simp add: memcpy_to_def grow_def)
qed

lemma grow_0 [store_simps]: "grow 0 = []"
  by (simp add: grow_def)

text \<open>A load sees only the bytes it reads.\<close>

lemma rd_take [byte_simps]:
  "i < n \<Longrightarrow> rd_u8 (take n p) i = rd_u8 p i"
  "i + 1 < n \<Longrightarrow> rd_u16 (take n p) i = rd_u16 p i"
  "i + 3 < n \<Longrightarrow> rd_u32 (take n p) i = rd_u32 p i"
  "i + 7 < n \<Longrightarrow> rd_u64 (take n p) i = rd_u64 p i"
  by (simp_all add: rd_u8_def rd_u16_def rd_u32_def rd_u64_def)

lemma memcpy_from_take [byte_simps]:
  "i + k \<le> n \<Longrightarrow> memcpy_from (take n p) i k = memcpy_from p i k"
  by (simp add: memcpy_from_def drop_take min_def)

end
