(* ===== verification/FixedCodec.thy ===== *)
theory FixedCodec
  imports Bytes
begin

text \<open>
  The contract every fixed-size wire structure offers its callers.  An encoder appends to an
  output vector, a decoder reads a prefix of its input and fails only on short (or refused)
  input.  \<open>fixed_codec\<close> holds for every body of the protocol; \<open>exact_codec\<close> adds that no byte of
  the fixed part is ignored, so decoding and re-encoding reproduces the input.
\<close>

locale fixed_codec =
  fixes enc :: "'a \<Rightarrow> bytes \<Rightarrow> bytes"
    and dec :: "bytes \<Rightarrow> 'a option"
    and wf :: "'a \<Rightarrow> bool"
    and sz :: nat
  assumes enc_append: "enc x out = out @ enc x []"
    and enc_length: "wf x \<Longrightarrow> length (enc x []) = sz"
    and dec_short: "length bs < sz \<Longrightarrow> dec bs = None"
    and dec_prefix: "sz \<le> length bs \<Longrightarrow> dec bs = dec (take sz bs)"
    and dec_enc: "wf x \<Longrightarrow> dec (enc x []) = Some x"
    and dec_wf: "dec bs = Some x \<Longrightarrow> wf x"
begin

lemma dec_Some_length: "dec bs = Some x \<Longrightarrow> sz \<le> length bs"
  by (metis dec_short not_le option.distinct(1))

lemma dec_enc_append: "wf x \<Longrightarrow> dec (enc x [] @ rest) = Some x"
  using dec_prefix [of "enc x [] @ rest"] by (simp add: enc_length dec_enc)

lemma dec_enc_at: "wf x \<Longrightarrow> dec (drop (length out) (enc x out @ rest)) = Some x"
  by (subst enc_append) (simp add: dec_enc_append)

lemma enc_inj: "\<lbrakk>wf x; wf y; enc x [] = enc y []\<rbrakk> \<Longrightarrow> x = y"
  by (metis dec_enc option.inject)

lemma enc_prefix_free:
  assumes "wf x" "wf y" "enc x [] @ r = enc y [] @ s"
  shows "x = y \<and> r = s"
proof -
  from assms have "enc x [] = enc y []" "r = s" by (simp_all add: enc_length)
  with assms(1,2) enc_inj show ?thesis by blast
qed

end

locale exact_codec = fixed_codec +
  assumes enc_dec: "dec bs = Some x \<Longrightarrow> enc x [] = take sz bs"
    and dec_total: "sz \<le> length bs \<Longrightarrow> dec bs \<noteq> None"
begin

lemma dec_defined_iff: "(\<exists>x. dec bs = Some x) \<longleftrightarrow> sz \<le> length bs"
  using dec_total dec_Some_length by blast

lemma recoding: "dec bs = Some x \<Longrightarrow> enc x (take 0 bs) @ drop sz bs = bs"
  by (simp add: enc_dec)

lemma dec_inj: "\<lbrakk>dec bs = Some x; dec cs = Some x\<rbrakk> \<Longrightarrow> take sz bs = take sz cs"
  by (metis enc_dec)

end

end
