(* ===== verification/StatusCodes.thy ===== *)
theory StatusCodes
  imports Prelude
begin

text \<open>
  The portable status codes of \<open>core/Status.h\<close> and \<open>core/Status.cpp\<close>: the enumeration with its
  wire values, the table that names them, and the predicates the session layers branch on.
\<close>

datatype (plugins only: code size) Status =
    Ok
  | ErrorGeneric
  | BadArgument
  | UnsupportedVersion
  | UnsupportedMessage
  | MalformedFrame
  | LimitExceeded
  | NotPermitted
  | NotPaired
  | AuthFailed
  | NoResources
  | Busy
  | NotFound
  | AlreadyExists
  | Internal
  | TransportLost
  | AlreadyCompleted
  | DeviceGone
  | Detaching
  | ExclusivityDenied
  | CaptureFailed
  | AttachUnknown
  | ManifestInvalid
  | SpeedUnsupported
  | MountedLocally
  | XferStall
  | XferTimeout
  | XferCancelled
  | XferShort
  | XferOverrun
  | XferUnderrun
  | XferCrc
  | XferBitstuff
  | XferProtocol
  | XferNoBandwidth
  | XferMissedService
  | XferEpStopped
  | XferDeviceOffline
  | XferNakTimeout
  | XferBadToggle
  | XferStreamError
  | XferUnknown

primrec statusCode :: "Status \<Rightarrow> u16" where
  "statusCode Ok = 0x0000"
| "statusCode ErrorGeneric = 0x0001"
| "statusCode BadArgument = 0x0002"
| "statusCode UnsupportedVersion = 0x0003"
| "statusCode UnsupportedMessage = 0x0004"
| "statusCode MalformedFrame = 0x0005"
| "statusCode LimitExceeded = 0x0006"
| "statusCode NotPermitted = 0x0007"
| "statusCode NotPaired = 0x0008"
| "statusCode AuthFailed = 0x0009"
| "statusCode NoResources = 0x000A"
| "statusCode Busy = 0x000B"
| "statusCode NotFound = 0x000C"
| "statusCode AlreadyExists = 0x000D"
| "statusCode Internal = 0x000E"
| "statusCode TransportLost = 0x000F"
| "statusCode AlreadyCompleted = 0x0010"
| "statusCode DeviceGone = 0x0020"
| "statusCode Detaching = 0x0021"
| "statusCode ExclusivityDenied = 0x0022"
| "statusCode CaptureFailed = 0x0023"
| "statusCode AttachUnknown = 0x0024"
| "statusCode ManifestInvalid = 0x0025"
| "statusCode SpeedUnsupported = 0x0026"
| "statusCode MountedLocally = 0x0027"
| "statusCode XferStall = 0x0040"
| "statusCode XferTimeout = 0x0041"
| "statusCode XferCancelled = 0x0042"
| "statusCode XferShort = 0x0043"
| "statusCode XferOverrun = 0x0044"
| "statusCode XferUnderrun = 0x0045"
| "statusCode XferCrc = 0x0046"
| "statusCode XferBitstuff = 0x0047"
| "statusCode XferProtocol = 0x0048"
| "statusCode XferNoBandwidth = 0x0049"
| "statusCode XferMissedService = 0x004A"
| "statusCode XferEpStopped = 0x004B"
| "statusCode XferDeviceOffline = 0x004C"
| "statusCode XferNakTimeout = 0x004D"
| "statusCode XferBadToggle = 0x004E"
| "statusCode XferStreamError = 0x004F"
| "statusCode XferUnknown = 0x0050"

text \<open>\<open>isFatal\<close>: the statuses that close the session.\<close>

definition isFatal :: "Status \<Rightarrow> bool" where
  "isFatal s \<longleftrightarrow> s = MalformedFrame \<or> s = LimitExceeded \<or> s = AuthFailed"

text \<open>
  \<open>isWireLegal\<close> is applied to a raw 16-bit header field cast to the enumeration, so it is
  stated on the raw value.
\<close>

definition isWireLegal :: "u16 \<Rightarrow> bool" where
  "isWireLegal raw \<longleftrightarrow> raw \<noteq> statusCode TransportLost"

definition isTransferStatus :: "Status \<Rightarrow> bool" where
  "isTransferStatus s \<longleftrightarrow> statusCode s \<ge> 0x0040 \<and> statusCode s \<le> 0x0050"

text \<open>The table behind \<open>statusName\<close> and \<open>isKnownStatus\<close>, in source order.\<close>

definition kTable :: "(Status \<times> string) list" where
  "kTable = [
     (Ok, ''OK''),
     (ErrorGeneric, ''ERROR_GENERIC''),
     (BadArgument, ''BAD_ARGUMENT''),
     (UnsupportedVersion, ''UNSUPPORTED_VERSION''),
     (UnsupportedMessage, ''UNSUPPORTED_MESSAGE''),
     (MalformedFrame, ''MALFORMED_FRAME''),
     (LimitExceeded, ''LIMIT_EXCEEDED''),
     (NotPermitted, ''NOT_PERMITTED''),
     (NotPaired, ''NOT_PAIRED''),
     (AuthFailed, ''AUTH_FAILED''),
     (NoResources, ''NO_RESOURCES''),
     (Busy, ''BUSY''),
     (NotFound, ''NOT_FOUND''),
     (AlreadyExists, ''ALREADY_EXISTS''),
     (Internal, ''INTERNAL''),
     (TransportLost, ''TRANSPORT_LOST''),
     (AlreadyCompleted, ''ALREADY_COMPLETED''),
     (DeviceGone, ''DEVICE_GONE''),
     (Detaching, ''DETACHING''),
     (ExclusivityDenied, ''EXCLUSIVITY_DENIED''),
     (CaptureFailed, ''CAPTURE_FAILED''),
     (AttachUnknown, ''ATTACH_UNKNOWN''),
     (ManifestInvalid, ''MANIFEST_INVALID''),
     (SpeedUnsupported, ''SPEED_UNSUPPORTED''),
     (MountedLocally, ''MOUNTED_LOCALLY''),
     (XferStall, ''XFER_STALL''),
     (XferTimeout, ''XFER_TIMEOUT''),
     (XferCancelled, ''XFER_CANCELLED''),
     (XferShort, ''XFER_SHORT''),
     (XferOverrun, ''XFER_OVERRUN''),
     (XferUnderrun, ''XFER_UNDERRUN''),
     (XferCrc, ''XFER_CRC''),
     (XferBitstuff, ''XFER_BITSTUFF''),
     (XferProtocol, ''XFER_PROTOCOL''),
     (XferNoBandwidth, ''XFER_NO_BANDWIDTH''),
     (XferMissedService, ''XFER_MISSED_SERVICE''),
     (XferEpStopped, ''XFER_EP_STOPPED''),
     (XferDeviceOffline, ''XFER_DEVICE_OFFLINE''),
     (XferNakTimeout, ''XFER_NAK_TIMEOUT''),
     (XferBadToggle, ''XFER_BAD_TOGGLE''),
     (XferStreamError, ''XFER_STREAM_ERROR''),
     (XferUnknown, ''XFER_UNKNOWN'')]"

definition isKnownStatus :: "u16 \<Rightarrow> bool" where
  "isKnownStatus raw \<longleftrightarrow> list_ex (\<lambda>(s, _). statusCode s = raw) kTable"

text \<open>\<open>statusName\<close> scans the table and falls back to a fixed name.\<close>

definition statusName :: "Status \<Rightarrow> string" where
  "statusName s = (case find (\<lambda>(t, _). t = s) kTable of Some (_, n) \<Rightarrow> n | None \<Rightarrow> ''UNKNOWN'')"

section \<open>Facts about the table\<close>

text \<open>The enumerator of a raw wire value, where it names one.\<close>

definition statusOf :: "u16 \<Rightarrow> Status option" where
  "statusOf raw = map_of [
     (0x0000, Ok),
     (0x0001, ErrorGeneric),
     (0x0002, BadArgument),
     (0x0003, UnsupportedVersion),
     (0x0004, UnsupportedMessage),
     (0x0005, MalformedFrame),
     (0x0006, LimitExceeded),
     (0x0007, NotPermitted),
     (0x0008, NotPaired),
     (0x0009, AuthFailed),
     (0x000A, NoResources),
     (0x000B, Busy),
     (0x000C, NotFound),
     (0x000D, AlreadyExists),
     (0x000E, Internal),
     (0x000F, TransportLost),
     (0x0010, AlreadyCompleted),
     (0x0020, DeviceGone),
     (0x0021, Detaching),
     (0x0022, ExclusivityDenied),
     (0x0023, CaptureFailed),
     (0x0024, AttachUnknown),
     (0x0025, ManifestInvalid),
     (0x0026, SpeedUnsupported),
     (0x0027, MountedLocally),
     (0x0040, XferStall),
     (0x0041, XferTimeout),
     (0x0042, XferCancelled),
     (0x0043, XferShort),
     (0x0044, XferOverrun),
     (0x0045, XferUnderrun),
     (0x0046, XferCrc),
     (0x0047, XferBitstuff),
     (0x0048, XferProtocol),
     (0x0049, XferNoBandwidth),
     (0x004A, XferMissedService),
     (0x004B, XferEpStopped),
     (0x004C, XferDeviceOffline),
     (0x004D, XferNakTimeout),
     (0x004E, XferBadToggle),
     (0x004F, XferStreamError),
     (0x0050, XferUnknown)] raw"

lemma statusOf_statusCode [simp]: "statusOf (statusCode s) = Some s"
  by (cases s; hypsubst; code_simp)

lemma statusCode_eq_iff [simp]: "statusCode a = statusCode b \<longleftrightarrow> a = b"
  by (metis option.inject statusOf_statusCode)

lemma kTable_complete: "map_of kTable s \<noteq> None"
  by (cases s; hypsubst; code_simp)

lemma find_map_of:
  "find (\<lambda>(t, _). t = s) xs = map_option (Pair s) (map_of xs s)"
  by (induction xs) auto

lemma isKnownStatus_iff: "isKnownStatus raw \<longleftrightarrow> (\<exists>s. raw = statusCode s)"
proof
  assume "\<exists>s. raw = statusCode s"
  then obtain s where "raw = statusCode s" by blast
  moreover obtain n where "(s, n) \<in> set kTable"
    using kTable_complete [of s] by (auto dest: map_of_SomeD)
  ultimately show "isKnownStatus raw"
    by (force simp: isKnownStatus_def list_ex_iff)
qed (auto simp: isKnownStatus_def list_ex_iff)

end
