(* ===== verification/Wire.thy ===== *)
theory Wire
  imports StatusCodes
begin

text \<open>
  The constants of the AirUSB/1 wire format (\<open>protocol/Wire.h\<close>): offsets and sizes of every
  fixed structure, flag bits, negotiated limits, the message type enumeration and
  \<open>fixedBodySize\<close> (\<open>core/Status.cpp\<close>).  Offsets and sizes are naturals, limits and flags carry
  the width they have in the source.
\<close>

section \<open>Offsets and sizes\<close>

abbreviation (input) kPreambleSize :: nat where "kPreambleSize \<equiv> 8"
abbreviation (input) kPreOffMagic :: nat where "kPreOffMagic \<equiv> 0"
abbreviation (input) kPreOffWireMajor :: nat where "kPreOffWireMajor \<equiv> 4"
abbreviation (input) kPreOffWireMinor :: nat where "kPreOffWireMinor \<equiv> 5"
abbreviation (input) kPreOffFlags :: nat where "kPreOffFlags \<equiv> 6"
abbreviation (input) kRecordLenSize :: nat where "kRecordLenSize \<equiv> 4"
abbreviation (input) kAeadTagSize :: nat where "kAeadTagSize \<equiv> 16"
abbreviation (input) kHeaderSize :: nat where "kHeaderSize \<equiv> 32"
abbreviation (input) kOffType :: nat where "kOffType \<equiv> 0"
abbreviation (input) kOffFlags :: nat where "kOffFlags \<equiv> 1"
abbreviation (input) kOffChannel :: nat where "kOffChannel \<equiv> 2"
abbreviation (input) kOffBodyLen :: nat where "kOffBodyLen \<equiv> 4"
abbreviation (input) kOffAttachId :: nat where "kOffAttachId \<equiv> 8"
abbreviation (input) kOffSegOffset :: nat where "kOffSegOffset \<equiv> 12"
abbreviation (input) kOffRequestId :: nat where "kOffRequestId \<equiv> 16"
abbreviation (input) kOffStatus :: nat where "kOffStatus \<equiv> 24"
abbreviation (input) kOffDeviceEpoch :: nat where "kOffDeviceEpoch \<equiv> 26"
abbreviation (input) kOffTotalLen :: nat where "kOffTotalLen \<equiv> 28"
abbreviation (input) kBodyHello :: nat where "kBodyHello \<equiv> 56"
abbreviation (input) kBodyPing :: nat where "kBodyPing \<equiv> 24"
abbreviation (input) kBodyError :: nat where "kBodyError \<equiv> 8"
abbreviation (input) kBodySubmit :: nat where "kBodySubmit \<equiv> 40"
abbreviation (input) kBodyComplete :: nat where "kBodyComplete \<equiv> 40"
abbreviation (input) kBodyCancel :: nat where "kBodyCancel \<equiv> 16"
abbreviation (input) kBodyCancelAck :: nat where "kBodyCancelAck \<equiv> 8"
abbreviation (input) kBodyData :: nat where "kBodyData \<equiv> 0"
abbreviation (input) kSubOffEpAddr :: nat where "kSubOffEpAddr \<equiv> 0"
abbreviation (input) kSubOffXferType :: nat where "kSubOffXferType \<equiv> 1"
abbreviation (input) kSubOffDir :: nat where "kSubOffDir \<equiv> 2"
abbreviation (input) kSubOffXFlags :: nat where "kSubOffXFlags \<equiv> 3"
abbreviation (input) kSubOffBufferLen :: nat where "kSubOffBufferLen \<equiv> 4"
abbreviation (input) kSubOffTimeoutMs :: nat where "kSubOffTimeoutMs \<equiv> 8"
abbreviation (input) kSubOffIsoPktCount :: nat where "kSubOffIsoPktCount \<equiv> 12"
abbreviation (input) kSubOffInterval :: nat where "kSubOffInterval \<equiv> 16"
abbreviation (input) kSubOffStreamId :: nat where "kSubOffStreamId \<equiv> 20"
abbreviation (input) kSubOffSetup :: nat where "kSubOffSetup \<equiv> 24"
abbreviation (input) kSubOffSubmitTsNs :: nat where "kSubOffSubmitTsNs \<equiv> 32"
abbreviation (input) kCplOffEpAddr :: nat where "kCplOffEpAddr \<equiv> 0"
abbreviation (input) kCplOffXferType :: nat where "kCplOffXferType \<equiv> 1"
abbreviation (input) kCplOffDir :: nat where "kCplOffDir \<equiv> 2"
abbreviation (input) kCplOffCFlags :: nat where "kCplOffCFlags \<equiv> 3"
abbreviation (input) kCplOffRequestedLen :: nat where "kCplOffRequestedLen \<equiv> 4"
abbreviation (input) kCplOffActualLen :: nat where "kCplOffActualLen \<equiv> 8"
abbreviation (input) kCplOffPayloadLen :: nat where "kCplOffPayloadLen \<equiv> 12"
abbreviation (input) kCplOffIsoPktCount :: nat where "kCplOffIsoPktCount \<equiv> 16"
abbreviation (input) kCplOffErrorCount :: nat where "kCplOffErrorCount \<equiv> 20"
abbreviation (input) kCplOffStartFrame :: nat where "kCplOffStartFrame \<equiv> 24"
abbreviation (input) kCplOffReserved :: nat where "kCplOffReserved \<equiv> 28"
abbreviation (input) kCplOffSubmitTsNs :: nat where "kCplOffSubmitTsNs \<equiv> 32"
abbreviation (input) kIsoDescSize :: nat where "kIsoDescSize \<equiv> 16"
abbreviation (input) kIsoOffOffset :: nat where "kIsoOffOffset \<equiv> 0"
abbreviation (input) kIsoOffLength :: nat where "kIsoOffLength \<equiv> 4"
abbreviation (input) kIsoOffActualLength :: nat where "kIsoOffActualLength \<equiv> 8"
abbreviation (input) kIsoOffStatus :: nat where "kIsoOffStatus \<equiv> 12"
abbreviation (input) kIsoOffReserved :: nat where "kIsoOffReserved \<equiv> 14"
abbreviation (input) kHelOffProtoMin :: nat where "kHelOffProtoMin \<equiv> 0"
abbreviation (input) kHelOffProtoMax :: nat where "kHelOffProtoMax \<equiv> 2"
abbreviation (input) kHelOffCaps :: nat where "kHelOffCaps \<equiv> 4"
abbreviation (input) kHelOffMaxTransfer :: nat where "kHelOffMaxTransfer \<equiv> 12"
abbreviation (input) kHelOffMaxRecord :: nat where "kHelOffMaxRecord \<equiv> 16"
abbreviation (input) kHelOffMaxSegment :: nat where "kHelOffMaxSegment \<equiv> 20"
abbreviation (input) kHelOffMaxIsoPackets :: nat where "kHelOffMaxIsoPackets \<equiv> 24"
abbreviation (input) kHelOffMaxChannels :: nat where "kHelOffMaxChannels \<equiv> 28"
abbreviation (input) kHelOffMaxLinks :: nat where "kHelOffMaxLinks \<equiv> 30"
abbreviation (input) kHelOffKeepaliveMs :: nat where "kHelOffKeepaliveMs \<equiv> 32"
abbreviation (input) kHelOffPlatformId :: nat where "kHelOffPlatformId \<equiv> 36"
abbreviation (input) kHelOffRoleBits :: nat where "kHelOffRoleBits \<equiv> 37"
abbreviation (input) kHelOffReserved :: nat where "kHelOffReserved \<equiv> 38"
abbreviation (input) kHelOffSessionId :: nat where "kHelOffSessionId \<equiv> 40"
abbreviation (input) kSessionIdBytes :: nat where "kSessionIdBytes \<equiv> 16"
abbreviation (input) kPingOffPingTsNs :: nat where "kPingOffPingTsNs \<equiv> 0"
abbreviation (input) kPingOffEchoTsNs :: nat where "kPingOffEchoTsNs \<equiv> 8"
abbreviation (input) kPingOffCreditUrbsView :: nat where "kPingOffCreditUrbsView \<equiv> 16"
abbreviation (input) kPingOffCreditBytesView :: nat where "kPingOffCreditBytesView \<equiv> 20"
abbreviation (input) kErrOffOffendingType :: nat where "kErrOffOffendingType \<equiv> 0"
abbreviation (input) kErrOffReserved :: nat where "kErrOffReserved \<equiv> 2"
abbreviation (input) kErrOffDetail :: nat where "kErrOffDetail \<equiv> 4"
abbreviation (input) kCanOffTargetRequestId :: nat where "kCanOffTargetRequestId \<equiv> 0"
abbreviation (input) kCanOffEpAddr :: nat where "kCanOffEpAddr \<equiv> 8"
abbreviation (input) kCanOffScope :: nat where "kCanOffScope \<equiv> 9"
abbreviation (input) kCanOffReserved :: nat where "kCanOffReserved \<equiv> 10"
abbreviation (input) kCanOffReserved2 :: nat where "kCanOffReserved2 \<equiv> 12"
abbreviation (input) kCakOffCancelledCount :: nat where "kCakOffCancelledCount \<equiv> 0"
abbreviation (input) kCakOffGranularity :: nat where "kCakOffGranularity \<equiv> 4"
abbreviation (input) kCakOffReserved :: nat where "kCakOffReserved \<equiv> 5"
abbreviation (input) kTlvHeaderSize :: nat where "kTlvHeaderSize \<equiv> 4"
abbreviation (input) kTlvOffType :: nat where "kTlvOffType \<equiv> 0"
abbreviation (input) kTlvOffLen :: nat where "kTlvOffLen \<equiv> 2"

section \<open>Limits\<close>

abbreviation (input) kHandshakeRecordMax :: u32 where "kHandshakeRecordMax \<equiv> 8192"
abbreviation (input) kRecordBytesDefault :: u32 where "kRecordBytesDefault \<equiv> 16640"
abbreviation (input) kRecordBytesCeiling :: u32 where "kRecordBytesCeiling \<equiv> 65519"
abbreviation (input) kRecordBytesFloor :: u32 where "kRecordBytesFloor \<equiv> 1024"
abbreviation (input) kSegmentBytesDefault :: u32 where "kSegmentBytesDefault \<equiv> 16384"
abbreviation (input) kTransferBytesDefault :: u32 where "kTransferBytesDefault \<equiv> 1048576"
abbreviation (input) kTransferBytesCeiling :: u32 where "kTransferBytesCeiling \<equiv> 16777216"
abbreviation (input) kIsoPacketsCeiling :: u32 where "kIsoPacketsCeiling \<equiv> 1024"
abbreviation (input) kMaxChannels :: u32 where "kMaxChannels \<equiv> 256"
abbreviation (input) kManifestBytesMax :: u32 where "kManifestBytesMax \<equiv> 262144"
abbreviation (input) kUtf8FieldMax :: u32 where "kUtf8FieldMax \<equiv> 256"

abbreviation (input) kProtoVersionV1 :: u16 where "kProtoVersionV1 \<equiv> 1"
abbreviation (input) kMaxConfigs :: u32 where "kMaxConfigs \<equiv> 8"
abbreviation (input) kMaxStrings :: u32 where "kMaxStrings \<equiv> 128"
abbreviation (input) kMaxLangids :: u32 where "kMaxLangids \<equiv> 16"
abbreviation (input) kMaxDevicesPerList :: u32 where "kMaxDevicesPerList \<equiv> 64"
abbreviation (input) kConfigTotalLenMax :: u32 where "kConfigTotalLenMax \<equiv> 65535"
abbreviation (input) kAttachSlotMin :: u8 where "kAttachSlotMin \<equiv> 1"
abbreviation (input) kAttachSlotMax :: u8 where "kAttachSlotMax \<equiv> 15"
abbreviation (input) kChannelSession :: u16 where "kChannelSession \<equiv> 0"

section \<open>Flag bits\<close>

abbreviation (input) kFlagSegMore :: u8 where "kFlagSegMore \<equiv> 1"
abbreviation (input) kFlagSegFirst :: u8 where "kFlagSegFirst \<equiv> 2"
abbreviation (input) kFlagExpedite :: u8 where "kFlagExpedite \<equiv> 4"
abbreviation (input) kFlagIsoTable :: u8 where "kFlagIsoTable \<equiv> 8"
abbreviation (input) kFlagReservedMask :: u8 where "kFlagReservedMask \<equiv> 0xF0"
abbreviation (input) kXfShortNotOk :: u8 where "kXfShortNotOk \<equiv> 1"
abbreviation (input) kXfZeroPacket :: u8 where "kXfZeroPacket \<equiv> 2"
abbreviation (input) kXfIsoAsap :: u8 where "kXfIsoAsap \<equiv> 4"
abbreviation (input) kCfShort :: u8 where "kCfShort \<equiv> 1"
abbreviation (input) kCfZlpSent :: u8 where "kCfZlpSent \<equiv> 2"
abbreviation (input) kCfWasCancelled :: u8 where "kCfWasCancelled \<equiv> 4"
abbreviation (input) kCfCollateral :: u8 where "kCfCollateral \<equiv> 8"
abbreviation (input) kCfToggleUnknown :: u8 where "kCfToggleUnknown \<equiv> 16"
abbreviation (input) kSecNoiseXX :: u16 where "kSecNoiseXX \<equiv> 1"
abbreviation (input) kSecTls13Rpk :: u16 where "kSecTls13Rpk \<equiv> 2"
abbreviation (input) kSecNoiseIK :: u16 where "kSecNoiseIK \<equiv> 4"
abbreviation (input) kWireMajor :: u8 where "kWireMajor \<equiv> 1"
abbreviation (input) kWireMinor :: u8 where "kWireMinor \<equiv> 0"

abbreviation (input) kMagic :: bytes where "kMagic \<equiv> [0x41, 0x55, 0x53, 0x42]"

section \<open>Message types\<close>

datatype (plugins only: code size) Type =
    T_Hello
  | T_HelloOk
  | T_Ping
  | T_Pong
  | T_Goodbye
  | T_Error
  | T_LinkJoin
  | T_LinkJoinOk
  | T_PairRequest
  | T_PairConfirm
  | T_PairResult
  | T_ListDevices
  | T_DeviceList
  | T_DeviceEvent
  | T_Attach
  | T_AttachOk
  | T_DeviceManifest
  | T_Detach
  | T_DetachOk
  | T_DeviceGone
  | T_AttachCredit
  | T_Resume
  | T_ResumeOk
  | T_ResumeRefused
  | T_SetConfiguration
  | T_SetInterface
  | T_EpClearHalt
  | T_DeviceReset
  | T_SuspendIo
  | T_ResumeIo
  | T_CtrlAck
  | T_Submit
  | T_Complete
  | T_Cancel
  | T_CancelAck
  | T_Data

primrec typeCode :: "Type \<Rightarrow> u8" where
  "typeCode T_Hello = 0x01"
| "typeCode T_HelloOk = 0x02"
| "typeCode T_Ping = 0x03"
| "typeCode T_Pong = 0x04"
| "typeCode T_Goodbye = 0x05"
| "typeCode T_Error = 0x06"
| "typeCode T_LinkJoin = 0x08"
| "typeCode T_LinkJoinOk = 0x09"
| "typeCode T_PairRequest = 0x10"
| "typeCode T_PairConfirm = 0x11"
| "typeCode T_PairResult = 0x12"
| "typeCode T_ListDevices = 0x13"
| "typeCode T_DeviceList = 0x14"
| "typeCode T_DeviceEvent = 0x15"
| "typeCode T_Attach = 0x20"
| "typeCode T_AttachOk = 0x21"
| "typeCode T_DeviceManifest = 0x22"
| "typeCode T_Detach = 0x23"
| "typeCode T_DetachOk = 0x24"
| "typeCode T_DeviceGone = 0x25"
| "typeCode T_AttachCredit = 0x26"
| "typeCode T_Resume = 0x28"
| "typeCode T_ResumeOk = 0x29"
| "typeCode T_ResumeRefused = 0x2A"
| "typeCode T_SetConfiguration = 0x30"
| "typeCode T_SetInterface = 0x31"
| "typeCode T_EpClearHalt = 0x32"
| "typeCode T_DeviceReset = 0x33"
| "typeCode T_SuspendIo = 0x34"
| "typeCode T_ResumeIo = 0x35"
| "typeCode T_CtrlAck = 0x36"
| "typeCode T_Submit = 0x40"
| "typeCode T_Complete = 0x41"
| "typeCode T_Cancel = 0x42"
| "typeCode T_CancelAck = 0x43"
| "typeCode T_Data = 0x44"

text \<open>The enumerator a raw type byte names; \<open>None\<close> for a value outside the enumeration.\<close>

definition typeOf :: "u8 \<Rightarrow> Type option" where
  "typeOf raw = map_of [
     (0x01, T_Hello),
     (0x02, T_HelloOk),
     (0x03, T_Ping),
     (0x04, T_Pong),
     (0x05, T_Goodbye),
     (0x06, T_Error),
     (0x08, T_LinkJoin),
     (0x09, T_LinkJoinOk),
     (0x10, T_PairRequest),
     (0x11, T_PairConfirm),
     (0x12, T_PairResult),
     (0x13, T_ListDevices),
     (0x14, T_DeviceList),
     (0x15, T_DeviceEvent),
     (0x20, T_Attach),
     (0x21, T_AttachOk),
     (0x22, T_DeviceManifest),
     (0x23, T_Detach),
     (0x24, T_DetachOk),
     (0x25, T_DeviceGone),
     (0x26, T_AttachCredit),
     (0x28, T_Resume),
     (0x29, T_ResumeOk),
     (0x2A, T_ResumeRefused),
     (0x30, T_SetConfiguration),
     (0x31, T_SetInterface),
     (0x32, T_EpClearHalt),
     (0x33, T_DeviceReset),
     (0x34, T_SuspendIo),
     (0x35, T_ResumeIo),
     (0x36, T_CtrlAck),
     (0x40, T_Submit),
     (0x41, T_Complete),
     (0x42, T_Cancel),
     (0x43, T_CancelAck),
     (0x44, T_Data)] raw"

definition isDataPlane :: "u8 \<Rightarrow> bool" where
  "isDataPlane t \<longleftrightarrow> t \<ge> 0x40 \<and> t \<le> 0x4F"

text \<open>
  \<open>fixedBodySize\<close>: \<open>Some n\<close> for a known type with a fixed body of \<open>n\<close> bytes, \<open>None\<close> where the
  source clears \<open>known\<close> (types outside the enumeration, and the five reserved ones).
\<close>

primrec fixedBodySizeOf :: "Type \<Rightarrow> nat option" where
  "fixedBodySizeOf T_Hello = Some kBodyHello"
| "fixedBodySizeOf T_HelloOk = Some kBodyHello"
| "fixedBodySizeOf T_Ping = Some kBodyPing"
| "fixedBodySizeOf T_Pong = Some kBodyPing"
| "fixedBodySizeOf T_Goodbye = Some 0"
| "fixedBodySizeOf T_Error = Some kBodyError"
| "fixedBodySizeOf T_LinkJoin = None"
| "fixedBodySizeOf T_LinkJoinOk = None"
| "fixedBodySizeOf T_PairRequest = Some 0"
| "fixedBodySizeOf T_PairConfirm = Some 0"
| "fixedBodySizeOf T_PairResult = Some 0"
| "fixedBodySizeOf T_ListDevices = Some 0"
| "fixedBodySizeOf T_DeviceList = Some 0"
| "fixedBodySizeOf T_DeviceEvent = Some 0"
| "fixedBodySizeOf T_Attach = Some 0"
| "fixedBodySizeOf T_AttachOk = Some 0"
| "fixedBodySizeOf T_DeviceManifest = Some 0"
| "fixedBodySizeOf T_Detach = Some 0"
| "fixedBodySizeOf T_DetachOk = Some 0"
| "fixedBodySizeOf T_DeviceGone = Some 0"
| "fixedBodySizeOf T_AttachCredit = Some 0"
| "fixedBodySizeOf T_Resume = None"
| "fixedBodySizeOf T_ResumeOk = None"
| "fixedBodySizeOf T_ResumeRefused = None"
| "fixedBodySizeOf T_SetConfiguration = Some 0"
| "fixedBodySizeOf T_SetInterface = Some 0"
| "fixedBodySizeOf T_EpClearHalt = Some 0"
| "fixedBodySizeOf T_DeviceReset = Some 0"
| "fixedBodySizeOf T_SuspendIo = Some 0"
| "fixedBodySizeOf T_ResumeIo = Some 0"
| "fixedBodySizeOf T_CtrlAck = Some 0"
| "fixedBodySizeOf T_Submit = Some kBodySubmit"
| "fixedBodySizeOf T_Complete = Some kBodyComplete"
| "fixedBodySizeOf T_Cancel = Some kBodyCancel"
| "fixedBodySizeOf T_CancelAck = Some kBodyCancelAck"
| "fixedBodySizeOf T_Data = Some kBodyData"

definition fixedBodySize :: "u8 \<Rightarrow> nat option" where
  "fixedBodySize t = Option.bind (typeOf t) fixedBodySizeOf"

text \<open>The channel of an endpoint: the attach slot in the high byte, the address in the low one.\<close>

definition channelFor :: "u8 \<Rightarrow> u8 \<Rightarrow> u16" where
  "channelFor attachSlot epAddr = push_bit 8 (ucast attachSlot) OR ucast epAddr"

section \<open>TLV types\<close>

datatype (plugins only: code size) Tlv =
    TlvImplString
  | TlvNativeStatus
  | TlvDeviceName
  | TlvDeviceIds
  | TlvSerial
  | TlvPeerName
  | TlvManifestHash
  | TlvRejectReason
  | TlvGrants
  | TlvDeviceDesc
  | TlvConfigDesc
  | TlvBosDesc
  | TlvStringDesc
  | TlvLangidTable
  | TlvDeviceQualifierDesc
  | TlvOtherSpeedConfigDesc
  | TlvSessionId

primrec tlvCode :: "Tlv \<Rightarrow> u16" where
  "tlvCode TlvImplString = 0x0001"
| "tlvCode TlvNativeStatus = 0x0002"
| "tlvCode TlvDeviceName = 0x0003"
| "tlvCode TlvDeviceIds = 0x0004"
| "tlvCode TlvSerial = 0x0005"
| "tlvCode TlvPeerName = 0x0006"
| "tlvCode TlvManifestHash = 0x0007"
| "tlvCode TlvRejectReason = 0x0008"
| "tlvCode TlvGrants = 0x0009"
| "tlvCode TlvDeviceDesc = 0x000A"
| "tlvCode TlvConfigDesc = 0x000B"
| "tlvCode TlvBosDesc = 0x000C"
| "tlvCode TlvStringDesc = 0x000D"
| "tlvCode TlvLangidTable = 0x000E"
| "tlvCode TlvDeviceQualifierDesc = 0x000F"
| "tlvCode TlvOtherSpeedConfigDesc = 0x0010"
| "tlvCode TlvSessionId = 0x0011"

section \<open>Transfer types and directions\<close>

datatype XferType = XControl | XIsochronous | XBulk | XInterrupt

primrec xferCode :: "XferType \<Rightarrow> u8" where
  "xferCode XControl = 0"
| "xferCode XIsochronous = 1"
| "xferCode XBulk = 2"
| "xferCode XInterrupt = 3"

datatype Dir = DirOut | DirIn

primrec dirCode :: "Dir \<Rightarrow> u8" where
  "dirCode DirOut = 0"
| "dirCode DirIn = 1"

section \<open>Facts\<close>

lemma typeOf_typeCode [simp]: "typeOf (typeCode t) = Some t"
  by (cases t) (simp_all add: typeOf_def)

lemma typeCode_eq_iff [simp]: "typeCode a = typeCode b \<longleftrightarrow> a = b"
  by (metis option.inject typeOf_typeCode)

lemma typeOf_SomeD: "typeOf raw = Some t \<Longrightarrow> raw = typeCode t"
  by (auto simp: typeOf_def split: if_splits)

lemma typeOf_eq_Some_iff: "typeOf raw = Some t \<longleftrightarrow> raw = typeCode t"
  using typeOf_SomeD by auto

lemma tlvCode_inj: "inj tlvCode"
  by (rule injI, rename_tac a b, case_tac a; case_tac b; simp)

lemma tlvCode_eq_iff [simp]: "tlvCode a = tlvCode b \<longleftrightarrow> a = b"
  using tlvCode_inj by (auto dest: injD)

lemma fixedBodySize_typeCode [simp]: "fixedBodySize (typeCode t) = fixedBodySizeOf t"
  by (simp add: fixedBodySize_def)

lemma xferCode_eq_iff [simp]: "xferCode a = xferCode b \<longleftrightarrow> a = b"
  by (cases a; cases b; simp)

text \<open>Distinct pairs of slot and endpoint have distinct channels, and no slot in use is channel 0.\<close>

lemma channelFor_inj: "channelFor s e = channelFor s' e' \<longleftrightarrow> s = s' \<and> e = e'"
proof
  assume eq: "channelFor s e = channelFor s' e'"
  have "ucast (channelFor a b) = b" "ucast (drop_bit 8 (channelFor a b)) = a" for a b :: u8
    by (rule bit_word_eqI; auto simp: channelFor_def bit_simps dest: bit_imp_le_length)+
  with eq show "s = s' \<and> e = e'" by metis
qed simp

end
