(* ===== verification/Codec.thy ===== *)
theory Codec
  imports FixedCodec Wire
begin

text \<open>
  Message encoding and decoding (\<open>protocol/Codec.h\<close>, \<open>protocol/Codec.cpp\<close>): the 32-byte header,
  the fixed bodies, isochronous descriptors, the connection preamble and the TLV run.
  Encoders write at the named offsets into a zero-filled extension of the output, decoders
  check the length and read at the same offsets.  Each structure is an interpretation of
  \<open>exact_codec\<close>.
\<close>

section \<open>Decoded views\<close>

record Header =
  h_type :: u8
  h_flags :: u8
  h_channel :: u16
  h_bodyLen :: u32
  h_attachId :: u32
  h_segOffset :: u32
  h_requestId :: u64
  h_status :: u16
  h_deviceEpoch :: u16
  h_totalLen :: u32

text \<open>A default-initialised header.\<close>

definition Header0 :: Header where
  "Header0 = \<lparr>h_type = 0, h_flags = 0, h_channel = 0, h_bodyLen = 0, h_attachId = 0,
     h_segOffset = 0, h_requestId = 0, h_status = 0, h_deviceEpoch = 0, h_totalLen = 0\<rparr>"

definition segMore :: "Header \<Rightarrow> bool" where
  "segMore h \<longleftrightarrow> h_flags h AND kFlagSegMore \<noteq> 0"

definition segFirst :: "Header \<Rightarrow> bool" where
  "segFirst h \<longleftrightarrow> h_flags h AND kFlagSegFirst \<noteq> 0"

record SubmitBody =
  sb_epAddr :: u8
  sb_xferType :: u8
  sb_dir :: u8
  sb_xflags :: u8
  sb_bufferLen :: u32
  sb_timeoutMs :: u32
  sb_isoPktCount :: u32
  sb_interval :: u32
  sb_streamId :: u32
  sb_setup :: bytes
  sb_submitTsNs :: u64

record CompleteBody =
  cb_epAddr :: u8
  cb_xferType :: u8
  cb_dir :: u8
  cb_cflags :: u8
  cb_requestedLen :: u32
  cb_actualLen :: u32
  cb_payloadLen :: u32
  cb_isoPktCount :: u32
  cb_errorCount :: u32
  cb_startFrame :: u32
  cb_reserved :: u32
  cb_submitTsNs :: u64

datatype CancelScope = ScopeRequest | ScopeEndpoint

primrec scopeCode :: "CancelScope \<Rightarrow> u8" where
  "scopeCode ScopeRequest = 0"
| "scopeCode ScopeEndpoint = 1"

record CancelBody =
  can_targetRequestId :: u64
  can_epAddr :: u8
  can_scope :: u8
  can_reserved :: u16
  can_reserved2 :: u32

record CancelAckBody =
  cak_cancelledCount :: u32
  cak_granularity :: u8
  cak_reserved :: bytes

record HelloBody =
  hel_protoMin :: u16
  hel_protoMax :: u16
  hel_caps :: u64
  hel_maxTransfer :: u32
  hel_maxRecord :: u32
  hel_maxSegment :: u32
  hel_maxIsoPackets :: u32
  hel_maxChannels :: u16
  hel_maxLinks :: u16
  hel_keepaliveMs :: u32
  hel_platformId :: u8
  hel_roleBits :: u8
  hel_reserved :: u16
  hel_sessionId :: bytes

record IsoDesc =
  iso_offset :: u32
  iso_length :: u32
  iso_actualLength :: u32
  iso_status :: u16
  iso_reserved :: u16

record Preamble =
  pre_wireMajor :: u8
  pre_wireMinor :: u8
  pre_flags :: u16

record TlvView =
  tlv_type :: u16
  tlv_value :: bytes

text \<open>The array members have the length the source declares.\<close>

definition wf_SubmitBody :: "SubmitBody \<Rightarrow> bool" where
  "wf_SubmitBody b \<longleftrightarrow> length (sb_setup b) = 8"

definition wf_HelloBody :: "HelloBody \<Rightarrow> bool" where
  "wf_HelloBody b \<longleftrightarrow> length (hel_sessionId b) = kSessionIdBytes"

definition wf_CancelAckBody :: "CancelAckBody \<Rightarrow> bool" where
  "wf_CancelAckBody b \<longleftrightarrow> length (cak_reserved b) = 3"

section \<open>Header\<close>

definition decodeHeader :: "bytes \<Rightarrow> Header option" where
  "decodeHeader p =
     (if length p < kHeaderSize then None
      else Some \<lparr>
        h_type = rd_u8 p kOffType,
        h_flags = rd_u8 p kOffFlags,
        h_channel = rd_u16 p kOffChannel,
        h_bodyLen = rd_u32 p kOffBodyLen,
        h_attachId = rd_u32 p kOffAttachId,
        h_segOffset = rd_u32 p kOffSegOffset,
        h_requestId = rd_u64 p kOffRequestId,
        h_status = rd_u16 p kOffStatus,
        h_deviceEpoch = rd_u16 p kOffDeviceEpoch,
        h_totalLen = rd_u32 p kOffTotalLen\<rparr>)"

definition encodeHeader :: "Header \<Rightarrow> bytes \<Rightarrow> bytes" where
  "encodeHeader h out =
     (let p = grow kHeaderSize;
          p = wr_u8 p kOffType (h_type h);
          p = wr_u8 p kOffFlags (h_flags h);
          p = wr_u16 p kOffChannel (h_channel h);
          p = wr_u32 p kOffBodyLen (h_bodyLen h);
          p = wr_u32 p kOffAttachId (h_attachId h);
          p = wr_u32 p kOffSegOffset (h_segOffset h);
          p = wr_u64 p kOffRequestId (h_requestId h);
          p = wr_u16 p kOffStatus (h_status h);
          p = wr_u16 p kOffDeviceEpoch (h_deviceEpoch h);
          p = wr_u32 p kOffTotalLen (h_totalLen h)
      in out @ p)"

section \<open>SUBMIT and COMPLETE\<close>

definition decodeSubmit :: "bytes \<Rightarrow> SubmitBody option" where
  "decodeSubmit p =
     (if length p < kBodySubmit then None
      else Some \<lparr>
        sb_epAddr = rd_u8 p kSubOffEpAddr,
        sb_xferType = rd_u8 p kSubOffXferType,
        sb_dir = rd_u8 p kSubOffDir,
        sb_xflags = rd_u8 p kSubOffXFlags,
        sb_bufferLen = rd_u32 p kSubOffBufferLen,
        sb_timeoutMs = rd_u32 p kSubOffTimeoutMs,
        sb_isoPktCount = rd_u32 p kSubOffIsoPktCount,
        sb_interval = rd_u32 p kSubOffInterval,
        sb_streamId = rd_u32 p kSubOffStreamId,
        sb_setup = memcpy_from p kSubOffSetup 8,
        sb_submitTsNs = rd_u64 p kSubOffSubmitTsNs\<rparr>)"

definition encodeSubmit :: "SubmitBody \<Rightarrow> bytes \<Rightarrow> bytes" where
  "encodeSubmit b out =
     (let p = grow kBodySubmit;
          p = wr_u8 p kSubOffEpAddr (sb_epAddr b);
          p = wr_u8 p kSubOffXferType (sb_xferType b);
          p = wr_u8 p kSubOffDir (sb_dir b);
          p = wr_u8 p kSubOffXFlags (sb_xflags b);
          p = wr_u32 p kSubOffBufferLen (sb_bufferLen b);
          p = wr_u32 p kSubOffTimeoutMs (sb_timeoutMs b);
          p = wr_u32 p kSubOffIsoPktCount (sb_isoPktCount b);
          p = wr_u32 p kSubOffInterval (sb_interval b);
          p = wr_u32 p kSubOffStreamId (sb_streamId b);
          p = memcpy_to p kSubOffSetup (sb_setup b);
          p = wr_u64 p kSubOffSubmitTsNs (sb_submitTsNs b)
      in out @ p)"

definition decodeComplete :: "bytes \<Rightarrow> CompleteBody option" where
  "decodeComplete p =
     (if length p < kBodyComplete then None
      else Some \<lparr>
        cb_epAddr = rd_u8 p kCplOffEpAddr,
        cb_xferType = rd_u8 p kCplOffXferType,
        cb_dir = rd_u8 p kCplOffDir,
        cb_cflags = rd_u8 p kCplOffCFlags,
        cb_requestedLen = rd_u32 p kCplOffRequestedLen,
        cb_actualLen = rd_u32 p kCplOffActualLen,
        cb_payloadLen = rd_u32 p kCplOffPayloadLen,
        cb_isoPktCount = rd_u32 p kCplOffIsoPktCount,
        cb_errorCount = rd_u32 p kCplOffErrorCount,
        cb_startFrame = rd_u32 p kCplOffStartFrame,
        cb_reserved = rd_u32 p kCplOffReserved,
        cb_submitTsNs = rd_u64 p kCplOffSubmitTsNs\<rparr>)"

definition encodeComplete :: "CompleteBody \<Rightarrow> bytes \<Rightarrow> bytes" where
  "encodeComplete b out =
     (let p = grow kBodyComplete;
          p = wr_u8 p kCplOffEpAddr (cb_epAddr b);
          p = wr_u8 p kCplOffXferType (cb_xferType b);
          p = wr_u8 p kCplOffDir (cb_dir b);
          p = wr_u8 p kCplOffCFlags (cb_cflags b);
          p = wr_u32 p kCplOffRequestedLen (cb_requestedLen b);
          p = wr_u32 p kCplOffActualLen (cb_actualLen b);
          p = wr_u32 p kCplOffPayloadLen (cb_payloadLen b);
          p = wr_u32 p kCplOffIsoPktCount (cb_isoPktCount b);
          p = wr_u32 p kCplOffErrorCount (cb_errorCount b);
          p = wr_u32 p kCplOffStartFrame (cb_startFrame b);
          p = wr_u32 p kCplOffReserved (cb_reserved b);
          p = wr_u64 p kCplOffSubmitTsNs (cb_submitTsNs b)
      in out @ p)"

section \<open>HELLO\<close>

definition decodeHello :: "bytes \<Rightarrow> HelloBody option" where
  "decodeHello p =
     (if length p < kBodyHello then None
      else Some \<lparr>
        hel_protoMin = rd_u16 p kHelOffProtoMin,
        hel_protoMax = rd_u16 p kHelOffProtoMax,
        hel_caps = rd_u64 p kHelOffCaps,
        hel_maxTransfer = rd_u32 p kHelOffMaxTransfer,
        hel_maxRecord = rd_u32 p kHelOffMaxRecord,
        hel_maxSegment = rd_u32 p kHelOffMaxSegment,
        hel_maxIsoPackets = rd_u32 p kHelOffMaxIsoPackets,
        hel_maxChannels = rd_u16 p kHelOffMaxChannels,
        hel_maxLinks = rd_u16 p kHelOffMaxLinks,
        hel_keepaliveMs = rd_u32 p kHelOffKeepaliveMs,
        hel_platformId = rd_u8 p kHelOffPlatformId,
        hel_roleBits = rd_u8 p kHelOffRoleBits,
        hel_reserved = rd_u16 p kHelOffReserved,
        hel_sessionId = memcpy_from p kHelOffSessionId kSessionIdBytes\<rparr>)"

definition encodeHello :: "HelloBody \<Rightarrow> bytes \<Rightarrow> bytes" where
  "encodeHello b out =
     (let p = grow kBodyHello;
          p = wr_u16 p kHelOffProtoMin (hel_protoMin b);
          p = wr_u16 p kHelOffProtoMax (hel_protoMax b);
          p = wr_u64 p kHelOffCaps (hel_caps b);
          p = wr_u32 p kHelOffMaxTransfer (hel_maxTransfer b);
          p = wr_u32 p kHelOffMaxRecord (hel_maxRecord b);
          p = wr_u32 p kHelOffMaxSegment (hel_maxSegment b);
          p = wr_u32 p kHelOffMaxIsoPackets (hel_maxIsoPackets b);
          p = wr_u16 p kHelOffMaxChannels (hel_maxChannels b);
          p = wr_u16 p kHelOffMaxLinks (hel_maxLinks b);
          p = wr_u32 p kHelOffKeepaliveMs (hel_keepaliveMs b);
          p = wr_u8 p kHelOffPlatformId (hel_platformId b);
          p = wr_u8 p kHelOffRoleBits (hel_roleBits b);
          p = wr_u16 p kHelOffReserved (hel_reserved b);
          p = memcpy_to p kHelOffSessionId (hel_sessionId b)
      in out @ p)"

section \<open>CANCEL and CANCEL_ACK\<close>

definition decodeCancel :: "bytes \<Rightarrow> CancelBody option" where
  "decodeCancel p =
     (if length p < kBodyCancel then None
      else Some \<lparr>
        can_targetRequestId = rd_u64 p kCanOffTargetRequestId,
        can_epAddr = rd_u8 p kCanOffEpAddr,
        can_scope = rd_u8 p kCanOffScope,
        can_reserved = rd_u16 p kCanOffReserved,
        can_reserved2 = rd_u32 p kCanOffReserved2\<rparr>)"

definition encodeCancel :: "CancelBody \<Rightarrow> bytes \<Rightarrow> bytes" where
  "encodeCancel b out =
     (let p = grow kBodyCancel;
          p = wr_u64 p kCanOffTargetRequestId (can_targetRequestId b);
          p = wr_u8 p kCanOffEpAddr (can_epAddr b);
          p = wr_u8 p kCanOffScope (can_scope b);
          p = wr_u16 p kCanOffReserved (can_reserved b);
          p = wr_u32 p kCanOffReserved2 (can_reserved2 b)
      in out @ p)"

definition decodeCancelAck :: "bytes \<Rightarrow> CancelAckBody option" where
  "decodeCancelAck p =
     (if length p < kBodyCancelAck then None
      else Some \<lparr>
        cak_cancelledCount = rd_u32 p kCakOffCancelledCount,
        cak_granularity = rd_u8 p kCakOffGranularity,
        cak_reserved = memcpy_from p kCakOffReserved 3\<rparr>)"

definition encodeCancelAck :: "CancelAckBody \<Rightarrow> bytes \<Rightarrow> bytes" where
  "encodeCancelAck b out =
     (let p = grow kBodyCancelAck;
          p = wr_u32 p kCakOffCancelledCount (cak_cancelledCount b);
          p = wr_u8 p kCakOffGranularity (cak_granularity b);
          p = memcpy_to p kCakOffReserved (cak_reserved b)
      in out @ p)"

section \<open>Isochronous descriptors\<close>

text \<open>The two bound checks of the source, in its order, before the descriptor is read.\<close>

definition decodeIsoDesc :: "bytes \<Rightarrow> nat \<Rightarrow> IsoDesc option" where
  "decodeIsoDesc inp index =
     (let at = index * kIsoDescSize in
      if index > length inp div kIsoDescSize then None
      else if length inp - at < kIsoDescSize then None
      else let p = drop at inp in Some \<lparr>
        iso_offset = rd_u32 p kIsoOffOffset,
        iso_length = rd_u32 p kIsoOffLength,
        iso_actualLength = rd_u32 p kIsoOffActualLength,
        iso_status = rd_u16 p kIsoOffStatus,
        iso_reserved = rd_u16 p kIsoOffReserved\<rparr>)"

definition encodeIsoDesc :: "IsoDesc \<Rightarrow> bytes \<Rightarrow> bytes" where
  "encodeIsoDesc d out =
     (let p = grow kIsoDescSize;
          p = wr_u32 p kIsoOffOffset (iso_offset d);
          p = wr_u32 p kIsoOffLength (iso_length d);
          p = wr_u32 p kIsoOffActualLength (iso_actualLength d);
          p = wr_u16 p kIsoOffStatus (iso_status d);
          p = wr_u16 p kIsoOffReserved (iso_reserved d)
      in out @ p)"

section \<open>Preamble\<close>

definition encodePreamble :: "Preamble \<Rightarrow> bytes \<Rightarrow> bytes" where
  "encodePreamble p out =
     (let q = grow kPreambleSize;
          q = memcpy_to q kPreOffMagic kMagic;
          q = wr_u8 q kPreOffWireMajor (pre_wireMajor p);
          q = wr_u8 q kPreOffWireMinor (pre_wireMinor p);
          q = wr_u16 q kPreOffFlags (pre_flags p)
      in out @ q)"

definition decodePreamble :: "bytes \<Rightarrow> Preamble option" where
  "decodePreamble inp =
     (if length inp < kPreambleSize then None
      else if memcpy_from inp kPreOffMagic (length kMagic) \<noteq> kMagic then None
      else Some \<lparr>
        pre_wireMajor = rd_u8 inp kPreOffWireMajor,
        pre_wireMinor = rd_u8 inp kPreOffWireMinor,
        pre_flags = rd_u16 inp kPreOffFlags\<rparr>)"

section \<open>TLVs\<close>

text \<open>
  \<open>forEachTlv\<close> with its callback: the callback runs on a caller state and says whether to go on.
  The result pairs the verdict of the walk with the state after the last callback that ran.
\<close>

function forEachTlv_at ::
    "bytes \<Rightarrow> (TlvView \<Rightarrow> 's \<Rightarrow> bool \<times> 's) \<Rightarrow> nat \<Rightarrow> 's \<Rightarrow> bool \<times> 's" where
  "forEachTlv_at inp fn at s =
     (if at = length inp then (True, s)
      else if length inp - at < kTlvHeaderSize then (False, s)
      else
        let ty = rd_u16 inp (at + kTlvOffType);
            len = unat (rd_u16 inp (at + kTlvOffLen));
            at' = at + kTlvHeaderSize
        in if length inp - at' < len then (False, s)
           else let v = \<lparr>tlv_type = ty, tlv_value = subspan inp at' len\<rparr>;
                    (go, s') = fn v s
                in if go then forEachTlv_at inp fn (at' + len) s' else (False, s'))"
  by pat_completeness auto
termination
  by (relation "measure (\<lambda>(inp, fn, at, s). length inp - at)") auto

declare forEachTlv_at.simps [simp del]

definition forEachTlv :: "bytes \<Rightarrow> (TlvView \<Rightarrow> 's \<Rightarrow> bool \<times> 's) \<Rightarrow> 's \<Rightarrow> bool \<times> 's" where
  "forEachTlv inp fn s = forEachTlv_at inp fn 0 s"

definition appendTlv :: "u16 \<Rightarrow> bytes \<Rightarrow> bytes \<Rightarrow> bytes" where
  "appendTlv ty v out =
     (let p = grow kTlvHeaderSize;
          p = wr_u16 p kTlvOffType ty;
          p = wr_u16 p kTlvOffLen (of_nat (length v))
      in out @ p @ v)"

section \<open>Encoded forms\<close>

lemma encodeHeader_bytes:
  "encodeHeader h out = out @ [h_type h, h_flags h] @ le16 (h_channel h) @ le32 (h_bodyLen h)
     @ le32 (h_attachId h) @ le32 (h_segOffset h) @ le64 (h_requestId h) @ le16 (h_status h)
     @ le16 (h_deviceEpoch h) @ le32 (h_totalLen h)"
  unfolding encodeHeader_def Let_def by (simp add: store_simps)

lemma encodeSubmit_bytes:
  assumes "wf_SubmitBody b"
  shows "encodeSubmit b out = out @ [sb_epAddr b, sb_xferType b, sb_dir b, sb_xflags b]
     @ le32 (sb_bufferLen b) @ le32 (sb_timeoutMs b) @ le32 (sb_isoPktCount b)
     @ le32 (sb_interval b) @ le32 (sb_streamId b) @ sb_setup b @ le64 (sb_submitTsNs b)"
  using assms unfolding encodeSubmit_def Let_def wf_SubmitBody_def
  by (simp add: store_simps)

lemma encodeComplete_bytes:
  "encodeComplete b out = out @ [cb_epAddr b, cb_xferType b, cb_dir b, cb_cflags b]
     @ le32 (cb_requestedLen b) @ le32 (cb_actualLen b) @ le32 (cb_payloadLen b)
     @ le32 (cb_isoPktCount b) @ le32 (cb_errorCount b) @ le32 (cb_startFrame b)
     @ le32 (cb_reserved b) @ le64 (cb_submitTsNs b)"
  unfolding encodeComplete_def Let_def by (simp add: store_simps)

lemma encodeHello_bytes:
  assumes "wf_HelloBody b"
  shows "encodeHello b out = out @ le16 (hel_protoMin b) @ le16 (hel_protoMax b)
     @ le64 (hel_caps b) @ le32 (hel_maxTransfer b) @ le32 (hel_maxRecord b)
     @ le32 (hel_maxSegment b) @ le32 (hel_maxIsoPackets b) @ le16 (hel_maxChannels b)
     @ le16 (hel_maxLinks b) @ le32 (hel_keepaliveMs b) @ [hel_platformId b, hel_roleBits b]
     @ le16 (hel_reserved b) @ hel_sessionId b"
  using assms unfolding encodeHello_def Let_def wf_HelloBody_def
  by (simp add: store_simps)

lemma encodeCancel_bytes:
  "encodeCancel b out = out @ le64 (can_targetRequestId b) @ [can_epAddr b, can_scope b]
     @ le16 (can_reserved b) @ le32 (can_reserved2 b)"
  unfolding encodeCancel_def Let_def by (simp add: store_simps)

lemma encodeCancelAck_bytes:
  assumes "wf_CancelAckBody b"
  shows "encodeCancelAck b out = out @ le32 (cak_cancelledCount b) @ [cak_granularity b]
     @ cak_reserved b"
  using assms unfolding encodeCancelAck_def Let_def wf_CancelAckBody_def
  by (simp add: store_simps)

lemma encodeIsoDesc_bytes:
  "encodeIsoDesc d out = out @ le32 (iso_offset d) @ le32 (iso_length d)
     @ le32 (iso_actualLength d) @ le16 (iso_status d) @ le16 (iso_reserved d)"
  unfolding encodeIsoDesc_def Let_def by (simp add: store_simps)

lemma encodePreamble_bytes:
  "encodePreamble p out = out @ kMagic @ [pre_wireMajor p, pre_wireMinor p] @ le16 (pre_flags p)"
  unfolding encodePreamble_def Let_def by (simp add: store_simps)

lemma appendTlv_bytes: "appendTlv ty v out = out @ le16 ty @ le16 (of_nat (length v)) @ v"
  unfolding appendTlv_def Let_def by (simp add: store_simps)

lemmas encode_bytes = encodeHeader_bytes encodeSubmit_bytes encodeComplete_bytes
  encodeHello_bytes encodeCancel_bytes encodeCancelAck_bytes encodeIsoDesc_bytes
  encodePreamble_bytes

section \<open>The codecs satisfy the contract\<close>

lemmas join = join16 join32 join64

interpretation header: exact_codec encodeHeader decodeHeader "\<lambda>_. True" kHeaderSize
proof (unfold_locales, goal_cases)
  case (1 x out) show ?case by (simp add: encodeHeader_def Let_def)
next
  case (2 x) show ?case by (simp add: encodeHeader_bytes)
next
  case (3 bs) then show ?case by (simp add: decodeHeader_def)
next
  case (4 bs) then show ?case by (simp add: decodeHeader_def byte_simps)
next
  case (5 x) show ?case by (simp add: encodeHeader_bytes decodeHeader_def le_defs rd_defs join)
next
  case 6 show ?case by simp
next
  case (7 bs x)
  then show ?case
    by (auto simp: encodeHeader_bytes decodeHeader_def le_rd le64_rd rd_u8_def take_two
        take_eq_concat_chunks [of "[2,2,4,4,4,8,2,2,4]" 32] split: if_splits)
next
  case (8 bs) then show ?case by (simp add: decodeHeader_def)
qed

interpretation submit: exact_codec encodeSubmit decodeSubmit wf_SubmitBody kBodySubmit
proof (unfold_locales, goal_cases)
  case (1 x out) show ?case by (simp add: encodeSubmit_def Let_def)
next
  case (2 x) then show ?case by (simp add: encodeSubmit_bytes) (simp add: wf_SubmitBody_def)
next
  case (3 bs) then show ?case by (simp add: decodeSubmit_def)
next
  case (4 bs) then show ?case by (simp add: decodeSubmit_def byte_simps)
next
  case (5 x)
  then show ?case
    by (simp add: encodeSubmit_bytes)
      (simp add: wf_SubmitBody_def decodeSubmit_def le_defs rd_defs join nth_append)
next
  case (6 bs x) then show ?case
    by (auto simp: decodeSubmit_def wf_SubmitBody_def memcpy_from_def split: if_splits)
next
  case (7 bs x)
  then have "wf_SubmitBody x"
    by (auto simp: decodeSubmit_def wf_SubmitBody_def memcpy_from_def split: if_splits)
  with 7 show ?case
    by (auto simp: encodeSubmit_bytes decodeSubmit_def le_rd le64_rd rd_u8_def take_four
        memcpy_from_def take_eq_concat_chunks [of "[4,4,4,4,4,4,8,8]" 40] split: if_splits)
next
  case (8 bs) then show ?case by (simp add: decodeSubmit_def)
qed

interpretation complete: exact_codec encodeComplete decodeComplete "\<lambda>_. True" kBodyComplete
proof (unfold_locales, goal_cases)
  case (1 x out) show ?case by (simp add: encodeComplete_def Let_def)
next
  case (2 x) show ?case by (simp add: encodeComplete_bytes)
next
  case (3 bs) then show ?case by (simp add: decodeComplete_def)
next
  case (4 bs) then show ?case by (simp add: decodeComplete_def byte_simps)
next
  case (5 x) show ?case by (simp add: encodeComplete_bytes decodeComplete_def le_defs rd_defs join)
next
  case 6 show ?case by simp
next
  case (7 bs x)
  then show ?case
    by (auto simp: encodeComplete_bytes decodeComplete_def le_rd le64_rd rd_u8_def take_four
        take_eq_concat_chunks [of "[4,4,4,4,4,4,4,4,8]" 40] split: if_splits)
next
  case (8 bs) then show ?case by (simp add: decodeComplete_def)
qed

interpretation hello: exact_codec encodeHello decodeHello wf_HelloBody kBodyHello
proof (unfold_locales, goal_cases)
  case (1 x out) show ?case by (simp add: encodeHello_def Let_def)
next
  case (2 x) then show ?case by (simp add: encodeHello_bytes) (simp add: wf_HelloBody_def)
next
  case (3 bs) then show ?case by (simp add: decodeHello_def)
next
  case (4 bs) then show ?case by (simp add: decodeHello_def byte_simps)
next
  case (5 x)
  then show ?case
    by (simp add: encodeHello_bytes)
      (simp add: wf_HelloBody_def decodeHello_def le_defs rd_defs join)
next
  case (6 bs x) then show ?case
    by (auto simp: decodeHello_def wf_HelloBody_def memcpy_from_def split: if_splits)
next
  case (7 bs x)
  then have "wf_HelloBody x"
    by (auto simp: decodeHello_def wf_HelloBody_def memcpy_from_def split: if_splits)
  with 7 show ?case
    by (auto simp: encodeHello_bytes decodeHello_def le_rd le64_rd rd_u8_def subspan_two
        le_rd [of 0, simplified] memcpy_from_def
        take_eq_concat_chunks [of "[2,2,8,4,4,4,4,2,2,4,2,2,16]" 56] split: if_splits)
next
  case (8 bs) then show ?case by (simp add: decodeHello_def)
qed

interpretation cancel: exact_codec encodeCancel decodeCancel "\<lambda>_. True" kBodyCancel
proof (unfold_locales, goal_cases)
  case (1 x out) show ?case by (simp add: encodeCancel_def Let_def)
next
  case (2 x) show ?case by (simp add: encodeCancel_bytes)
next
  case (3 bs) then show ?case by (simp add: decodeCancel_def)
next
  case (4 bs) then show ?case by (simp add: decodeCancel_def byte_simps)
next
  case (5 x) show ?case by (simp add: encodeCancel_bytes decodeCancel_def le_defs rd_defs join)
next
  case 6 show ?case by simp
next
  case (7 bs x)
  then show ?case
    by (auto simp: encodeCancel_bytes decodeCancel_def le_rd le64_rd le64_rd [of 0, simplified]
        rd_u8_def subspan_two take_eq_concat_chunks [of "[8,2,2,4]" 16] split: if_splits)
next
  case (8 bs) then show ?case by (simp add: decodeCancel_def)
qed

interpretation cancelAck:
  exact_codec encodeCancelAck decodeCancelAck wf_CancelAckBody kBodyCancelAck
proof (unfold_locales, goal_cases)
  case (1 x out) show ?case by (simp add: encodeCancelAck_def Let_def)
next
  case (2 x) then show ?case by (simp add: encodeCancelAck_bytes) (simp add: wf_CancelAckBody_def)
next
  case (3 bs) then show ?case by (simp add: decodeCancelAck_def)
next
  case (4 bs) then show ?case by (simp add: decodeCancelAck_def byte_simps)
next
  case (5 x)
  then show ?case
    by (simp add: encodeCancelAck_bytes)
      (simp add: wf_CancelAckBody_def decodeCancelAck_def le_defs rd_defs join)
next
  case (6 bs x) then show ?case
    by (auto simp: decodeCancelAck_def wf_CancelAckBody_def memcpy_from_def split: if_splits)
next
  case (7 bs x)
  then have "wf_CancelAckBody x"
    by (auto simp: decodeCancelAck_def wf_CancelAckBody_def memcpy_from_def split: if_splits)
  with 7 show ?case
    by (auto simp: encodeCancelAck_bytes decodeCancelAck_def le_rd [of 0, simplified] rd_u8_def
        byte_simps memcpy_from_def take_eq_concat_chunks [of "[4,1,3]" 8] split: if_splits)
next
  case (8 bs) then show ?case by (simp add: decodeCancelAck_def)
qed

interpretation isoDesc: exact_codec encodeIsoDesc "\<lambda>bs. decodeIsoDesc bs 0" "\<lambda>_. True" kIsoDescSize
proof (unfold_locales, goal_cases)
  case (1 x out) show ?case by (simp add: encodeIsoDesc_def Let_def)
next
  case (2 x) show ?case by (simp add: encodeIsoDesc_bytes)
next
  case (3 bs) then show ?case by (simp add: decodeIsoDesc_def)
next
  case (4 bs) then show ?case by (simp add: decodeIsoDesc_def Let_def byte_simps)
next
  case (5 x) show ?case
    by (simp add: encodeIsoDesc_bytes decodeIsoDesc_def Let_def le_defs rd_defs join)
next
  case 6 show ?case by simp
next
  case (7 bs x)
  then show ?case
    by (auto simp: encodeIsoDesc_bytes decodeIsoDesc_def Let_def le_rd le_rd [of 0, simplified]
        take_eq_concat_chunks [of "[4,4,4,2,2]" 16] split: if_splits)
next
  case (8 bs) then show ?case by (simp add: decodeIsoDesc_def Let_def)
qed

interpretation preamble: fixed_codec encodePreamble decodePreamble "\<lambda>_. True" kPreambleSize
proof (unfold_locales, goal_cases)
  case (1 x out) show ?case by (simp add: encodePreamble_def Let_def)
next
  case (2 x) show ?case by (simp add: encodePreamble_bytes)
next
  case (3 bs) then show ?case by (simp add: decodePreamble_def)
next
  case (4 bs) then show ?case by (simp add: decodePreamble_def byte_simps)
next
  case (5 x) show ?case by (simp add: encodePreamble_bytes decodePreamble_def le_defs rd_defs join)
next
  case 6 show ?case by simp
qed

text \<open>The descriptor at an index is the one its sixteen bytes spell; past the end there is none.\<close>

lemma decodeIsoDesc_index:
  "decodeIsoDesc bs i =
     (if (i + 1) * kIsoDescSize \<le> length bs then decodeIsoDesc (drop (i * kIsoDescSize) bs) 0
      else None)"
proof -
  have "i \<le> length bs div 16" if "(i + 1) * 16 \<le> length bs"
    using that by (simp add: less_eq_div_iff_mult_less_eq)
  then show ?thesis by (auto simp: decodeIsoDesc_def Let_def)
qed

section \<open>TLV runs\<close>

text \<open>
  What \<open>forEachTlv\<close> promises: on the encoding of a list of TLVs it calls the callback on each of
  them in order until one refuses, and it accepts nothing but such encodings.
\<close>

fun walkTlvs :: "(TlvView \<Rightarrow> 's \<Rightarrow> bool \<times> 's) \<Rightarrow> TlvView list \<Rightarrow> 's \<Rightarrow> bool \<times> 's" where
  "walkTlvs fn [] s = (True, s)"
| "walkTlvs fn (v # vs) s =
     (let (go, s') = fn v s in if go then walkTlvs fn vs s' else (False, s'))"

definition tlvBytes :: "TlvView list \<Rightarrow> bytes" where
  "tlvBytes vs = fold (\<lambda>v. appendTlv (tlv_type v) (tlv_value v)) vs []"

definition wf_tlv :: "TlvView \<Rightarrow> bool" where
  "wf_tlv v \<longleftrightarrow> length (tlv_value v) < 2 ^ 16"

definition tlvEnc :: "TlvView \<Rightarrow> bytes" where
  "tlvEnc v = appendTlv (tlv_type v) (tlv_value v) []"

lemma tlvEnc_bytes:
  "tlvEnc v = le16 (tlv_type v) @ le16 (of_nat (length (tlv_value v))) @ tlv_value v"
  by (simp add: tlvEnc_def appendTlv_bytes)

lemma length_tlvEnc [simp]: "length (tlvEnc v) = 4 + length (tlv_value v)"
  by (simp add: tlvEnc_bytes)

lemma appendTlv_enc: "appendTlv t v out = out @ tlvEnc \<lparr>tlv_type = t, tlv_value = v\<rparr>"
  by (simp add: appendTlv_bytes tlvEnc_bytes)

lemma fold_appendTlv:
  "fold (\<lambda>v. appendTlv (tlv_type v) (tlv_value v)) vs out = out @ concat (map tlvEnc vs)"
  by (induction vs arbitrary: out) (simp_all add: appendTlv_bytes tlvEnc_bytes)

lemma tlvBytes_concat: "tlvBytes vs = concat (map tlvEnc vs)"
  by (simp add: tlvBytes_def fold_appendTlv)

lemma unat_of_nat_u16: "n < 2 ^ 16 \<Longrightarrow> unat (of_nat n :: u16) = n"
  by (simp add: unat_of_nat take_bit_nat_def)

lemma forEachTlv_at_run:
  assumes "\<forall>v\<in>set vs. wf_tlv v"
  shows "forEachTlv_at (pre @ concat (map tlvEnc vs)) fn (length pre) s = walkTlvs fn vs s"
  using assms
proof (induction vs arbitrary: pre s)
  case Nil
  then show ?case by (simp add: forEachTlv_at.simps)
next
  case (Cons v vs)
  let ?rest = "concat (map tlvEnc vs)" and ?n = "length (tlv_value v)"
  let ?inp = "pre @ tlvEnc v @ ?rest"
  have ty: "rd_u16 ?inp (length pre) = tlv_type v"
    using rd_le(1) [of pre "tlv_type v"] by (simp add: tlvEnc_bytes)
  have "rd_u16 ((pre @ le16 (tlv_type v)) @ le16 (of_nat ?n) @ tlv_value v @ ?rest)
      (length (pre @ le16 (tlv_type v))) = of_nat ?n"
    by (rule rd_le)
  then have len: "unat (rd_u16 ?inp (length pre + 2)) = ?n"
    using Cons.prems by (simp add: tlvEnc_bytes wf_tlv_def unat_of_nat_u16)
  have IH: "forEachTlv_at ?inp fn (length pre + 4 + ?n) s' = walkTlvs fn vs s'" for s'
    using Cons.IH [of "pre @ tlvEnc v" s'] Cons.prems by (simp add: add.assoc)
  have eta: "\<lparr>tlv_type = tlv_type v, tlv_value = tlv_value v\<rparr> = v" by simp
  have sub: "subspan ?inp (length pre + 4) ?n = tlv_value v" by (simp add: tlvEnc_bytes)
  show ?case
    using ty len IH sub
    by (subst forEachTlv_at.simps) (simp add: Let_def eta case_prod_unfold)
qed

lemma forEachTlv_run:
  "\<forall>v\<in>set vs. wf_tlv v \<Longrightarrow> forEachTlv (tlvBytes vs) fn s = walkTlvs fn vs s"
  using forEachTlv_at_run [of vs "[]"] by (simp add: forEachTlv_def tlvBytes_concat)

lemma forEachTlv_at_accepts:
  "\<lbrakk>forEachTlv_at inp fn at s = (True, s'); at \<le> length inp\<rbrakk> \<Longrightarrow>
    \<exists>vs. drop at inp = concat (map tlvEnc vs) \<and> (\<forall>v\<in>set vs. wf_tlv v) \<and> walkTlvs fn vs s = (True, s')"
proof (induction inp fn at s rule: forEachTlv_at.induct)
  case (1 inp fn at s)
  define len where "len = unat (rd_u16 inp (at + 2))"
  define v where "v = \<lparr>tlv_type = rd_u16 inp at, tlv_value = subspan inp (at + 4) len\<rparr>"
  show ?case
  proof (cases "at = length inp")
    case True
    with 1 show ?thesis by (intro exI [of _ "[]"]) (simp add: forEachTlv_at.simps)
  next
    case False
    from 1(2) False have room: "4 \<le> length inp - at" "len \<le> length inp - (at + 4)"
      by (auto simp: forEachTlv_at.simps [of inp fn at s] Let_def len_def split: if_splits)
    obtain s1 where step: "fn v s = (True, s1)" "forEachTlv_at inp fn (at + 4 + len) s1 = (True, s')"
      using 1(2) False room
      by (auto simp: forEachTlv_at.simps [of inp fn at s] Let_def len_def v_def
          split: if_splits prod.splits)
    have "\<exists>vs. drop (at + 4 + len) inp = concat (map tlvEnc vs) \<and> (\<forall>v\<in>set vs. wf_tlv v)
        \<and> walkTlvs fn vs s1 = (True, s')"
      by (rule 1(1)) (use False room step in \<open>auto simp: len_def v_def\<close>)
    then obtain vs where vs: "drop (at + 4 + len) inp = concat (map tlvEnc vs)"
      "\<forall>v\<in>set vs. wf_tlv v" "walkTlvs fn vs s1 = (True, s')" by blast
    have lt: "len < 2 ^ 16" unfolding len_def using unsigned_less [of "rd_u16 inp (at + 2)"] by simp
    have "length (tlv_value v) = len" using room by (simp add: v_def)
    moreover have "drop at inp = subspan inp at 2 @ subspan inp (at + 2) 2 @ subspan inp (at + 4) len
        @ drop (at + 4 + len) inp"
      by (metis (no_types, lifting) append_take_drop_id drop_drop add.commute add.assoc
          numeral_Bit0)
    moreover have "of_nat len = rd_u16 inp (at + 2)" by (simp add: len_def)
    ultimately have "drop at inp = tlvEnc v @ drop (at + 4 + len) inp"
      using room by (simp add: tlvEnc_bytes v_def le_rd)
    moreover have "wf_tlv v" using lt room by (simp add: wf_tlv_def v_def)
    ultimately show ?thesis
      using vs step by (intro exI [of _ "v # vs"]) simp
  qed
qed

lemma forEachTlv_accepts:
  "forEachTlv inp fn s = (True, s') \<Longrightarrow>
    \<exists>vs. inp = tlvBytes vs \<and> (\<forall>v\<in>set vs. wf_tlv v) \<and> walkTlvs fn vs s = (True, s')"
  using forEachTlv_at_accepts [of inp fn 0 s s'] by (simp add: forEachTlv_def tlvBytes_concat)

section \<open>Properties\<close>

text \<open>
  C19: the message header is coded without loss.  Decoding at the place an encoded header was
  appended gives the header back, whatever precedes and follows it, and a buffer decodes exactly
  when it has 32 bytes, in which case re-encoding the result reproduces these bytes.
\<close>

theorem header_lossless:
  "decodeHeader (drop (length out) (encodeHeader h out @ rest)) = Some h
   \<and> (\<exists>h'. decodeHeader bs = Some h' \<and> encodeHeader h' out = out @ take kHeaderSize bs)
       = (kHeaderSize \<le> length bs)"
proof (rule conjI)
  show "decodeHeader (drop (length out) (encodeHeader h out @ rest)) = Some h"
    by (rule header.dec_enc_at) simp
  show "(\<exists>h'. decodeHeader bs = Some h' \<and> encodeHeader h' out = out @ take kHeaderSize bs)
       = (kHeaderSize \<le> length bs)"
    using header.dec_defined_iff [of bs] header.enc_dec [of bs]
    by (subst header.enc_append) auto
qed

text \<open>
  C20: SUBMIT and COMPLETE bodies are coded without loss.  Every well-formed body decodes to
  itself in front of any data section, and every body that decodes re-encodes to its 40 bytes.
\<close>

theorem transfer_bodies_lossless:
  "(wf_SubmitBody sb \<longrightarrow> decodeSubmit (encodeSubmit sb [] @ data) = Some sb)
   \<and> decodeComplete (encodeComplete cb [] @ data) = Some cb
   \<and> (decodeSubmit bs = Some sb' \<longrightarrow> wf_SubmitBody sb' \<and> encodeSubmit sb' [] = take kBodySubmit bs)
   \<and> (decodeComplete bs = Some cb' \<longrightarrow> encodeComplete cb' [] = take kBodyComplete bs)"
  using submit.dec_enc_append complete.dec_enc_append submit.enc_dec submit.dec_wf complete.enc_dec
  by auto

theorem transfer_bodies_lossless_witness:
  "\<exists>sb cb. wf_SubmitBody sb \<and> decodeSubmit (encodeSubmit sb [] @ [7]) = Some sb
     \<and> decodeComplete (encodeComplete cb [] @ [7]) = Some cb
     \<and> encodeSubmit sb [] = take kBodySubmit (encodeSubmit sb [] @ [7])
     \<and> encodeComplete cb [] = take kBodyComplete (encodeComplete cb [] @ [7])"
proof -
  define sb where "sb = \<lparr>sb_epAddr = 0x81, sb_xferType = 2, sb_dir = 1, sb_xflags = 0,
    sb_bufferLen = 512, sb_timeoutMs = 0, sb_isoPktCount = 0, sb_interval = 0, sb_streamId = 0,
    sb_setup = replicate 8 0, sb_submitTsNs = 99\<rparr>"
  define cb where "cb = \<lparr>cb_epAddr = 0x81, cb_xferType = 2, cb_dir = 1, cb_cflags = 0,
    cb_requestedLen = 512, cb_actualLen = 1, cb_payloadLen = 1, cb_isoPktCount = 0,
    cb_errorCount = 0, cb_startFrame = 0, cb_reserved = 0, cb_submitTsNs = 99\<rparr>"
  have wf: "wf_SubmitBody sb" by (simp add: sb_def wf_SubmitBody_def)
  have t: "decodeSubmit (encodeSubmit sb [] @ [7]) = Some sb"
      "decodeComplete (encodeComplete cb [] @ [7]) = Some cb"
    using transfer_bodies_lossless [of sb "[7]" cb] wf by blast+
  with wf transfer_bodies_lossless [of sb "[7]" cb "encodeSubmit sb [] @ [7]" sb]
    transfer_bodies_lossless [of sb "[7]" cb "encodeComplete cb [] @ [7]" _ cb]
  show ?thesis by blast
qed

text \<open>
  A run of TLVs built with \<open>appendTlv\<close> is walked by \<open>forEachTlv\<close> element by element, in order,
  until the callback refuses; and \<open>forEachTlv\<close> accepts no byte string that is not such a run, so a
  truncated or inconsistent tail is always reported.
\<close>

theorem tlv_run_walk:
  "((\<forall>v\<in>set vs. wf_tlv v) \<longrightarrow> forEachTlv (tlvBytes vs) fn s = walkTlvs fn vs s)
   \<and> (forEachTlv inp fn s = (True, s') \<longrightarrow>
       (\<exists>vs. inp = tlvBytes vs \<and> (\<forall>v\<in>set vs. wf_tlv v) \<and> walkTlvs fn vs s = (True, s')))"
  using forEachTlv_run [of vs fn s] forEachTlv_accepts [of inp fn s s'] by blast

theorem tlv_run_walk_witness:
  "forEachTlv (tlvBytes [\<lparr>tlv_type = 3, tlv_value = [65, 66]\<rparr>, \<lparr>tlv_type = 4, tlv_value = []\<rparr>])
      (\<lambda>v n. (True, n + length (tlv_value v))) 0 = (True, 2)
   \<and> (\<exists>vs. [3, 0, 1, 0, 65] = tlvBytes vs \<and> (\<forall>v\<in>set vs. wf_tlv v)
       \<and> walkTlvs (\<lambda>v (n::nat). (True, n + length (tlv_value v))) vs 0 = (True, 1))"
proof (rule conjI)
  show "forEachTlv (tlvBytes [\<lparr>tlv_type = 3, tlv_value = [65, 66]\<rparr>, \<lparr>tlv_type = 4, tlv_value = []\<rparr>])
      (\<lambda>v n. (True, n + length (tlv_value v))) 0 = (True, 2)"
    by (subst tlv_run_walk [THEN conjunct1, rule_format]) (auto simp: wf_tlv_def)
  have "forEachTlv [3, 0, 1, 0, 65] (\<lambda>v (n::nat). (True, n + length (tlv_value v))) 0 = (True, 1)"
    by (simp add: forEachTlv_def forEachTlv_at.simps rd_u16_def)
  then show "\<exists>vs. [3, 0, 1, 0, 65] = tlvBytes vs \<and> (\<forall>v\<in>set vs. wf_tlv v)
       \<and> walkTlvs (\<lambda>v (n::nat). (True, n + length (tlv_value v))) vs 0 = (True, 1)"
    by (rule tlv_run_walk [THEN conjunct2, rule_format])
qed

end
