(* ===== verification/Validate.thy ===== *)
theory Validate
  imports Codec
begin

text \<open>
  The receive-side rules R1 to R12 (\<open>protocol/Validate.h\<close>, \<open>protocol/Validate.cpp\<close>).  Every
  rule returns a \<open>Verdict\<close>.  Lengths the source computes in 64 bits are computed in 64 bits
  here, so that the soundness lemmas show that no sum wraps into a passing value.
\<close>

section \<open>Verdicts and limits\<close>

datatype (plugins only: code size) Rule =
    RuleOk | R1_RecordSize | R2_TotalLen | R3_BodyLen | R4_TypeIdentity | R5_ActualLen
  | R6_IsoTable | R7_Utf8Field | R8_RequestId | R9_CountCeiling | R10_DescriptorOpaque
  | R11_Credit | R12_DeviceEpoch | ReservedFlagSet | UnknownType

primrec ruleName :: "Rule \<Rightarrow> string" where
  "ruleName RuleOk = ''ok''"
| "ruleName R1_RecordSize = ''R1_RecordSize''"
| "ruleName R2_TotalLen = ''R2_TotalLen''"
| "ruleName R3_BodyLen = ''R3_BodyLen''"
| "ruleName R4_TypeIdentity = ''R4_TypeIdentity''"
| "ruleName R5_ActualLen = ''R5_ActualLen''"
| "ruleName R6_IsoTable = ''R6_IsoTable''"
| "ruleName R7_Utf8Field = ''R7_Utf8Field''"
| "ruleName R8_RequestId = ''R8_RequestId''"
| "ruleName R9_CountCeiling = ''R9_CountCeiling''"
| "ruleName R10_DescriptorOpaque = ''R10_DescriptorOpaque''"
| "ruleName R11_Credit = ''R11_Credit''"
| "ruleName R12_DeviceEpoch = ''R12_DeviceEpoch''"
| "ruleName ReservedFlagSet = ''ReservedFlagSet''"
| "ruleName UnknownType = ''UnknownType''"

record Verdict =
  v_rule :: Rule
  v_status :: Status
  v_fatal :: bool
  v_silentDrop :: bool

definition pass :: Verdict where
  "pass = \<lparr>v_rule = RuleOk, v_status = Ok, v_fatal = False, v_silentDrop = False\<rparr>"

definition v_ok :: "Verdict \<Rightarrow> bool" where
  "v_ok v \<longleftrightarrow> v_rule v = RuleOk"

definition fail :: "Rule \<Rightarrow> Status \<Rightarrow> Verdict" where
  "fail r s = \<lparr>v_rule = r, v_status = s, v_fatal = True, v_silentDrop = False\<rparr>"

record Limits =
  lim_maxRecordBytes :: u32
  lim_maxTransferBytes :: u32
  lim_maxSegmentBytes :: u32
  lim_maxIsoPackets :: u32
  lim_maxChannels :: u16

definition Limits0 :: Limits where
  "Limits0 = \<lparr>lim_maxRecordBytes = kHandshakeRecordMax, lim_maxTransferBytes = kTransferBytesDefault,
     lim_maxSegmentBytes = kSegmentBytesDefault, lim_maxIsoPackets = 0,
     lim_maxChannels = (ucast kMaxChannels :: u16)\<rparr>"

section \<open>The rules\<close>

definition r1_recordSize :: "u32 \<Rightarrow> Limits \<Rightarrow> bool \<Rightarrow> Verdict" where
  "r1_recordSize recordLen lim handshakeDone =
     (let ceiling = if handshakeDone then lim_maxRecordBytes lim else kHandshakeRecordMax in
      if recordLen > ceiling then fail R1_RecordSize LimitExceeded else pass)"

definition r2_totalLen :: "Header \<Rightarrow> Limits \<Rightarrow> Verdict" where
  "r2_totalLen h lim =
     (if h_totalLen h > lim_maxTransferBytes lim then fail R2_TotalLen LimitExceeded
      else if h_segOffset h > h_totalLen h then fail R2_TotalLen MalformedFrame
      else pass)"

definition r3_bodyLen :: "Header \<Rightarrow> nat \<Rightarrow> Verdict" where
  "r3_bodyLen h availableBody =
     (case fixedBodySize (h_type h) of
        None \<Rightarrow> if isDataPlane (h_type h) then fail UnknownType UnsupportedMessage else pass
      | Some fixed \<Rightarrow>
          if unat (h_bodyLen h) < fixed then fail R3_BodyLen MalformedFrame
          else if availableBody < unat (h_bodyLen h) then fail R3_BodyLen MalformedFrame
          else pass)"

definition r4_submitIdentity :: "Header \<Rightarrow> SubmitBody \<Rightarrow> Verdict" where
  "r4_submitIdentity h b =
     (if sb_epAddr b AND 0x0F \<noteq> 0 \<and> sb_dir b \<noteq> drop_bit 7 (sb_epAddr b)
      then fail R4_TypeIdentity MalformedFrame
      else if sb_dir b > 1 then fail R4_TypeIdentity MalformedFrame
      else if sb_xferType b > xferCode XInterrupt then fail R4_TypeIdentity MalformedFrame
      else
        let isIso = sb_xferType b = xferCode XIsochronous in
        if \<not> isIso \<and> sb_isoPktCount b \<noteq> 0 then fail R4_TypeIdentity MalformedFrame
        else
          let expected = (ucast (sb_isoPktCount b) :: u64) * of_nat kIsoDescSize;
              expected = (if sb_dir b = dirCode DirOut
                          then expected + (ucast (sb_bufferLen b) :: u64) else expected)
          in if expected \<noteq> (ucast (h_totalLen h) :: u64) then fail R4_TypeIdentity MalformedFrame
             else pass)"

definition r4_completeIdentity :: "Header \<Rightarrow> CompleteBody \<Rightarrow> Verdict" where
  "r4_completeIdentity h b =
     (if cb_dir b > 1 then fail R4_TypeIdentity MalformedFrame
      else if cb_xferType b > xferCode XInterrupt then fail R4_TypeIdentity MalformedFrame
      else if cb_reserved b \<noteq> 0 then fail R4_TypeIdentity MalformedFrame
      else
        let isIso = cb_xferType b = xferCode XIsochronous in
        if \<not> isIso \<and> cb_isoPktCount b \<noteq> 0 then fail R4_TypeIdentity MalformedFrame
        else
          let expected = (ucast (cb_isoPktCount b) :: u64) * of_nat kIsoDescSize;
              expected = expected + (ucast (cb_payloadLen b) :: u64)
          in if expected \<noteq> (ucast (h_totalLen h) :: u64) then fail R4_TypeIdentity MalformedFrame
             else pass)"

definition r5_actualLen :: "CompleteBody \<Rightarrow> Verdict" where
  "r5_actualLen b =
     (if cb_actualLen b > cb_requestedLen b then fail R5_ActualLen MalformedFrame
      else
        let isIso = cb_xferType b = xferCode XIsochronous in
        if isIso then pass
        else if cb_dir b = dirCode DirIn then
          (if cb_payloadLen b \<noteq> cb_actualLen b then fail R5_ActualLen MalformedFrame else pass)
        else if cb_payloadLen b \<noteq> 0 then fail R5_ActualLen MalformedFrame
        else pass)"

text \<open>The loop of R6 from index \<open>i\<close>: \<open>Inl\<close> an early return, \<open>Inr\<close> the sum of the lengths.\<close>

function r6_loop :: "bytes \<Rightarrow> nat \<Rightarrow> u32 \<Rightarrow> nat \<Rightarrow> u32 \<Rightarrow> u64 \<Rightarrow> Verdict + u64" where
  "r6_loop isoTable isoPktCount bufferLen i prevOffset lenSum =
     (if i < isoPktCount then
        (case decodeIsoDesc isoTable i of
           None \<Rightarrow> Inl (fail R6_IsoTable MalformedFrame)
         | Some d \<Rightarrow>
             if (ucast (iso_offset d) :: u64) + ucast (iso_length d) > ucast bufferLen
             then Inl (fail R6_IsoTable MalformedFrame)
             else if i > 0 \<and> iso_offset d < prevOffset
             then Inl (fail R6_IsoTable MalformedFrame)
             else r6_loop isoTable isoPktCount bufferLen (i + 1) (iso_offset d)
                    (lenSum + ucast (iso_length d)))
      else Inr lenSum)"
  by pat_completeness auto
termination
  by (relation "measure (\<lambda>(tbl, n, bl, i, p, s). n - i)") auto

declare r6_loop.simps [simp del]

definition r6_isoTable :: "bytes \<Rightarrow> u32 \<Rightarrow> u32 \<Rightarrow> Limits \<Rightarrow> Verdict" where
  "r6_isoTable isoTable isoPktCount bufferLen lim =
     (if isoPktCount = 0 then pass
      else
        let ceiling = if lim_maxIsoPackets lim < kIsoPacketsCeiling
                      then lim_maxIsoPackets lim else kIsoPacketsCeiling
        in if isoPktCount > ceiling then fail R6_IsoTable LimitExceeded
           else if length isoTable < unat isoPktCount * kIsoDescSize
           then fail R6_IsoTable MalformedFrame
           else (case r6_loop isoTable (unat isoPktCount) bufferLen 0 0 0 of
                   Inl v \<Rightarrow> v
                 | Inr lenSum \<Rightarrow>
                     if lenSum > ucast bufferLen then fail R6_IsoTable MalformedFrame else pass))"

definition r8_requestId :: "u64 \<Rightarrow> u64 \<Rightarrow> bool \<Rightarrow> Verdict" where
  "r8_requestId requestId lastSeenOnChannel isCurrentlyOutstanding =
     (if isCurrentlyOutstanding then fail R8_RequestId MalformedFrame
      else if requestId \<le> lastSeenOnChannel then fail R8_RequestId MalformedFrame
      else pass)"

definition r9_countCeiling :: "u32 \<Rightarrow> u32 \<Rightarrow> Verdict" where
  "r9_countCeiling count ceiling =
     (if count > ceiling then fail R9_CountCeiling LimitExceeded else pass)"

definition r12_deviceEpoch :: "u16 \<Rightarrow> u16 \<Rightarrow> Verdict" where
  "r12_deviceEpoch received expected =
     (if received = expected then pass
      else \<lparr>v_rule = R12_DeviceEpoch, v_status = Ok, v_fatal = False, v_silentDrop = True\<rparr>)"

definition reservedFlags :: "Header \<Rightarrow> Verdict" where
  "reservedFlags h =
     (if h_flags h AND kFlagReservedMask = 0 then pass
      else if isDataPlane (h_type h) then fail ReservedFlagSet MalformedFrame
      else pass)"

section \<open>UTF-8\<close>

text \<open>
  The inner loop over the continuation bytes \<open>k .. extra\<close>, and the outer loop over the
  sequence starting at \<open>i\<close>.
\<close>

function utf8_cont :: "bytes \<Rightarrow> nat \<Rightarrow> nat \<Rightarrow> nat \<Rightarrow> u32 \<Rightarrow> u32 option" where
  "utf8_cont s i extra k cp =
     (if k \<le> extra then
        let cc = s ! (i + k) in
        if cc AND 0xC0 \<noteq> 0x80 then None
        else utf8_cont s i extra (k + 1) (push_bit 6 cp OR (ucast (cc AND 0x3F) :: u32))
      else Some cp)"
  by pat_completeness auto
termination
  by (relation "measure (\<lambda>(s, i, e, k, c). e + 1 - k)") auto

text \<open>Number of continuation bytes, leading payload bits and least code point of a lead byte.\<close>

definition utf8_lead :: "u8 \<Rightarrow> (nat \<times> u32 \<times> u32) option" where
  "utf8_lead c =
     (if c AND 0xE0 = 0xC0 then Some (1, ucast (c AND 0x1F), 0x80)
      else if c AND 0xF0 = 0xE0 then Some (2, ucast (c AND 0x0F), 0x800)
      else if c AND 0xF8 = 0xF0 then Some (3, ucast (c AND 0x07), 0x10000)
      else None)"

function isValidUtf8_at :: "bytes \<Rightarrow> nat \<Rightarrow> bool" where
  "isValidUtf8_at s i =
     (if i < length s then
        let c = s ! i in
        if c = 0x00 then False
        else if c < 0x80 then isValidUtf8_at s (i + 1)
        else (case utf8_lead c of
                None \<Rightarrow> False
              | Some (extra, cp, cpMin) \<Rightarrow>
                  if length s - i - 1 < extra then False
                  else (case utf8_cont s i extra 1 cp of
                          None \<Rightarrow> False
                        | Some cp \<Rightarrow>
                            if cp < cpMin then False
                            else if cp > 0x10FFFF then False
                            else if cp \<ge> 0xD800 \<and> cp \<le> 0xDFFF then False
                            else isValidUtf8_at s (i + (extra + 1))))
      else True)"
  by pat_completeness auto
termination
  by (relation "measure (\<lambda>(s, i). length s - i)") auto

declare utf8_cont.simps [simp del] isValidUtf8_at.simps [simp del]

definition isValidUtf8 :: "bytes \<Rightarrow> bool" where
  "isValidUtf8 s = isValidUtf8_at s 0"

definition r7_utf8Field :: "bytes \<Rightarrow> Verdict" where
  "r7_utf8Field field =
     (if length field > unat kUtf8FieldMax then fail R7_Utf8Field LimitExceeded
      else if \<not> isValidUtf8 field then fail R7_Utf8Field MalformedFrame
      else pass)"

section \<open>Composite entry points\<close>

text \<open>\<open>if (Verdict v = check; !v.ok()) return v;\<close>\<close>

definition orElse :: "Verdict \<Rightarrow> Verdict \<Rightarrow> Verdict" where
  "orElse v w = (if \<not> v_ok v then v else w)"

definition isResponse :: "u8 \<Rightarrow> bool" where
  "isResponse t \<longleftrightarrow>
     t = typeCode T_Complete \<or> t = typeCode T_HelloOk \<or> t = typeCode T_AttachOk
     \<or> t = typeCode T_DetachOk \<or> t = typeCode T_CancelAck \<or> t = typeCode T_CtrlAck
     \<or> t = typeCode T_Error \<or> t = typeCode T_PairResult \<or> t = typeCode T_DeviceGone
     \<or> t = typeCode T_Pong"

definition validateHeader :: "Header \<Rightarrow> nat \<Rightarrow> Limits \<Rightarrow> Verdict" where
  "validateHeader h availableBody lim =
     orElse (reservedFlags h) (orElse (r2_totalLen h lim) (orElse (r3_bodyLen h availableBody)
       (if h_status h \<noteq> 0 \<and> \<not> isResponse (h_type h) then fail R4_TypeIdentity MalformedFrame
        else if \<not> isWireLegal (h_status h) then fail R4_TypeIdentity MalformedFrame
        else pass)))"

definition validateSubmit :: "Header \<Rightarrow> SubmitBody \<Rightarrow> bytes \<Rightarrow> Limits \<Rightarrow> Verdict" where
  "validateSubmit h b dataSection lim =
     orElse (r4_submitIdentity h b)
       (if sb_bufferLen b > lim_maxTransferBytes lim then fail R2_TotalLen LimitExceeded
        else
          let isIso = sb_xferType b = xferCode XIsochronous in
          orElse (if isIso then r6_isoTable dataSection (sb_isoPktCount b) (sb_bufferLen b) lim
                  else pass)
            (if sb_streamId b \<noteq> 0 then fail R4_TypeIdentity UnsupportedMessage else pass))"

definition validateComplete :: "Header \<Rightarrow> CompleteBody \<Rightarrow> bytes \<Rightarrow> Limits \<Rightarrow> Verdict" where
  "validateComplete h b dataSection lim =
     orElse (r4_completeIdentity h b) (orElse (r5_actualLen b)
       (let isIso = cb_xferType b = xferCode XIsochronous in
        orElse (if isIso then r6_isoTable dataSection (cb_isoPktCount b) (cb_requestedLen b) lim
                else pass)
          pass))"

section \<open>Facts on verdicts\<close>

named_theorems verdict_simps

lemma pass_ok [simp]: "v_ok pass" "v_fatal pass = False" "v_status pass = Ok"
  by (simp_all add: pass_def v_ok_def)

lemma fail_ok [simp]: "v_ok (fail r s) \<longleftrightarrow> r = RuleOk" "v_fatal (fail r s)" "v_status (fail r s) = s"
  by (simp_all add: fail_def v_ok_def)

lemma orElse_ok [simp]: "v_ok (orElse v w) \<longleftrightarrow> v_ok v \<and> v_ok w"
  by (simp add: orElse_def)

lemmas [verdict_simps] = r1_recordSize_def r2_totalLen_def r3_bodyLen_def r4_submitIdentity_def
  r4_completeIdentity_def r5_actualLen_def r8_requestId_def r9_countCeiling_def
  r12_deviceEpoch_def reservedFlags_def Let_def

text \<open>Sums the source computes in 64 bits do not wrap.\<close>

declare unat_ucast_u64 [simp]

lemma unat_add_u32:
  "unat ((ucast (a :: u32) :: u64) + ucast (b :: u32)) = unat a + unat b"
  using unat_u32_less [of a] unat_u32_less [of b] by (simp add: unat_word_ariths)

lemma unat_iso_bytes: "unat ((ucast (n :: u32) :: u64) * 16) = unat n * 16"
  using unat_u32_less [of n] by (simp add: unat_word_ariths)

lemma unat_iso_bytes_add:
  "unat ((ucast (n :: u32) :: u64) * 16 + ucast (b :: u32)) = unat n * 16 + unat b"
  using unat_u32_less [of n] unat_u32_less [of b] unat_iso_bytes [of n]
  by (simp add: unat_word_ariths(1))

section \<open>R6\<close>

text \<open>The descriptors of a table, and what R6 promises about them.\<close>

definition isoDescs :: "bytes \<Rightarrow> nat \<Rightarrow> IsoDesc list" where
  "isoDescs tbl n = map (\<lambda>i. the (decodeIsoDesc tbl i)) [0 ..< n]"

definition isoTableOk :: "IsoDesc list \<Rightarrow> nat \<Rightarrow> bool" where
  "isoTableOk ds bufferLen \<longleftrightarrow>
     (\<forall>d\<in>set ds. unat (iso_offset d) + unat (iso_length d) \<le> bufferLen)
     \<and> sorted (map (unat \<circ> iso_offset) ds)
     \<and> sum_list (map (unat \<circ> iso_length) ds) \<le> bufferLen"

lemma decodeIsoDesc_total:
  "(i + 1) * 16 \<le> length tbl \<Longrightarrow> \<exists>d. decodeIsoDesc tbl i = Some d"
  using isoDesc.dec_total [of "drop (i * 16) tbl"] by (subst decodeIsoDesc_index) auto

text \<open>The loop over a list of descriptors, free of indices.\<close>

fun isoScan :: "u32 \<Rightarrow> IsoDesc list \<Rightarrow> bool \<Rightarrow> u32 \<Rightarrow> u64 \<Rightarrow> u64 option" where
  "isoScan bl [] first prev acc = Some acc"
| "isoScan bl (d # ds) first prev acc =
     (if (ucast (iso_offset d) :: u64) + ucast (iso_length d) > ucast bl then None
      else if \<not> first \<and> iso_offset d < prev then None
      else isoScan bl ds False (iso_offset d) (acc + ucast (iso_length d)))"

lemma r6_loop_scan:
  "\<lbrakk>n * 16 \<le> length tbl; i \<le> n\<rbrakk> \<Longrightarrow>
    r6_loop tbl n bl i prev acc =
      (case isoScan bl (map (\<lambda>i. the (decodeIsoDesc tbl i)) [i ..< n]) (i = 0) prev acc of
         None \<Rightarrow> Inl (fail R6_IsoTable MalformedFrame) | Some t \<Rightarrow> Inr t)"
proof (induction tbl n bl i prev acc rule: r6_loop.induct)
  case (1 tbl n bl i prev acc)
  show ?case
  proof (cases "i < n")
    case False
    with 1 show ?thesis by (simp add: r6_loop.simps)
  next
    case True
    then have "(i + 1) * 16 \<le> length tbl" using 1(2) by simp
    then obtain d where d: "decodeIsoDesc tbl i = Some d" using decodeIsoDesc_total by blast
    from True have "[i ..< n] = i # [i + 1 ..< n]" by (simp add: upt_conv_Cons)
    with True 1 d show ?thesis
      by (subst r6_loop.simps) (auto simp del: upt_Suc)
  qed
qed

lemma isoScan_spec:
  assumes "unat acc + (2 ^ 32) * length ds < 2 ^ 64"
  shows "isoScan bl ds first prev acc = Some t \<longleftrightarrow>
    (\<forall>d\<in>set ds. unat (iso_offset d) + unat (iso_length d) \<le> unat bl)
    \<and> sorted (map (unat \<circ> iso_offset) ds) \<and> (first \<or> (\<forall>d\<in>set ds. unat prev \<le> unat (iso_offset d)))
    \<and> unat t = unat acc + sum_list (map (unat \<circ> iso_length) ds)"
  using assms
proof (induction bl ds first prev acc rule: isoScan.induct)
  case (1 bl first prev acc)
  then show ?case by (auto simp: word_unat_eq_iff)
next
  case (2 bl d ds first prev acc)
  have acc: "unat (acc + ucast (iso_length d)) = unat acc + unat (iso_length d)"
    using 2(2) unat_u32_less [of "iso_length d"] by (simp add: unat_word_ariths)
  then have room: "unat (acc + ucast (iso_length d)) + 2 ^ 32 * length ds < 2 ^ 64"
    using 2(2) unat_u32_less [of "iso_length d"] by simp
  show ?case
    using 2(1) [OF _ _ room]
    by (auto simp: acc word_less_nat_alt unat_add_u32 not_less add.assoc dest: order_trans)
qed

lemma r6_isoTable_ok:
  "v_ok (r6_isoTable tbl n bl lim) \<longleftrightarrow>
    n = 0 \<or> (n \<le> lim_maxIsoPackets lim \<and> n \<le> kIsoPacketsCeiling \<and> unat n * kIsoDescSize \<le> length tbl
      \<and> isoTableOk (isoDescs tbl (unat n)) (unat bl))"
proof (cases "n \<noteq> 0 \<and> n \<le> lim_maxIsoPackets lim \<and> n \<le> kIsoPacketsCeiling \<and> unat n * 16 \<le> length tbl")
  case False
  then show ?thesis by (auto simp: r6_isoTable_def Let_def not_less not_le split: if_splits)
next
  case True
  then have le: "unat n * 16 \<le> length tbl" "unat n \<le> 1024" by (simp_all add: word_le_nat_alt)
  let ?scan = "isoScan bl (isoDescs tbl (unat n)) True 0 0"
  have loop: "r6_loop tbl (unat n) bl 0 0 0 =
      (case ?scan of None \<Rightarrow> Inl (fail R6_IsoTable MalformedFrame) | Some t \<Rightarrow> Inr t)"
    using r6_loop_scan [OF le(1), of 0] by (simp add: isoDescs_def)
  have "length (isoDescs tbl (unat n)) \<le> 1024" using le by (simp add: isoDescs_def)
  then have spec: "?scan = Some t \<longleftrightarrow>
      (\<forall>d\<in>set (isoDescs tbl (unat n)). unat (iso_offset d) + unat (iso_length d) \<le> unat bl)
      \<and> sorted (map (unat \<circ> iso_offset) (isoDescs tbl (unat n)))
      \<and> unat t = sum_list (map (unat \<circ> iso_length) (isoDescs tbl (unat n)))" for t
    using isoScan_spec [of 0 "isoDescs tbl (unat n)"] by simp
  show ?thesis
  proof (cases ?scan)
    case None
    have "\<not> isoTableOk (isoDescs tbl (unat n)) (unat bl)"
    proof
      assume ok: "isoTableOk (isoDescs tbl (unat n)) (unat bl)"
      let ?t = "of_nat (sum_list (map (unat \<circ> iso_length) (isoDescs tbl (unat n)))) :: u64"
      have "sum_list (map (unat \<circ> iso_length) (isoDescs tbl (unat n))) < 2 ^ 64"
        using ok unat_u32_less [of bl] by (simp add: isoTableOk_def)
      then have "?scan = Some ?t"
        using ok spec by (simp add: isoTableOk_def unat_of_nat take_bit_nat_eq_self)
      with None show False by simp
    qed
    with True loop None show ?thesis
      by (auto simp: r6_isoTable_def Let_def not_less not_le)
  next
    case (Some t)
    with spec [of t] have "isoTableOk (isoDescs tbl (unat n)) (unat bl) \<longleftrightarrow> unat t \<le> unat bl"
      by (auto simp: isoTableOk_def)
    with True loop Some show ?thesis
      by (auto simp: r6_isoTable_def Let_def word_less_nat_alt word_le_nat_alt not_less)
  qed
qed

section \<open>UTF-8 well-formedness\<close>

text \<open>
  The encoding of a Unicode scalar value, as the standard defines it.  \<open>isValidUtf8\<close> accepts
  exactly the concatenations of encodings of scalar values other than NUL.
\<close>

definition utf8Scalar :: "nat \<Rightarrow> bool" where
  "utf8Scalar n \<longleftrightarrow> 0 < n \<and> n \<le> 0x10FFFF \<and> \<not> (0xD800 \<le> n \<and> n \<le> 0xDFFF)"

definition utf8Enc :: "nat \<Rightarrow> bytes" where
  "utf8Enc n =
     (if n < 0x80 then [of_nat n]
      else if n < 0x800 then [of_nat (0xC0 + n div 64), of_nat (0x80 + n mod 64)]
      else if n < 0x10000 then
        [of_nat (0xE0 + n div 4096), of_nat (0x80 + n div 64 mod 64), of_nat (0x80 + n mod 64)]
      else [of_nat (0xF0 + n div 262144), of_nat (0x80 + n div 4096 mod 64),
        of_nat (0x80 + n div 64 mod 64), of_nat (0x80 + n mod 64)])"

lemma unat_low_bits:
  fixes c :: u8
  shows "unat (c AND 0x3F) = unat c mod 64" "unat (c AND 0x1F) = unat c mod 32"
    "unat (c AND 0x0F) = unat c mod 16" "unat (c AND 0x07) = unat c mod 8"
proof -
  have "unat (c AND mask n) = unat c mod 2 ^ n" for n
    unfolding take_bit_eq_mask [symmetric] unsigned_take_bit_eq by (rule take_bit_eq_mod)
  from this [of 6] this [of 5] this [of 4] this [of 3]
  show "unat (c AND 0x3F) = unat c mod 64" "unat (c AND 0x1F) = unat c mod 32"
    "unat (c AND 0x0F) = unat c mod 16" "unat (c AND 0x07) = unat c mod 8"
    by (simp_all add: mask_eq_exp_minus_1)
qed
lemma div_eq_iff_mod: "0 < k \<Longrightarrow> n = k * q + n mod k \<longleftrightarrow> n div k = (q :: nat)"
  by (metis add_right_cancel div_mult_mod_eq mult.commute mult_cancel2 less_not_refl)

lemma high_bits_iff:
  fixes c :: u8
  shows "c AND 0xC0 = 0x80 \<longleftrightarrow> unat c div 64 = 2" "c AND 0xE0 = 0xC0 \<longleftrightarrow> unat c div 32 = 6"
    "c AND 0xF0 = 0xE0 \<longleftrightarrow> unat c div 16 = 14" "c AND 0xF8 = 0xF0 \<longleftrightarrow> unat c div 8 = 30"
proof -
  have eq: "c AND M = d \<longleftrightarrow> unat c = unat d + unat (c AND m)"
    if "M = NOT m" "unat d + unat (c AND m) < 256" for M m d :: u8
  proof -
    have "c - (c AND m) = c AND NOT (c AND m)" by (rule disjunctive_diff) (simp add: bit_simps)
    also have "\<dots> = c AND NOT m" by (rule bit_word_eqI) (auto simp: bit_simps)
    finally have "c AND M = d \<longleftrightarrow> c = d + (c AND m)"
      using that(1) by (metis diff_add_cancel add_diff_cancel_right')
    also have "\<dots> \<longleftrightarrow> unat c = unat d + unat (c AND m)"
      using that(2) by (simp add: word_unat_eq_iff unat_word_ariths)
    finally show ?thesis .
  qed
  show "c AND 0xC0 = 0x80 \<longleftrightarrow> unat c div 64 = 2"
    using eq [of "0xC0" "0x3F" "0x80"] div_eq_iff_mod [of 64 "unat c" 2]
      mod_less_divisor [of 64 "unat c"]
    by (simp add: unat_low_bits)
  show "c AND 0xE0 = 0xC0 \<longleftrightarrow> unat c div 32 = 6"
    using eq [of "0xE0" "0x1F" "0xC0"] div_eq_iff_mod [of 32 "unat c" 6]
      mod_less_divisor [of 32 "unat c"]
    by (simp add: unat_low_bits)
  show "c AND 0xF0 = 0xE0 \<longleftrightarrow> unat c div 16 = 14"
    using eq [of "0xF0" "0x0F" "0xE0"] div_eq_iff_mod [of 16 "unat c" 14]
      mod_less_divisor [of 16 "unat c"]
    by (simp add: unat_low_bits)
  show "c AND 0xF8 = 0xF0 \<longleftrightarrow> unat c div 8 = 30"
    using eq [of "0xF8" "0x07" "0xF0"] div_eq_iff_mod [of 8 "unat c" 30]
      mod_less_divisor [of 8 "unat c"]
    by (simp add: unat_low_bits)
qed


lemma word_u8_eq: "n < 256 \<Longrightarrow> of_nat n = (c :: u8) \<longleftrightarrow> n = unat c"
  by (auto simp: word_unat_eq_iff unat_of_nat)

lemma unat_of_nat_u8: "n < 256 \<Longrightarrow> unat (of_nat n :: u8) = n"
  by (simp add: unat_of_nat)

text \<open>One step of the inner loop, in numbers.\<close>

lemma unat_shift6:
  assumes "unat cp < 2 ^ 26"
  shows "unat (push_bit 6 (cp :: u32) OR (ucast ((c :: u8) AND 0x3F) :: u32)) = unat cp * 64 + unat c mod 64"
proof -
  have lo: "unat (ucast (c AND 0x3F) :: u32) = unat c mod 64"
    using unat_u8_less [of "c AND 0x3F"] by (simp add: unsigned_ucast_eq take_bit_nat_eq_self unat_low_bits)
  have m: "(ucast (c AND 0x3F) :: u32) = take_bit 6 (ucast c)"
    by (rule bit_word_eqI) (auto simp: bit_simps take_bit_eq_mask mask_eq_exp_minus_1 dest: bit_imp_le_length)
  have "push_bit 6 cp OR (ucast (c AND 0x3F) :: u32) = push_bit 6 cp + ucast (c AND 0x3F)"
    unfolding m by (rule disjunctive_add_eq_or [symmetric]) (auto simp: bit_eq_iff bit_simps)
  moreover have "unat (push_bit 6 cp) = unat cp * 64"
    using assms by (simp add: push_bit_eq_mult unat_word_ariths)
  ultimately show ?thesis using assms by (simp add: unat_word_ariths lo)
qed

definition utf8Shift :: "u32 \<Rightarrow> u8 \<Rightarrow> u32" where
  "utf8Shift cp cc = (push_bit 6 cp OR (ucast (cc AND 0x3F) :: u32))"

lemma unat_utf8Shift: "unat cp < 2 ^ 26 \<Longrightarrow> unat (utf8Shift cp c) = unat cp * 64 + unat c mod 64"
  unfolding utf8Shift_def by (rule unat_shift6)

lemma utf8_cont_unfold:
  "utf8_cont s i extra (Suc extra) cp = Some cp"
  "k \<le> extra \<Longrightarrow> utf8_cont s i extra k cp =
     (if unat (s ! (i + k)) div 64 = 2 then utf8_cont s i extra (Suc k) (utf8Shift cp (s ! (i + k)))
      else None)"
  by (simp_all add: utf8_cont.simps [of s i extra k] utf8_cont.simps [of s i extra "Suc extra"]
      Let_def high_bits_iff utf8Shift_def)

lemma utf8_cont_rounds:
  "utf8_cont s i 1 1 cp = (if unat (s ! (i + 1)) div 64 = 2 then Some (utf8Shift cp (s ! (i + 1))) else None)"
  "utf8_cont s i 2 1 cp = (if unat (s ! (i + 1)) div 64 = 2 \<and> unat (s ! (i + 2)) div 64 = 2
     then Some (utf8Shift (utf8Shift cp (s ! (i + 1))) (s ! (i + 2))) else None)"
  "utf8_cont s i 3 1 cp = (if unat (s ! (i + 1)) div 64 = 2 \<and> unat (s ! (i + 2)) div 64 = 2
     \<and> unat (s ! (i + 3)) div 64 = 2
     then Some (utf8Shift (utf8Shift (utf8Shift cp (s ! (i + 1))) (s ! (i + 2))) (s ! (i + 3))) else None)"
  by (simp_all add: utf8_cont_unfold numeral_2_eq_2 numeral_3_eq_3)

lemma unat_ucast_u8 [simp]: "unat (ucast (x :: u8) :: u32) = unat x"
  using unat_u8_less [of x] by (simp add: unsigned_ucast_eq take_bit_nat_eq_self)

text \<open>What the code does at a position, by the class of the lead byte.\<close>

lemma isValidUtf8_at_1:
  assumes "i < length s" "unat (s ! i) < 0x80"
  shows "isValidUtf8_at s i \<longleftrightarrow> 0 < unat (s ! i) \<and> isValidUtf8_at s (i + 1)"
  using assms
  by (subst isValidUtf8_at.simps) (simp add: Let_def word_less_nat_alt word_unat_eq_iff)

lemma utf8_lead_cases:
  "unat c div 32 = 6 \<Longrightarrow> utf8_lead c = Some (1, ucast (c AND 0x1F), 0x80)"
  "unat c div 16 = 14 \<Longrightarrow> utf8_lead c = Some (2, ucast (c AND 0x0F), 0x800)"
  "unat c div 8 = 30 \<Longrightarrow> utf8_lead c = Some (3, ucast (c AND 0x07), 0x10000)"
proof -
  have d: "unat c div 8 = 30 \<Longrightarrow> unat c div 16 = 15" "unat c div 16 = 14 \<Longrightarrow> unat c div 32 = 7"
    "unat c div 8 = 30 \<Longrightarrow> unat c div 32 = 7" by linarith+
  show "unat c div 32 = 6 \<Longrightarrow> utf8_lead c = Some (1, ucast (c AND 0x1F), 0x80)"
    by (simp add: utf8_lead_def high_bits_iff)
  show "unat c div 16 = 14 \<Longrightarrow> utf8_lead c = Some (2, ucast (c AND 0x0F), 0x800)"
    using d by (simp add: utf8_lead_def high_bits_iff)
  show "unat c div 8 = 30 \<Longrightarrow> utf8_lead c = Some (3, ucast (c AND 0x07), 0x10000)"
    using d by (simp add: utf8_lead_def high_bits_iff)
qed

lemma isValidUtf8_at_multi:
  assumes "i < length s" "0x80 \<le> unat (s ! i)"
  shows "isValidUtf8_at s i \<longleftrightarrow> (case utf8_lead (s ! i) of None \<Rightarrow> False
    | Some (extra, cp, cpMin) \<Rightarrow> i + extra < length s \<and> (case utf8_cont s i extra 1 cp of None \<Rightarrow> False
        | Some cp \<Rightarrow> unat cpMin \<le> unat cp \<and> unat cp \<le> 0x10FFFF \<and> \<not> (0xD800 \<le> unat cp \<and> unat cp \<le> 0xDFFF)
            \<and> isValidUtf8_at s (i + (extra + 1))))"
  using assms
  by (subst isValidUtf8_at.simps)
    (auto simp: Let_def word_less_nat_alt word_le_nat_alt word_unat_eq_iff split: option.splits)

lemma isValidUtf8_at_2:
  assumes "i < length s" "unat (s ! i) div 32 = 6"
  defines "n \<equiv> unat (s ! i) mod 32 * 64 + unat (s ! (i + 1)) mod 64"
  shows "isValidUtf8_at s i \<longleftrightarrow> i + 1 < length s \<and> unat (s ! (i + 1)) div 64 = 2
    \<and> 0x80 \<le> n \<and> utf8Scalar n \<and> isValidUtf8_at s (i + 2)"
proof -
  have "0x80 \<le> unat (s ! i)" using assms(2) by linarith
  moreover have "unat (utf8Shift (ucast (s ! i AND 0x1F)) (s ! (i + 1))) = n"
    unfolding n_def by (subst unat_utf8Shift) (auto simp: unat_low_bits intro: less_trans [of _ 32])
  ultimately show ?thesis
    using assms(1) by (auto simp: isValidUtf8_at_multi utf8_lead_cases assms(2)
        utf8_cont_rounds [unfolded One_nat_def] utf8Scalar_def)
qed

lemma isValidUtf8_at_3:
  assumes "i < length s" "unat (s ! i) div 16 = 14"
  defines "n \<equiv> (unat (s ! i) mod 16 * 64 + unat (s ! (i + 1)) mod 64) * 64 + unat (s ! (i + 2)) mod 64"
  shows "isValidUtf8_at s i \<longleftrightarrow> i + 2 < length s \<and> unat (s ! (i + 1)) div 64 = 2
    \<and> unat (s ! (i + 2)) div 64 = 2 \<and> 0x800 \<le> n \<and> utf8Scalar n \<and> isValidUtf8_at s (i + 3)"
proof -
  have hi: "0x80 \<le> unat (s ! i)" using assms(2) by linarith
  have b: "unat (utf8Shift (ucast (s ! i AND 0x0F)) (s ! (i + 1)))
      = unat (s ! i) mod 16 * 64 + unat (s ! (i + 1)) mod 64"
    by (subst unat_utf8Shift) (auto simp: unat_low_bits intro: less_trans [of _ 16])
  have m: "unat (s ! i) mod 16 < 16" "unat (s ! (i + 1)) mod 64 < 64" by simp_all
  have "unat (utf8Shift (utf8Shift (ucast (s ! i AND 0x0F)) (s ! (i + 1))) (s ! (i + 2))) = n"
    unfolding n_def by (subst unat_utf8Shift) (use b m in auto)
  with hi show ?thesis
    using assms(1) by (auto simp: isValidUtf8_at_multi utf8_lead_cases assms(2)
        utf8_cont_rounds [unfolded One_nat_def] utf8Scalar_def)
qed

lemma isValidUtf8_at_4:
  assumes "i < length s" "unat (s ! i) div 8 = 30"
  defines "n \<equiv> ((unat (s ! i) mod 8 * 64 + unat (s ! (i + 1)) mod 64) * 64
      + unat (s ! (i + 2)) mod 64) * 64 + unat (s ! (i + 3)) mod 64"
  shows "isValidUtf8_at s i \<longleftrightarrow> i + 3 < length s \<and> unat (s ! (i + 1)) div 64 = 2
    \<and> unat (s ! (i + 2)) div 64 = 2 \<and> unat (s ! (i + 3)) div 64 = 2
    \<and> 0x10000 \<le> n \<and> utf8Scalar n \<and> isValidUtf8_at s (i + 4)"
proof -
  have hi: "0x80 \<le> unat (s ! i)" using assms(2) by linarith
  have b: "unat (utf8Shift (ucast (s ! i AND 0x07)) (s ! (i + 1)))
      = unat (s ! i) mod 8 * 64 + unat (s ! (i + 1)) mod 64"
    by (subst unat_utf8Shift) (auto simp: unat_low_bits intro: less_trans [of _ 8])
  have m: "unat (s ! i) mod 8 < 8" "unat (s ! (i + 1)) mod 64 < 64" "unat (s ! (i + 2)) mod 64 < 64"
    by simp_all
  have c: "unat (utf8Shift (utf8Shift (ucast (s ! i AND 0x07)) (s ! (i + 1))) (s ! (i + 2)))
      = (unat (s ! i) mod 8 * 64 + unat (s ! (i + 1)) mod 64) * 64 + unat (s ! (i + 2)) mod 64"
    by (subst unat_utf8Shift) (use b m in auto)
  have "unat (utf8Shift (utf8Shift (utf8Shift (ucast (s ! i AND 0x07)) (s ! (i + 1))) (s ! (i + 2)))
      (s ! (i + 3))) = n"
    unfolding n_def by (subst unat_utf8Shift) (use c m in auto)
  with hi show ?thesis
    using assms(1) by (auto simp: isValidUtf8_at_multi utf8_lead_cases assms(2)
        utf8_cont_rounds [unfolded One_nat_def] utf8Scalar_def)
qed

lemma isValidUtf8_at_bad:
  assumes "i < length s" "0x80 \<le> unat (s ! i)" "unat (s ! i) div 32 \<noteq> 6"
    "unat (s ! i) div 16 \<noteq> 14" "unat (s ! i) div 8 \<noteq> 30"
  shows "\<not> isValidUtf8_at s i"
  using assms by (simp add: isValidUtf8_at_multi utf8_lead_def high_bits_iff)

text \<open>The encodings in numbers.\<close>

lemma digits64: "y < 64 \<Longrightarrow> (x * 64 + y) div 64 = x" "y < 64 \<Longrightarrow> (x * 64 + y) mod 64 = (y :: nat)"
  by simp_all

lemma utf8Enc_2:
  assumes "unat a div 32 = 6" "unat b div 64 = 2" "n = unat a mod 32 * 64 + unat b mod 64" "0x80 \<le> n"
  shows "utf8Enc n = [a, b]"
proof -
  have m: "unat a mod 32 < 32" "unat b mod 64 < 64" by simp_all
  then have d: "n div 64 = unat a mod 32" "n mod 64 = unat b mod 64" "n < 0x800"
    using assms(3) by auto
  have e: "unat a = 192 + unat a mod 32" "unat b = 128 + unat b mod 64" 
    using assms(1,2) div_eq_iff_mod [of 32 "unat a" 6] div_eq_iff_mod [of 64 "unat b" 2] by simp_all
  show ?thesis using assms(4) d m e by (simp add: utf8Enc_def word_u8_eq)
qed

lemma utf8Enc_3:
  assumes "unat a div 16 = 14" "unat b div 64 = 2" "unat c div 64 = 2"
    "n = (unat a mod 16 * 64 + unat b mod 64) * 64 + unat c mod 64" "0x800 \<le> n"
  shows "utf8Enc n = [a, b, c]"
proof -
  have m: "unat a mod 16 < 16" "unat b mod 64 < 64" "unat c mod 64 < 64" by simp_all
  then have "n div 64 = unat a mod 16 * 64 + unat b mod 64" "n mod 64 = unat c mod 64" "n < 0x10000"
    using assms(4) by (simp_all only: digits64) simp
  moreover have "n div 4096 = n div 64 div 64" by (simp add: div_mult2_eq [symmetric])
  ultimately have d: "n div 4096 = unat a mod 16" "n div 64 mod 64 = unat b mod 64"
    "n mod 64 = unat c mod 64" "n < 0x10000" using m
    by (simp_all only: digits64)
  have e: "unat a = 224 + unat a mod 16" "unat b = 128 + unat b mod 64" "unat c = 128 + unat c mod 64"
    using assms(1-3) div_eq_iff_mod [of 16 "unat a" 14] div_eq_iff_mod [of 64 _ 2] by simp_all
  show ?thesis using assms(5) d m e by (simp add: utf8Enc_def word_u8_eq)
qed

lemma utf8Enc_4:
  assumes "unat a div 8 = 30" "unat b div 64 = 2" "unat c div 64 = 2" "unat d div 64 = 2"
    "n = ((unat a mod 8 * 64 + unat b mod 64) * 64 + unat c mod 64) * 64 + unat d mod 64"
    "0x10000 \<le> n"
  shows "utf8Enc n = [a, b, c, d]"
proof -
  have m: "unat a mod 8 < 8" "unat b mod 64 < 64" "unat c mod 64 < 64" "unat d mod 64 < 64" by simp_all
  then have "n div 64 = (unat a mod 8 * 64 + unat b mod 64) * 64 + unat c mod 64"
      "n mod 64 = unat d mod 64"
    using assms(5) by (simp_all only: digits64)
  moreover have "n div 4096 = n div 64 div 64" "n div 262144 = n div 64 div 64 div 64"
    by (simp_all add: div_mult2_eq [symmetric])
  ultimately have d: "n div 262144 = unat a mod 8" "n div 4096 mod 64 = unat b mod 64"
      "n div 64 mod 64 = unat c mod 64" "n mod 64 = unat d mod 64" using m
    by (simp_all only: digits64)
  have e: "unat a = 240 + unat a mod 8" "unat b = 128 + unat b mod 64" "unat c = 128 + unat c mod 64"
    "unat d = 128 + unat d mod 64"
    using assms(1-4) div_eq_iff_mod [of 8 "unat a" 30] div_eq_iff_mod [of 64 _ 2] by simp_all
  show ?thesis using assms(6) d m e by (simp add: utf8Enc_def word_u8_eq)
qed

text \<open>One accepted sequence is the encoding of a scalar value, and conversely.\<close>

lemma subspan_split: "i + k \<le> length s \<Longrightarrow> subspan s i k = e \<Longrightarrow> drop i s = e @ drop (i + k) s"
  by (metis append_take_drop_id drop_drop add.commute)

lemma utf8_accept_step:
  assumes "i < length s" "isValidUtf8_at s i"
  shows "\<exists>k n. 0 < k \<and> i + k \<le> length s \<and> utf8Scalar n \<and> subspan s i k = utf8Enc n
    \<and> isValidUtf8_at s (i + k)"
proof -
  consider "unat (s ! i) < 0x80" | "unat (s ! i) div 32 = 6" | "unat (s ! i) div 16 = 14"
    | "unat (s ! i) div 8 = 30"
    using assms isValidUtf8_at_bad not_le by blast
  then show ?thesis
  proof cases
    case 1
    with assms show ?thesis
      by (intro exI [of _ 1] exI [of _ "unat (s ! i)"])
        (simp add: isValidUtf8_at_1 utf8Scalar_def utf8Enc_def take_one_drop)
  next
    case 2
    with assms have *: "i + 1 < length s" "unat (s ! (i + 1)) div 64 = 2"
      "isValidUtf8_at s (i + 2)" by (simp_all only: isValidUtf8_at_2)
    from 2 assms have "utf8Scalar (unat (s ! i) mod 32 * 64 + unat (s ! (i + 1)) mod 64)"
      "0x80 \<le> unat (s ! i) mod 32 * 64 + unat (s ! (i + 1)) mod 64"
      by (simp_all only: isValidUtf8_at_2)
    with * 2 show ?thesis
      by (intro exI [of _ 2] exI) (auto simp: subspan_two utf8Enc_2)
  next
    case 3
    let ?n = "(unat (s ! i) mod 16 * 64 + unat (s ! (i + 1)) mod 64) * 64 + unat (s ! (i + 2)) mod 64"
    from 3 assms have *: "i + 2 < length s" "unat (s ! (i + 1)) div 64 = 2"
      "unat (s ! (i + 2)) div 64 = 2" "isValidUtf8_at s (i + 3)" "utf8Scalar ?n" "0x800 \<le> ?n"
      by (simp_all only: isValidUtf8_at_3)
    have "utf8Enc ?n = [s ! i, s ! (i + 1), s ! (i + 2)]"
      by (rule utf8Enc_3 [OF 3 *(2,3) refl *(6)])
    moreover from *(1) have "subspan s i 3 = [s ! i, s ! (i + 1), s ! (i + 2)]"
      by (simp add: subspan_nth_upt upt_rec eval_nat_numeral)
    ultimately have "subspan s i 3 = utf8Enc ?n" by simp
    moreover have "0 < (3::nat)" "i + 3 \<le> length s" using *(1) by simp_all
    ultimately show ?thesis using *(4,5) by blast
  next
    case 4
    let ?n = "((unat (s ! i) mod 8 * 64 + unat (s ! (i + 1)) mod 64) * 64
      + unat (s ! (i + 2)) mod 64) * 64 + unat (s ! (i + 3)) mod 64"
    from 4 assms have *: "i + 3 < length s" "unat (s ! (i + 1)) div 64 = 2"
      "unat (s ! (i + 2)) div 64 = 2" "unat (s ! (i + 3)) div 64 = 2"
      "isValidUtf8_at s (i + 4)" "utf8Scalar ?n" "0x10000 \<le> ?n"
      by (simp_all only: isValidUtf8_at_4)
    have "utf8Enc ?n = [s ! i, s ! (i + 1), s ! (i + 2), s ! (i + 3)]"
      by (rule utf8Enc_4 [OF 4 *(2-4) refl *(7)])
    then have "subspan s i 4 = utf8Enc ?n" using subspan_four [of i s] *(1) by simp
    moreover have "0 < (4::nat)" "i + 4 \<le> length s" using *(1) by simp_all
    ultimately show ?thesis using *(5,6) by blast
  qed
qed

lemma utf8Enc_shape:
  assumes "utf8Scalar n"
  obtains (1) "n < 0x80" "utf8Enc n = [of_nat n]"
  | (2) a b where "0x80 \<le> n" "utf8Enc n = [a, b]" "unat a div 32 = 6" "unat b div 64 = 2"
      "n = unat a mod 32 * 64 + unat b mod 64"
  | (3) a b c where "0x800 \<le> n" "utf8Enc n = [a, b, c]" "unat a div 16 = 14" "unat b div 64 = 2"
      "unat c div 64 = 2" "n = (unat a mod 16 * 64 + unat b mod 64) * 64 + unat c mod 64"
  | (4) a b c d where "0x10000 \<le> n" "utf8Enc n = [a, b, c, d]" "unat a div 8 = 30"
      "unat b div 64 = 2" "unat c div 64 = 2" "unat d div 64 = 2"
      "n = ((unat a mod 8 * 64 + unat b mod 64) * 64 + unat c mod 64) * 64 + unat d mod 64"
proof -
  have "unat (of_nat (128 + x mod 64) :: u8) = 2 * 64 + x mod 64" for x
    using unat_of_nat_u8 [of "128 + x mod 64"] mod_less_divisor [of 64 x] by simp
  then have cont: "unat (of_nat (128 + x mod 64) :: u8) div 64 = 2"
      "unat (of_nat (128 + x mod 64) :: u8) mod 64 = x mod 64" for x
    by (simp_all only: digits64 mod_less_divisor zero_less_numeral)
  have lead: "unat (of_nat (p * k + x) :: u8) div k = p" "unat (of_nat (p * k + x) :: u8) mod k = x"
    if "x < k" "p * k + x < 256" for p k x
    unfolding unat_of_nat_u8 [OF that(2)] using that(1) by simp_all
  have "n div 4096 = n div 64 div 64" "n div 262144 = n div 4096 div 64"
    by (simp_all add: div_mult2_eq [symmetric])
  then have base: "n div 64 * 64 + n mod 64 = n" "n div 4096 * 64 + n div 64 mod 64 = n div 64"
      "n div 262144 * 64 + n div 4096 mod 64 = n div 4096"
    by (simp_all only: div_mult_mod_eq)
  consider "n < 0x80" | "0x80 \<le> n" "n < 0x800" | "0x800 \<le> n" "n < 0x10000"
    | "0x10000 \<le> n" "n < 0x110000" using assms unfolding utf8Scalar_def by linarith
  then show thesis
  proof cases
    case 1
    then show thesis by (intro that(1)) (simp_all add: utf8Enc_def)
  next
    case 2
    then have q: "n div 64 < 32" "6 * 32 + n div 64 < 256" by simp_all
    show thesis
      by (rule that(2) [of "of_nat (6 * 32 + n div 64)" "of_nat (128 + n mod 64)"])
        (simp_all only: lead [OF q] cont base 2, use 2 in \<open>simp add: utf8Enc_def\<close>)
  next
    case 3
    then have q: "n div 4096 < 16" "14 * 16 + n div 4096 < 256" by simp_all
    show thesis
      by (rule that(3) [of "of_nat (14 * 16 + n div 4096)" "of_nat (128 + n div 64 mod 64)"
            "of_nat (128 + n mod 64)"])
        (simp_all only: lead [OF q] cont base 3, use 3 in \<open>simp add: utf8Enc_def\<close>)
  next
    case 4
    then have q: "n div 262144 < 8" "30 * 8 + n div 262144 < 256" by simp_all
    show thesis
      by (rule that(4) [of "of_nat (30 * 8 + n div 262144)" "of_nat (128 + n div 4096 mod 64)"
            "of_nat (128 + n div 64 mod 64)" "of_nat (128 + n mod 64)"])
        (simp_all only: lead [OF q] cont base 4, use 4 in \<open>simp add: utf8Enc_def\<close>)
  qed
qed

lemma utf8_enc_step:
  assumes "utf8Scalar n" "drop i s = utf8Enc n @ r"
  shows "isValidUtf8_at s i \<longleftrightarrow> isValidUtf8_at s (i + length (utf8Enc n))"
proof -
  have at: "s ! (i + j) = (utf8Enc n @ r) ! j" if "j < length (utf8Enc n)" for j
    using that assms(2) by (metis nth_drop length_append length_drop add_leD1 nat_le_linear
        drop_all append_is_Nil_conv list.size(3) not_less_zero)
  have len: "length (utf8Enc n) \<le> length s - i" using assms(2) by (metis length_append length_drop le_add1)
  show ?thesis
    using assms(1)
  proof (cases rule: utf8Enc_shape)
    case 1
    then have "s ! i = of_nat n" "i < length s" using at [of 0] len by simp_all
    with 1 assms(1) show ?thesis
      by (subst isValidUtf8_at_1) (auto simp: unat_of_nat_u8 utf8Scalar_def)
  next
    case (2 a b)
    then have "s ! i = a" "s ! (i + 1) = b" using at [of 0] at [of 1] by simp_all
    moreover have "i + 1 < length s" using 2(2) len by simp
    ultimately show ?thesis using 2 assms(1) by (subst isValidUtf8_at_2) auto
  next
    case (3 a b c)
    have at3: "s ! i = a" "s ! (i + 1) = b" "s ! (i + 2) = c"
      using at [of 0] at [of 1] at [of 2] by (simp_all add: 3(2))
    have lt: "i + 2 < length s" using 3(2) len by simp
    have "i < length s" using lt by simp
    then have "isValidUtf8_at s i \<longleftrightarrow> isValidUtf8_at s (i + 3)"
      by (simp only: isValidUtf8_at_3 at3 3(3-5) 3(6) [symmetric] 3(1) assms(1) lt simp_thms)
    then show ?thesis using 3(2) by (simp add: numeral_3_eq_3)
  next
    case (4 a b c d)
    have at4: "s ! i = a" "s ! (i + 1) = b" "s ! (i + 2) = c" "s ! (i + 3) = d"
      using at [of 0] at [of 1] at [of 2] at [of 3] by (simp_all add: 4(2))
    have lt: "i + 3 < length s" using 4(2) len by simp
    have "i < length s" using lt by simp
    then have "isValidUtf8_at s i \<longleftrightarrow> isValidUtf8_at s (i + 4)"
      by (simp only: isValidUtf8_at_4 at4 4(3-6) 4(7) [symmetric] 4(1) assms(1) lt simp_thms)
    then show ?thesis using 4(2) by (simp add: eval_nat_numeral)
  qed
qed

lemma isValidUtf8_at_end: "\<not> i < length s \<Longrightarrow> isValidUtf8_at s i"
  by (simp add: isValidUtf8_at.simps)

lemma isValidUtf8_at_sound:
  "\<lbrakk>i \<le> length s; isValidUtf8_at s i\<rbrakk> \<Longrightarrow>
    \<exists>ns. (\<forall>n\<in>set ns. utf8Scalar n) \<and> drop i s = concat (map utf8Enc ns)"
proof (induction "length s - i" arbitrary: i rule: less_induct)
  case less
  show ?case
  proof (cases "i < length s")
    case False
    with less.prems show ?thesis by (intro exI [of _ "[]"]) simp
  next
    case True
    with less.prems utf8_accept_step obtain k n where k: "0 < k" "i + k \<le> length s" "utf8Scalar n"
      "subspan s i k = utf8Enc n" "isValidUtf8_at s (i + k)" by blast
    then have "length s - (i + k) < length s - i" by simp
    with less.hyps [of "i + k"] k obtain ns where "\<forall>n\<in>set ns. utf8Scalar n"
      "drop (i + k) s = concat (map utf8Enc ns)" by blast
    with k subspan_split [of i k s] show ?thesis by (intro exI [of _ "n # ns"]) simp
  qed
qed

lemma isValidUtf8_at_complete:
  "\<lbrakk>\<forall>n\<in>set ns. utf8Scalar n; drop i s = concat (map utf8Enc ns); i \<le> length s\<rbrakk> \<Longrightarrow> isValidUtf8_at s i"
proof (induction ns arbitrary: i)
  case Nil
  then show ?case by (intro isValidUtf8_at_end) simp
next
  case (Cons n ns)
  then have eq: "drop i s = utf8Enc n @ concat (map utf8Enc ns)" by simp
  then have "length s - i = length (utf8Enc n) + length (concat (map utf8Enc ns))"
    by (metis length_append length_drop)
  moreover have "drop (i + length (utf8Enc n)) s = concat (map utf8Enc ns)"
    using eq by (metis add.commute append_eq_conv_conj drop_drop)
  ultimately have "isValidUtf8_at s (i + length (utf8Enc n))"
    using Cons by (intro Cons.IH) auto
  with utf8_enc_step [OF _ eq] Cons.prems(1) show ?case by simp
qed

lemma isValidUtf8_iff:
  "isValidUtf8 s \<longleftrightarrow> (\<exists>ns. (\<forall>n\<in>set ns. utf8Scalar n) \<and> s = concat (map utf8Enc ns))"
  unfolding isValidUtf8_def
  using isValidUtf8_at_sound [of 0 s] isValidUtf8_at_complete [of _ 0 s] by auto

section \<open>What the composite validators establish\<close>

text \<open>The lengths a verdict of \<open>validateSubmit\<close> vouches for.\<close>

lemma r4_submitIdentity_ok:
  assumes "v_ok (r4_submitIdentity h b)"
  shows "unat (h_totalLen h) = unat (sb_isoPktCount b) * 16
      + (if sb_dir b = dirCode DirOut then unat (sb_bufferLen b) else 0)"
    and "sb_dir b \<le> 1" and "sb_xferType b \<le> 3"
    and "sb_isoPktCount b \<noteq> 0 \<Longrightarrow> sb_xferType b = xferCode XIsochronous"
    and "sb_epAddr b AND 0x0F \<noteq> 0 \<Longrightarrow> sb_dir b = drop_bit 7 (sb_epAddr b)"
proof -
  let ?e = "(ucast (sb_isoPktCount b) :: u64) * 16"
  have "(if sb_dir b = dirCode DirOut then ?e + ucast (sb_bufferLen b) else ?e) = ucast (h_totalLen h)"
    using assms by (auto simp: r4_submitIdentity_def Let_def split: if_splits)
  then have "unat (if sb_dir b = dirCode DirOut then ?e + ucast (sb_bufferLen b) else ?e)
      = unat (h_totalLen h)" by (simp only: unat_ucast_u64)
  then show "unat (h_totalLen h) = unat (sb_isoPktCount b) * 16
      + (if sb_dir b = dirCode DirOut then unat (sb_bufferLen b) else 0)"
    by (simp add: unat_iso_bytes unat_iso_bytes_add split: if_splits)
qed (use assms in \<open>auto simp: r4_submitIdentity_def Let_def not_less split: if_splits\<close>)

lemma r4_completeIdentity_ok:
  assumes "v_ok (r4_completeIdentity h b)"
  shows "unat (h_totalLen h) = unat (cb_isoPktCount b) * 16 + unat (cb_payloadLen b)"
    and "cb_dir b \<le> 1" and "cb_xferType b \<le> 3" and "cb_reserved b = 0"
    and "cb_xferType b \<noteq> xferCode XIsochronous \<Longrightarrow> cb_isoPktCount b = 0"
proof -
  have "(ucast (cb_isoPktCount b) :: u64) * 16 + ucast (cb_payloadLen b) = ucast (h_totalLen h)"
    using assms by (auto simp: r4_completeIdentity_def Let_def split: if_splits)
  then have "unat ((ucast (cb_isoPktCount b) :: u64) * 16 + ucast (cb_payloadLen b)) = unat (h_totalLen h)"
    by (simp only: unat_ucast_u64)
  then show "unat (h_totalLen h) = unat (cb_isoPktCount b) * 16 + unat (cb_payloadLen b)"
    by (simp only: unat_iso_bytes_add)
qed (use assms in \<open>auto simp: r4_completeIdentity_def Let_def not_less split: if_splits\<close>)

lemma r5_actualLen_ok:
  assumes "v_ok (r5_actualLen b)"
  shows "cb_actualLen b \<le> cb_requestedLen b"
    and "cb_xferType b \<noteq> xferCode XIsochronous \<Longrightarrow>
      cb_payloadLen b = (if cb_dir b = dirCode DirIn then cb_actualLen b else 0)"
  using assms by (auto simp: r5_actualLen_def Let_def not_less split: if_splits)

lemma validateHeader_ok_iff:
  "v_ok (validateHeader h avail lim) \<longleftrightarrow>
    (h_flags h AND kFlagReservedMask \<noteq> 0 \<longrightarrow> \<not> isDataPlane (h_type h))
    \<and> h_totalLen h \<le> lim_maxTransferBytes lim \<and> h_segOffset h \<le> h_totalLen h
    \<and> (case fixedBodySize (h_type h) of None \<Rightarrow> \<not> isDataPlane (h_type h)
       | Some n \<Rightarrow> n \<le> unat (h_bodyLen h) \<and> unat (h_bodyLen h) \<le> avail)
    \<and> (h_status h \<noteq> 0 \<longrightarrow> isResponse (h_type h)) \<and> isWireLegal (h_status h)"
  by (auto simp: validateHeader_def verdict_simps not_less split: option.splits if_splits)

section \<open>Properties\<close>

text \<open>
  C21: R6 accepts a non-empty isochronous table exactly when the packet count is within both
  ceilings, the table holds that many descriptors, every packet lies inside the buffer, offsets do
  not decrease and the lengths sum to at most the buffer, all in unbounded arithmetic.
\<close>

theorem r6_isoTable_exact:
  "v_ok (r6_isoTable tbl n bl lim) \<longleftrightarrow>
    n = 0 \<or> (n \<le> lim_maxIsoPackets lim \<and> n \<le> kIsoPacketsCeiling \<and> unat n * kIsoDescSize \<le> length tbl
      \<and> isoTableOk (isoDescs tbl (unat n)) (unat bl))"
  by (rule r6_isoTable_ok)

text \<open>
  C22: \<open>isValidUtf8\<close> accepts exactly the concatenations of standard UTF-8 encodings of Unicode
  scalar values other than NUL, so overlong forms, surrogates, values above U+10FFFF, stray
  continuation bytes and truncated sequences are all refused.
\<close>

theorem isValidUtf8_exact:
  "isValidUtf8 s \<longleftrightarrow> (\<exists>ns. (\<forall>n\<in>set ns. utf8Scalar n) \<and> s = concat (map utf8Enc ns))"
  by (rule isValidUtf8_iff)

theorem isValidUtf8_exact_witness:
  "isValidUtf8 [0xE2, 0x82, 0xAC, 0x41] \<and> \<not> isValidUtf8 [0xC0, 0x80]"
proof (rule conjI)
  have "[0xE2, 0x82, 0xAC, 0x41] = concat (map utf8Enc [0x20AC, 0x41])" by (simp add: utf8Enc_def)
  then show "isValidUtf8 [0xE2, 0x82, 0xAC, 0x41]"
    unfolding isValidUtf8_exact by (intro exI [of _ "[0x20AC, 0x41]"]) (simp add: utf8Scalar_def)
  show "\<not> isValidUtf8 [0xC0, 0x80]"
    by (simp add: isValidUtf8_def isValidUtf8_at.simps utf8_lead_def utf8_cont.simps Let_def)
qed



text \<open>
  A SUBMIT that passes \<open>validateSubmit\<close> has a buffer within the negotiated maximum, a total
  length that is the packet table plus the OUT data, a direction that agrees with the endpoint
  address, no stream, and for isochronous transfers a packet table that stays inside the buffer.
\<close>

theorem validateSubmit_sound:
  assumes "v_ok (validateSubmit h b dataSection lim)"
  shows "sb_bufferLen b \<le> lim_maxTransferBytes lim
    \<and> unat (h_totalLen h) = unat (sb_isoPktCount b) * kIsoDescSize
        + (if sb_dir b = dirCode DirOut then unat (sb_bufferLen b) else 0)
    \<and> (sb_epAddr b AND 0x0F \<noteq> 0 \<longrightarrow> sb_dir b = drop_bit 7 (sb_epAddr b))
    \<and> sb_streamId b = 0
    \<and> (sb_isoPktCount b \<noteq> 0 \<longrightarrow>
        isoTableOk (isoDescs dataSection (unat (sb_isoPktCount b))) (unat (sb_bufferLen b)))"
proof -
  from assms have ok: "v_ok (r4_submitIdentity h b)" "sb_bufferLen b \<le> lim_maxTransferBytes lim"
      "sb_streamId b = 0"
    and iso: "sb_xferType b = xferCode XIsochronous \<Longrightarrow>
      v_ok (r6_isoTable dataSection (sb_isoPktCount b) (sb_bufferLen b) lim)"
    by (auto simp: validateSubmit_def Let_def not_less split: if_splits)
  have "isoTableOk (isoDescs dataSection (unat (sb_isoPktCount b))) (unat (sb_bufferLen b))"
    if "sb_isoPktCount b \<noteq> 0"
    using iso [OF r4_submitIdentity_ok(4) [OF ok(1) that]] that by (simp add: r6_isoTable_ok)
  with ok r4_submitIdentity_ok(1,5) [OF ok(1)] show ?thesis by auto
qed

theorem validateSubmit_sound_witness:
  "\<exists>b. v_ok (validateSubmit (Header0\<lparr>h_totalLen := 512\<rparr>) b (replicate 512 0) Limits0)
     \<and> sb_epAddr b = 0x02 \<and> sb_dir b = drop_bit 7 (sb_epAddr b) \<and> sb_streamId b = 0"
proof -
  define b where "b = \<lparr>sb_epAddr = 0x02, sb_xferType = 2, sb_dir = 0, sb_xflags = 0,
    sb_bufferLen = 512, sb_timeoutMs = 0, sb_isoPktCount = 0, sb_interval = 0, sb_streamId = 0,
    sb_setup = replicate 8 0, sb_submitTsNs = 99\<rparr>"
  have ok: "v_ok (validateSubmit (Header0\<lparr>h_totalLen := 512\<rparr>) b (replicate 512 0) Limits0)"
    by (simp add: validateSubmit_def r4_submitIdentity_def b_def Header0_def Limits0_def Let_def)
  have "sb_epAddr b AND 0x0F \<noteq> 0" "sb_epAddr b = 0x02" by (simp_all add: b_def)
  with validateSubmit_sound [OF ok] ok show ?thesis by blast
qed

end
