(* ===== verification/Assoc.thy ===== *)
theory Assoc
  imports Prelude "HOL-Library.AList"
begin

text \<open>
  \<open>std::map\<close> as an association list with distinct keys.  Lookup is \<open>map_of\<close>, insertion and
  assignment are \<open>AList.update\<close>, erasure is \<open>AList.delete\<close>.  The lemmas relate sizes and sums over
  the entries to these operations; they carry the accounting invariants of the components.
\<close>

type_synonym ('k, 'v) smap = "('k \<times> 'v) list"

abbreviation keys :: "('k, 'v) smap \<Rightarrow> 'k list" where
  "keys m \<equiv> map fst m"

definition asum :: "('v \<Rightarrow> nat) \<Rightarrow> ('k, 'v) smap \<Rightarrow> nat" where
  "asum f m = sum_list (map (f \<circ> snd) m)"

lemma asum_simps [simp]: "asum f [] = 0" "asum f ((k, v) # m) = f v + asum f m"
  by (simp_all add: asum_def)

lemma delete_notin: "k \<notin> set (keys m) \<Longrightarrow> AList.delete k m = m"
  by (induction m) auto

lemma keys_delete: "keys (AList.delete k m) = removeAll k (keys m)"
  by (induction m) auto

lemma distinct_keys_delete [simp]: "distinct (keys m) \<Longrightarrow> distinct (keys (AList.delete k m))"
  by (rule distinct_delete)

lemma distinct_keys_update [simp]: "distinct (keys m) \<Longrightarrow> distinct (keys (AList.update k v m))"
  by (rule distinct_update)

lemma set_delete_sub: "x \<in> set (AList.delete k m) \<Longrightarrow> x \<in> set m"
  by (induction m) (auto split: if_splits)

lemma mem_delete: "(k', v) \<in> set (AList.delete k m) \<longleftrightarrow> (k', v) \<in> set m \<and> k' \<noteq> k"
  by (induction m) auto

lemma update_notin: "k \<notin> set (keys m) \<Longrightarrow> AList.update k v m = m @ [(k, v)]"
  by (induction m) auto

lemma map_of_in_keys: "map_of m k = Some v \<Longrightarrow> k \<in> set (keys m)"
  by (metis domI dom_map_of_conv_image_fst list.set_map)

lemma map_of_notin_keys: "map_of m k = None \<longleftrightarrow> k \<notin> set (keys m)"
  by (simp add: map_of_eq_None_iff)

lemma asum_delete:
  "\<lbrakk>distinct (keys m); map_of m k = Some v\<rbrakk> \<Longrightarrow> asum f m = f v + asum f (AList.delete k m)"
  by (induction m) (auto split: if_splits simp: delete_notin)

lemma asum_member: "\<lbrakk>distinct (keys m); map_of m k = Some v\<rbrakk> \<Longrightarrow> f v \<le> asum f m"
  by (simp add: asum_delete)

lemma asum_update_old:
  "\<lbrakk>distinct (keys m); map_of m k = Some v\<rbrakk> \<Longrightarrow> asum f (AList.update k w m) + f v = asum f m + f w"
  by (induction m) (auto split: if_splits)

lemma asum_append [simp]: "asum f (m @ n) = asum f m + asum f n"
  by (simp add: asum_def)

lemma asum_update_new: "map_of m k = None \<Longrightarrow> asum f (AList.update k w m) = asum f m + f w"
  by (simp add: update_notin map_of_notin_keys)

lemma length_update_old: "map_of m k = Some v \<Longrightarrow> length (AList.update k w m) = length m"
  by (induction m) auto

lemma length_update_new: "map_of m k = None \<Longrightarrow> length (AList.update k w m) = Suc (length m)"
  by (simp add: update_notin map_of_notin_keys)

lemma length_delete_in:
  "\<lbrakk>distinct (keys m); map_of m k = Some v\<rbrakk> \<Longrightarrow> Suc (length (AList.delete k m)) = length m"
  by (induction m) (auto split: if_splits simp: delete_notin)

lemma delete_update_new: "map_of m k = None \<Longrightarrow> AList.delete k (AList.update k v m) = m"
  by (induction m) (auto split: if_splits)

lemma mem_update:
  "(k', w) \<in> set (AList.update k v m) \<Longrightarrow> (k', w) = (k, v) \<or> (k', w) \<in> set m"
  by (induction m) (auto split: if_splits)

lemma map_of_mem: "\<lbrakk>distinct (keys m); (k, v) \<in> set m\<rbrakk> \<Longrightarrow> map_of m k = Some v"
  by simp

lemma asum_filter_partition:
  "asum f m = asum f (filter P m) + asum f (filter (\<lambda>x. \<not> P x) m)"
  by (induction m) auto

text \<open>Assignment through \<open>std::map::operator[]\<close>: the entries stay in key order.\<close>

fun mapPut :: "'k :: linorder \<Rightarrow> 'v \<Rightarrow> ('k, 'v) smap \<Rightarrow> ('k, 'v) smap" where
  "mapPut k v [] = [(k, v)]"
| "mapPut k v ((k', v') # m) =
     (if k = k' then (k, v) # m
      else if k < k' then (k, v) # (k', v') # m
      else (k', v') # mapPut k v m)"

lemma map_of_mapPut: "map_of (mapPut k v m) = (map_of m)(k \<mapsto> v)"
  by (induction k v m rule: mapPut.induct) auto

lemma keys_mapPut: "set (keys (mapPut k v m)) = insert k (set (keys m))"
  by (induction k v m rule: mapPut.induct) auto

lemma distinct_mapPut [simp]: "sorted (keys m) \<Longrightarrow> distinct (keys m) \<Longrightarrow> distinct (keys (mapPut k v m))"
proof (induction k v m rule: mapPut.induct)
  case (2 k v k' v' m)
  then show ?case using keys_mapPut [of k v m] by (auto simp del: set_map)
qed simp

lemma sorted_mapPut [simp]: "sorted (keys m) \<Longrightarrow> sorted (keys (mapPut k v m))"
proof (induction k v m rule: mapPut.induct)
  case (2 k v k' v' m)
  then show ?case using keys_mapPut [of k v m] by (auto simp del: set_map)
qed simp

lemma sorted_keys_delete [simp]: "sorted (keys m) \<Longrightarrow> sorted (keys (AList.delete k m))"
  by (simp add: keys_delete removeAll_filter_not_eq sorted_filter [where f = id, simplified])

lemma asum_mapPut:
  "\<lbrakk>sorted (keys m); distinct (keys m)\<rbrakk> \<Longrightarrow>
    asum f (mapPut k v m) + (case map_of m k of None \<Rightarrow> 0 | Some w \<Rightarrow> f w) = asum f m + f v"
proof (induction k v m rule: mapPut.induct)
  case (2 k v k' v' m)
  show ?case
  proof (cases "k = k'")
    case False
    then have "k < k' \<Longrightarrow> map_of m k = None" using 2(2) by (auto simp: map_of_eq_None_iff)
    then show ?thesis using 2 False by auto
  qed simp
qed simp

end
