(* ===== verification/Segmentation.thy ===== *)
theory Segmentation
  imports Validate Assoc
begin

text \<open>
  Segmentation of logical transfers (\<open>protocol/Segmentation.h\<close>, \<open>protocol/Segmentation.cpp\<close>):
  the plan of the sender, \<open>emitTransfer\<close> with its \<open>send\<close> callback on a caller state, and the
  \<open>Reassembler\<close> with its arena accounting in 64-bit words.
\<close>

section \<open>Planning\<close>

record SegmentPlan =
  sp_offset :: u32
  sp_length :: u32
  sp_first :: bool
  sp_more :: bool

text \<open>The \<open>while\<close> loop of \<open>planSegments\<close>; the caller has excluded \<open>maxSegmentBytes = 0\<close>.\<close>

function planLoop :: "u32 \<Rightarrow> u32 \<Rightarrow> u32 \<Rightarrow> SegmentPlan list" where
  "planLoop totalLen maxSegmentBytes offset =
     (if maxSegmentBytes \<noteq> 0 \<and> offset < totalLen then
        let remaining = totalLen - offset;
            tk = (if remaining < maxSegmentBytes then remaining else maxSegmentBytes);
            p = \<lparr>sp_offset = offset, sp_length = tk, sp_first = (offset = 0),
                 sp_more = (offset + tk < totalLen)\<rparr>
        in p # planLoop totalLen maxSegmentBytes (offset + tk)
      else [])"
  by pat_completeness auto

lemma plan_progress:
  fixes t m off :: u32
  assumes "m \<noteq> 0" "off < t"
  defines "tk \<equiv> if t - off < m then t - off else m"
  shows "unat (off + tk) = unat off + unat tk" "0 < unat tk" "unat off + unat tk \<le> unat t"
    "unat tk = min (unat t - unat off) (unat m)"
proof -
  have rem: "unat (t - off) = unat t - unat off"
    using assms(2) by (simp add: unat_sub word_le_nat_alt word_less_nat_alt)
  show tk: "unat tk = min (unat t - unat off) (unat m)"
    using rem by (auto simp: tk_def word_less_nat_alt)
  then show le: "unat off + unat tk \<le> unat t" using assms(2) by (simp add: word_less_nat_alt)
  show "0 < unat tk" using tk assms(1,2) by (simp add: word_less_nat_alt unat_gt_0)
  show "unat (off + tk) = unat off + unat tk"
    using le unat_u32_less [of t] by (simp add: unat_word_ariths)
qed

termination planLoop
proof (relation "measure (\<lambda>(t, m, off). unat t - unat off)", goal_cases)
  case 1 show ?case by simp
next
  case (2 t m off x xa xb)
  from 2(1) have "m \<noteq> 0" "off < t" by auto
  note pr = plan_progress(1,2) [OF this]
  show ?case
    using pr \<open>off < t\<close> unfolding 2(2,3) by (simp add: word_less_nat_alt)
qed

declare planLoop.simps [simp del]

definition planSegments :: "u32 \<Rightarrow> u32 \<Rightarrow> SegmentPlan list" where
  "planSegments totalLen maxSegmentBytes =
     (if maxSegmentBytes = 0 then []
      else if totalLen = 0
      then [\<lparr>sp_offset = 0, sp_length = 0, sp_first = True, sp_more = False\<rparr>]
      else planLoop totalLen maxSegmentBytes 0)"

section \<open>Emitting\<close>

text \<open>The framed bytes of record \<open>i\<close>.\<close>

definition segHeader :: "Header \<Rightarrow> u32 \<Rightarrow> nat \<Rightarrow> nat \<Rightarrow> SegmentPlan \<Rightarrow> Header" where
  "segHeader base totalLen fixedLen i s =
     (let h = base\<lparr>h_segOffset := sp_offset s, h_totalLen := totalLen,
                    h_flags := (if sp_first s then kFlagSegFirst else 0)
                      OR (if sp_more s then kFlagSegMore else 0)\<rparr>
      in if i = 0 then h\<lparr>h_bodyLen := of_nat fixedLen + sp_length s\<rparr>
         else h\<lparr>h_type := typeCode T_Data, h_status := 0, h_bodyLen := sp_length s\<rparr>)"

definition segRecord :: "Header \<Rightarrow> bytes \<Rightarrow> bytes \<Rightarrow> nat \<Rightarrow> SegmentPlan \<Rightarrow> bytes" where
  "segRecord base fixedBody data i s =
     encodeHeader (segHeader base (of_nat (length data)) (length fixedBody) i s) []
     @ (if i = 0 then fixedBody else [])
     @ subspan data (unat (sp_offset s)) (unat (sp_length s))"

text \<open>\<open>send\<close> runs on a state of the caller's; the loop stops at its first failure.\<close>

fun emitLoop ::
    "Header \<Rightarrow> bytes \<Rightarrow> bytes \<Rightarrow> (bytes \<Rightarrow> 's \<Rightarrow> Status \<times> 's) \<Rightarrow> nat \<Rightarrow> SegmentPlan list \<Rightarrow> 's
      \<Rightarrow> Status \<times> 's" where
  "emitLoop base fixedBody data send i [] st = (Ok, st)"
| "emitLoop base fixedBody data send i (s # plan) st =
     (let (r, st') = send (segRecord base fixedBody data i s) st
      in if r \<noteq> Ok then (r, st') else emitLoop base fixedBody data send (i + 1) plan st')"

definition emitTransfer ::
    "Header \<Rightarrow> bytes \<Rightarrow> bytes \<Rightarrow> u32 \<Rightarrow> (bytes \<Rightarrow> 's \<Rightarrow> Status \<times> 's) \<Rightarrow> 's \<Rightarrow> Status \<times> 's" where
  "emitTransfer base fixedBody data maxSegmentBytes send st =
     (if maxSegmentBytes = 0 then (BadArgument, st)
      else emitLoop base fixedBody data send 0
             (planSegments (of_nat (length data)) maxSegmentBytes) st)"

section \<open>Reassembling\<close>

record RsLimits =
  rl_maxTransferBytes :: u32
  rl_arenaBytes :: u64
  rl_maxInFlight :: u32

definition RsLimits0 :: RsLimits where
  "RsLimits0 = \<lparr>rl_maxTransferBytes = 2 ^ 20, rl_arenaBytes = 8 * 2 ^ 20, rl_maxInFlight = 64\<rparr>"

datatype Outcome = NeedMore | Complete | Rejected

type_synonym Key = "u16 \<times> u64"

record Partial =
  pt_totalLen :: u32
  pt_bytes :: bytes

record Reassembler =
  rs_limits :: RsLimits
  rs_partial :: "(Key, Partial) smap"
  rs_held :: u64
  rs_completed :: bytes
  rs_hasCompleted :: bool
  rs_completedKey :: Key

definition Reassembler_new :: "RsLimits \<Rightarrow> Reassembler" where
  "Reassembler_new l = \<lparr>rs_limits = l, rs_partial = [], rs_held = 0, rs_completed = [],
     rs_hasCompleted = False, rs_completedKey = (0, 0)\<rparr>"

text \<open>The entry of a transfer is dropped and its bytes leave the arena.\<close>

definition dropPartial :: "Key \<Rightarrow> Partial \<Rightarrow> Reassembler \<Rightarrow> Reassembler" where
  "dropPartial key p r =
     r\<lparr>rs_held := rs_held r - of_nat (length (pt_bytes p)),
       rs_partial := AList.delete key (rs_partial r)\<rparr>"

text \<open>The second half of \<open>accept\<close>, once the entry of the transfer is known.\<close>

definition appendSegment ::
    "Header \<Rightarrow> bytes \<Rightarrow> Key \<Rightarrow> Partial \<Rightarrow> Reassembler \<Rightarrow> Outcome \<times> Status \<times> Reassembler" where
  "appendSegment h payload key p r =
     (if unat (h_segOffset h) \<noteq> length (pt_bytes p)
      then (Rejected, MalformedFrame, dropPartial key p r)
      else if length (pt_bytes p) + length payload > unat (pt_totalLen p)
      then (Rejected, MalformedFrame, dropPartial key p r)
      else if rs_held r + of_nat (length payload) > rl_arenaBytes (rs_limits r)
      then (Rejected, LimitExceeded, dropPartial key p r)
      else
        let p' = p\<lparr>pt_bytes := pt_bytes p @ payload\<rparr>;
            r' = r\<lparr>rs_partial := AList.update key p' (rs_partial r),
                   rs_held := rs_held r + of_nat (length payload)\<rparr>
        in if segMore h then (NeedMore, Ok, r')
           else if length (pt_bytes p') \<noteq> unat (pt_totalLen p')
           then (Rejected, MalformedFrame, dropPartial key p' r')
           else (Complete, Ok,
                 dropPartial key p' (r'\<lparr>rs_completed := pt_bytes p', rs_completedKey := key,
                   rs_hasCompleted := True\<rparr>)))"

definition accept :: "Header \<Rightarrow> bytes \<Rightarrow> Reassembler \<Rightarrow> Outcome \<times> Status \<times> Reassembler" where
  "accept h payload r0 =
     (let r = r0\<lparr>rs_hasCompleted := False, rs_completed := []\<rparr>;
          first = segFirst h;
          more = segMore h;
          key = (h_channel h, h_requestId h);
          existing = map_of (rs_partial r) key
      in if \<not> first \<and> \<not> more \<and> existing = None then
           (if h_totalLen h > rl_maxTransferBytes (rs_limits r) then (Rejected, LimitExceeded, r)
            else if length payload \<noteq> unat (h_totalLen h) then (Rejected, MalformedFrame, r)
            else (Complete, Ok, r\<lparr>rs_completed := payload, rs_completedKey := key,
                    rs_hasCompleted := True\<rparr>))
         else if h_totalLen h > rl_maxTransferBytes (rs_limits r) then (Rejected, LimitExceeded, r)
         else if first then
           (if existing \<noteq> None then (Rejected, MalformedFrame, r)
            else if h_segOffset h \<noteq> 0 then (Rejected, MalformedFrame, r)
            else if length (rs_partial r) \<ge> unat (rl_maxInFlight (rs_limits r))
            then (Rejected, LimitExceeded, r)
            else
              let p = \<lparr>pt_totalLen = h_totalLen h, pt_bytes = []\<rparr>
              in appendSegment h payload key p
                   (r\<lparr>rs_partial := AList.update key p (rs_partial r)\<rparr>))
         else
           (case existing of
              None \<Rightarrow> (Rejected, MalformedFrame, r)
            | Some p \<Rightarrow>
                if h_totalLen h \<noteq> pt_totalLen p then (Rejected, MalformedFrame, r)
                else appendSegment h payload key p r))"

definition takeCompleted :: "Header \<Rightarrow> Reassembler \<Rightarrow> bytes \<times> Reassembler" where
  "takeCompleted h r =
     (let key = (h_channel h, h_requestId h) in
      if \<not> rs_hasCompleted r then ([], r)
      else if key \<noteq> rs_completedKey r then ([], r)
      else (rs_completed r, r\<lparr>rs_hasCompleted := False, rs_completed := []\<rparr>))"

definition dropOnChannel :: "u16 \<Rightarrow> Key \<times> Partial \<Rightarrow> Reassembler \<Rightarrow> Reassembler" where
  "dropOnChannel channel x r = (if fst (fst x) = channel then dropPartial (fst x) (snd x) r else r)"

definition forgetChannel :: "u16 \<Rightarrow> Reassembler \<Rightarrow> Reassembler" where
  "forgetChannel channel r = fold (dropOnChannel channel) (rs_partial r) r"

definition forget :: "u16 \<Rightarrow> u64 \<Rightarrow> Reassembler \<Rightarrow> Reassembler" where
  "forget channel requestId r =
     (case map_of (rs_partial r) (channel, requestId) of
        None \<Rightarrow> r
      | Some p \<Rightarrow> dropPartial (channel, requestId) p r)"

definition clear :: "Reassembler \<Rightarrow> Reassembler" where
  "clear r = r\<lparr>rs_partial := [], rs_held := 0, rs_completed := [], rs_hasCompleted := False\<rparr>"

section \<open>The plan covers the transfer\<close>

text \<open>
  Segments from \<open>off\<close> up to \<open>t\<close> without gap or overlap, the first one (only) marked \<open>first\<close> and
  all but the last marked \<open>more\<close>.
\<close>

fun contiguous :: "nat \<Rightarrow> SegmentPlan list \<Rightarrow> nat \<Rightarrow> bool" where
  "contiguous off [] t \<longleftrightarrow> off = t"
| "contiguous off (p # ps) t \<longleftrightarrow>
     unat (sp_offset p) = off \<and> (sp_first p \<longleftrightarrow> off = 0) \<and> (sp_more p \<longleftrightarrow> ps \<noteq> [])
     \<and> contiguous (off + unat (sp_length p)) ps t"

lemma planLoop_cover:
  "\<lbrakk>m \<noteq> 0; off \<le> t\<rbrakk> \<Longrightarrow> contiguous (unat off) (planLoop t m off) (unat t)
     \<and> (\<forall>p\<in>set (planLoop t m off). 0 < unat (sp_length p) \<and> unat (sp_length p) \<le> unat m)
     \<and> (planLoop t m off = [] \<longleftrightarrow> off = t)"
proof (induction t m off rule: planLoop.induct)
  case (1 t m off)
  show ?case
  proof (cases "off < t")
    case False
    with 1 show ?thesis by (simp add: planLoop.simps)
  next
    case True
    define tk where "tk = (if t - off < m then t - off else m)"
    note pr = plan_progress [OF \<open>m \<noteq> 0\<close> True, folded tk_def]
    define p where "p = \<lparr>sp_offset = off, sp_length = tk, sp_first = (off = 0),
      sp_more = (off + tk < t)\<rparr>"
    have eq: "planLoop t m off = p # planLoop t m (off + tk)"
      using True \<open>m \<noteq> 0\<close> by (simp add: planLoop.simps [of t m off] tk_def p_def Let_def)
    have le: "off + tk \<le> t" using pr by (simp add: word_le_nat_alt)
    note IH = 1(1) [OF conjI [OF \<open>m \<noteq> 0\<close> True] refl refl refl \<open>m \<noteq> 0\<close>, folded tk_def, OF le]
    have "off + tk < t \<longleftrightarrow> planLoop t m (off + tk) \<noteq> []" using IH le by auto
    moreover have "unat (sp_length p) \<le> unat m" using pr(4) by (simp add: p_def)
    moreover have "off = 0 \<longleftrightarrow> unat off = 0" by (simp add: unat_eq_0)
    ultimately show ?thesis
      using IH pr True unfolding eq by (auto simp: p_def)
  qed
qed

lemma planSegments_cover:
  assumes "m \<noteq> 0"
  shows "planSegments t m \<noteq> []" "contiguous 0 (planSegments t m) (unat t)"
    "\<forall>p\<in>set (planSegments t m). unat (sp_length p) \<le> unat m"
    "\<forall>p\<in>set (planSegments t m). sp_more p \<longrightarrow> 0 < unat (sp_length p)"
  using assms planLoop_cover [of m 0 t] by (auto simp: planSegments_def)

lemma contiguous_le: "contiguous off ps t \<Longrightarrow> off \<le> t"
  by (induction off ps t rule: contiguous.induct) auto

lemma contiguous_data:
  "\<lbrakk>contiguous off ps t; t \<le> length data\<rbrakk> \<Longrightarrow>
    concat (map (\<lambda>p. subspan data (unat (sp_offset p)) (unat (sp_length p))) ps)
      = subspan data off (t - off)"
proof (induction off ps t rule: contiguous.induct)
  case (2 off p ps t)
  let ?n = "unat (sp_length p)"
  have "off + ?n \<le> t" using 2 contiguous_le by auto
  then have "t - off = ?n + (t - (off + ?n))" by simp
  with 2 show ?case by (simp add: take_add add.commute)
qed simp

section \<open>The reassembler keeps its bounds\<close>

text \<open>
  The arena counter is the number of bytes held, which stays within the arena; no partial
  transfer exceeds its declared length, no declared length the negotiated maximum, and there
  are at most \<open>maxInFlight\<close> of them.
\<close>

definition partialOk :: "RsLimits \<Rightarrow> Partial \<Rightarrow> bool" where
  "partialOk l p \<longleftrightarrow> length (pt_bytes p) \<le> unat (pt_totalLen p)
     \<and> pt_totalLen p \<le> rl_maxTransferBytes l"

abbreviation heldBytes :: "(Key, Partial) smap \<Rightarrow> nat" where
  "heldBytes m \<equiv> asum (\<lambda>p. length (pt_bytes p)) m"

definition rsInv :: "Reassembler \<Rightarrow> bool" where
  "rsInv r \<longleftrightarrow>
     distinct (keys (rs_partial r))
     \<and> unat (rl_arenaBytes (rs_limits r)) < 2 ^ 63
     \<and> unat (rs_held r) = heldBytes (rs_partial r)
     \<and> heldBytes (rs_partial r) \<le> unat (rl_arenaBytes (rs_limits r))
     \<and> length (rs_partial r) \<le> unat (rl_maxInFlight (rs_limits r))
     \<and> (\<forall>(k, p) \<in> set (rs_partial r). partialOk (rs_limits r) p)"

lemma rsInv_drop:
  assumes "rsInv r" "map_of (rs_partial r) key = Some p"
  shows "rsInv (dropPartial key p r)"
proof -
  from assms have d: "distinct (keys (rs_partial r))" by (simp add: rsInv_def)
  note del = asum_delete [OF d assms(2)]
  from assms del [of "\<lambda>p. length (pt_bytes p)"] have "length (pt_bytes p) \<le> unat (rs_held r)"
    by (simp add: rsInv_def)
  with assms del [of "\<lambda>p. length (pt_bytes p)"] length_delete_in [OF d assms(2)] show ?thesis
    by (auto simp: rsInv_def dropPartial_def unat_sub_of_nat dest: set_delete_sub)
qed

lemma rsInv_flags [simp]:
  "rsInv (r\<lparr>rs_hasCompleted := b\<rparr>) = rsInv r" "rsInv (r\<lparr>rs_completed := c\<rparr>) = rsInv r"
  "rsInv (r\<lparr>rs_completedKey := k\<rparr>) = rsInv r"
  by (simp_all add: rsInv_def)

lemma rsInv_update:
  assumes "rsInv r" "map_of (rs_partial r) key = Some p"
    "length (pt_bytes p) + length payload \<le> unat (pt_totalLen p)"
    "\<not> rs_held r + of_nat (length payload) > rl_arenaBytes (rs_limits r)"
  shows "rsInv (r\<lparr>rs_partial := AList.update key (p\<lparr>pt_bytes := pt_bytes p @ payload\<rparr>) (rs_partial r),
    rs_held := rs_held r + of_nat (length payload)\<rparr>)"
proof -
  from assms(1) have d: "distinct (keys (rs_partial r))"
    and held: "unat (rs_held r) = heldBytes (rs_partial r)"
      "heldBytes (rs_partial r) \<le> unat (rl_arenaBytes (rs_limits r))"
      "unat (rl_arenaBytes (rs_limits r)) < 2 ^ 63"
    and ok: "partialOk (rs_limits r) p"
    using assms(2) by (auto simp: rsInv_def dest: map_of_SomeD)
  have "length payload < 2 ^ 32" using assms(3) unat_u32_less [of "pt_totalLen p"] by simp
  with held have u: "unat (rs_held r + of_nat (length payload)) = unat (rs_held r) + length payload"
    by (intro unat_add_of_nat) simp
  have "heldBytes (AList.update key (p\<lparr>pt_bytes := pt_bytes p @ payload\<rparr>) (rs_partial r))
      = heldBytes (rs_partial r) + length payload"
    using asum_update_old [OF d assms(2), of "\<lambda>p. length (pt_bytes p)"
      "p\<lparr>pt_bytes := pt_bytes p @ payload\<rparr>"] by simp
  with assms u held ok show ?thesis
    by (auto simp: rsInv_def length_update_old word_less_nat_alt partialOk_def dest!: mem_update)
qed

lemma rsInv_appendSegment:
  assumes "rsInv r" "map_of (rs_partial r) key = Some p"
    "appendSegment h payload key p r = (out, err, r')"
  shows "rsInv r'"
proof -
  let ?p = "p\<lparr>pt_bytes := pt_bytes p @ payload\<rparr>"
  let ?r = "r\<lparr>rs_partial := AList.update key ?p (rs_partial r),
    rs_held := rs_held r + of_nat (length payload)\<rparr>"
  have m: "map_of (rs_partial ?r) key = Some ?p" by (simp add: update_conv)
  let ?c = "?r\<lparr>rs_completed := pt_bytes ?p, rs_completedKey := key, rs_hasCompleted := True\<rparr>"
  have c: "rsInv ?c = rsInv ?r" "map_of (rs_partial ?c) key = Some ?p"
    by (simp_all only: rsInv_flags) (simp add: update_conv)
  note upd = rsInv_update [OF assms(1,2), of payload]
  consider "r' = dropPartial key p r"
    | "r' \<in> {?r, dropPartial key ?p ?r, dropPartial key ?p ?c}"
      "length (pt_bytes p) + length payload \<le> unat (pt_totalLen p)"
      "\<not> rs_held r + of_nat (length payload) > rl_arenaBytes (rs_limits r)"
    using assms(3) unfolding appendSegment_def Let_def by (auto split: if_splits)
  then show ?thesis
  proof cases
    case 1 then show ?thesis using rsInv_drop [OF assms(1,2)] by simp
  next
    case 2
    have "rsInv ?r" by (rule upd) (use 2 in auto)
    with 2(1) rsInv_drop [OF _ m] rsInv_drop [OF _ c(2)] c(1) show ?thesis by blast
  qed
qed

lemma rsInv_new_entry:
  assumes "rsInv r" "map_of (rs_partial r) key = None"
    "length (rs_partial r) < unat (rl_maxInFlight (rs_limits r))" "t \<le> rl_maxTransferBytes (rs_limits r)"
  shows "rsInv (r\<lparr>rs_partial := AList.update key \<lparr>pt_totalLen = t, pt_bytes = []\<rparr> (rs_partial r)\<rparr>)"
  using assms
  by (auto simp: rsInv_def asum_update_new length_update_new partialOk_def dest!: mem_update)

text \<open>The ways \<open>accept\<close> can go, with \<open>r\<close> the state after the parked payload was cleared.\<close>

lemma accept_cases:
  assumes "accept h payload r0 = (out, err, r')" and "r = r0\<lparr>rs_hasCompleted := False, rs_completed := []\<rparr>"
  obtains (reject) "out = Rejected" "r' = r"
  | (single) "out = Complete" "\<not> segMore h" "map_of (rs_partial r) (h_channel h, h_requestId h) = None"
      "length payload = unat (h_totalLen h)" "h_totalLen h \<le> rl_maxTransferBytes (rs_limits r)"
      "r' = r\<lparr>rs_completed := payload, rs_completedKey := (h_channel h, h_requestId h), rs_hasCompleted := True\<rparr>"
  | (new) p where "map_of (rs_partial r) (h_channel h, h_requestId h) = None"
      "h_totalLen h \<le> rl_maxTransferBytes (rs_limits r)" "p = \<lparr>pt_totalLen = h_totalLen h, pt_bytes = []\<rparr>"
      "length (rs_partial r) < unat (rl_maxInFlight (rs_limits r))"
      "appendSegment h payload (h_channel h, h_requestId h) p
        (r\<lparr>rs_partial := AList.update (h_channel h, h_requestId h) p (rs_partial r)\<rparr>) = (out, err, r')"
  | (cont) p where "map_of (rs_partial r) (h_channel h, h_requestId h) = Some p" "h_totalLen h = pt_totalLen p"
      "h_totalLen h \<le> rl_maxTransferBytes (rs_limits r)"
      "appendSegment h payload (h_channel h, h_requestId h) p r = (out, err, r')"
  using assms(1) unfolding accept_def Let_def assms(2) [symmetric]
  by (auto simp: not_less not_le split: if_splits option.splits)

lemma rsInv_accept:
  assumes "rsInv r" "accept h payload r = (out, err, r')"
  shows "rsInv r'"
proof -
  define s where "s = r\<lparr>rs_hasCompleted := False, rs_completed := []\<rparr>"
  have inv: "rsInv s" using assms(1) by (simp add: s_def)
  from assms(2) s_def show ?thesis
  proof (cases rule: accept_cases)
    case reject then show ?thesis using inv by simp
  next
    case single then show ?thesis using inv by simp
  next
    case (new p)
    have "rsInv (s\<lparr>rs_partial := AList.update (h_channel h, h_requestId h) p (rs_partial s)\<rparr>)"
      unfolding new(3) by (rule rsInv_new_entry [OF inv new(1,4,2)])
    then show ?thesis by (rule rsInv_appendSegment [OF _ _ new(5)]) (simp add: update_conv)
  next
    case cont then show ?thesis by (intro rsInv_appendSegment [OF inv])
  qed
qed

lemma rsInv_take: "rsInv r \<Longrightarrow> rsInv (snd (takeCompleted h r))"
  by (simp add: takeCompleted_def Let_def)

lemma rsInv_forget: "rsInv r \<Longrightarrow> rsInv (forget c q r)"
  by (auto simp: forget_def rsInv_drop split: option.splits)

lemma rsInv_clear: "rsInv r \<Longrightarrow> rsInv (clear r)"
  by (simp add: rsInv_def clear_def)

lemma rsInv_new: "unat (rl_arenaBytes l) < 2 ^ 63 \<Longrightarrow> rsInv (Reassembler_new l)"
  by (simp add: rsInv_def Reassembler_new_def)

lemma forgetChannel_fold:
  assumes "rsInv r" "distinct (keys xs)" "\<forall>(k, p)\<in>set xs. map_of (rs_partial r) k = Some p"
  shows "rsInv (fold (dropOnChannel c) xs r) \<and> (\<forall>k. map_of (rs_partial (fold (dropOnChannel c) xs r)) k =
    (if fst k = c \<and> k \<in> set (keys xs) then None else map_of (rs_partial r) k))"
  using assms(1-3)
proof (induction xs arbitrary: r)
  case (Cons x xs)
  obtain k p where x: "x = (k, p)" by (cases x)
  have m: "map_of (rs_partial r) k = Some p" and notin: "k \<notin> set (keys xs)"
    using Cons.prems x by auto
  show ?case
  proof (cases "fst k = c")
    case True
    let ?r = "dropPartial k p r"
    have "\<forall>(k', p')\<in>set xs. map_of (rs_partial ?r) k' = Some p'"
      using Cons.prems(3) notin by (force simp: dropPartial_def delete_conv)
    with Cons.IH [of ?r] rsInv_drop [OF Cons.prems(1) m] Cons.prems(2) x
    have IH: "rsInv (fold (dropOnChannel c) xs ?r) \<and> (\<forall>k. map_of (rs_partial (fold (dropOnChannel c) xs ?r)) k =
        (if fst k = c \<and> k \<in> set (keys xs) then None else map_of (rs_partial ?r) k))" by simp
    moreover have "fold (dropOnChannel c) (x # xs) r = fold (dropOnChannel c) xs ?r" using True x by (simp add: dropOnChannel_def)
    moreover have "map_of (rs_partial ?r) k' = (if k' = k then None else map_of (rs_partial r) k')" for k'
      by (simp add: dropPartial_def delete_conv)
    ultimately show ?thesis using True x by auto
  next
    case False
    with Cons.IH [of r] Cons.prems x show ?thesis by (auto simp: dropOnChannel_def)
  qed
qed simp

lemma rsInv_forgetChannel:
  assumes "rsInv r"
  shows "rsInv (forgetChannel c r)"
    and "map_of (rs_partial (forgetChannel c r)) k =
      (if fst k = c then None else map_of (rs_partial r) k)"
proof -
  have d: "distinct (keys (rs_partial r))" using assms by (simp add: rsInv_def)
  then have "\<forall>(k, p)\<in>set (rs_partial r). map_of (rs_partial r) k = Some p" by auto
  note f = forgetChannel_fold [OF assms d this, of c]
  show "rsInv (forgetChannel c r)" using f by (simp add: forgetChannel_def)
  show "map_of (rs_partial (forgetChannel c r)) k =
      (if fst k = c then None else map_of (rs_partial r) k)"
    using f [THEN conjunct2, THEN spec, of k] map_of_notin_keys [of "rs_partial r" k]
    by (auto simp: forgetChannel_def)
qed

text \<open>Every use of a reassembler, in any order.\<close>

datatype RsOp =
    RsAccept Header bytes
  | RsTake Header
  | RsForgetChannel u16
  | RsForget u16 u64
  | RsClear

primrec rsStep :: "RsOp \<Rightarrow> Reassembler \<Rightarrow> Reassembler" where
  "rsStep (RsAccept h payload) r = snd (snd (accept h payload r))"
| "rsStep (RsTake h) r = snd (takeCompleted h r)"
| "rsStep (RsForgetChannel c) r = forgetChannel c r"
| "rsStep (RsForget c q) r = forget c q r"
| "rsStep RsClear r = clear r"

lemma rsInv_step: "rsInv r \<Longrightarrow> rsInv (rsStep op r)"
  by (cases op; cases "accept (case op of RsAccept h _ \<Rightarrow> h) (case op of RsAccept _ p \<Rightarrow> p) r")
    (auto simp: rsInv_take rsInv_forget rsInv_clear rsInv_forgetChannel rsInv_accept)

lemma rsInv_steps: "rsInv r \<Longrightarrow> rsInv (fold rsStep ops r)"
  by (induction ops arbitrary: r) (simp_all add: rsInv_step)

section \<open>What an accepted segment does\<close>

definition pending :: "Reassembler \<Rightarrow> Key \<Rightarrow> bytes" where
  "pending r k = (case map_of (rs_partial r) k of None \<Rightarrow> [] | Some p \<Rightarrow> pt_bytes p)"

abbreviation hkey :: "Header \<Rightarrow> Key" where
  "hkey h \<equiv> (h_channel h, h_requestId h)"

lemma appendSegment_effect:
  assumes "appendSegment h payload key p r = (out, err, r')"
  shows "k \<noteq> key \<Longrightarrow> map_of (rs_partial r') k = map_of (rs_partial r) k"
    and "out = NeedMore \<Longrightarrow> segMore h
      \<and> map_of (rs_partial r') key = Some (p\<lparr>pt_bytes := pt_bytes p @ payload\<rparr>)"
    and "out = Complete \<Longrightarrow> \<not> segMore h \<and> map_of (rs_partial r') key = None
      \<and> rs_hasCompleted r' \<and> rs_completedKey r' = key \<and> rs_completed r' = pt_bytes p @ payload
      \<and> length (pt_bytes p @ payload) = unat (pt_totalLen p)"
    and "out \<noteq> Rejected \<Longrightarrow> unat (h_segOffset h) = length (pt_bytes p)"
  using assms
  by (auto simp: appendSegment_def dropPartial_def Let_def update_conv delete_conv split: if_splits)

lemma accept_effect:
  assumes "accept h payload r = (out, err, r')"
  shows "k \<noteq> hkey h \<Longrightarrow> map_of (rs_partial r') k = map_of (rs_partial r) k"
    and "out = NeedMore \<Longrightarrow> segMore h \<and> pending r' (hkey h) = pending r (hkey h) @ payload"
    and "out = Complete \<Longrightarrow> \<not> segMore h \<and> map_of (rs_partial r') (hkey h) = None
      \<and> fst (takeCompleted h r') = pending r (hkey h) @ payload
      \<and> length (pending r (hkey h) @ payload) = unat (h_totalLen h)
      \<and> h_totalLen h \<le> rl_maxTransferBytes (rs_limits r)"
proof -
  define s where "s = r\<lparr>rs_hasCompleted := False, rs_completed := []\<rparr>"
  have s: "rs_partial s = rs_partial r" "rs_limits s = rs_limits r" by (simp_all add: s_def)
  let ?goal = "(k \<noteq> hkey h \<longrightarrow> map_of (rs_partial r') k = map_of (rs_partial r) k)
    \<and> (out = NeedMore \<longrightarrow> segMore h \<and> pending r' (hkey h) = pending r (hkey h) @ payload)
    \<and> (out = Complete \<longrightarrow> \<not> segMore h \<and> map_of (rs_partial r') (hkey h) = None
      \<and> fst (takeCompleted h r') = pending r (hkey h) @ payload
      \<and> length (pending r (hkey h) @ payload) = unat (h_totalLen h)
      \<and> h_totalLen h \<le> rl_maxTransferBytes (rs_limits r))"
  from assms s_def have "?goal"
  proof (cases rule: accept_cases)
    case reject then show ?thesis by (simp add: s)
  next
    case single then show ?thesis by (simp add: s pending_def takeCompleted_def)
  next
    case (new p)
    then show ?thesis using appendSegment_effect [OF new(5)]
      by (auto simp: s pending_def takeCompleted_def update_conv)
  next
    case (cont p)
    then show ?thesis using appendSegment_effect [OF cont(4)]
      by (auto simp: s pending_def takeCompleted_def)
  qed
  then show "k \<noteq> hkey h \<Longrightarrow> map_of (rs_partial r') k = map_of (rs_partial r) k"
    "out = NeedMore \<Longrightarrow> segMore h \<and> pending r' (hkey h) = pending r (hkey h) @ payload"
    "out = Complete \<Longrightarrow> \<not> segMore h \<and> map_of (rs_partial r') (hkey h) = None
      \<and> fst (takeCompleted h r') = pending r (hkey h) @ payload
      \<and> length (pending r (hkey h) @ payload) = unat (h_totalLen h)
      \<and> h_totalLen h \<le> rl_maxTransferBytes (rs_limits r)" by blast+
qed

text \<open>
  A session's use of the reassembler: every record is fed, a completed payload is taken at once,
  and a rejection ends the session.  The reference is one byte string per key.
\<close>

fun receiveAll :: "(Header \<times> bytes) list \<Rightarrow> Reassembler \<Rightarrow> (Key \<times> bytes) list option" where
  "receiveAll [] r = Some []"
| "receiveAll ((h, payload) # es) r =
     (case accept h payload r of
        (Rejected, _, _) \<Rightarrow> None
      | (NeedMore, _, r') \<Rightarrow> receiveAll es r'
      | (Complete, _, r') \<Rightarrow>
          (let (b, r'') = takeCompleted h r'
           in map_option (\<lambda>out. (hkey h, b) # out) (receiveAll es r'')))"

fun deliver :: "(Header \<times> bytes) list \<Rightarrow> (Key \<Rightarrow> bytes) \<Rightarrow> (Key \<times> bytes) list" where
  "deliver [] g = []"
| "deliver ((h, payload) # es) g =
     (let b = g (hkey h) @ payload in
      if segMore h then deliver es (g(hkey h := b)) else (hkey h, b) # deliver es (g(hkey h := [])))"

lemma takeCompleted_partial [simp]: "rs_partial (snd (takeCompleted h r)) = rs_partial r"
  by (simp add: takeCompleted_def Let_def)

lemma receiveAll_deliver: "receiveAll es r = Some out \<Longrightarrow> out = deliver es (pending r)"
proof (induction es r arbitrary: out rule: receiveAll.induct)
  case (2 h payload es r)
  obtain o' err r' where acc: "accept h payload r = (o', err, r')" by (metis prod_cases3)
  have other: "pending r' k = pending r k" if "k \<noteq> hkey h" for k
    using accept_effect(1) [OF acc that] by (simp add: pending_def)
  show ?case
  proof (cases o')
    case NeedMore
    with 2 acc have "out = deliver es (pending r')" by simp
    moreover have "pending r' = (pending r)(hkey h := pending r (hkey h) @ payload)"
      using accept_effect(2) [OF acc NeedMore] other by auto
    ultimately show ?thesis using accept_effect(2) [OF acc NeedMore] by (simp add: Let_def)
  next
    case Complete
    note eff = accept_effect(3) [OF acc Complete]
    obtain b r'' where t: "takeCompleted h r' = (b, r'')" by fastforce
    with 2 acc Complete obtain out' where out: "out = (hkey h, b) # out'" "out' = deliver es (pending r'')"
      by (auto simp: Let_def)
    have "rs_partial r'' = rs_partial r'" using takeCompleted_partial [of h r'] t by simp
    then have "pending r'' = (pending r)(hkey h := [])"
      using eff other by (auto simp: pending_def fun_eq_iff)
    with out eff t show ?thesis by (simp add: Let_def)
  next
    case Rejected
    with 2 acc show ?thesis by simp
  qed
qed simp

section \<open>What is emitted is reassembled\<close>

lemma emitLoop_collect:
  "emitLoop base fb data (\<lambda>rec acc. (Ok, acc @ [rec])) i ps acc =
     (Ok, acc @ map (\<lambda>(j, p). segRecord base fb data j p) (enumerate i ps))"
  by (induction ps arbitrary: i acc) simp_all

text \<open>
  The receiving side of one record: the header, and the payload after the fixed body, which only
  the first record (not a \<open>Data\<close> continuation) carries.
\<close>

definition openRecord :: "nat \<Rightarrow> bytes \<Rightarrow> Header \<times> bytes" where
  "openRecord fixedLen rec =
     (case decodeHeader rec of
        None \<Rightarrow> (Header0, [])
      | Some h \<Rightarrow>
          (h, drop (kHeaderSize + (if h_type h = typeCode T_Data then 0 else fixedLen)) rec))"

lemma openRecord_segRecord:
  assumes "h_type base \<noteq> typeCode T_Data"
  shows "openRecord (length fb) (segRecord base fb data i s) =
    (segHeader base (of_nat (length data)) (length fb) i s,
     subspan data (unat (sp_offset s)) (unat (sp_length s)))"
proof -
  let ?h = "segHeader base (of_nat (length data)) (length fb) i s"
  have "h_type ?h = typeCode T_Data \<longleftrightarrow> i \<noteq> 0" using assms by (simp add: segHeader_def Let_def)
  moreover have "decodeHeader (segRecord base fb data i s) = Some ?h"
    unfolding segRecord_def by (rule header.dec_enc_append) simp
  moreover have "length (encodeHeader ?h []) = 32" by (rule header.enc_length) simp
  ultimately show ?thesis by (simp add: openRecord_def segRecord_def)
qed

lemma segHeader_fields [simp]:
  "hkey (segHeader base t n i s) = hkey base"
  "h_totalLen (segHeader base t n i s) = t"
  "h_segOffset (segHeader base t n i s) = sp_offset s"
  "segFirst (segHeader base t n i s) = sp_first s"
  "segMore (segHeader base t n i s) = sp_more s"
  by (simp_all add: segHeader_def segFirst_def segMore_def Let_def)

text \<open>The reassembler while \<open>off\<close> bytes of a transfer have arrived.\<close>

definition midway :: "Reassembler \<Rightarrow> Key \<Rightarrow> bytes \<Rightarrow> nat \<Rightarrow> Reassembler" where
  "midway r key data off =
     r\<lparr>rs_partial := AList.update key \<lparr>pt_totalLen = of_nat (length data), pt_bytes = take off data\<rparr> (rs_partial r),
       rs_held := rs_held r + of_nat off, rs_hasCompleted := False, rs_completed := []\<rparr>"

lemma appendSegment_midway:
  assumes "unat (of_nat (length data) :: u32) = length data" "off + n \<le> length data"
    and "unat (h_segOffset h) = off"
    and "unat (rs_held r) + length data \<le> unat (rl_arenaBytes (rs_limits r))"
    and "segMore h \<or> off + n = length data"
  defines "p \<equiv> \<lparr>pt_totalLen = of_nat (length data), pt_bytes = take off data\<rparr>"
  shows "segMore h \<Longrightarrow> appendSegment h (subspan data off n) key p (midway r key data off)
      = (NeedMore, Ok, midway r key data (off + n))"
    and "\<not> segMore h \<Longrightarrow> \<exists>r'. appendSegment h (subspan data off n) key p (midway r key data off)
      = (Complete, Ok, r') \<and> rs_completed r' = data \<and> rs_completedKey r' = key \<and> rs_hasCompleted r'"
proof -
  have "unat (rs_held r + of_nat (off + n)) = unat (rs_held r) + (off + n)"
    using assms(2,4) unat_u64_less [of "rl_arenaBytes (rs_limits r)"] by (intro unat_add_of_nat) linarith
  then have room: "\<not> rl_arenaBytes (rs_limits r) < rs_held r + (of_nat off + of_nat n)"
    using assms(2,4) by (simp add: word_less_nat_alt)
  have len: "length (subspan data off n) = n" "length (take off data) = off"
    using assms(2) by auto
  have cat: "take off data @ subspan data off n = take (off + n) data" by (simp add: take_add)
  have fin: "length (take (off + n) data) = off + n" using assms(2) by simp
  show "segMore h \<Longrightarrow> appendSegment h (subspan data off n) key p (midway r key data off)
      = (NeedMore, Ok, midway r key data (off + n))"
    using assms(1-3) room len cat fin
    by (simp add: appendSegment_def midway_def p_def Let_def add.assoc)
  show "\<exists>r'. appendSegment h (subspan data off n) key p (midway r key data off)
      = (Complete, Ok, r') \<and> rs_completed r' = data \<and> rs_completedKey r' = key \<and> rs_hasCompleted r'"
    if "\<not> segMore h"
    using assms(1-3,5) that room len cat fin
    by (simp add: appendSegment_def midway_def p_def Let_def add.assoc dropPartial_def)
qed

lemma accept_midway:
  assumes "\<not> segFirst h" "hkey h = key" "h_totalLen h = of_nat (length data)"
    "h_totalLen h \<le> rl_maxTransferBytes (rs_limits r)"
  shows "accept h payload (midway r key data off) =
    appendSegment h payload key \<lparr>pt_totalLen = of_nat (length data), pt_bytes = take off data\<rparr>
      (midway r key data off)"
  using assms by (auto simp: accept_def midway_def Let_def update_conv not_less)

lemma accept_start:
  assumes "segFirst h" "hkey h = key" "h_totalLen h = of_nat (length data)" "h_segOffset h = 0"
    "h_totalLen h \<le> rl_maxTransferBytes (rs_limits r)" "map_of (rs_partial r) key = None"
    "length (rs_partial r) < unat (rl_maxInFlight (rs_limits r))"
  shows "accept h payload r =
    appendSegment h payload key \<lparr>pt_totalLen = of_nat (length data), pt_bytes = take 0 data\<rparr>
      (midway r key data 0)"
proof -
  have "r\<lparr>rs_hasCompleted := False, rs_completed := [],
      rs_partial := AList.update key \<lparr>pt_totalLen = of_nat (length data), pt_bytes = []\<rparr> (rs_partial r)\<rparr>
    = midway r key data 0" by (cases r) (simp add: midway_def)
  with assms show ?thesis by (auto simp: accept_def Let_def not_less)
qed

lemma receiveAll_midway:
  assumes len: "unat (of_nat (length data) :: u32) = length data"
    and lim: "of_nat (length data) \<le> rl_maxTransferBytes (rs_limits r)"
    and room: "unat (rs_held r) + length data \<le> unat (rl_arenaBytes (rs_limits r))"
  shows "\<lbrakk>contiguous off ps (length data); ps \<noteq> []; 0 < off\<rbrakk> \<Longrightarrow>
    receiveAll (map (\<lambda>(j, p). (segHeader base (of_nat (length data)) n j p,
        subspan data (unat (sp_offset p)) (unat (sp_length p)))) (enumerate i ps))
      (midway r (hkey base) data off) = Some [(hkey base, data)]"
proof (induction ps arbitrary: off i)
  case (Cons p ps)
  let ?k = "unat (sp_length p)" and ?h = "segHeader base (of_nat (length data)) n i p"
  from Cons.prems have c: "unat (sp_offset p) = off" "\<not> sp_first p" "sp_more p \<longleftrightarrow> ps \<noteq> []"
    "contiguous (off + ?k) ps (length data)" by auto
  have le: "off + ?k \<le> length data" using contiguous_le [OF c(4)] .
  have last: "sp_more p \<or> off + ?k = length data" using c(3,4) by (cases ps) auto
  have acc: "accept ?h (subspan data off ?k) (midway r (hkey base) data off)
      = appendSegment ?h (subspan data off ?k) (hkey base)
          \<lparr>pt_totalLen = of_nat (length data), pt_bytes = take off data\<rparr> (midway r (hkey base) data off)"
    by (rule accept_midway) (use c lim in simp_all)
  show ?case
  proof (cases "sp_more p")
    case True
    then have "accept ?h (subspan data off ?k) (midway r (hkey base) data off)
        = (NeedMore, Ok, midway r (hkey base) data (off + ?k))"
      unfolding acc by (intro appendSegment_midway(1) [OF len le _ room]) (use c last in simp_all)
    with Cons.IH [OF c(4), of "i + 1"] c True Cons.prems(3) show ?thesis by simp
  next
    case False
    then obtain r' where r': "accept ?h (subspan data off ?k) (midway r (hkey base) data off) = (Complete, Ok, r')"
      "rs_completed r' = data" "rs_completedKey r' = hkey base" "rs_hasCompleted r'"
      unfolding acc using appendSegment_midway(2) [OF len le _ room, of ?h] c last by auto
    have "takeCompleted ?h r' = (data, r'\<lparr>rs_hasCompleted := False, rs_completed := []\<rparr>)"
      using r' by (simp add: takeCompleted_def Let_def)
    with r' c False show ?thesis by simp
  qed
qed simp

lemma receiveAll_start:
  assumes len: "unat (of_nat (length data) :: u32) = length data"
    and lim: "of_nat (length data) \<le> rl_maxTransferBytes (rs_limits r)"
    and room: "unat (rs_held r) + length data \<le> unat (rl_arenaBytes (rs_limits r))"
    and new: "map_of (rs_partial r) (hkey base) = None"
      "length (rs_partial r) < unat (rl_maxInFlight (rs_limits r))"
    and plan: "contiguous 0 ps (length data)" "ps \<noteq> []" "\<forall>p\<in>set ps. sp_more p \<longrightarrow> 0 < unat (sp_length p)"
  shows "receiveAll (map (\<lambda>(j, p). (segHeader base (of_nat (length data)) n j p,
        subspan data (unat (sp_offset p)) (unat (sp_length p)))) (enumerate 0 ps)) r
      = Some [(hkey base, data)]"
proof -
  obtain p qs where ps: "ps = p # qs" using plan(2) by (cases ps) auto
  let ?k = "unat (sp_length p)" and ?h = "segHeader base (of_nat (length data)) n 0 p"
  from plan ps have c: "unat (sp_offset p) = 0" "sp_first p" "sp_more p \<longleftrightarrow> qs \<noteq> []"
    "contiguous (0 + ?k) qs (length data)" by auto
  have le: "0 + ?k \<le> length data" using contiguous_le [OF c(4)] .
  have last: "sp_more p \<or> 0 + ?k = length data" using c(3,4) by (cases qs) auto
  have acc: "accept ?h (subspan data 0 ?k) r
      = appendSegment ?h (subspan data 0 ?k) (hkey base)
          \<lparr>pt_totalLen = of_nat (length data), pt_bytes = take 0 data\<rparr> (midway r (hkey base) data 0)"
    by (rule accept_start) (use c lim new in \<open>simp_all add: unat_eq_0\<close>)
  show ?thesis
  proof (cases "sp_more p")
    case True
    then have "accept ?h (subspan data 0 ?k) r = (NeedMore, Ok, midway r (hkey base) data (0 + ?k))"
      unfolding acc by (intro appendSegment_midway(1) [OF len le _ room]) (use c last in simp_all)
    moreover have "0 < 0 + ?k" using True plan(3) ps by simp
    ultimately show ?thesis
      using receiveAll_midway [OF len lim room c(4), of base n 1] True c ps by simp
  next
    case False
    then obtain r' where r': "accept ?h (subspan data 0 ?k) r = (Complete, Ok, r')"
      "rs_completed r' = data" "rs_completedKey r' = hkey base" "rs_hasCompleted r'"
      unfolding acc using appendSegment_midway(2) [OF len le _ room, of ?h] c last by auto
    have "takeCompleted ?h r' = (data, r'\<lparr>rs_hasCompleted := False, rs_completed := []\<rparr>)"
      using r' by (simp add: takeCompleted_def Let_def)
    with r' c False ps show ?thesis by simp
  qed
qed

section \<open>Properties\<close>

text \<open>
  C24: the plan of a transfer covers it exactly once.  The segments are contiguous from 0 to the
  total length, only the first is marked first and all but the last are marked more, none exceeds
  the segment limit, and an empty transfer still has one segment.
\<close>

theorem planSegments_exact_cover:
  assumes "m \<noteq> 0"
  shows "planSegments t m \<noteq> [] \<and> contiguous 0 (planSegments t m) (unat t)
    \<and> (\<forall>p\<in>set (planSegments t m). unat (sp_length p) \<le> unat m)"
  using planSegments_cover [OF assms] by blast

theorem planSegments_exact_cover_witness:
  "contiguous 0 (planSegments 5 2) 5 \<and> length (planSegments 5 2) = 3"
  using planSegments_exact_cover [of 2 5]
  by (simp add: planSegments_def planLoop.simps Let_def)

text \<open>
  C11: what the sender emits, the receiver reassembles.  For a reassembler with room for the
  transfer, \<open>emitTransfer\<close> succeeds, no record carries more than the header, the fixed body and
  one segment, and feeding the records in order yields the data, once, under the key of the
  transfer.
\<close>

theorem emit_reassemble:
  assumes "m \<noteq> 0" and "h_type base \<noteq> typeCode T_Data" and "rsInv r"
    and "length data \<le> unat (rl_maxTransferBytes (rs_limits r))"
    and "map_of (rs_partial r) (hkey base) = None"
    and "length (rs_partial r) < unat (rl_maxInFlight (rs_limits r))"
    and "heldBytes (rs_partial r) + length data \<le> unat (rl_arenaBytes (rs_limits r))"
  shows "\<exists>recs. emitTransfer base fb data m (\<lambda>rec acc. (Ok, acc @ [rec])) [] = (Ok, recs)
    \<and> (\<forall>rec\<in>set recs. length rec \<le> kHeaderSize + length fb + unat m)
    \<and> receiveAll (map (openRecord (length fb)) recs) r = Some [(hkey base, data)]"
proof -
  let ?t = "of_nat (length data) :: u32" and ?ps = "planSegments (of_nat (length data)) m"
  let ?recs = "map (\<lambda>(j, p). segRecord base fb data j p) (enumerate 0 ?ps)"
  have "length data < 2 ^ 32" using assms(4) unat_u32_less [of "rl_maxTransferBytes (rs_limits r)"] by simp
  then have len: "unat ?t = length data" by (simp add: unat_of_nat)
  have lim: "?t \<le> rl_maxTransferBytes (rs_limits r)" using len assms(4) by (simp add: word_le_nat_alt)
  have room: "unat (rs_held r) + length data \<le> unat (rl_arenaBytes (rs_limits r))"
    using assms(3,7) by (simp add: rsInv_def)
  note cover = planSegments_cover [OF assms(1), of ?t, unfolded len]
  have "emitTransfer base fb data m (\<lambda>rec acc. (Ok, acc @ [rec])) [] = (Ok, ?recs)"
    using assms(1) by (simp add: emitTransfer_def emitLoop_collect)
  moreover have "\<forall>rec\<in>set ?recs. length rec \<le> kHeaderSize + length fb + unat m"
  proof
    fix rec assume "rec \<in> set ?recs"
    then obtain j p where rec: "rec = segRecord base fb data j p" "p \<in> set ?ps"
      by (auto simp: in_set_enumerate_eq)
    then have "unat (sp_length p) \<le> unat m" using cover(3) by blast
    then show "length rec \<le> kHeaderSize + length fb + unat m"
      by (simp add: rec(1) segRecord_def header.enc_length min_def)
  qed
  moreover
  have "map (openRecord (length fb)) ?recs = map (\<lambda>(j, p). (segHeader base ?t (length fb) j p,
        subspan data (unat (sp_offset p)) (unat (sp_length p)))) (enumerate 0 ?ps)"
    using openRecord_segRecord [OF assms(2)] by (simp add: case_prod_unfold)
  then have "receiveAll (map (openRecord (length fb)) ?recs) r = Some [(hkey base, data)]"
    using receiveAll_start [OF len lim room assms(5,6) cover(2,1,4)] by (simp only:)
  ultimately show ?thesis by blast
qed

theorem emit_reassemble_witness:
  "\<exists>recs. emitTransfer (Header0\<lparr>h_type := 0x41, h_channel := 258, h_requestId := 7\<rparr>) [9, 9]
      [1, 2, 3, 4, 5] 2 (\<lambda>rec acc. (Ok, acc @ [rec])) [] = (Ok, recs)
    \<and> receiveAll (map (openRecord 2) recs) (Reassembler_new RsLimits0) = Some [((258, 7), [1, 2, 3, 4, 5])]"
proof -
  define base where "base = Header0\<lparr>h_type := 0x41, h_channel := 258, h_requestId := 7\<rparr>"
  have b: "h_type base \<noteq> typeCode T_Data" "hkey base = (258, 7)" by (simp_all add: base_def Header0_def)
  have inv: "rsInv (Reassembler_new RsLimits0)" by (rule rsInv_new) (simp add: RsLimits0_def)
  have "length [9 :: u8, 9] = 2" by simp
  from emit_reassemble [OF _ b(1) inv, of 2 "[1, 2, 3, 4, 5]" "[9, 9]", unfolded this b(2)]
  show ?thesis unfolding base_def [symmetric]
    by (auto simp: Reassembler_new_def RsLimits0_def)
qed

text \<open>
  C12: whatever segments of whatever transfers arrive in whatever interleaving, as long as none is
  rejected, every payload handed out is the concatenation, in order of arrival, of the segments of
  its own key since the last one handed out for that key.
\<close>

theorem reassembly_refines_concat:
  assumes "receiveAll es (Reassembler_new l) = Some out"
  shows "out = deliver es (\<lambda>_. [])"
proof -
  have "pending (Reassembler_new l) = (\<lambda>_. [])" by (simp add: pending_def Reassembler_new_def fun_eq_iff)
  with receiveAll_deliver [OF assms] show ?thesis by simp
qed

theorem reassembly_refines_concat_witness:
  "receiveAll [(Header0\<lparr>h_flags := 3, h_totalLen := 2, h_requestId := 1\<rparr>, [1]),
      (Header0\<lparr>h_totalLen := 1, h_requestId := 2\<rparr>, [7]),
      (Header0\<lparr>h_totalLen := 2, h_segOffset := 1, h_requestId := 1\<rparr>, [2])] (Reassembler_new RsLimits0)
    = Some [((0, 2), [7]), ((0, 1), [1, 2])]"
proof -
  let ?es = "[(Header0\<lparr>h_flags := 3, h_totalLen := 2, h_requestId := 1\<rparr>, [1]),
      (Header0\<lparr>h_totalLen := 1, h_requestId := 2\<rparr>, [7]),
      (Header0\<lparr>h_totalLen := 2, h_segOffset := 1, h_requestId := 1\<rparr>, [2])]"
  have "\<exists>out. receiveAll ?es (Reassembler_new RsLimits0) = Some out"
    by (simp add: accept_def appendSegment_def dropPartial_def takeCompleted_def segFirst_def segMore_def
        Header0_def Reassembler_new_def RsLimits0_def Let_def)
  then obtain out where out: "receiveAll ?es (Reassembler_new RsLimits0) = Some out" by blast
  have "deliver ?es (\<lambda>_. []) = [((0, 2), [7]), ((0, 1), [1, 2])]"
    by (simp add: Header0_def segMore_def Let_def)
  with out reassembly_refines_concat [OF out] show ?thesis by simp
qed

text \<open>
  C13: the arena bounds hold in every state a peer can drive a reassembler into.  After any
  sequence of operations the byte counter equals the bytes held, which fit the arena; every partial
  transfer is within its declared length and that within the maximum; and the number of partial
  transfers is within its limit.
\<close>

theorem reassembler_bounded:
  assumes "unat (rl_arenaBytes l) < 2 ^ 63"
  shows "rsInv (fold rsStep ops (Reassembler_new l))"
  by (rule rsInv_steps [OF rsInv_new [OF assms]])

theorem reassembler_bounded_witness:
  "rsInv (fold rsStep [RsAccept (Header0\<lparr>h_flags := 3, h_totalLen := 9\<rparr>) [1, 2], RsForget 0 5, RsClear]
     (Reassembler_new RsLimits0))"
  by (rule reassembler_bounded) (simp add: RsLimits0_def)

end
