(* ===== verification/UsbTypes.thy ===== *)
theory UsbTypes
  imports Wire
begin

text \<open>
  USB primitives (\<open>core/UsbTypes.h\<close>, \<open>core/UsbTypes.cpp\<close>): speeds, the SETUP packet with the
  decomposition of its request type byte, the request, descriptor and feature codes, and the
  endpoint and device identities.
\<close>

datatype Speed =
    SpeedNone | SpeedFull | SpeedLow | SpeedHigh | SpeedSuper | SpeedSuperPlus
  | SpeedSuperPlusBy2 | SpeedOther

primrec speedCode :: "Speed \<Rightarrow> u8" where
  "speedCode SpeedNone = 0"
| "speedCode SpeedFull = 1"
| "speedCode SpeedLow = 2"
| "speedCode SpeedHigh = 3"
| "speedCode SpeedSuper = 4"
| "speedCode SpeedSuperPlus = 5"
| "speedCode SpeedSuperPlusBy2 = 6"
| "speedCode SpeedOther = 7"

primrec speedName :: "Speed \<Rightarrow> string" where
  "speedName SpeedNone = ''none''"
| "speedName SpeedFull = ''Full(12M)''"
| "speedName SpeedLow = ''Low(1.5M)''"
| "speedName SpeedHigh = ''High(480M)''"
| "speedName SpeedSuper = ''Super(5G)''"
| "speedName SpeedSuperPlus = ''SuperPlus(10G)''"
| "speedName SpeedSuperPlusBy2 = ''SuperPlusBy2(20G)''"
| "speedName SpeedOther = ''other''"

section \<open>SETUP packets\<close>

record SetupPacket =
  bmRequestType :: u8
  bRequest :: u8
  wValue :: u16
  wIndex :: u16
  wLength :: u16

definition su_direction :: "SetupPacket \<Rightarrow> Dir" where
  "su_direction s = (if bmRequestType s AND 0x80 \<noteq> 0 then DirIn else DirOut)"

definition su_type :: "SetupPacket \<Rightarrow> u8" where
  "su_type s = drop_bit 5 (bmRequestType s) AND 0x03"

definition su_recipient :: "SetupPacket \<Rightarrow> u8" where
  "su_recipient s = bmRequestType s AND 0x1F"

abbreviation (input) kReqStandard :: u8 where "kReqStandard \<equiv> 0"
abbreviation (input) kReqClass :: u8 where "kReqClass \<equiv> 1"
abbreviation (input) kReqVendor :: u8 where "kReqVendor \<equiv> 2"

definition isStandard :: "SetupPacket \<Rightarrow> bool" where
  "isStandard s \<longleftrightarrow> su_type s = 0"

definition isClass :: "SetupPacket \<Rightarrow> bool" where
  "isClass s \<longleftrightarrow> su_type s = 1"

definition isVendor :: "SetupPacket \<Rightarrow> bool" where
  "isVendor s \<longleftrightarrow> su_type s = 2"

abbreviation (input) kRcpDevice :: u8 where "kRcpDevice \<equiv> 0"
abbreviation (input) kRcpInterface :: u8 where "kRcpInterface \<equiv> 1"
abbreviation (input) kRcpEndpoint :: u8 where "kRcpEndpoint \<equiv> 2"
abbreviation (input) kRcpOther :: u8 where "kRcpOther \<equiv> 3"

abbreviation (input) kGetStatus :: u8 where "kGetStatus \<equiv> 0x00"
abbreviation (input) kClearFeature :: u8 where "kClearFeature \<equiv> 0x01"
abbreviation (input) kSetFeature :: u8 where "kSetFeature \<equiv> 0x03"
abbreviation (input) kSetAddress :: u8 where "kSetAddress \<equiv> 0x05"
abbreviation (input) kGetDescriptor :: u8 where "kGetDescriptor \<equiv> 0x06"
abbreviation (input) kSetDescriptor :: u8 where "kSetDescriptor \<equiv> 0x07"
abbreviation (input) kGetConfiguration :: u8 where "kGetConfiguration \<equiv> 0x08"
abbreviation (input) kSetConfiguration :: u8 where "kSetConfiguration \<equiv> 0x09"
abbreviation (input) kGetInterface :: u8 where "kGetInterface \<equiv> 0x0A"
abbreviation (input) kSetInterface :: u8 where "kSetInterface \<equiv> 0x0B"
abbreviation (input) kSynchFrame :: u8 where "kSynchFrame \<equiv> 0x0C"
abbreviation (input) kSetSel :: u8 where "kSetSel \<equiv> 0x30"
abbreviation (input) kSetIsochDelay :: u8 where "kSetIsochDelay \<equiv> 0x31"

abbreviation (input) kDescDevice :: u8 where "kDescDevice \<equiv> 0x01"
abbreviation (input) kDescConfiguration :: u8 where "kDescConfiguration \<equiv> 0x02"
abbreviation (input) kDescString :: u8 where "kDescString \<equiv> 0x03"
abbreviation (input) kDescInterface :: u8 where "kDescInterface \<equiv> 0x04"
abbreviation (input) kDescEndpoint :: u8 where "kDescEndpoint \<equiv> 0x05"
abbreviation (input) kDescDeviceQualifier :: u8 where "kDescDeviceQualifier \<equiv> 0x06"
abbreviation (input) kDescOtherSpeedConfig :: u8 where "kDescOtherSpeedConfig \<equiv> 0x07"
abbreviation (input) kDescInterfacePower :: u8 where "kDescInterfacePower \<equiv> 0x08"
abbreviation (input) kDescOtg :: u8 where "kDescOtg \<equiv> 0x09"
abbreviation (input) kDescBos :: u8 where "kDescBos \<equiv> 0x0F"
abbreviation (input) kDescDeviceCapability :: u8 where "kDescDeviceCapability \<equiv> 0x10"
abbreviation (input) kDescSsEndpointCompanion :: u8 where "kDescSsEndpointCompanion \<equiv> 0x30"

abbreviation (input) kFeatEndpointHalt :: u16 where "kFeatEndpointHalt \<equiv> 0"
abbreviation (input) kFeatDeviceRemoteWakeup :: u16 where "kFeatDeviceRemoteWakeup \<equiv> 1"
abbreviation (input) kFeatTestMode :: u16 where "kFeatTestMode \<equiv> 2"
abbreviation (input) kFeatU1Enable :: u16 where "kFeatU1Enable \<equiv> 48"
abbreviation (input) kFeatU2Enable :: u16 where "kFeatU2Enable \<equiv> 49"
abbreviation (input) kFeatLtmEnable :: u16 where "kFeatLtmEnable \<equiv> 50"

section \<open>Endpoints and identities\<close>

record EndpointModel =
  ep_address :: u8
  ep_type :: XferType
  ep_maxPacketSize :: u16
  ep_interval :: u8
  ep_maxBurst :: u8
  ep_mult :: u8
  ep_bytesPerInterval :: u16

definition ep_number :: "EndpointModel \<Rightarrow> u8" where
  "ep_number e = ep_address e AND 0x0F"

definition ep_direction :: "EndpointModel \<Rightarrow> Dir" where
  "ep_direction e = (if ep_address e AND 0x80 \<noteq> 0 then DirIn else DirOut)"

record DeviceIdentity =
  di_vendorId :: u16
  di_productId :: u16
  di_bcdDevice :: u16
  di_deviceClass :: u8
  di_subClass :: u8
  di_protocol :: u8
  di_speed :: Speed

lemma speedCode_eq_iff [simp]: "speedCode a = speedCode b \<longleftrightarrow> a = b"
  by (cases a; cases b; simp)

text \<open>A request is at most one of standard, class and vendor.\<close>

lemma su_type_exclusive:
  "\<not> (isStandard s \<and> isClass s)" "\<not> (isStandard s \<and> isVendor s)" "\<not> (isClass s \<and> isVendor s)"
  by (auto simp: isStandard_def isClass_def isVendor_def)

end
