(* ===== verification/Messages.thy ===== *)
theory Messages
  imports Codec UsbTypes
begin

text \<open>
  The session message bodies of \<open>protocol/Messages.h\<close> and \<open>protocol/Messages.cpp\<close>: the device
  list, ATTACH and ATTACH_OK, DETACH and DETACH_OK, PING/PONG and ERROR.  Names are byte strings.
\<close>

section \<open>DEVICE_LIST\<close>

type_synonym DeviceUid = bytes

abbreviation (input) kBodyDeviceList :: nat where "kBodyDeviceList \<equiv> 8"
abbreviation (input) kMaxListedDevices :: u32 where "kMaxListedDevices \<equiv> 64"
abbreviation (input) kDeviceRecordFixed :: nat where "kDeviceRecordFixed \<equiv> 24"
abbreviation (input) kMaxDeviceNameLen :: u16 where "kMaxDeviceNameLen \<equiv> 128"

abbreviation (input) kDevHasStorage :: u8 where "kDevHasStorage \<equiv> 1"
abbreviation (input) kDevMountedLocally :: u8 where "kDevMountedLocally \<equiv> 2"
abbreviation (input) kDevShareable :: u8 where "kDevShareable \<equiv> 4"
abbreviation (input) kDevAttached :: u8 where "kDevAttached \<equiv> 8"

record DeviceRecord =
  dr_uid :: DeviceUid
  dr_vendorId :: u16
  dr_productId :: u16
  dr_speed :: u8
  dr_flags :: u8
  dr_name :: bytes

definition encodeDeviceRecord :: "DeviceRecord \<Rightarrow> bytes \<Rightarrow> bytes" where
  "encodeDeviceRecord d out =
     (let nameLen = (if length (dr_name d) > unat kMaxDeviceNameLen then kMaxDeviceNameLen
                     else of_nat (length (dr_name d)));
          r = grow (kDeviceRecordFixed + unat nameLen);
          r = memcpy_to r 0 (dr_uid d);
          r = wr_u16 r 16 (dr_vendorId d);
          r = wr_u16 r 18 (dr_productId d);
          r = wr_u8 r 20 (dr_speed d);
          r = wr_u8 r 21 (dr_flags d);
          r = wr_u16 r 22 nameLen;
          r = (if nameLen \<noteq> 0 then memcpy_to r kDeviceRecordFixed (take (unat nameLen) (dr_name d))
               else r)
      in out @ r)"

definition encodeDeviceList :: "DeviceRecord list \<Rightarrow> bytes \<Rightarrow> bytes" where
  "encodeDeviceList devices out =
     (let n = (if length devices > unat kMaxListedDevices then kMaxListedDevices
               else of_nat (length devices));
          h = grow kBodyDeviceList;
          h = wr_u32 h 0 n;
          h = wr_u32 h 4 0
      in fold encodeDeviceRecord (take (unat n) devices) (out @ h))"

definition printable :: "u8 \<Rightarrow> u8" where
  "printable c = (if c \<ge> 0x20 \<and> c < 0x7F then c else 0x2E)"

text \<open>The loop over the declared number of records, from offset \<open>at\<close>.\<close>

fun decodeDevices :: "bytes \<Rightarrow> nat \<Rightarrow> nat \<Rightarrow> DeviceRecord list \<Rightarrow> (DeviceRecord list \<times> nat) option" where
  "decodeDevices body 0 at out = Some (out, at)"
| "decodeDevices body (Suc n) at out =
     (if length body - at < kDeviceRecordFixed then None
      else
        let r = drop at body;
            nameLen = rd_u16 r 22;
            at' = at + kDeviceRecordFixed;
            d = \<lparr>dr_uid = memcpy_from r 0 16, dr_vendorId = rd_u16 r 16, dr_productId = rd_u16 r 18,
                 dr_speed = rd_u8 r 20, dr_flags = rd_u8 r 21,
                 dr_name = map printable (subspan body at' (unat nameLen))\<rparr>
        in if nameLen > kMaxDeviceNameLen then None
           else if length body - at' < unat nameLen then None
           else if dr_speed d > speedCode SpeedOther then None
           else decodeDevices body n (at' + unat nameLen) (out @ [d]))"

definition decodeDeviceList :: "bytes \<Rightarrow> DeviceRecord list option" where
  "decodeDeviceList body =
     (if length body < kBodyDeviceList then None
      else
        let n = rd_u32 body 0 in
        if n > kMaxListedDevices then None
        else case decodeDevices body (unat n) kBodyDeviceList [] of
               None \<Rightarrow> None
             | Some (out, at) \<Rightarrow> if at = length body then Some out else None)"

section \<open>ATTACH and ATTACH_OK\<close>

abbreviation (input) kBodyAttach :: nat where "kBodyAttach \<equiv> 24"
abbreviation (input) kBodyAttachOk :: nat where "kBodyAttachOk \<equiv> 40"

record AttachBody =
  at_uid :: DeviceUid
  at_exclusivity :: u8
  at_attachSlot :: u8
  at_flags :: u16
  at_importerMaxTransferBytes :: u32

definition encodeAttach :: "AttachBody \<Rightarrow> bytes \<Rightarrow> bytes" where
  "encodeAttach b out =
     (let p = grow kBodyAttach;
          p = memcpy_to p 0 (at_uid b);
          p = wr_u8 p 16 (at_exclusivity b);
          p = wr_u8 p 17 (at_attachSlot b);
          p = wr_u16 p 18 (at_flags b);
          p = wr_u32 p 20 (at_importerMaxTransferBytes b)
      in out @ p)"

definition decodeAttach :: "bytes \<Rightarrow> AttachBody option" where
  "decodeAttach body =
     (if length body < kBodyAttach then None
      else
        let out = \<lparr>at_uid = memcpy_from body 0 16, at_exclusivity = rd_u8 body 16,
                   at_attachSlot = rd_u8 body 17, at_flags = rd_u16 body 18,
                   at_importerMaxTransferBytes = rd_u32 body 20\<rparr>
        in if at_attachSlot out = 0 \<or> at_attachSlot out > 15 then None
           else if at_exclusivity out \<noteq> 1 then None
           else Some out)"

abbreviation (input) kExpSupportsDeviceReset :: u8 where "kExpSupportsDeviceReset \<equiv> 1"
abbreviation (input) kExpSupportsSuspendIo :: u8 where "kExpSupportsSuspendIo \<equiv> 2"

record AttachOkBody =
  ao_attachId :: u32
  ao_creditUrbs :: u32
  ao_creditBytes :: u32
  ao_speed :: u16
  ao_cancelGranularity :: u8
  ao_exporterFlags :: u8
  ao_deviceLatencyUs :: u32
  ao_manifestLen :: u32
  ao_leaseEpoch :: u32
  ao_urbCeilingMs :: u32

definition encodeAttachOk :: "AttachOkBody \<Rightarrow> bytes \<Rightarrow> bytes" where
  "encodeAttachOk b out =
     (let p = grow kBodyAttachOk;
          p = wr_u32 p 0 (ao_attachId b);
          p = wr_u32 p 4 (ao_creditUrbs b);
          p = wr_u32 p 8 (ao_creditBytes b);
          p = wr_u16 p 12 (ao_speed b);
          p = wr_u8 p 14 (ao_cancelGranularity b);
          p = wr_u8 p 15 (ao_exporterFlags b);
          p = wr_u32 p 16 (ao_deviceLatencyUs b);
          p = wr_u32 p 20 (ao_manifestLen b);
          p = wr_u32 p 24 (ao_leaseEpoch b);
          p = wr_u32 p 28 (ao_urbCeilingMs b)
      in out @ p)"

definition decodeAttachOk :: "bytes \<Rightarrow> AttachOkBody option" where
  "decodeAttachOk body =
     (if length body < kBodyAttachOk then None
      else
        let out = \<lparr>ao_attachId = rd_u32 body 0, ao_creditUrbs = rd_u32 body 4,
                   ao_creditBytes = rd_u32 body 8, ao_speed = rd_u16 body 12,
                   ao_cancelGranularity = rd_u8 body 14, ao_exporterFlags = rd_u8 body 15,
                   ao_deviceLatencyUs = rd_u32 body 16, ao_manifestLen = rd_u32 body 20,
                   ao_leaseEpoch = rd_u32 body 24, ao_urbCeilingMs = rd_u32 body 28\<rparr>
        in if ao_speed out > ucast (speedCode SpeedOther) then None
           else if ao_manifestLen out > kManifestBytesMax then None
           else if ao_cancelGranularity out > 1 then None
           else Some out)"

section \<open>DETACH and DETACH_OK\<close>

abbreviation (input) kBodyDetach :: nat where "kBodyDetach \<equiv> 8"
abbreviation (input) kBodyDetachOk :: nat where "kBodyDetachOk \<equiv> 16"

datatype DetachReason =
    DrUserRequest | DrImporterShutdown | DrExporterReclaim | DrPolicy | DrError | DrSleep

primrec detachReasonCode :: "DetachReason \<Rightarrow> u8" where
  "detachReasonCode DrUserRequest = 1"
| "detachReasonCode DrImporterShutdown = 2"
| "detachReasonCode DrExporterReclaim = 3"
| "detachReasonCode DrPolicy = 4"
| "detachReasonCode DrError = 5"
| "detachReasonCode DrSleep = 6"

definition isKnownDetachReason :: "u8 \<Rightarrow> bool" where
  "isKnownDetachReason raw \<longleftrightarrow>
     raw \<ge> detachReasonCode DrUserRequest \<and> raw \<le> detachReasonCode DrSleep"

text \<open>The cast back to the enumeration, for a known code.\<close>

definition detachReasonOf :: "u8 \<Rightarrow> DetachReason" where
  "detachReasonOf raw =
     (if raw = 1 then DrUserRequest else if raw = 2 then DrImporterShutdown
      else if raw = 3 then DrExporterReclaim else if raw = 4 then DrPolicy
      else if raw = 5 then DrError else DrSleep)"

record DetachBody =
  de_reason :: DetachReason
  de_dflags :: u8
  de_drainTimeoutMs :: u16

record DetachOkBody =
  dok_urbsCompleted :: u32
  dok_urbsCancelled :: u32
  dok_bytesDropped :: u32

definition encodeDetach :: "DetachBody \<Rightarrow> bytes \<Rightarrow> bytes" where
  "encodeDetach b out =
     (let p = grow kBodyDetach;
          p = wr_u8 p 0 (detachReasonCode (de_reason b));
          p = wr_u8 p 1 (de_dflags b);
          p = wr_u16 p 2 (de_drainTimeoutMs b)
      in out @ p)"

definition decodeDetach :: "bytes \<Rightarrow> DetachBody option" where
  "decodeDetach body =
     (if length body < kBodyDetach then None
      else
        let raw = rd_u8 body 0 in
        if \<not> isKnownDetachReason raw then None
        else Some \<lparr>de_reason = detachReasonOf raw, de_dflags = rd_u8 body 1,
                   de_drainTimeoutMs = rd_u16 body 2\<rparr>)"

definition encodeDetachOk :: "DetachOkBody \<Rightarrow> bytes \<Rightarrow> bytes" where
  "encodeDetachOk b out =
     (let p = grow kBodyDetachOk;
          p = wr_u32 p 0 (dok_urbsCompleted b);
          p = wr_u32 p 4 (dok_urbsCancelled b);
          p = wr_u32 p 8 (dok_bytesDropped b)
      in out @ p)"

definition decodeDetachOk :: "bytes \<Rightarrow> DetachOkBody option" where
  "decodeDetachOk body =
     (if length body < kBodyDetachOk then None
      else Some \<lparr>dok_urbsCompleted = rd_u32 body 0, dok_urbsCancelled = rd_u32 body 4,
                 dok_bytesDropped = rd_u32 body 8\<rparr>)"

section \<open>PING and ERROR\<close>

record PingBody =
  pi_pingTsNs :: u64
  pi_echoTsNs :: u64
  pi_creditUrbsView :: u32
  pi_creditBytesView :: u32

definition encodePing :: "PingBody \<Rightarrow> bytes \<Rightarrow> bytes" where
  "encodePing b out =
     (let p = grow kBodyPing;
          p = wr_u64 p 0 (pi_pingTsNs b);
          p = wr_u64 p 8 (pi_echoTsNs b);
          p = wr_u32 p 16 (pi_creditUrbsView b);
          p = wr_u32 p 20 (pi_creditBytesView b)
      in out @ p)"

definition decodePing :: "bytes \<Rightarrow> PingBody option" where
  "decodePing body =
     (if length body < kBodyPing then None
      else Some \<lparr>pi_pingTsNs = rd_u64 body 0, pi_echoTsNs = rd_u64 body 8,
                 pi_creditUrbsView = rd_u32 body 16, pi_creditBytesView = rd_u32 body 20\<rparr>)"

record ErrorBody =
  eb_offendingType :: u16
  eb_detail :: u32

definition encodeError :: "ErrorBody \<Rightarrow> bytes \<Rightarrow> bytes" where
  "encodeError b out =
     (let p = grow kBodyError;
          p = wr_u16 p 0 (eb_offendingType b);
          p = wr_u16 p 2 0;
          p = wr_u32 p 4 (eb_detail b)
      in out @ p)"

definition decodeError :: "bytes \<Rightarrow> ErrorBody option" where
  "decodeError body =
     (if length body < kBodyError then None
      else Some \<lparr>eb_offendingType = rd_u16 body 0, eb_detail = rd_u32 body 4\<rparr>)"

definition buildError :: "u16 \<Rightarrow> Status \<Rightarrow> bytes \<Rightarrow> bytes \<Rightarrow> bytes" where
  "buildError offendingType status reason out =
     (let body = encodeError \<lparr>eb_offendingType = offendingType, eb_detail = 0\<rparr> [];
          body = (if reason \<noteq> [] then appendTlv (tlvCode TlvRejectReason) reason body else body);
          h = Header0\<lparr>h_type := typeCode T_Error, h_flags := kFlagSegFirst OR kFlagExpedite,
                h_channel := 0, h_status := statusCode status,
                h_bodyLen := of_nat (length body), h_totalLen := 0\<rparr>
      in encodeHeader h out @ body)"

section \<open>Encoded forms\<close>

definition wf_AttachBody :: "AttachBody \<Rightarrow> bool" where
  "wf_AttachBody b \<longleftrightarrow> length (at_uid b) = 16 \<and> at_exclusivity b = 1
     \<and> at_attachSlot b \<noteq> 0 \<and> at_attachSlot b \<le> 15"

definition wf_AttachOkBody :: "AttachOkBody \<Rightarrow> bool" where
  "wf_AttachOkBody b \<longleftrightarrow> ao_speed b \<le> 7 \<and> ao_manifestLen b \<le> kManifestBytesMax
     \<and> ao_cancelGranularity b \<le> 1"

lemma encodeAttach_bytes:
  assumes "length (at_uid b) = 16"
  shows "encodeAttach b out = out @ at_uid b @ [at_exclusivity b, at_attachSlot b]
    @ le16 (at_flags b) @ le32 (at_importerMaxTransferBytes b)"
  using assms unfolding encodeAttach_def Let_def
  by (simp add: store_simps)

lemma encodeAttachOk_bytes:
  "encodeAttachOk b out = out @ le32 (ao_attachId b) @ le32 (ao_creditUrbs b) @ le32 (ao_creditBytes b)
     @ le16 (ao_speed b) @ [ao_cancelGranularity b, ao_exporterFlags b] @ le32 (ao_deviceLatencyUs b)
     @ le32 (ao_manifestLen b) @ le32 (ao_leaseEpoch b) @ le32 (ao_urbCeilingMs b) @ replicate 8 0"
  unfolding encodeAttachOk_def Let_def
  by (simp add: store_simps, simp add: grow_def)

lemma encodeDetach_bytes:
  "encodeDetach b out = out @ [detachReasonCode (de_reason b), de_dflags b]
     @ le16 (de_drainTimeoutMs b) @ replicate 4 0"
  unfolding encodeDetach_def Let_def by (simp add: store_simps, simp add: grow_def)

lemma encodeDetachOk_bytes:
  "encodeDetachOk b out = out @ le32 (dok_urbsCompleted b) @ le32 (dok_urbsCancelled b)
     @ le32 (dok_bytesDropped b) @ replicate 4 0"
  unfolding encodeDetachOk_def Let_def by (simp add: store_simps, simp add: grow_def)

lemma encodePing_bytes:
  "encodePing b out = out @ le64 (pi_pingTsNs b) @ le64 (pi_echoTsNs b)
     @ le32 (pi_creditUrbsView b) @ le32 (pi_creditBytesView b)"
  unfolding encodePing_def Let_def by (simp add: store_simps)

lemma encodeError_bytes:
  "encodeError b out = out @ le16 (eb_offendingType b) @ le16 0 @ le32 (eb_detail b)"
  unfolding encodeError_def Let_def by (simp add: store_simps)

lemma detachReason_code [simp]:
  "detachReasonOf (detachReasonCode r) = r" "isKnownDetachReason (detachReasonCode r)"
  by (cases r; simp add: detachReasonOf_def isKnownDetachReason_def)+

section \<open>The codecs satisfy the contract\<close>

interpretation attach: fixed_codec encodeAttach decodeAttach wf_AttachBody kBodyAttach
proof (unfold_locales, goal_cases)
  case (1 x out) show ?case by (simp add: encodeAttach_def Let_def)
next
  case (2 x) then show ?case by (simp add: encodeAttach_bytes wf_AttachBody_def)
next
  case (3 bs) then show ?case by (simp add: decodeAttach_def)
next
  case (4 bs) then show ?case by (simp add: decodeAttach_def Let_def byte_simps)
next
  case (5 x)
  then show ?case
    by (simp add: wf_AttachBody_def encodeAttach_bytes)
      (simp add: decodeAttach_def Let_def le_defs rd_defs join nth_append not_less)
next
  case (6 bs x)
  then show ?case
    by (auto simp: decodeAttach_def Let_def wf_AttachBody_def memcpy_from_def not_less split: if_splits)
qed

interpretation attachOk: fixed_codec encodeAttachOk decodeAttachOk wf_AttachOkBody kBodyAttachOk
proof (unfold_locales, goal_cases)
  case (1 x out) show ?case by (simp add: encodeAttachOk_def Let_def)
next
  case (2 x) show ?case by (simp add: encodeAttachOk_bytes)
next
  case (3 bs) then show ?case by (simp add: decodeAttachOk_def)
next
  case (4 bs) then show ?case by (simp add: decodeAttachOk_def Let_def byte_simps)
next
  case (5 x)
  then show ?case
    by (simp add: encodeAttachOk_bytes)
      (simp add: wf_AttachOkBody_def decodeAttachOk_def Let_def le_defs rd_defs join not_less)
next
  case (6 bs x)
  then show ?case
    by (auto simp: decodeAttachOk_def Let_def wf_AttachOkBody_def not_less split: if_splits)
qed

interpretation detach: fixed_codec encodeDetach decodeDetach "\<lambda>_. True" kBodyDetach
proof (unfold_locales, goal_cases)
  case (1 x out) show ?case by (simp add: encodeDetach_def Let_def)
next
  case (2 x) show ?case by (simp add: encodeDetach_bytes)
next
  case (3 bs) then show ?case by (simp add: decodeDetach_def)
next
  case (4 bs) then show ?case by (simp add: decodeDetach_def Let_def byte_simps)
next
  case (5 x) show ?case
    by (simp add: encodeDetach_bytes decodeDetach_def Let_def le_defs rd_defs join)
next
  case 6 show ?case by simp
qed

interpretation detachOk: fixed_codec encodeDetachOk decodeDetachOk "\<lambda>_. True" kBodyDetachOk
proof (unfold_locales, goal_cases)
  case (1 x out) show ?case by (simp add: encodeDetachOk_def Let_def)
next
  case (2 x) show ?case by (simp add: encodeDetachOk_bytes)
next
  case (3 bs) then show ?case by (simp add: decodeDetachOk_def)
next
  case (4 bs) then show ?case by (simp add: decodeDetachOk_def byte_simps)
next
  case (5 x) show ?case
    by (simp add: encodeDetachOk_bytes decodeDetachOk_def le_defs rd_defs join)
next
  case 6 show ?case by simp
qed

interpretation ping: exact_codec encodePing decodePing "\<lambda>_. True" kBodyPing
proof (unfold_locales, goal_cases)
  case (1 x out) show ?case by (simp add: encodePing_def Let_def)
next
  case (2 x) show ?case by (simp add: encodePing_bytes)
next
  case (3 bs) then show ?case by (simp add: decodePing_def)
next
  case (4 bs) then show ?case by (simp add: decodePing_def byte_simps)
next
  case (5 x) show ?case by (simp add: encodePing_bytes decodePing_def le_defs rd_defs join)
next
  case 6 show ?case by simp
next
  case (7 bs x)
  then show ?case
    by (auto simp: encodePing_bytes decodePing_def le_rd le64_rd le64_rd [of 0, simplified]
        take_eq_concat_chunks [of "[8,8,4,4]" 24] split: if_splits)
next
  case (8 bs) then show ?case by (simp add: decodePing_def)
qed

interpretation error: fixed_codec encodeError decodeError "\<lambda>_. True" kBodyError
proof (unfold_locales, goal_cases)
  case (1 x out) show ?case by (simp add: encodeError_def Let_def)
next
  case (2 x) show ?case by (simp add: encodeError_bytes)
next
  case (3 bs) then show ?case by (simp add: decodeError_def)
next
  case (4 bs) then show ?case by (simp add: decodeError_def byte_simps)
next
  case (5 x) show ?case by (simp add: encodeError_bytes decodeError_def le_defs rd_defs join)
next
  case 6 show ?case by simp
qed

section \<open>The device list\<close>

definition wf_DeviceRecord :: "DeviceRecord \<Rightarrow> bool" where
  "wf_DeviceRecord d \<longleftrightarrow> length (dr_uid d) = 16 \<and> dr_speed d \<le> speedCode SpeedOther"

text \<open>What a receiver shows of a record: the name cut to 128 bytes and made printable.\<close>

definition shownRecord :: "DeviceRecord \<Rightarrow> DeviceRecord" where
  "shownRecord d = d\<lparr>dr_name := map printable (take 128 (dr_name d))\<rparr>"

definition recordBytes :: "DeviceRecord \<Rightarrow> bytes" where
  "recordBytes d = dr_uid d @ le16 (dr_vendorId d) @ le16 (dr_productId d) @ [dr_speed d, dr_flags d]
     @ le16 (of_nat (min 128 (length (dr_name d)))) @ take 128 (dr_name d)"

lemma grow_add: "grow (m + n) = grow m @ grow n"
  by (simp add: grow_def replicate_add)

lemma record_layout:
  assumes "length uid = 16"
  shows "memcpy_to (wr_u16 (wr_u8 (wr_u8 (wr_u16 (wr_u16 (memcpy_to (grow (24 + n)) 0 uid) 16 v) 18 p)
      20 s) 21 f) 22 nl) 24 nm
    = uid @ le16 v @ le16 p @ [s, f] @ le16 nl @ nm @ drop (length nm) (grow n)"
proof -
  have "drop (8 + length nm) (a # b # c # d # e # g # h # i # xs) = drop (length nm) xs"
    for a b c d e g h i and xs :: bytes by (simp add: numeral_eq_Suc)
  with assms show ?thesis
    unfolding wr_defs le_defs grow_add by (simp add: byte_simps list_update_append)
qed

lemma memcpy_to_Nil [simp]: "memcpy_to r i [] = r"
  by (simp add: memcpy_to_def)

lemma take_min_length [simp]: "take (min k (length xs)) xs = take k xs"
  by (simp add: min_def)

lemma encodeDeviceRecord_bytes:
  assumes "length (dr_uid d) = 16"
  shows "encodeDeviceRecord d out = out @ recordBytes d"
proof -
  define n where "n = min 128 (length (dr_name d))"
  define nm where "nm = take 128 (dr_name d)"
  have n: "unat (of_nat n :: u16) = n" by (simp add: n_def unat_of_nat)
  have nl: "(if length (dr_name d) > unat (128 :: u16) then 128 else of_nat (length (dr_name d)))
      = (of_nat n :: u16)" by (simp add: n_def min_def)
  have nm: "take n (dr_name d) = nm" "length nm = n" by (simp_all add: n_def nm_def)
  have z: "of_nat n = (0 :: u16) \<Longrightarrow> nm = []" using n nm(2) by (metis unat_0 length_0_conv)
  have skip: "(if of_nat n \<noteq> (0 :: u16) then memcpy_to r 24 nm else r) = memcpy_to r 24 nm" for r
    using z by auto
  have "drop n (grow n) = []" by (simp add: grow_def)
  then show ?thesis
    unfolding encodeDeviceRecord_def Let_def nl n nm(1) skip
    unfolding record_layout [OF assms] nm(2)
    by (simp add: recordBytes_def n_def nm_def)
qed

lemma fold_encodeDeviceRecord:
  "\<forall>d\<in>set ds. length (dr_uid d) = 16 \<Longrightarrow>
    fold encodeDeviceRecord ds out = out @ concat (map recordBytes ds)"
  by (induction ds arbitrary: out) (simp_all add: encodeDeviceRecord_bytes)

lemma length_recordBytes:
  "length (dr_uid d) = 16 \<Longrightarrow> length (recordBytes d) = 24 + min 128 (length (dr_name d))"
  by (simp add: recordBytes_def)

lemma decodeDevices_run:
  assumes "\<forall>d\<in>set ds. wf_DeviceRecord d"
  shows "decodeDevices (pre @ concat (map recordBytes ds)) (length ds) (length pre) out
    = Some (out @ map shownRecord ds, length pre + length (concat (map recordBytes ds)))"
  using assms
proof (induction ds arbitrary: pre out)
  case (Cons d ds)
  let ?rest = "concat (map recordBytes ds)"
  let ?body = "pre @ recordBytes d @ ?rest"
  define k where "k = min 128 (length (dr_name d))"
  from Cons.prems have wf: "length (dr_uid d) = 16" "dr_speed d \<le> 7" by (simp_all add: wf_DeviceRecord_def)
  have k: "k \<le> 128" "unat (of_nat k :: u16) = k" by (simp_all add: k_def unat_of_nat)
  then have le: "\<not> of_nat k > (128 :: u16)" by (simp add: word_less_nat_alt)
  have len: "length (recordBytes d) = 24 + k" using length_recordBytes [OF wf(1)] by (simp add: k_def)
  have fields: "rd_u16 (recordBytes d @ ?rest) 22 = of_nat k"
    "rd_u16 (recordBytes d @ ?rest) 16 = dr_vendorId d"
    "rd_u16 (recordBytes d @ ?rest) 18 = dr_productId d" "rd_u8 (recordBytes d @ ?rest) 20 = dr_speed d"
    "rd_u8 (recordBytes d @ ?rest) 21 = dr_flags d" "memcpy_from (recordBytes d @ ?rest) 0 16 = dr_uid d"
    using wf(1) by (simp_all add: recordBytes_def rd_defs le_defs nth_append join k_def)
  have name: "subspan ?body (length pre + 24) k = take 128 (dr_name d)"
    using wf(1) by (simp add: recordBytes_def k_def)
  have IH: "decodeDevices ?body (length ds) (length pre + 24 + k) (out @ [shownRecord d])
      = Some (out @ map shownRecord (d # ds), length pre + length (concat (map recordBytes (d # ds))))"
    using Cons.IH [of "pre @ recordBytes d" "out @ [shownRecord d]"] Cons.prems len
    by (simp add: add.assoc)
  have rec: "\<lparr>dr_uid = dr_uid d, dr_vendorId = dr_vendorId d, dr_productId = dr_productId d,
      dr_speed = dr_speed d, dr_flags = dr_flags d, dr_name = map printable (take 128 (dr_name d))\<rparr>
      = shownRecord d" by (simp add: shownRecord_def)
  have sp: "\<not> dr_speed (shownRecord d) > speedCode SpeedOther"
    using wf(2) by (simp add: shownRecord_def not_less)
  have dr: "drop (length pre) ?body = recordBytes d @ ?rest" by simp
  have room: "\<not> length ?body - length pre < 24" "\<not> length ?body - (length pre + 24) < k"
    using len by simp_all
  have "decodeDevices ?body (Suc (length ds)) (length pre) out
      = decodeDevices ?body (length ds) (length pre + 24 + k) (out @ [shownRecord d])"
    unfolding decodeDevices.simps Let_def dr fields k(2) name rec
    by (simp only: sp le room if_False)
  with IH show ?case by simp
qed simp

lemma encodeDeviceList_bytes:
  assumes "\<forall>d\<in>set ds. length (dr_uid d) = 16"
  shows "encodeDeviceList ds out =
    out @ le32 (of_nat (min 64 (length ds))) @ le32 0 @ concat (map recordBytes (take 64 ds))"
proof -
  define n where "n = min 64 (length ds)"
  have n: "unat (of_nat n :: u32) = n" by (simp add: n_def unat_of_nat)
  have nl: "(if length ds > unat (64 :: u32) then 64 else of_nat (length ds)) = (of_nat n :: u32)"
    by (simp add: n_def min_def)
  have tk: "take n ds = take 64 ds" by (simp add: n_def)
  have "\<forall>d\<in>set (take 64 ds). length (dr_uid d) = 16" using assms by (auto dest: in_set_takeD)
  then show ?thesis
    unfolding encodeDeviceList_def Let_def nl n n_def [symmetric] tk wr_defs le_defs
    by (subst fold_encodeDeviceRecord) (simp_all add: byte_simps)
qed

text \<open>Whatever the bytes, a decoded record has a printable name of at most 128 bytes and a known speed.\<close>

definition displayable :: "DeviceRecord \<Rightarrow> bool" where
  "displayable d \<longleftrightarrow> length (dr_name d) \<le> 128 \<and> (\<forall>c\<in>set (dr_name d). 0x20 \<le> c \<and> c < 0x7F)
     \<and> dr_speed d \<le> speedCode SpeedOther"

lemma decodeDevices_sound:
  "\<lbrakk>decodeDevices body n at out = Some (ds, at'); \<forall>d\<in>set out. displayable d\<rbrakk> \<Longrightarrow>
    (\<forall>d\<in>set ds. displayable d) \<and> length ds = length out + n"
proof (induction n arbitrary: at out)
  case (Suc n)
  define nl where "nl = rd_u16 (drop at body) 22"
  define d where "d = \<lparr>dr_uid = memcpy_from (drop at body) 0 16, dr_vendorId = rd_u16 (drop at body) 16,
      dr_productId = rd_u16 (drop at body) 18, dr_speed = rd_u8 (drop at body) 20,
      dr_flags = rd_u8 (drop at body) 21,
      dr_name = map printable (subspan body (at + 24) (unat nl))\<rparr>"
  from Suc.prems(1) have step: "decodeDevices body n (at + 24 + unat nl) (out @ [d]) = Some (ds, at')"
      "nl \<le> 128" "dr_speed d \<le> 7"
    by (auto simp: Let_def nl_def d_def not_less split: if_splits)
  have "length (dr_name d) \<le> 128" using step(2) by (simp add: d_def word_le_nat_alt min_def)
  moreover have "\<forall>c\<in>set (dr_name d). 0x20 \<le> c \<and> c < 0x7F"
    by (auto simp: d_def printable_def split: if_splits)
  ultimately have "displayable d" using step(3) by (simp add: displayable_def)
  with Suc.IH [OF step(1)] Suc.prems(2) show ?case by simp
qed simp

section \<open>Properties\<close>

text \<open>
  A device list survives the wire.  Decoding what \<open>encodeDeviceList\<close> wrote yields the first 64
  devices with their names cut to 128 bytes and made printable; and whatever bytes a peer sends, a
  list that decodes has at most 64 records, each with a printable name and a known speed.
\<close>

theorem device_list_roundtrip:
  "((\<forall>d\<in>set ds. wf_DeviceRecord d) \<longrightarrow>
     decodeDeviceList (encodeDeviceList ds []) = Some (map shownRecord (take 64 ds)))
   \<and> (decodeDeviceList body = Some rs \<longrightarrow> length rs \<le> 64 \<and> (\<forall>d\<in>set rs. displayable d))"
proof (intro conjI impI)
  assume wf: "\<forall>d\<in>set ds. wf_DeviceRecord d"
  let ?n = "min 64 (length ds)" and ?pre = "le32 (of_nat (min 64 (length ds))) @ le32 0"
  have "\<forall>d\<in>set ds. length (dr_uid d) = 16" using wf by (simp add: wf_DeviceRecord_def)
  then have enc: "encodeDeviceList ds [] = ?pre @ concat (map recordBytes (take 64 ds))"
    by (simp add: encodeDeviceList_bytes)
  have wf': "\<forall>d\<in>set (take 64 ds). wf_DeviceRecord d" using wf by (auto dest: in_set_takeD)
  have n: "rd_u32 (encodeDeviceList ds []) 0 = of_nat ?n"
    unfolding enc using rd_le(2) [of "[]"] by simp
  have u: "unat (of_nat ?n :: u32) = ?n" by (simp add: unat_of_nat)
  have "length (take 64 ds) = ?n" by simp
  with decodeDevices_run [OF wf', of ?pre "[]"]
  have "decodeDevices (encodeDeviceList ds []) ?n 8 []
      = Some (map shownRecord (take 64 ds), length (encodeDeviceList ds []))"
    by (simp add: enc)
  then show "decodeDeviceList (encodeDeviceList ds []) = Some (map shownRecord (take 64 ds))"
    using u by (simp add: decodeDeviceList_def n Let_def word_less_nat_alt not_less)
      (simp add: enc)
next
  assume "decodeDeviceList body = Some rs"
  then obtain at where "decodeDevices body (unat (rd_u32 body 0)) 8 [] = Some (rs, at)"
      "rd_u32 body 0 \<le> 64"
    by (auto simp: decodeDeviceList_def Let_def not_less split: if_splits option.splits prod.splits)
  with decodeDevices_sound [of body "unat (rd_u32 body 0)" 8 "[]" rs at]
  show "length rs \<le> 64" "\<forall>d\<in>set rs. displayable d" by (simp_all add: word_le_nat_alt)
qed

theorem device_list_roundtrip_witness:
  "\<exists>d. decodeDeviceList (encodeDeviceList [d] []) = Some [shownRecord d] \<and> dr_name (shownRecord d) = [65, 46]
     \<and> displayable (shownRecord d)"
proof -
  define d where "d = \<lparr>dr_uid = replicate 16 1, dr_vendorId = 0x781, dr_productId = 0x5567,
    dr_speed = 3, dr_flags = 5, dr_name = [65, 27]\<rparr>"
  have "wf_DeviceRecord d" by (simp add: d_def wf_DeviceRecord_def)
  then have eq: "decodeDeviceList (encodeDeviceList [d] []) = Some [shownRecord d]"
    using device_list_roundtrip [THEN conjunct1, of "[d]"] by simp
  moreover have "displayable (shownRecord d)"
    using device_list_roundtrip [THEN conjunct2, rule_format, OF eq] by simp
  moreover have "dr_name (shownRecord d) = [65, 46]"
    by (simp add: d_def shownRecord_def printable_def)
  ultimately show ?thesis by blast
qed

text \<open>
  An ATTACH decodes exactly when it is exclusive and names a slot from 1 to 15, so no attach
  can claim the session channel, and two endpoints of attached devices never share a channel.
\<close>

theorem attach_slot_channels:
  "(\<exists>b. decodeAttach body = Some b \<and> at_attachSlot b = slot) =
     (24 \<le> length body \<and> rd_u8 body 16 = 1 \<and> rd_u8 body 17 = slot \<and> slot \<in> {1..15})
   \<and> (decodeAttach body = Some b \<longrightarrow> channelFor (at_attachSlot b) ep \<noteq> kChannelSession)
   \<and> (channelFor s e = channelFor s' e' \<longleftrightarrow> s = s' \<and> e = e')"
proof (intro conjI impI)
  show "(\<exists>b. decodeAttach body = Some b \<and> at_attachSlot b = slot) =
     (24 \<le> length body \<and> rd_u8 body 16 = 1 \<and> rd_u8 body 17 = slot \<and> slot \<in> {1..15})"
    by (auto simp: decodeAttach_def Let_def not_less word_le_nat_alt word_less_nat_alt word_unat_eq_iff
        simp flip: unat_gt_0)
  show "channelFor s e = channelFor s' e' \<longleftrightarrow> s = s' \<and> e = e'" by (rule channelFor_inj)
  assume "decodeAttach body = Some b"
  then have "at_attachSlot b \<noteq> 0" using attach.dec_wf by (simp add: wf_AttachBody_def)
  then show "channelFor (at_attachSlot b) ep \<noteq> kChannelSession"
    using channelFor_inj [of "at_attachSlot b" ep 0 0] by (auto simp: channelFor_def)
qed

theorem attach_slot_channels_witness:
  "\<exists>b. decodeAttach (replicate 16 7 @ [1, 3] @ replicate 6 0) = Some b \<and> at_attachSlot b = 3
     \<and> channelFor (at_attachSlot b) 0 \<noteq> kChannelSession"
proof -
  let ?body = "replicate 16 7 @ [1, 3] @ replicate 6 0 :: bytes"
  have "24 \<le> length ?body \<and> rd_u8 ?body 16 = 1 \<and> rd_u8 ?body 17 = 3 \<and> (3 :: u8) \<in> {1..15}"
    by (simp add: rd_u8_def nth_append)
  then obtain b where "decodeAttach ?body = Some b" "at_attachSlot b = 3"
    using attach_slot_channels [of ?body 3] by blast
  with attach_slot_channels [of ?body 3 b 0] show ?thesis by blast
qed

end
