(* ===== verification/Manifest.thy ===== *)
theory Manifest
  imports Messages
begin

text \<open>
  The device manifest (\<open>core/DeviceManifest.h\<close>, \<open>core/DeviceManifest.cpp\<close>): the verbatim
  descriptors of a device, the descriptor walk, the lookups of configurations, strings and
  endpoints, and structural validation.
\<close>

section \<open>Descriptor walk\<close>

definition rd16 :: "bytes \<Rightarrow> nat \<Rightarrow> u16" where
  "rd16 p i = (ucast (p ! i) :: u16) OR push_bit 8 (ucast (p ! (i + 1)))"

text \<open>
  \<open>forEachDescriptor\<close> from offset \<open>at\<close>; the callback runs on a caller state and says whether to
  go on.
\<close>

function forEachDescriptor_at ::
    "bytes \<Rightarrow> (u8 \<Rightarrow> bytes \<Rightarrow> 's \<Rightarrow> bool \<times> 's) \<Rightarrow> nat \<Rightarrow> 's \<Rightarrow> bool \<times> 's" where
  "forEachDescriptor_at blob fn at s =
     (if at < length blob then
        if length blob - at < 2 then (False, s)
        else
          let bLength = blob ! at; bType = blob ! (at + 1) in
          if bLength < 2 then (False, s)
          else if length blob - at < unat bLength then (False, s)
          else
            let (go, s') = fn bType (subspan blob at (unat bLength)) s in
            if \<not> go then (False, s')
            else forEachDescriptor_at blob fn (at + unat bLength) s'
      else (True, s))"
  by pat_completeness auto
termination
  by (relation "measure (\<lambda>(blob, fn, at, s). length blob - at)")
    (auto simp: word_less_nat_alt not_less)

declare forEachDescriptor_at.simps [simp del]

definition forEachDescriptor ::
    "bytes \<Rightarrow> (u8 \<Rightarrow> bytes \<Rightarrow> 's \<Rightarrow> bool \<times> 's) \<Rightarrow> 's \<Rightarrow> bool \<times> 's" where
  "forEachDescriptor blob fn s = forEachDescriptor_at blob fn 0 s"

section \<open>The manifest\<close>

record StringDescriptorEntry =
  sd_index :: u8
  sd_langId :: u16
  sd_blob :: bytes

record DeviceManifest =
  dm_speed :: Speed
  dm_device :: bytes
  dm_configs :: "bytes list"
  dm_bos :: bytes
  dm_deviceQualifier :: bytes
  dm_otherSpeedConfig :: bytes
  dm_langIdTable :: bytes
  dm_strings :: "StringDescriptorEntry list"

definition DeviceManifest0 :: DeviceManifest where
  "DeviceManifest0 = \<lparr>dm_speed = SpeedNone, dm_device = [], dm_configs = [], dm_bos = [],
     dm_deviceQualifier = [], dm_otherSpeedConfig = [], dm_langIdTable = [], dm_strings = []\<rparr>"

definition setSpeed :: "Speed \<Rightarrow> DeviceManifest \<Rightarrow> DeviceManifest" where
  "setSpeed s m = m\<lparr>dm_speed := s\<rparr>"

definition setDeviceDescriptor :: "bytes \<Rightarrow> DeviceManifest \<Rightarrow> DeviceManifest" where
  "setDeviceDescriptor blob m = m\<lparr>dm_device := blob\<rparr>"

definition addConfiguration :: "bytes \<Rightarrow> DeviceManifest \<Rightarrow> DeviceManifest" where
  "addConfiguration blob m = m\<lparr>dm_configs := dm_configs m @ [blob]\<rparr>"

definition setBos :: "bytes \<Rightarrow> DeviceManifest \<Rightarrow> DeviceManifest" where
  "setBos blob m = m\<lparr>dm_bos := blob\<rparr>"

definition setDeviceQualifier :: "bytes \<Rightarrow> DeviceManifest \<Rightarrow> DeviceManifest" where
  "setDeviceQualifier b m = m\<lparr>dm_deviceQualifier := b\<rparr>"

definition setOtherSpeedConfig :: "bytes \<Rightarrow> DeviceManifest \<Rightarrow> DeviceManifest" where
  "setOtherSpeedConfig b m = m\<lparr>dm_otherSpeedConfig := b\<rparr>"

definition setLangIds :: "u16 list \<Rightarrow> DeviceManifest \<Rightarrow> DeviceManifest" where
  "setLangIds langIds m =
     m\<lparr>dm_langIdTable := [of_nat (2 + length langIds * 2), kDescString]
         @ concat (map (\<lambda>id. [ucast (id AND 0xFF), ucast (drop_bit 8 id)]) langIds)\<rparr>"

definition addString :: "u8 \<Rightarrow> u16 \<Rightarrow> bytes \<Rightarrow> DeviceManifest \<Rightarrow> DeviceManifest" where
  "addString index langId blob m =
     m\<lparr>dm_strings := dm_strings m @ [\<lparr>sd_index = index, sd_langId = langId, sd_blob = blob\<rparr>]\<rparr>"

definition dm_identity :: "DeviceManifest \<Rightarrow> DeviceIdentity" where
  "dm_identity m =
     (if length (dm_device m) \<ge> 18
      then \<lparr>di_vendorId = rd16 (dm_device m) 8, di_productId = rd16 (dm_device m) 10,
            di_bcdDevice = rd16 (dm_device m) 12, di_deviceClass = dm_device m ! 4,
            di_subClass = dm_device m ! 5, di_protocol = dm_device m ! 6, di_speed = dm_speed m\<rparr>
      else \<lparr>di_vendorId = 0, di_productId = 0, di_bcdDevice = 0, di_deviceClass = 0,
            di_subClass = 0, di_protocol = 0, di_speed = dm_speed m\<rparr>)"

text \<open>An empty span stands for "none" in the lookups of the source, and the empty list does here.\<close>

definition configurationByIndex :: "DeviceManifest \<Rightarrow> u8 \<Rightarrow> bytes" where
  "configurationByIndex m index =
     (if unat index \<ge> length (dm_configs m) then [] else dm_configs m ! unat index)"

definition configurationByValue :: "DeviceManifest \<Rightarrow> u8 \<Rightarrow> bytes" where
  "configurationByValue m v =
     (case List.find (\<lambda>c. length c \<ge> 9 \<and> c ! 5 = v) (dm_configs m) of
        None \<Rightarrow> [] | Some c \<Rightarrow> c)"

definition stringDescriptor :: "DeviceManifest \<Rightarrow> u8 \<Rightarrow> u16 \<Rightarrow> bytes" where
  "stringDescriptor m index langId =
     (if index = 0 then dm_langIdTable m
      else case List.find (\<lambda>s. sd_index s = index \<and> sd_langId s = langId) (dm_strings m) of
             None \<Rightarrow> [] | Some s \<Rightarrow> sd_blob s)"

definition byteSize :: "DeviceManifest \<Rightarrow> nat" where
  "byteSize m =
     length (dm_device m) + length (dm_bos m) + length (dm_deviceQualifier m)
     + length (dm_otherSpeedConfig m) + length (dm_langIdTable m)
     + sum_list (map length (dm_configs m))
     + sum_list (map (\<lambda>s. length (sd_blob s) + 4) (dm_strings m))"

section \<open>Endpoints\<close>

text \<open>\<open>static_cast<XferType>(attr & 3)\<close>.\<close>

definition xferTypeOf :: "u8 \<Rightarrow> XferType" where
  "xferTypeOf attr =
     (if attr AND 3 = 0 then XControl else if attr AND 3 = 1 then XIsochronous
      else if attr AND 3 = 2 then XBulk else XInterrupt)"

definition endpointOf :: "bytes \<Rightarrow> EndpointModel" where
  "endpointOf d = \<lparr>ep_address = d ! 2, ep_type = xferTypeOf (d ! 3), ep_maxPacketSize = rd16 d 4,
     ep_interval = d ! 6, ep_maxBurst = 0, ep_mult = 0, ep_bytesPerInterval = 0\<rparr>"

definition applyCompanion :: "bytes \<Rightarrow> EndpointModel \<Rightarrow> EndpointModel" where
  "applyCompanion d e =
     e\<lparr>ep_maxBurst := d ! 2, ep_mult := d ! 3 AND 3, ep_bytesPerInterval := rd16 d 4\<rparr>"

text \<open>The callback of \<open>endpointsFor\<close> on its captured \<open>inTarget\<close> and \<open>out\<close>.\<close>

definition endpointsFor_fn ::
    "u8 \<Rightarrow> u8 \<Rightarrow> u8 \<Rightarrow> bytes \<Rightarrow> bool \<times> EndpointModel list \<Rightarrow> bool \<times> bool \<times> EndpointModel list" where
  "endpointsFor_fn interfaceNumber altSetting ty d st =
     (let (inTarget, out) = st in
      if ty = kDescInterface \<and> length d \<ge> 9
      then (True, d ! 2 = interfaceNumber \<and> d ! 3 = altSetting, out)
      else if ty = kDescEndpoint \<and> inTarget \<and> length d \<ge> 7
      then (True, inTarget, out @ [endpointOf d])
      else if ty = kDescSsEndpointCompanion \<and> inTarget \<and> length d \<ge> 6
      then (True, inTarget,
            if out \<noteq> [] then butlast out @ [applyCompanion d (last out)] else out)
      else (True, inTarget, out))"

definition endpointsFor :: "DeviceManifest \<Rightarrow> u8 \<Rightarrow> u8 \<Rightarrow> u8 \<Rightarrow> EndpointModel list" where
  "endpointsFor m configValue interfaceNumber altSetting =
     (let cfg = configurationByValue m configValue in
      if cfg = [] then []
      else snd (snd (forEachDescriptor cfg (endpointsFor_fn interfaceNumber altSetting) (False, []))))"

text \<open>
  The callback of \<open>findEndpoint\<close> on its captured \<open>inActiveAlt\<close>, \<open>found\<close> and \<open>out\<close>; a null
  \<open>altOf\<close> is the constant 0.
\<close>

definition findEndpoint_fn ::
    "u8 \<Rightarrow> (u8 \<Rightarrow> u8) \<Rightarrow> u8 \<Rightarrow> bytes \<Rightarrow> bool \<times> EndpointModel option
      \<Rightarrow> bool \<times> bool \<times> EndpointModel option" where
  "findEndpoint_fn epAddr altOf ty d st =
     (let (inActiveAlt, found) = st in
      if ty = kDescInterface \<and> length d \<ge> 9
      then (True, d ! 3 = altOf (d ! 2), found)
      else if ty = kDescEndpoint \<and> inActiveAlt \<and> length d \<ge> 7 \<and> found = None
      then (True, inActiveAlt, if d ! 2 = epAddr then Some (endpointOf d) else found)
      else if ty = kDescSsEndpointCompanion \<and> found \<noteq> None \<and> length d \<ge> 6
      then (False, inActiveAlt, map_option (applyCompanion d) found)
      else if found \<noteq> None \<and> (ty = kDescEndpoint \<or> ty = kDescInterface)
      then (False, inActiveAlt, found)
      else (True, inActiveAlt, found))"

definition findEndpoint ::
    "DeviceManifest \<Rightarrow> u8 \<Rightarrow> u8 \<Rightarrow> (u8 \<Rightarrow> u8) \<Rightarrow> EndpointModel option" where
  "findEndpoint m configValue epAddr altOf =
     (let cfg = configurationByValue m configValue in
      if cfg = [] then None
      else snd (snd (forEachDescriptor cfg (findEndpoint_fn epAddr altOf) (False, None))))"

section \<open>Validation\<close>

datatype (plugins only: code size) ManifestFault =
    DeviceTooShort | DeviceLength | DeviceType | NoConfigurations | ConfigCount
  | ConfigTooShort | ConfigType | ConfigTotal | ConfigWalk
  | SuperMps0 | SuperBcd | SuperBos | HighMps0 | FullLowMps0 | NoSpeed
  | BosTooShort | BosType | BosTotal
  | LangTooShort | LangType | LangLength
  | StringTooShort | StringType | StringLength | StringLang
  | TooLarge

primrec faultText :: "ManifestFault \<Rightarrow> string" where
  "faultText DeviceTooShort = ''device descriptor shorter than 18 bytes''"
| "faultText DeviceLength = ''device descriptor bLength disagrees with its size''"
| "faultText DeviceType = ''device descriptor has the wrong bDescriptorType''"
| "faultText NoConfigurations = ''bNumConfigurations is zero''"
| "faultText ConfigCount = ''configuration count disagrees with bNumConfigurations''"
| "faultText ConfigTooShort = ''configuration descriptor shorter than 9 bytes''"
| "faultText ConfigType = ''configuration has the wrong bDescriptorType''"
| "faultText ConfigTotal = ''wTotalLength disagrees with the blob size''"
| "faultText ConfigWalk = ''configuration descriptor walk is malformed''"
| "faultText SuperMps0 = ''SuperSpeed requires bMaxPacketSize0 == 9 (2^9 = 512)''"
| "faultText SuperBcd = ''SuperSpeed declared but bcdUSB < 0x0300''"
| "faultText SuperBos = ''SuperSpeed requires a BOS descriptor''"
| "faultText HighMps0 = ''High Speed requires bMaxPacketSize0 == 64''"
| "faultText FullLowMps0 = ''Full/Low Speed bMaxPacketSize0 must be 8, 16, 32 or 64''"
| "faultText NoSpeed = ''manifest declares no usable speed''"
| "faultText BosTooShort = ''BOS descriptor shorter than 5 bytes''"
| "faultText BosType = ''BOS has the wrong bDescriptorType''"
| "faultText BosTotal = ''BOS wTotalLength disagrees with the blob size''"
| "faultText LangTooShort = ''LANGID table shorter than one entry''"
| "faultText LangType = ''LANGID table has the wrong bDescriptorType''"
| "faultText LangLength = ''LANGID table bLength disagrees with its size''"
| "faultText StringTooShort = ''string descriptor shorter than 2 bytes''"
| "faultText StringType = ''string has the wrong bDescriptorType''"
| "faultText StringLength = ''string bLength disagrees with its size''"
| "faultText StringLang = ''string declares a LANGID absent from the table''"
| "faultText TooLarge = ''manifest exceeds the 256 KiB ceiling''"

text \<open>The checks of \<open>validate\<close> in order; the first that fails is the reason.\<close>

definition require :: "bool \<Rightarrow> ManifestFault \<Rightarrow> ManifestFault option \<Rightarrow> ManifestFault option" where
  "require ok f k = (if ok then k else Some f)"

fun firstFault :: "('a \<Rightarrow> ManifestFault option) \<Rightarrow> 'a list \<Rightarrow> ManifestFault option" where
  "firstFault check [] = None"
| "firstFault check (x # xs) = (case check x of None \<Rightarrow> firstFault check xs | Some f \<Rightarrow> Some f)"

definition andThen :: "ManifestFault option \<Rightarrow> ManifestFault option \<Rightarrow> ManifestFault option" where
  "andThen a b = (case a of None \<Rightarrow> b | Some f \<Rightarrow> Some f)"

definition checkDevice :: "DeviceManifest \<Rightarrow> ManifestFault option" where
  "checkDevice m =
     (let d = dm_device m in
      require (length d \<ge> 18) DeviceTooShort
      (require (unat (d ! 0) = length d) DeviceLength
      (require (d ! 1 = kDescDevice) DeviceType
      (require (d ! 17 \<noteq> 0) NoConfigurations
      (require (length (dm_configs m) = unat (d ! 17)) ConfigCount None)))))"

definition checkConfig :: "bytes \<Rightarrow> ManifestFault option" where
  "checkConfig c =
     require (length c \<ge> 9) ConfigTooShort
     (require (c ! 1 = kDescConfiguration) ConfigType
     (require (unat (rd16 c 2) = length c) ConfigTotal
     (require (fst (forEachDescriptor c (\<lambda>_ _ s. (True, s)) ())) ConfigWalk None)))"

definition checkSpeed :: "DeviceManifest \<Rightarrow> ManifestFault option" where
  "checkSpeed m =
     (let mps0 = dm_device m ! 7;
          bcdUsb = rd16 (dm_device m) 2
      in if dm_speed m = SpeedSuper \<or> dm_speed m = SpeedSuperPlus \<or> dm_speed m = SpeedSuperPlusBy2
         then require (mps0 = 9) SuperMps0
              (require (bcdUsb \<ge> 0x0300) SuperBcd
              (require (dm_bos m \<noteq> []) SuperBos None))
         else if dm_speed m = SpeedHigh then require (mps0 = 64) HighMps0 None
         else if dm_speed m = SpeedFull \<or> dm_speed m = SpeedLow
         then require (mps0 = 8 \<or> mps0 = 16 \<or> mps0 = 32 \<or> mps0 = 64) FullLowMps0 None
         else Some NoSpeed)"

definition checkBos :: "DeviceManifest \<Rightarrow> ManifestFault option" where
  "checkBos m =
     (let b = dm_bos m in
      if b \<noteq> [] then
        require (length b \<ge> 5) BosTooShort
        (require (b ! 1 = kDescBos) BosType
        (require (unat (rd16 b 2) = length b) BosTotal None))
      else None)"

definition checkLang :: "DeviceManifest \<Rightarrow> ManifestFault option" where
  "checkLang m =
     (let t = dm_langIdTable m in
      if t \<noteq> [] then
        require (length t \<ge> 4) LangTooShort
        (require (t ! 1 = kDescString) LangType
        (require (unat (t ! 0) = length t) LangLength None))
      else None)"

text \<open>The search for a language from entry \<open>i\<close> of the table.\<close>

function langKnown :: "bytes \<Rightarrow> u16 \<Rightarrow> nat \<Rightarrow> bool" where
  "langKnown t lang i =
     (if i + 1 < length t then (if rd16 t i = lang then True else langKnown t lang (i + 2))
      else False)"
  by pat_completeness auto
termination
  by (relation "measure (\<lambda>(t, lang, i). length t - i)") auto

declare langKnown.simps [simp del]

definition checkString :: "DeviceManifest \<Rightarrow> StringDescriptorEntry \<Rightarrow> ManifestFault option" where
  "checkString m s =
     (let b = sd_blob s in
      require (length b \<ge> 2) StringTooShort
      (require (b ! 1 = kDescString) StringType
      (require (unat (b ! 0) = length b) StringLength
      (require (langKnown (dm_langIdTable m) (sd_langId s) 2) StringLang None))))"

definition validate_fault :: "DeviceManifest \<Rightarrow> ManifestFault option" where
  "validate_fault m =
     andThen (checkDevice m) (andThen (firstFault checkConfig (dm_configs m))
     (andThen (checkSpeed m) (andThen (checkBos m) (andThen (checkLang m)
     (andThen (firstFault (checkString m) (dm_strings m))
     (require (byteSize m \<le> 256 * 1024) TooLarge None))))))"

definition validate :: "DeviceManifest \<Rightarrow> Status" where
  "validate m = (case validate_fault m of None \<Rightarrow> Ok | Some _ \<Rightarrow> ManifestInvalid)"

section \<open>Facts on the walk\<close>

text \<open>
  A walk succeeds exactly on concatenations of descriptors that state their own length, and the
  callback sees these descriptors in order until it refuses.
\<close>

definition wf_desc :: "bytes \<Rightarrow> bool" where
  "wf_desc d \<longleftrightarrow> 2 \<le> length d \<and> unat (d ! 0) = length d"

fun walkDescs :: "(u8 \<Rightarrow> bytes \<Rightarrow> 's \<Rightarrow> bool \<times> 's) \<Rightarrow> bytes list \<Rightarrow> 's \<Rightarrow> bool \<times> 's" where
  "walkDescs fn [] s = (True, s)"
| "walkDescs fn (d # ds) s =
     (let (go, s') = fn (d ! 1) d s in if go then walkDescs fn ds s' else (False, s'))"

lemma forEachDescriptor_at_run:
  assumes "\<forall>d\<in>set ds. wf_desc d"
  shows "forEachDescriptor_at (pre @ concat ds) fn (length pre) s = walkDescs fn ds s"
  using assms
proof (induction ds arbitrary: pre s)
  case Nil
  then show ?case by (simp add: forEachDescriptor_at.simps)
next
  case (Cons d ds)
  let ?blob = "pre @ d @ concat ds"
  from Cons.prems have wf: "2 \<le> length d" "unat (d ! 0) = length d" by (simp_all add: wf_desc_def)
  then have hd: "?blob ! length pre = d ! 0" "?blob ! (length pre + 1) = d ! 1"
    by (auto simp: nth_append)
  have "\<not> d ! 0 < 2" using wf by (simp add: word_less_nat_alt)
  moreover have "length pre < length ?blob" "\<not> length ?blob - length pre < 2"
    "\<not> length ?blob - length pre < length d" using wf by auto
  moreover have "subspan ?blob (length pre) (length d) = d" by simp
  ultimately have "forEachDescriptor_at ?blob fn (length pre) s =
      (let (go, s') = fn (d ! 1) d s in
       if \<not> go then (False, s') else forEachDescriptor_at ?blob fn (length pre + length d) s')"
    unfolding forEachDescriptor_at.simps [of ?blob fn "length pre" s] Let_def hd wf(2) by simp
  moreover have "forEachDescriptor_at ?blob fn (length pre + length d) s' = walkDescs fn ds s'" for s'
    using Cons.IH [of "pre @ d" s'] Cons.prems by simp
  ultimately show ?case by (simp add: case_prod_unfold Let_def)
qed

lemma forEachDescriptor_run:
  "\<forall>d\<in>set ds. wf_desc d \<Longrightarrow> forEachDescriptor (concat ds) fn s = walkDescs fn ds s"
  using forEachDescriptor_at_run [of ds "[]"] by (simp add: forEachDescriptor_def)

lemma forEachDescriptor_at_accepts:
  "\<lbrakk>forEachDescriptor_at blob fn at s = (True, s'); at \<le> length blob\<rbrakk> \<Longrightarrow>
    \<exists>ds. drop at blob = concat ds \<and> (\<forall>d\<in>set ds. wf_desc d) \<and> walkDescs fn ds s = (True, s')"
proof (induction blob fn at s rule: forEachDescriptor_at.induct)
  case (1 blob fn at s)
  define k where "k = unat (blob ! at)"
  define d where "d = subspan blob at k"
  show ?case
  proof (cases "at < length blob")
    case False
    with 1(2,3) show ?thesis by (intro exI [of _ "[]"]) (simp add: forEachDescriptor_at.simps)
  next
    case True
    from 1(2) True have room: "\<not> length blob - at < 2" "\<not> blob ! at < 2" "\<not> length blob - at < k"
      by (auto simp: forEachDescriptor_at.simps [of blob fn at s] Let_def k_def split: if_splits)
    obtain s1 where step: "fn (blob ! (at + 1)) d s = (True, s1)"
        "forEachDescriptor_at blob fn (at + k) s1 = (True, s')"
      using 1(2) True room
      by (auto simp: forEachDescriptor_at.simps [of blob fn at s] Let_def k_def d_def
          split: if_splits prod.splits)
    have "\<exists>ds. drop (at + unat (blob ! at)) blob = concat ds \<and> (\<forall>d\<in>set ds. wf_desc d)
        \<and> walkDescs fn ds s1 = (True, s')"
      by (rule 1(1)) (use True room step in \<open>auto simp: k_def d_def\<close>)
    then obtain ds where ds: "drop (at + k) blob = concat ds" "\<forall>d\<in>set ds. wf_desc d"
      "walkDescs fn ds s1 = (True, s')" unfolding k_def by blast
    have k2: "2 \<le> k" using room(2) by (simp add: k_def word_less_nat_alt not_less)
    have len: "length d = k" using room by (simp add: d_def)
    have d0: "d ! 0 = blob ! at" "d ! 1 = blob ! (at + 1)" using k2 room by (simp_all add: d_def)
    have "wf_desc d" using k2 len d0 by (simp add: wf_desc_def k_def)
    moreover have "drop at blob = d @ drop (at + k) blob"
      by (metis d_def append_take_drop_id drop_drop add.commute)
    ultimately show ?thesis using ds step d0 by (intro exI [of _ "d # ds"]) simp
  qed
qed

lemma forEachDescriptor_accepts:
  "forEachDescriptor blob fn s = (True, s') \<Longrightarrow>
    \<exists>ds. blob = concat ds \<and> (\<forall>d\<in>set ds. wf_desc d) \<and> walkDescs fn ds s = (True, s')"
  using forEachDescriptor_at_accepts [of blob fn 0 s s'] by (simp add: forEachDescriptor_def)

section \<open>Facts on validation\<close>

lemma require_None [simp]: "require ok f k = None \<longleftrightarrow> ok \<and> k = None"
  by (simp add: require_def)

lemma andThen_None [simp]: "andThen a b = None \<longleftrightarrow> a = None \<and> b = None"
  by (simp add: andThen_def split: option.splits)

lemma firstFault_None [simp]: "firstFault check xs = None \<longleftrightarrow> (\<forall>x\<in>set xs. check x = None)"
  by (induction xs) (auto split: option.splits)

lemma validate_Ok_iff: "validate m = Ok \<longleftrightarrow> validate_fault m = None"
  by (simp add: validate_def split: option.splits)

lemmas check_defs = checkDevice_def checkConfig_def checkSpeed_def checkBos_def checkLang_def
  checkString_def

lemma langKnown_iff:
  "langKnown t lang i \<longleftrightarrow> (\<exists>j. i + 2 * j + 1 < length t \<and> rd16 t (i + 2 * j) = lang)"
proof (induction t lang i rule: langKnown.induct)
  case (1 t lang i)
  show ?case
  proof (cases "i + 1 < length t \<and> rd16 t i \<noteq> lang")
    case True
    with 1 have "langKnown t lang i \<longleftrightarrow> (\<exists>j. i + 2 + 2 * j + 1 < length t \<and> rd16 t (i + 2 + 2 * j) = lang)"
      by (simp add: langKnown.simps [of t lang i])
    also have "\<dots> \<longleftrightarrow> (\<exists>j. i + 2 * Suc j + 1 < length t \<and> rd16 t (i + 2 * Suc j) = lang)"
      by (simp add: algebra_simps)
    also have "\<dots> \<longleftrightarrow> (\<exists>j. i + 2 * j + 1 < length t \<and> rd16 t (i + 2 * j) = lang)"
      using True by (metis add.right_neutral mult_0_right not0_implies_Suc)
    finally show ?thesis .
  next
    case False
    then show ?thesis
      by (subst langKnown.simps) (auto intro: exI [of _ 0] simp del: mult_Suc_right)
  qed
qed

end
