(* ===== verification/ManifestCodec.thy ===== *)
theory ManifestCodec
  imports Manifest
begin

text \<open>
  Serialisation of manifests (\<open>protocol/ManifestCodec.h\<close>, \<open>protocol/ManifestCodec.cpp\<close>).  The hash
  \<open>crypto::blake2s\<close> wraps vendored code and is a parameter; the theorems only use that a digest has
  32 bytes.
\<close>

record ManifestHeader =
  mh_manifestVersion :: u32
  mh_configCount :: u32
  mh_stringCount :: u32
  mh_langidCount :: u32
  mh_speed :: u16
  mh_dflags :: u16
  mh_totalBlobBytes :: u32
  mh_currentConfigValue :: u8

abbreviation (input) kManifestHeaderSize :: nat where "kManifestHeaderSize \<equiv> 32"
abbreviation (input) kMaxLangIds :: u32 where "kMaxLangIds \<equiv> 16"
abbreviation (input) kStringDescPrefix :: nat where "kStringDescPrefix \<equiv> 5"

definition manifestHash :: "(bytes \<Rightarrow> bytes) \<Rightarrow> bytes \<Rightarrow> bytes" where
  "manifestHash blake2s blobSections = blake2s blobSections"

section \<open>Encoding\<close>

definition stringTlvValue :: "u8 \<Rightarrow> u16 \<Rightarrow> bytes \<Rightarrow> bytes" where
  "stringTlvValue idx lang s =
     (let v = grow (kStringDescPrefix + length s);
          v = wr_u8 v 0 idx;
          v = wr_u16 v 1 lang;
          v = wr_u16 v 3 (of_nat (length s));
          v = memcpy_to v kStringDescPrefix s
      in v)"

text \<open>
  The two nested loops over languages and string indices, on \<open>stringCount\<close> and \<open>blobs\<close>; \<open>None\<close>
  is the early return when there are too many strings.
\<close>

fun encodeStrings_idx ::
    "DeviceManifest \<Rightarrow> u16 \<Rightarrow> nat list \<Rightarrow> u32 \<times> bytes \<Rightarrow> (u32 \<times> bytes) option" where
  "encodeStrings_idx m lang [] st = Some st"
| "encodeStrings_idx m lang (idx # idxs) (stringCount, blobs) =
     (let s = stringDescriptor m (of_nat idx) lang in
      if s = [] then encodeStrings_idx m lang idxs (stringCount, blobs)
      else
        let stringCount = stringCount + 1 in
        if stringCount > kMaxStrings then None
        else encodeStrings_idx m lang idxs
               (stringCount, appendTlv (tlvCode TlvStringDesc) (stringTlvValue (of_nat idx) lang s) blobs))"

fun encodeStrings ::
    "DeviceManifest \<Rightarrow> nat list \<Rightarrow> u32 \<times> bytes \<Rightarrow> (u32 \<times> bytes) option" where
  "encodeStrings m [] st = Some st"
| "encodeStrings m (li # lis) st =
     (case encodeStrings_idx m (rd16 (dm_langIdTable m) (2 + li * 2)) [1 ..< 256] st of
        None \<Rightarrow> None
      | Some st' \<Rightarrow> encodeStrings m lis st')"

definition appendIf :: "Tlv \<Rightarrow> bytes \<Rightarrow> bytes \<Rightarrow> bytes" where
  "appendIf t v blobs = (if v \<noteq> [] then appendTlv (tlvCode t) v blobs else blobs)"

text \<open>The sections before the strings, in the order written.\<close>

definition encodeFixedSections :: "DeviceManifest \<Rightarrow> bytes" where
  "encodeFixedSections m =
     (let blobs = appendTlv (tlvCode TlvDeviceDesc) (dm_device m) [];
          blobs = fold (appendTlv (tlvCode TlvConfigDesc)) (dm_configs m) blobs;
          blobs = appendIf TlvBosDesc (dm_bos m) blobs;
          blobs = appendIf TlvDeviceQualifierDesc (dm_deviceQualifier m) blobs;
          blobs = appendIf TlvOtherSpeedConfigDesc (dm_otherSpeedConfig m) blobs
      in appendIf TlvLangidTable (dm_langIdTable m) blobs)"

definition encodeManifestHeader :: "ManifestHeader \<Rightarrow> bytes" where
  "encodeManifestHeader hdr =
     (let h = grow kManifestHeaderSize;
          h = wr_u32 h 0 (mh_manifestVersion hdr);
          h = wr_u32 h 4 (mh_configCount hdr);
          h = wr_u32 h 8 (mh_stringCount hdr);
          h = wr_u32 h 12 (mh_langidCount hdr);
          h = wr_u16 h 16 (mh_speed hdr);
          h = wr_u16 h 18 (mh_dflags hdr);
          h = wr_u32 h 20 (mh_totalBlobBytes hdr);
          h = wr_u8 h 24 (mh_currentConfigValue hdr)
      in h)"

definition encodeManifest ::
    "(bytes \<Rightarrow> bytes) \<Rightarrow> DeviceManifest \<Rightarrow> u8 \<Rightarrow> bytes \<Rightarrow> Status \<times> bytes" where
  "encodeManifest blake2s m currentConfigValue out =
     (let configCount = length (dm_configs m);
          langidCount = (if dm_langIdTable m = [] then 0
                         else of_nat ((length (dm_langIdTable m) - 2) div 2) :: u32)
      in if validate m \<noteq> Ok then (ManifestInvalid, out)
         else if configCount = 0 \<or> configCount > unat kMaxConfigs then (ManifestInvalid, out)
         else if length (dm_device m) < 18 then (ManifestInvalid, out)
         else if \<exists>c \<in> set (dm_configs m). length c < 9 then (ManifestInvalid, out)
         else if langidCount > kMaxLangIds then (ManifestInvalid, out)
         else
           case encodeStrings m [0 ..< unat langidCount] (0, encodeFixedSections m) of
             None \<Rightarrow> (ManifestInvalid, out)
           | Some (stringCount, blobs) \<Rightarrow>
               if length blobs > unat kManifestBytesMax then (LimitExceeded, out)
               else
                 let h = encodeManifestHeader
                           \<lparr>mh_manifestVersion = 1, mh_configCount = of_nat configCount,
                            mh_stringCount = stringCount, mh_langidCount = langidCount,
                            mh_speed = ucast (speedCode (dm_speed m)), mh_dflags = 0,
                            mh_totalBlobBytes = of_nat (length blobs),
                            mh_currentConfigValue = currentConfigValue\<rparr>
                 in (Ok, appendTlv (tlvCode TlvManifestHash) (manifestHash blake2s blobs)
                           (out @ h @ blobs)))"

section \<open>Decoding\<close>

datatype (plugins only: code size) DecodeFault =
    DfShort | DfVersion | DfConfigCount | DfStringCount | DfLangidCount | DfBlobTotal | DfSpeed
  | DfBody | DfWalk | DfTwoDevices | DfDeviceShort | DfMoreConfigs | DfLangTable | DfLangCount
  | DfStringShort | DfStringLen | DfMoreStrings | DfNoDevice | DfFewConfigs | DfFewStrings
  | DfNoHash | DfHash | DfValidation ManifestFault | DfCurrentConfig

primrec decodeFaultText :: "DecodeFault \<Rightarrow> string" where
  "decodeFaultText DfShort = ''shorter than the manifest header''"
| "decodeFaultText DfVersion = ''manifest version is not 1''"
| "decodeFaultText DfConfigCount = ''config count out of range''"
| "decodeFaultText DfStringCount = ''string count out of range''"
| "decodeFaultText DfLangidCount = ''langid count out of range''"
| "decodeFaultText DfBlobTotal = ''blob total exceeds the manifest ceiling''"
| "decodeFaultText DfSpeed = ''speed out of range''"
| "decodeFaultText DfBody = ''body shorter than the declared blob total''"
| "decodeFaultText DfWalk = ''TLV walk overran the blob sections''"
| "decodeFaultText DfTwoDevices = ''two device descriptors''"
| "decodeFaultText DfDeviceShort = ''device descriptor too short''"
| "decodeFaultText DfMoreConfigs = ''more configurations than declared''"
| "decodeFaultText DfLangTable = ''malformed LANGID table''"
| "decodeFaultText DfLangCount = ''LANGID count disagrees with the header''"
| "decodeFaultText DfStringShort = ''string descriptor TLV too short''"
| "decodeFaultText DfStringLen = ''string descriptor length disagrees with its TLV''"
| "decodeFaultText DfMoreStrings = ''more strings than declared''"
| "decodeFaultText DfNoDevice = ''no device descriptor''"
| "decodeFaultText DfFewConfigs = ''fewer configurations than declared''"
| "decodeFaultText DfFewStrings = ''fewer strings than declared''"
| "decodeFaultText DfNoHash = ''no MANIFEST_HASH''"
| "decodeFaultText DfHash = ''MANIFEST_HASH does not match the blob sections''"
| "decodeFaultText (DfValidation f) = ''manifest validation failed: '' @ faultText f"
| "decodeFaultText DfCurrentConfig = ''current_config_value names no configuration''"

definition speedOf :: "u16 \<Rightarrow> Speed" where
  "speedOf raw =
     (if raw = 0 then SpeedNone else if raw = 1 then SpeedFull else if raw = 2 then SpeedLow
      else if raw = 3 then SpeedHigh else if raw = 4 then SpeedSuper
      else if raw = 5 then SpeedSuperPlus else if raw = 6 then SpeedSuperPlusBy2 else SpeedOther)"

text \<open>The variables the callback of the section walk captures.\<close>

record Walk =
  wk_m :: DeviceManifest
  wk_seenConfigs :: u32
  wk_seenStrings :: u32
  wk_seenDevice :: bool
  wk_structureOk :: bool
  wk_why :: "DecodeFault option"

definition walkStart :: "ManifestHeader \<Rightarrow> Walk" where
  "walkStart hdr =
     \<lparr>wk_m = setSpeed (speedOf (mh_speed hdr)) DeviceManifest0, wk_seenConfigs = 0,
      wk_seenStrings = 0, wk_seenDevice = False, wk_structureOk = True, wk_why = None\<rparr>"

definition wk_refuse :: "DecodeFault \<Rightarrow> Walk \<Rightarrow> bool \<times> Walk" where
  "wk_refuse why w = (False, w\<lparr>wk_structureOk := False, wk_why := Some why\<rparr>)"

text \<open>The language identifiers of a table value, from offset \<open>at\<close>.\<close>

function langIdsFrom :: "bytes \<Rightarrow> nat \<Rightarrow> u16 list" where
  "langIdsFrom v at =
     (if at + 1 < length v then rd16 v at # langIdsFrom v (at + 2) else [])"
  by pat_completeness auto
termination
  by (relation "measure (\<lambda>(v, at). length v - at)") auto

declare langIdsFrom.simps [simp del]

definition sectionFn :: "ManifestHeader \<Rightarrow> TlvView \<Rightarrow> Walk \<Rightarrow> bool \<times> Walk" where
  "sectionFn hdr t w =
     (let ty = tlv_type t; v = tlv_value t; m = wk_m w in
      if ty = tlvCode TlvDeviceDesc then
        (if wk_seenDevice w then wk_refuse DfTwoDevices w
         else if length v < 18 then wk_refuse DfDeviceShort w
         else (True, w\<lparr>wk_m := setDeviceDescriptor v m, wk_seenDevice := True\<rparr>))
      else if ty = tlvCode TlvConfigDesc then
        (let w = w\<lparr>wk_seenConfigs := wk_seenConfigs w + 1\<rparr> in
         if wk_seenConfigs w > mh_configCount hdr then wk_refuse DfMoreConfigs w
         else (True, w\<lparr>wk_m := addConfiguration v m\<rparr>))
      else if ty = tlvCode TlvBosDesc then (True, w\<lparr>wk_m := setBos v m\<rparr>)
      else if ty = tlvCode TlvDeviceQualifierDesc then (True, w\<lparr>wk_m := setDeviceQualifier v m\<rparr>)
      else if ty = tlvCode TlvOtherSpeedConfigDesc then (True, w\<lparr>wk_m := setOtherSpeedConfig v m\<rparr>)
      else if ty = tlvCode TlvLangidTable then
        (if length v < 2 \<or> (length v - 2) mod 2 \<noteq> 0 then wk_refuse DfLangTable w
         else
           let ids = langIdsFrom v 2 in
           if length ids \<noteq> unat (mh_langidCount hdr) then wk_refuse DfLangCount w
           else (True, w\<lparr>wk_m := setLangIds ids m\<rparr>))
      else if ty = tlvCode TlvStringDesc then
        (if length v < kStringDescPrefix then wk_refuse DfStringShort w
         else
           let index = v ! 0; lang = rd_u16 v 1; len = rd_u16 v 3 in
           if length v \<noteq> kStringDescPrefix + unat len then wk_refuse DfStringLen w
           else
             let w = w\<lparr>wk_seenStrings := wk_seenStrings w + 1\<rparr> in
             if wk_seenStrings w > mh_stringCount hdr then wk_refuse DfMoreStrings w
             else (True, w\<lparr>wk_m := addString index lang (drop kStringDescPrefix v) m\<rparr>))
      else (True, w))"

text \<open>The callback of the trailer walk on \<open>hashSeen\<close> and \<open>hashOk\<close>.\<close>

definition hashFn :: "bytes \<Rightarrow> TlvView \<Rightarrow> bool \<times> bool \<Rightarrow> bool \<times> bool \<times> bool" where
  "hashFn expect t st =
     (if tlv_type t \<noteq> tlvCode TlvManifestHash then (True, st)
      else if length (tlv_value t) \<noteq> 32 then (False, True, snd st)
      else (False, True, expect = tlv_value t))"

definition decodeManifestHeader :: "bytes \<Rightarrow> ManifestHeader" where
  "decodeManifestHeader body =
     \<lparr>mh_manifestVersion = rd_u32 body 0, mh_configCount = rd_u32 body 4,
      mh_stringCount = rd_u32 body 8, mh_langidCount = rd_u32 body 12, mh_speed = rd_u16 body 16,
      mh_dflags = rd_u16 body 18, mh_totalBlobBytes = rd_u32 body 20,
      mh_currentConfigValue = body ! 24\<rparr>"

definition decodeManifest ::
    "(bytes \<Rightarrow> bytes) \<Rightarrow> bytes \<Rightarrow> (Status \<times> DecodeFault) + (DeviceManifest \<times> ManifestHeader)" where
  "decodeManifest blake2s body =
     (if length body < kManifestHeaderSize then Inl (MalformedFrame, DfShort)
      else
        let hdr = decodeManifestHeader body;
            tlvs = drop kManifestHeaderSize body;
            blobs = take (unat (mh_totalBlobBytes hdr)) tlvs;
            trailer = drop (unat (mh_totalBlobBytes hdr)) tlvs
        in if mh_manifestVersion hdr \<noteq> 1 then Inl (UnsupportedVersion, DfVersion)
           else if mh_configCount hdr = 0 \<or> mh_configCount hdr > kMaxConfigs
           then Inl (ManifestInvalid, DfConfigCount)
           else if mh_stringCount hdr > kMaxStrings then Inl (ManifestInvalid, DfStringCount)
           else if mh_langidCount hdr > kMaxLangIds then Inl (ManifestInvalid, DfLangidCount)
           else if mh_totalBlobBytes hdr > kManifestBytesMax then Inl (LimitExceeded, DfBlobTotal)
           else if mh_speed hdr > ucast (speedCode SpeedOther) then Inl (ManifestInvalid, DfSpeed)
           else if length tlvs < unat (mh_totalBlobBytes hdr) then Inl (MalformedFrame, DfBody)
           else
             case forEachTlv blobs (sectionFn hdr) (walkStart hdr) of
               (walked, w) \<Rightarrow>
                 if \<not> walked then Inl (MalformedFrame, DfWalk)
                 else if \<not> wk_structureOk w then Inl (ManifestInvalid, the (wk_why w))
                 else if \<not> wk_seenDevice w then Inl (ManifestInvalid, DfNoDevice)
                 else if wk_seenConfigs w \<noteq> mh_configCount hdr then Inl (ManifestInvalid, DfFewConfigs)
                 else if wk_seenStrings w \<noteq> mh_stringCount hdr then Inl (ManifestInvalid, DfFewStrings)
                 else
                   case forEachTlv trailer (hashFn (manifestHash blake2s blobs)) (False, False) of
                     (_, hashSeen, hashOk) \<Rightarrow>
                       if \<not> hashSeen then Inl (ManifestInvalid, DfNoHash)
                       else if \<not> hashOk then Inl (ManifestInvalid, DfHash)
                       else
                         case validate_fault (wk_m w) of
                           Some f \<Rightarrow> Inl (validate (wk_m w), DfValidation f)
                         | None \<Rightarrow>
                             if mh_currentConfigValue hdr \<noteq> 0
                                \<and> configurationByValue (wk_m w) (mh_currentConfigValue hdr) = []
                             then Inl (ManifestInvalid, DfCurrentConfig)
                             else Inr (wk_m w, hdr))"

section \<open>What decoding establishes\<close>

definition wkInv :: "ManifestHeader \<Rightarrow> Walk \<Rightarrow> bool" where
  "wkInv hdr w \<longleftrightarrow>
     length (dm_configs (wk_m w)) = unat (wk_seenConfigs w) \<and> wk_seenConfigs w \<le> mh_configCount hdr
     \<and> length (dm_strings (wk_m w)) = unat (wk_seenStrings w) \<and> wk_seenStrings w \<le> mh_stringCount hdr
     \<and> dm_speed (wk_m w) = speedOf (mh_speed hdr) \<and> wk_structureOk w"

lemmas set_defs = setSpeed_def setDeviceDescriptor_def addConfiguration_def setBos_def
  setDeviceQualifier_def setOtherSpeedConfig_def setLangIds_def addString_def

lemma unat_inc: "(a :: u32) \<le> b \<Longrightarrow> b \<le> 128 \<Longrightarrow> unat (a + 1) = unat a + 1"
  by (simp add: word_le_nat_alt unat_word_ariths)

lemma sectionFn_inv:
  assumes "wkInv hdr w" "mh_configCount hdr \<le> 8" "mh_stringCount hdr \<le> 128"
    "sectionFn hdr t w = (True, w')"
  shows "wkInv hdr w'"
proof -
  have c: "unat (wk_seenConfigs w + 1) = unat (wk_seenConfigs w) + 1"
    using assms by (intro unat_inc [of _ "mh_configCount hdr"]) (auto simp: wkInv_def word_le_nat_alt)
  have s: "unat (wk_seenStrings w + 1) = unat (wk_seenStrings w) + 1"
    using assms by (intro unat_inc [of _ "mh_stringCount hdr"]) (auto simp: wkInv_def)
  show ?thesis
    using assms(1,4) c s
    by (auto simp: sectionFn_def wk_refuse_def wkInv_def set_defs Let_def not_less split: if_splits)
qed

lemma walkTlvs_inv:
  assumes "\<And>t w w'. \<lbrakk>I w; fn t w = (True, w')\<rbrakk> \<Longrightarrow> I w'" "I w" "walkTlvs fn ts w = (True, w')"
  shows "I w'"
  using assms(2,3)
proof (induction ts arbitrary: w)
  case (Cons t ts)
  then show ?case by (auto simp: case_prod_unfold Let_def split: if_splits)
      (metis assms(1) prod.collapse)
qed simp

lemma decode_walk_inv:
  assumes "mh_configCount hdr \<le> 8" "mh_stringCount hdr \<le> 128"
    "forEachTlv blobs (sectionFn hdr) (walkStart hdr) = (True, w)"
  shows "wkInv hdr w"
proof -
  have init: "wkInv hdr (walkStart hdr)"
    by (simp add: wkInv_def walkStart_def setSpeed_def DeviceManifest0_def)
  from forEachTlv_accepts [OF assms(3)] obtain vs where
    w: "walkTlvs (sectionFn hdr) vs (walkStart hdr) = (True, w)" by blast
  show ?thesis
    by (rule walkTlvs_inv [where I = "wkInv hdr", OF _ init w]) (rule sectionFn_inv [OF _ assms(1,2)])
qed

section \<open>What encoding writes\<close>

text \<open>The strings a manifest sends: for each language of the table, every index that has one.\<close>

definition stringsFor :: "DeviceManifest \<Rightarrow> u16 \<Rightarrow> nat list \<Rightarrow> StringDescriptorEntry list" where
  "stringsFor m lang idxs =
     map (\<lambda>i. \<lparr>sd_index = of_nat i, sd_langId = lang, sd_blob = stringDescriptor m (of_nat i) lang\<rparr>)
       (filter (\<lambda>i. stringDescriptor m (of_nat i) lang \<noteq> []) idxs)"

definition sentStrings :: "DeviceManifest \<Rightarrow> StringDescriptorEntry list" where
  "sentStrings m =
     concat (map (\<lambda>li. stringsFor m (rd16 (dm_langIdTable m) (2 + li * 2)) [1 ..< 256])
       [0 ..< (length (dm_langIdTable m) - 2) div 2])"

definition stringTlv :: "StringDescriptorEntry \<Rightarrow> TlvView" where
  "stringTlv e = \<lparr>tlv_type = tlvCode TlvStringDesc,
     tlv_value = stringTlvValue (sd_index e) (sd_langId e) (sd_blob e)\<rparr>"

lemma encodeStrings_idx_Some:
  assumes "encodeStrings_idx m lang idxs (c, blobs) = Some (c', blobs')" "c \<le> 128"
  shows "c' \<le> 128 \<and> unat c' = unat c + length (stringsFor m lang idxs)
    \<and> blobs' = blobs @ concat (map (tlvEnc \<circ> stringTlv) (stringsFor m lang idxs))"
  using assms
proof (induction idxs arbitrary: c blobs)
  case (Cons i idxs)
  show ?case
  proof (cases "stringDescriptor m (of_nat i) lang = []")
    case True
    with Cons show ?thesis by (simp add: stringsFor_def)
  next
    case False
    with Cons.prems have "\<not> c + 1 > 128" and rec: "encodeStrings_idx m lang idxs
        (c + 1, appendTlv (tlvCode TlvStringDesc)
           (stringTlvValue (of_nat i) lang (stringDescriptor m (of_nat i) lang)) blobs) = Some (c', blobs')"
      by (auto simp: Let_def split: if_splits)
    then have "c + 1 \<le> 128" by simp
    from Cons.IH [OF rec this] False unat_inc [OF Cons.prems(2)] show ?thesis
      by (simp add: stringsFor_def appendTlv_enc stringTlv_def)
  qed
qed (simp add: stringsFor_def)

lemma encodeStrings_Some:
  assumes "encodeStrings m lis (c, blobs) = Some (c', blobs')" "c \<le> 128"
  shows "c' \<le> 128 \<and> (let es = concat (map (\<lambda>li. stringsFor m (rd16 (dm_langIdTable m) (2 + li * 2)) [1 ..< 256]) lis)
    in unat c' = unat c + length es \<and> blobs' = blobs @ concat (map (tlvEnc \<circ> stringTlv) es))"
  using assms
proof (induction lis arbitrary: c blobs)
  case (Cons li lis)
  then obtain c1 b1 where st: "encodeStrings_idx m (rd16 (dm_langIdTable m) (2 + li * 2)) [1 ..< 256] (c, blobs)
      = Some (c1, b1)" "encodeStrings m lis (c1, b1) = Some (c', blobs')"
    by (auto split: option.splits)
  from encodeStrings_idx_Some [OF st(1) Cons.prems(2)] Cons.IH [OF st(2)] show ?case
    by (simp add: Let_def comp_def)
qed simp

definition optTlv :: "Tlv \<Rightarrow> bytes \<Rightarrow> TlvView list" where
  "optTlv t v = (if v = [] then [] else [\<lparr>tlv_type = tlvCode t, tlv_value = v\<rparr>])"

definition fixedTlvs :: "DeviceManifest \<Rightarrow> TlvView list" where
  "fixedTlvs m = \<lparr>tlv_type = tlvCode TlvDeviceDesc, tlv_value = dm_device m\<rparr>
     # map (\<lambda>c. \<lparr>tlv_type = tlvCode TlvConfigDesc, tlv_value = c\<rparr>) (dm_configs m)
     @ optTlv TlvBosDesc (dm_bos m) @ optTlv TlvDeviceQualifierDesc (dm_deviceQualifier m)
     @ optTlv TlvOtherSpeedConfigDesc (dm_otherSpeedConfig m) @ optTlv TlvLangidTable (dm_langIdTable m)"

lemma fold_appendTlv_same:
  "fold (appendTlv t) cs out = out @ concat (map (\<lambda>c. tlvEnc \<lparr>tlv_type = t, tlv_value = c\<rparr>) cs)"
  by (induction cs arbitrary: out) (simp_all add: appendTlv_enc)

lemma encodeFixedSections_tlvs: "encodeFixedSections m = tlvBytes (fixedTlvs m)"
  by (simp add: encodeFixedSections_def fixedTlvs_def tlvBytes_concat appendIf_def appendTlv_enc
      fold_appendTlv_same optTlv_def Let_def comp_def)

lemma stringTlvValue_bytes:
  "stringTlvValue idx lang s = [idx] @ le16 lang @ le16 (of_nat (length s)) @ s"
proof -
  have "drop (length s) (grow (length s)) = []" by (simp add: grow_def)
  then show ?thesis
    unfolding stringTlvValue_def Let_def wr_defs le_defs grow_add
    by (simp add: byte_simps list_update_append)
qed

lemma encodeManifestHeader_bytes:
  "encodeManifestHeader h = le32 (mh_manifestVersion h) @ le32 (mh_configCount h)
     @ le32 (mh_stringCount h) @ le32 (mh_langidCount h) @ le16 (mh_speed h) @ le16 (mh_dflags h)
     @ le32 (mh_totalBlobBytes h) @ [mh_currentConfigValue h] @ replicate 7 0"
  unfolding encodeManifestHeader_def Let_def by (simp add: store_simps, simp add: grow_def)

lemma length_encodeManifestHeader [simp]: "length (encodeManifestHeader h) = 32"
  by (simp add: encodeManifestHeader_bytes)

lemma decodeManifestHeader_encode: "decodeManifestHeader (encodeManifestHeader h @ rest) = h"
  by (simp add: decodeManifestHeader_def encodeManifestHeader_bytes le_defs rd_defs join)

section \<open>Decoding what was encoded\<close>

lemma langIdsFrom_table:
  "\<lbrakk>even (length v - at); at \<le> length v\<rbrakk> \<Longrightarrow>
    concat (map (\<lambda>id. [ucast (id AND 0xFF) :: u8, ucast (drop_bit 8 id)]) (langIdsFrom v at)) = drop at v
    \<and> length (langIdsFrom v at) = (length v - at) div 2"
proof (induction v at rule: langIdsFrom.induct)
  case (1 v at)
  show ?case
  proof (cases "at + 1 < length v")
    case False
    with 1(2,3) have "length v - at = 0" by (cases "length v = Suc at") auto
    with False show ?thesis by (simp add: langIdsFrom.simps)
  next
    case True
    have lo: "(ucast ((x :: u16) AND 0xFF) :: u8) = ucast x" for x
      by (rule bit_word_eqI) (auto simp: bit_simps less_Suc_eq numeral_eq_Suc)
    have pair: "(ucast (rd16 v at AND 0xFF) :: u8) = v ! at" "(ucast (drop_bit 8 (rd16 v at)) :: u8) = v ! (at + 1)"
      unfolding lo unfolding rd16_def by (rule split16)+
    have "drop at v = [v ! at, v ! (at + 1)] @ drop (at + 2) v"
      using True by (metis Cons_nth_drop_Suc add.commute add_2_eq_Suc append_Cons append_Nil
          One_nat_def Suc_lessD add_Suc_right add.right_neutral)
    moreover have "even (length v - (at + 2))" "at + 2 \<le> length v" using 1(2) True by auto
    moreover have "length v - at = Suc (Suc (length v - (at + 2)))" using True by simp
    ultimately show ?thesis
      using 1(1) [OF True] True pair by (simp add: langIdsFrom.simps [of v at])
  qed
qed

lemma setLangIds_table:
  assumes "even (length v)" "4 \<le> length v" "v ! 1 = kDescString" "unat (v ! 0) = length v"
  shows "setLangIds (langIdsFrom v 2) m = m\<lparr>dm_langIdTable := v\<rparr>"
    and "length (langIdsFrom v 2) = (length v - 2) div 2"
proof -
  have e: "even (length v - 2)" "2 \<le> length v" using assms(1,2) by auto
  note t = langIdsFrom_table [OF e]
  have "2 + (length v - 2) div 2 * 2 = length v" using e by simp
  then have "of_nat (2 + length (langIdsFrom v 2) * 2) = v ! 0" 
    using t by (simp only:) (simp flip: assms(4))
  moreover have "v = [v ! 0, v ! 1] @ drop 2 v"
    using assms(2) by (cases v; cases "tl v") auto
  ultimately show "setLangIds (langIdsFrom v 2) m = m\<lparr>dm_langIdTable := v\<rparr>"
    using t assms(3) by (simp add: setLangIds_def del: of_nat_add of_nat_mult)
  show "length (langIdsFrom v 2) = (length v - 2) div 2" using t by simp
qed

lemma walkTlvs_append:
  "walkTlvs fn (xs @ ys) s =
     (case walkTlvs fn xs s of (True, s') \<Rightarrow> walkTlvs fn ys s' | (False, s') \<Rightarrow> (False, s'))"
  by (induction xs arbitrary: s) (auto simp: case_prod_unfold Let_def)

lemma sectionFn_string:
  assumes "length (sd_blob e) < 2 ^ 16" "wk_seenStrings w < mh_stringCount hdr"
  shows "sectionFn hdr (stringTlv e) w =
    (True, w\<lparr>wk_m := (wk_m w)\<lparr>dm_strings := dm_strings (wk_m w) @ [e]\<rparr>,
      wk_seenStrings := wk_seenStrings w + 1\<rparr>)"
proof -
  let ?v = "stringTlvValue (sd_index e) (sd_langId e) (sd_blob e)"
  have v: "?v ! 0 = sd_index e" "rd_u16 ?v 1 = sd_langId e" "rd_u16 ?v 3 = of_nat (length (sd_blob e))"
    "drop 5 ?v = sd_blob e" "length ?v = 5 + length (sd_blob e)"
    by (simp_all add: stringTlvValue_bytes le_defs rd_defs join)
  have "wk_seenStrings w + 1 \<le> mh_stringCount hdr" using assms(2) by (rule inc_le)
  then have "\<not> mh_stringCount hdr < wk_seenStrings w + 1" by simp
  then show ?thesis
    using assms(1) v by (cases w) (simp add: sectionFn_def stringTlv_def Let_def unat_of_nat_u16 addString_def)
qed

lemma walk_strings:
  assumes "\<forall>e\<in>set es. length (sd_blob e) < 2 ^ 16"
    "unat (wk_seenStrings w) + length es \<le> unat (mh_stringCount hdr)"
  shows "walkTlvs (sectionFn hdr) (map stringTlv es) w =
    (True, w\<lparr>wk_m := (wk_m w)\<lparr>dm_strings := dm_strings (wk_m w) @ es\<rparr>,
      wk_seenStrings := wk_seenStrings w + of_nat (length es)\<rparr>)"
  using assms
proof (induction es arbitrary: w)
  case Nil
  then show ?case by simp
next
  case (Cons e es)
  then have lt: "wk_seenStrings w < mh_stringCount hdr" by (simp add: word_less_nat_alt)
  have "unat (wk_seenStrings w + 1) = unat (wk_seenStrings w) + 1"
    using lt unat_u32_less [of "mh_stringCount hdr"] Cons.prems(2) by (simp add: unat_word_ariths)
  with Cons lt show ?case by (simp add: sectionFn_string add.assoc)
qed

lemma walk_configs:
  assumes "unat (wk_seenConfigs w) + length cs \<le> unat (mh_configCount hdr)"
  shows "walkTlvs (sectionFn hdr) (map (\<lambda>c. \<lparr>tlv_type = tlvCode TlvConfigDesc, tlv_value = c\<rparr>) cs) w =
    (True, w\<lparr>wk_m := (wk_m w)\<lparr>dm_configs := dm_configs (wk_m w) @ cs\<rparr>,
      wk_seenConfigs := wk_seenConfigs w + of_nat (length cs)\<rparr>)"
  using assms
proof (induction cs arbitrary: w)
  case Nil
  then show ?case by simp
next
  case (Cons c cs)
  then have "wk_seenConfigs w < mh_configCount hdr" by (simp add: word_less_nat_alt)
  then have le: "wk_seenConfigs w + 1 \<le> mh_configCount hdr" by (rule inc_le)
  have u: "unat (wk_seenConfigs w + 1) = unat (wk_seenConfigs w) + 1"
    using unat_u32_less [of "mh_configCount hdr"] Cons.prems by (simp add: unat_word_ariths)
  have "sectionFn hdr \<lparr>tlv_type = tlvCode TlvConfigDesc, tlv_value = c\<rparr> w =
      (True, w\<lparr>wk_m := (wk_m w)\<lparr>dm_configs := dm_configs (wk_m w) @ [c]\<rparr>,
        wk_seenConfigs := wk_seenConfigs w + 1\<rparr>)"
    using le [folded not_less] by (cases w) (simp add: sectionFn_def Let_def addConfiguration_def)
  with Cons u show ?case by (simp add: add.assoc)
qed

lemma walk_optional:
  "dm_bos (wk_m w) = [] \<Longrightarrow> walkTlvs (sectionFn hdr) (optTlv TlvBosDesc v) w
     = (True, w\<lparr>wk_m := (wk_m w)\<lparr>dm_bos := v\<rparr>\<rparr>)"
  "dm_deviceQualifier (wk_m w) = [] \<Longrightarrow> walkTlvs (sectionFn hdr) (optTlv TlvDeviceQualifierDesc v) w
     = (True, w\<lparr>wk_m := (wk_m w)\<lparr>dm_deviceQualifier := v\<rparr>\<rparr>)"
  "dm_otherSpeedConfig (wk_m w) = [] \<Longrightarrow> walkTlvs (sectionFn hdr) (optTlv TlvOtherSpeedConfigDesc v) w
     = (True, w\<lparr>wk_m := (wk_m w)\<lparr>dm_otherSpeedConfig := v\<rparr>\<rparr>)"
  by (cases w; cases "wk_m w"; simp add: optTlv_def sectionFn_def set_defs Let_def)+

lemma walk_langtable:
  assumes "dm_langIdTable (wk_m w) = []"
    and "v \<noteq> [] \<Longrightarrow> even (length v) \<and> 4 \<le> length v \<and> v ! 1 = kDescString \<and> unat (v ! 0) = length v
      \<and> (length v - 2) div 2 = unat (mh_langidCount hdr)"
  shows "walkTlvs (sectionFn hdr) (optTlv TlvLangidTable v) w
     = (True, w\<lparr>wk_m := (wk_m w)\<lparr>dm_langIdTable := v\<rparr>\<rparr>)"
proof (cases "v = []")
  case True
  with assms(1) show ?thesis by (cases w; cases "wk_m w") (simp add: optTlv_def)
next
  case False
  with assms(2) have v: "even (length v)" "4 \<le> length v" "v ! 1 = kDescString" "unat (v ! 0) = length v"
    "(length v - 2) div 2 = unat (mh_langidCount hdr)" by blast+
  then have "\<not> length v < 2" "(length v - 2) mod 2 = 0" by auto
  with False v setLangIds_table(1) [OF v(1-4), of "wk_m w"] setLangIds_table(2) [OF v(1-4)] show ?thesis
    by (simp add: optTlv_def sectionFn_def Let_def)
qed

text \<open>A header and a manifest that agree.\<close>

definition agrees :: "ManifestHeader \<Rightarrow> DeviceManifest \<Rightarrow> bool" where
  "agrees hdr m \<longleftrightarrow> 18 \<le> length (dm_device m) \<and> length (dm_configs m) = unat (mh_configCount hdr)
     \<and> speedOf (mh_speed hdr) = dm_speed m
     \<and> (dm_langIdTable m \<noteq> [] \<longrightarrow> even (length (dm_langIdTable m)) \<and> 4 \<le> length (dm_langIdTable m)
         \<and> dm_langIdTable m ! 1 = kDescString \<and> unat (dm_langIdTable m ! 0) = length (dm_langIdTable m)
         \<and> (length (dm_langIdTable m) - 2) div 2 = unat (mh_langidCount hdr))"

lemma walk_fixed:
  assumes "agrees hdr m"
  shows "walkTlvs (sectionFn hdr) (fixedTlvs m) (walkStart hdr) =
    (True, (walkStart hdr)\<lparr>wk_m := m\<lparr>dm_strings := []\<rparr>, wk_seenDevice := True,
      wk_seenConfigs := mh_configCount hdr\<rparr>)"
proof -
  define w0 where "w0 = (walkStart hdr)\<lparr>wk_m := setDeviceDescriptor (dm_device m) (wk_m (walkStart hdr)),
    wk_seenDevice := True\<rparr>"
  have dev: "sectionFn hdr \<lparr>tlv_type = tlvCode TlvDeviceDesc, tlv_value = dm_device m\<rparr> (walkStart hdr) = (True, w0)"
    using assms by (simp add: sectionFn_def w0_def agrees_def Let_def walkStart_def)
  have count: "of_nat (length (dm_configs m)) = mh_configCount hdr"
    using assms by (simp add: agrees_def)
  define w1 where "w1 = w0\<lparr>wk_m := (wk_m w0)\<lparr>dm_configs := dm_configs (wk_m w0) @ dm_configs m\<rparr>,
    wk_seenConfigs := wk_seenConfigs w0 + of_nat (length (dm_configs m))\<rparr>"
  have cfg: "walkTlvs (sectionFn hdr) (map (\<lambda>c. \<lparr>tlv_type = tlvCode TlvConfigDesc, tlv_value = c\<rparr>) (dm_configs m)) w0
      = (True, w1)"
    unfolding w1_def by (rule walk_configs) (use assms in \<open>simp add: w0_def walkStart_def agrees_def\<close>)
  have empty: "dm_bos (wk_m w1) = []" "dm_deviceQualifier (wk_m w1) = []" "dm_otherSpeedConfig (wk_m w1) = []"
    "dm_langIdTable (wk_m w1) = []"
    by (simp_all add: w1_def w0_def walkStart_def set_defs DeviceManifest0_def)
  have lang: "walkTlvs (sectionFn hdr) (optTlv TlvLangidTable (dm_langIdTable m)) w
      = (True, w\<lparr>wk_m := (wk_m w)\<lparr>dm_langIdTable := dm_langIdTable m\<rparr>\<rparr>)"
    if "dm_langIdTable (wk_m w) = []" for w
    by (rule walk_langtable [OF that]) (use assms in \<open>simp add: agrees_def\<close>)
  have "walkTlvs (sectionFn hdr) (fixedTlvs m) (walkStart hdr) =
      (True, w1\<lparr>wk_m := (wk_m w1)\<lparr>dm_bos := dm_bos m, dm_deviceQualifier := dm_deviceQualifier m,
        dm_otherSpeedConfig := dm_otherSpeedConfig m, dm_langIdTable := dm_langIdTable m\<rparr>\<rparr>)"
    using empty by (simp add: fixedTlvs_def dev walkTlvs_append cfg walk_optional lang
        del: tlvCode.simps)
  moreover have "w1\<lparr>wk_m := (wk_m w1)\<lparr>dm_bos := dm_bos m, dm_deviceQualifier := dm_deviceQualifier m,
        dm_otherSpeedConfig := dm_otherSpeedConfig m, dm_langIdTable := dm_langIdTable m\<rparr>\<rparr>
      = (walkStart hdr)\<lparr>wk_m := m\<lparr>dm_strings := []\<rparr>, wk_seenDevice := True, wk_seenConfigs := mh_configCount hdr\<rparr>"
    using assms by (cases m) (simp add: w1_def w0_def walkStart_def set_defs DeviceManifest0_def agrees_def)
  ultimately show ?thesis by simp
qed

lemma speedOf_speedCode [simp]: "speedOf (ucast (speedCode s)) = s"
  by (cases s) (simp_all add: speedOf_def)

lemma ucast_speedCode_le: "(ucast (speedCode s) :: u16) \<le> 7"
  by (cases s) simp_all

lemma stringDescriptor_valid:
  assumes "validate m = Ok" "stringDescriptor m idx lang \<noteq> []" "idx \<noteq> 0"
  shows "checkString m \<lparr>sd_index = idx, sd_langId = lang, sd_blob = stringDescriptor m idx lang\<rparr> = None"
proof -
  from assms(2,3) obtain e where e: "List.find (\<lambda>s. sd_index s = idx \<and> sd_langId s = lang) (dm_strings m) = Some e"
    "stringDescriptor m idx lang = sd_blob e" by (auto simp: stringDescriptor_def split: option.splits)
  then have "e \<in> set (dm_strings m)" "sd_index e = idx" "sd_langId e = lang"
    by (auto simp: find_Some_iff)
  moreover from this assms(1) have "checkString m e = None"
    by (simp add: validate_Ok_iff validate_fault_def)
  ultimately show ?thesis using e(2) by (simp add: checkString_def)
qed

lemma sentStrings_valid:
  assumes "validate m = Ok" "e \<in> set (sentStrings m)"
  shows "checkString m e = None" "length (sd_blob e) < 2 ^ 8" "sd_index e \<noteq> 0"
    "sd_blob e = stringDescriptor m (sd_index e) (sd_langId e)"
proof -
  from assms(2) obtain i lang where e: "i \<in> {1 ..< 256}" "stringDescriptor m (of_nat i) lang \<noteq> []"
    "e = \<lparr>sd_index = of_nat i, sd_langId = lang, sd_blob = stringDescriptor m (of_nat i) lang\<rparr>"
    by (auto simp: sentStrings_def stringsFor_def)
  from e(1) have "unat (of_nat i :: u8) = i" by (simp add: unat_of_nat)
  with e(1) have nz: "(of_nat i :: u8) \<noteq> 0" by (metis atLeastLessThan_iff not_one_le_zero unat_0)
  show ok: "checkString m e = None"
    unfolding e(3) by (rule stringDescriptor_valid [OF assms(1) e(2) nz])
  then have "unat (sd_blob e ! 0) = length (sd_blob e)" by (simp add: checkString_def Let_def)
  then show "length (sd_blob e) < 2 ^ 8" using unat_u8_less [of "sd_blob e ! 0"] by simp
  show "sd_index e \<noteq> 0" "sd_blob e = stringDescriptor m (sd_index e) (sd_langId e)"
    using nz e(3) by simp_all
qed

lemma langs_of_table:
  assumes "langKnown t lang 2" "even (length t)"
  shows "\<exists>li < (length t - 2) div 2. rd16 t (2 + li * 2) = lang"
proof -
  from assms(1) obtain j where "2 + 2 * j + 1 < length t" "rd16 t (2 + 2 * j) = lang"
    by (auto simp: langKnown_iff)
  then show ?thesis using assms(2) by (intro exI [of _ j]) (auto simp: mult.commute)
qed

text \<open>The strings a receiver finds are the ones the sender has.\<close>

lemma sentStrings_lookup:
  assumes "validate m = Ok" "even (length (dm_langIdTable m))" "langKnown (dm_langIdTable m) lang 2"
  shows "stringDescriptor (m\<lparr>dm_strings := sentStrings m\<rparr>) idx lang = stringDescriptor m idx lang"
proof (cases "idx = 0")
  case True
  then show ?thesis by (simp add: stringDescriptor_def)
next
  case False
  let ?P = "\<lambda>s. sd_index s = idx \<and> sd_langId s = lang"
  show ?thesis
  proof (cases "List.find ?P (sentStrings m)")
    case (Some e)
    then have "e \<in> set (sentStrings m)" "?P e" by (auto simp: find_Some_iff)
    with sentStrings_valid(4) [OF assms(1)] have "sd_blob e = stringDescriptor m idx lang" by blast
    with Some False show ?thesis by (simp add: stringDescriptor_def)
  next
    case None
    have "stringDescriptor m idx lang = []"
    proof (rule ccontr)
      assume ne: "stringDescriptor m idx lang \<noteq> []"
      obtain li where li: "li < (length (dm_langIdTable m) - 2) div 2"
        "rd16 (dm_langIdTable m) (2 + li * 2) = lang" using langs_of_table [OF assms(3,2)] by blast
      have idx: "unat idx \<in> {1 ..< 256}" "of_nat (unat idx) = idx"
        using False unat_u8_less [of idx] by (auto simp: Suc_le_eq unat_gt_0)
      then have "\<lparr>sd_index = idx, sd_langId = lang, sd_blob = stringDescriptor m idx lang\<rparr>
          \<in> set (stringsFor m lang [1 ..< 256])"
        using ne by (auto simp: stringsFor_def intro!: image_eqI [of _ _ "unat idx"])
      then have "\<lparr>sd_index = idx, sd_langId = lang, sd_blob = stringDescriptor m idx lang\<rparr> \<in> set (sentStrings m)"
        using li by (auto simp: sentStrings_def)
      with None show False by (force simp: find_None_iff)
    qed
    with None False show ?thesis by (simp add: stringDescriptor_def)
  qed
qed

lemma length_tlvs_bound:
  "length (concat (map (tlvEnc \<circ> stringTlv) es)) \<ge> sum_list (map (\<lambda>s. length (sd_blob s) + 4) es)"
  by (induction es) (simp_all add: stringTlv_def stringTlvValue_bytes)

lemma length_fixedTlvs:
  "length (concat (map tlvEnc (fixedTlvs m))) \<ge> byteSize (m\<lparr>dm_strings := []\<rparr>)"
proof -
  have "length (concat (map (tlvEnc \<circ> (\<lambda>c. \<lparr>tlv_type = t, tlv_value = c\<rparr>)) cs)) \<ge> sum_list (map length cs)"
    for t cs by (induction cs) simp_all
  from this [of "dm_configs m" "tlvCode TlvConfigDesc"] show ?thesis
    by (simp add: fixedTlvs_def byteSize_def optTlv_def)
qed

lemma byteSize_strings:
  "byteSize (m\<lparr>dm_strings := es\<rparr>) = byteSize (m\<lparr>dm_strings := []\<rparr>) + sum_list (map (\<lambda>s. length (sd_blob s) + 4) es)"
  by (simp add: byteSize_def)

lemma check_strings_irrelevant [simp]:
  "checkDevice (m\<lparr>dm_strings := es\<rparr>) = checkDevice m" "checkSpeed (m\<lparr>dm_strings := es\<rparr>) = checkSpeed m"
  "checkBos (m\<lparr>dm_strings := es\<rparr>) = checkBos m" "checkLang (m\<lparr>dm_strings := es\<rparr>) = checkLang m"
  "checkString (m\<lparr>dm_strings := es\<rparr>) e = checkString m e"
proof -
  have f: "dm_device (m\<lparr>dm_strings := es\<rparr>) = dm_device m" "dm_configs (m\<lparr>dm_strings := es\<rparr>) = dm_configs m"
    "dm_speed (m\<lparr>dm_strings := es\<rparr>) = dm_speed m" "dm_bos (m\<lparr>dm_strings := es\<rparr>) = dm_bos m"
    "dm_langIdTable (m\<lparr>dm_strings := es\<rparr>) = dm_langIdTable m" by simp_all
  show "checkDevice (m\<lparr>dm_strings := es\<rparr>) = checkDevice m" "checkSpeed (m\<lparr>dm_strings := es\<rparr>) = checkSpeed m"
    "checkBos (m\<lparr>dm_strings := es\<rparr>) = checkBos m" "checkLang (m\<lparr>dm_strings := es\<rparr>) = checkLang m"
    "checkString (m\<lparr>dm_strings := es\<rparr>) e = checkString m e"
    unfolding check_defs f by (rule refl)+
qed

lemma validate_sent:
  assumes "validate m = Ok"
    and "length (concat (map tlvEnc (fixedTlvs m)) @ concat (map (tlvEnc \<circ> stringTlv) (sentStrings m))) \<le> 262144"
  shows "validate (m\<lparr>dm_strings := sentStrings m\<rparr>) = Ok"
proof -
  have "byteSize (m\<lparr>dm_strings := sentStrings m\<rparr>) \<le> 256 * 1024"
    using length_fixedTlvs [of m] length_tlvs_bound [of "sentStrings m"] assms(2)
    by (simp add: byteSize_strings [of "sentStrings m"])
  moreover have "checkString (m\<lparr>dm_strings := sentStrings m\<rparr>) e = None" if "e \<in> set (sentStrings m)" for e
    using sentStrings_valid(1) [OF assms(1) that] by simp
  ultimately show ?thesis
    using assms(1) by (simp add: validate_Ok_iff validate_fault_def)
qed

lemma wf_fixedTlvs:
  assumes "validate m = Ok" "length (dm_deviceQualifier m) < 2 ^ 16" "length (dm_otherSpeedConfig m) < 2 ^ 16"
  shows "\<forall>t\<in>set (fixedTlvs m). wf_tlv t"
proof -
  from assms(1) have dev: "unat (dm_device m ! 0) = length (dm_device m)"
    and cfg: "\<forall>c\<in>set (dm_configs m). unat (rd16 c 2) = length c"
    and bos: "dm_bos m \<noteq> [] \<longrightarrow> unat (rd16 (dm_bos m) 2) = length (dm_bos m)"
    and lang: "dm_langIdTable m \<noteq> [] \<longrightarrow> unat (dm_langIdTable m ! 0) = length (dm_langIdTable m)"
    by (auto simp: validate_Ok_iff validate_fault_def check_defs Let_def split: if_splits)
  have "length (dm_device m) < 2 ^ 16" using dev unat_u8_less [of "dm_device m ! 0"] by simp
  moreover have "\<forall>c\<in>set (dm_configs m). length c < 2 ^ 16" using cfg unat_u16_less by metis
  moreover have "length (dm_bos m) < 2 ^ 16" 
    using bos unat_u16_less [of "rd16 (dm_bos m) 2"] by (cases "dm_bos m = []") auto
  moreover have "length (dm_langIdTable m) < 2 ^ 16"
    using lang unat_u8_less [of "dm_langIdTable m ! 0"] by (cases "dm_langIdTable m = []") auto
  ultimately show ?thesis using assms(2,3) by (auto simp: fixedTlvs_def optTlv_def wf_tlv_def)
qed

text \<open>All that a successful encoding says about its output.\<close>

lemma encodeManifest_OkE:
  assumes "encodeManifest blake2s m ccv [] = (Ok, body)"
  obtains hdr blobs where
    "validate m = Ok" "hdr = \<lparr>mh_manifestVersion = 1, mh_configCount = of_nat (length (dm_configs m)),
       mh_stringCount = of_nat (length (sentStrings m)),
       mh_langidCount = of_nat ((length (dm_langIdTable m) - 2) div 2),
       mh_speed = ucast (speedCode (dm_speed m)), mh_dflags = 0,
       mh_totalBlobBytes = of_nat (length blobs), mh_currentConfigValue = ccv\<rparr>"
    "length (dm_configs m) \<in> {1..8}" "length (sentStrings m) \<le> 128" "(length (dm_langIdTable m) - 2) div 2 \<le> 16"
    "blobs = concat (map tlvEnc (fixedTlvs m)) @ concat (map (tlvEnc \<circ> stringTlv) (sentStrings m))"
    "length blobs \<le> 262144"
    "body = encodeManifestHeader hdr @ blobs
       @ tlvEnc \<lparr>tlv_type = tlvCode TlvManifestHash, tlv_value = manifestHash blake2s blobs\<rparr>"
proof -
  let ?n = "(length (dm_langIdTable m) - 2) div 2"
  have lc: "(if dm_langIdTable m = [] then 0 else of_nat ?n :: u32) = of_nat ?n" by simp
  from assms obtain sc blobs where ok: "validate m = Ok" "length (dm_configs m) \<noteq> 0"
      "\<not> length (dm_configs m) > 8" "\<not> of_nat ?n > (16 :: u32)"
      "encodeStrings m [0 ..< unat (of_nat ?n :: u32)] (0, encodeFixedSections m) = Some (sc, blobs)"
      "\<not> length blobs > 262144"
    and body: "body = appendTlv (tlvCode TlvManifestHash) (manifestHash blake2s blobs)
       (encodeManifestHeader \<lparr>mh_manifestVersion = 1, mh_configCount = of_nat (length (dm_configs m)),
         mh_stringCount = sc, mh_langidCount = of_nat ?n, mh_speed = ucast (speedCode (dm_speed m)),
         mh_dflags = 0, mh_totalBlobBytes = of_nat (length blobs), mh_currentConfigValue = ccv\<rparr> @ blobs)"
    unfolding encodeManifest_def Let_def lc
    by (auto split: if_splits option.splits simp del: tlvCode.simps)
  have "dm_langIdTable m \<noteq> [] \<Longrightarrow> length (dm_langIdTable m) < 256"
    using ok(1) unat_u8_less [of "dm_langIdTable m ! 0"]
    by (auto simp: validate_Ok_iff validate_fault_def checkLang_def Let_def split: if_splits)
  then have n: "?n < 256" by (cases "dm_langIdTable m = []") auto
  then have u: "unat (of_nat ?n :: u32) = ?n" by (simp add: unat_of_nat)
  have es: "concat (map (\<lambda>li. stringsFor m (rd16 (dm_langIdTable m) (2 + li * 2)) [1 ..< 256]) [0 ..< ?n])
      = sentStrings m" by (simp add: sentStrings_def)
  have st: "sc \<le> 128" "unat sc = length (sentStrings m)"
      "blobs = encodeFixedSections m @ concat (map (tlvEnc \<circ> stringTlv) (sentStrings m))"
    using encodeStrings_Some [OF ok(5)] unfolding u es Let_def by simp_all
  have sc: "sc = of_nat (length (sentStrings m))" by (simp flip: st(2))
  show thesis
  proof (rule that)
    show "length (sentStrings m) \<le> 128" using st(1,2) by (simp add: word_le_nat_alt)
    show "?n \<le> 16" using ok(4) u by (simp add: word_less_nat_alt)
    show "blobs = concat (map tlvEnc (fixedTlvs m)) @ concat (map (tlvEnc \<circ> stringTlv) (sentStrings m))"
      using st(3) by (simp add: encodeFixedSections_tlvs tlvBytes_concat)
  qed (use ok body sc in \<open>auto simp: appendTlv_enc Suc_le_eq simp del: tlvCode.simps\<close>)
qed

lemma walk_manifest:
  assumes "agrees hdr m" "validate m = Ok" "length (dm_deviceQualifier m) < 2 ^ 16"
    "length (dm_otherSpeedConfig m) < 2 ^ 16" "unat (mh_stringCount hdr) = length (sentStrings m)"
  shows "forEachTlv (concat (map tlvEnc (fixedTlvs m)) @ concat (map (tlvEnc \<circ> stringTlv) (sentStrings m)))
      (sectionFn hdr) (walkStart hdr)
    = (True, (walkStart hdr)\<lparr>wk_m := m\<lparr>dm_strings := sentStrings m\<rparr>, wk_seenDevice := True,
        wk_seenConfigs := mh_configCount hdr, wk_seenStrings := mh_stringCount hdr\<rparr>)"
proof -
  let ?ts = "fixedTlvs m @ map stringTlv (sentStrings m)"
  let ?w = "(walkStart hdr)\<lparr>wk_m := m\<lparr>dm_strings := []\<rparr>, wk_seenDevice := True,
      wk_seenConfigs := mh_configCount hdr\<rparr>"
  have small: "\<forall>e\<in>set (sentStrings m). length (sd_blob e) < 2 ^ 8"
    using sentStrings_valid(2) [OF assms(2)] by blast
  have wf: "\<forall>t\<in>set ?ts. wf_tlv t"
    using wf_fixedTlvs [OF assms(2-4)] small
    by (fastforce simp: wf_tlv_def stringTlv_def stringTlvValue_bytes)
  have cnt: "of_nat (length (sentStrings m)) = mh_stringCount hdr"
    by (simp flip: assms(5))
  have "walkTlvs (sectionFn hdr) (map stringTlv (sentStrings m)) ?w =
      (True, ?w\<lparr>wk_m := (wk_m ?w)\<lparr>dm_strings := dm_strings (wk_m ?w) @ sentStrings m\<rparr>,
        wk_seenStrings := wk_seenStrings ?w + of_nat (length (sentStrings m))\<rparr>)"
    by (rule walk_strings) (use small assms(5) in \<open>fastforce simp: walkStart_def\<close>)+
  then have "walkTlvs (sectionFn hdr) ?ts (walkStart hdr) =
      (True, (walkStart hdr)\<lparr>wk_m := m\<lparr>dm_strings := sentStrings m\<rparr>, wk_seenDevice := True,
        wk_seenConfigs := mh_configCount hdr, wk_seenStrings := mh_stringCount hdr\<rparr>)"
    unfolding walkTlvs_append walk_fixed [OF assms(1)] by (simp add: cnt walkStart_def)
  moreover have "concat (map tlvEnc (fixedTlvs m)) @ concat (map (tlvEnc \<circ> stringTlv) (sentStrings m))
      = tlvBytes ?ts" by (simp add: tlvBytes_concat)
  ultimately show ?thesis by (simp add: forEachTlv_run [OF wf])
qed

lemma decode_encode:
  assumes hash_len: "\<And>x. length (blake2s x) = 32"
    and "encodeManifest blake2s m ccv [] = (Ok, body)"
    and "length (dm_deviceQualifier m) < 2 ^ 16" "length (dm_otherSpeedConfig m) < 2 ^ 16"
    and "even (length (dm_langIdTable m))"
    and "ccv = 0 \<or> configurationByValue m ccv \<noteq> []"
  shows "\<exists>m' hdr. decodeManifest blake2s body = Inr (m', hdr) \<and> mh_currentConfigValue hdr = ccv
    \<and> m' = m\<lparr>dm_strings := dm_strings m'\<rparr>
    \<and> (\<forall>idx lang. langKnown (dm_langIdTable m) lang 2 \<longrightarrow>
         stringDescriptor m' idx lang = stringDescriptor m idx lang)"
  using assms(2)
proof (rule encodeManifest_OkE)
  fix hdr blobs
  assume ok: "validate m = Ok" and hdr: "hdr = \<lparr>mh_manifestVersion = 1, mh_configCount = of_nat (length (dm_configs m)),
       mh_stringCount = of_nat (length (sentStrings m)),
       mh_langidCount = of_nat ((length (dm_langIdTable m) - 2) div 2),
       mh_speed = ucast (speedCode (dm_speed m)), mh_dflags = 0,
       mh_totalBlobBytes = of_nat (length blobs), mh_currentConfigValue = ccv\<rparr>"
    and bounds: "length (dm_configs m) \<in> {1..8}" "length (sentStrings m) \<le> 128"
      "(length (dm_langIdTable m) - 2) div 2 \<le> 16" "length blobs \<le> 262144"
    and blobs: "blobs = concat (map tlvEnc (fixedTlvs m)) @ concat (map (tlvEnc \<circ> stringTlv) (sentStrings m))"
    and body: "body = encodeManifestHeader hdr @ blobs
       @ tlvEnc \<lparr>tlv_type = tlvCode TlvManifestHash, tlv_value = manifestHash blake2s blobs\<rparr>"
  let ?m = "m\<lparr>dm_strings := sentStrings m\<rparr>"
  let ?ht = "\<lparr>tlv_type = tlvCode TlvManifestHash, tlv_value = manifestHash blake2s blobs\<rparr>"
  have dec: "decodeManifestHeader body = hdr" unfolding body by (rule decodeManifestHeader_encode)
  have counts: "unat (mh_configCount hdr) = length (dm_configs m)"
      "unat (mh_stringCount hdr) = length (sentStrings m)"
      "unat (mh_langidCount hdr) = (length (dm_langIdTable m) - 2) div 2"
      "unat (mh_totalBlobBytes hdr) = length blobs"
    using bounds by (auto simp: hdr unat_of_nat)
  have lim: "mh_configCount hdr \<noteq> 0" "\<not> mh_configCount hdr > 8" "\<not> mh_stringCount hdr > 128"
      "\<not> mh_langidCount hdr > 16" "\<not> mh_totalBlobBytes hdr > 262144"
    using counts bounds by (auto simp: word_less_nat_alt word_unat_eq_iff)
  have spd: "\<not> mh_speed hdr > ucast (speedCode SpeedOther)"
    using ucast_speedCode_le [of "dm_speed m"] by (simp add: hdr not_less)
  have ag: "agrees hdr m"
    using ok counts assms(5) by (auto simp: agrees_def hdr validate_Ok_iff validate_fault_def checkDevice_def
        checkLang_def Let_def split: if_splits)
  have parts: "take (length blobs) (drop 32 body) = blobs" "drop (length blobs) (drop 32 body) = tlvBytes [?ht]"
    "\<not> length body < 32" "\<not> length (drop 32 body) < length blobs"
    by (simp_all add: body tlvBytes_concat del: tlvCode.simps)
  have hash: "forEachTlv (tlvBytes [?ht]) (hashFn (manifestHash blake2s blobs)) (False, False) = (False, True, True)"
    by (subst forEachTlv_run) (simp_all add: wf_tlv_def hashFn_def manifestHash_def hash_len)
  have "validate ?m = Ok" by (rule validate_sent [OF ok]) (use bounds(4) blobs in simp)
  then have val: "validate_fault ?m = None" by (simp add: validate_Ok_iff)
  have cfg: "configurationByValue ?m v = configurationByValue m v" for v
    by (simp add: configurationByValue_def)
  have "decodeManifest blake2s body = Inr (?m, hdr)"
    using lim spd parts assms(6) val
    unfolding decodeManifest_def Let_def dec counts parts hash
      walk_manifest [OF ag ok assms(3,4) counts(2), folded blobs]
    by (simp add: walkStart_def cfg) (simp add: hdr)
  moreover have "\<forall>idx lang. langKnown (dm_langIdTable m) lang 2 \<longrightarrow> stringDescriptor ?m idx lang = stringDescriptor m idx lang"
    using sentStrings_lookup [OF ok assms(5)] by blast
  ultimately show ?thesis by (intro exI [of _ ?m] exI [of _ hdr]) (simp add: hdr)
qed

text \<open>A minimal High Speed device, and a stand-in digest.\<close>

definition sampleManifest :: DeviceManifest where
  "sampleManifest = DeviceManifest0\<lparr>dm_speed := SpeedHigh,
     dm_device := [18, 1, 0, 2, 0, 0, 0, 64, 0x81, 7, 0x67, 0x55, 0, 1, 0, 0, 0, 1],
     dm_configs := [[9, 2, 9, 0, 0, 1, 0, 0x80, 50]]\<rparr>"

definition sampleHash :: "bytes \<Rightarrow> bytes" where
  "sampleHash x = replicate 32 (of_nat (length x))"

lemma sampleManifest_valid: "validate_fault sampleManifest = None"
  by (simp add: sampleManifest_def DeviceManifest0_def validate_fault_def check_defs Let_def
      forEachDescriptor_def forEachDescriptor_at.simps rd16_def byteSize_def require_def)

lemma sampleManifest_encodes: "fst (encodeManifest sampleHash sampleManifest 1 []) = Ok"
proof -
  have "validate sampleManifest = Ok" by (simp add: validate_Ok_iff sampleManifest_valid)
  then show ?thesis
    by (simp add: encodeManifest_def Let_def)
      (simp add: sampleManifest_def DeviceManifest0_def encodeFixedSections_def appendIf_def
        appendTlv_bytes Let_def)
qed

lemma sample_decodes:
  "\<exists>body m' hdr. encodeManifest sampleHash sampleManifest 1 [] = (Ok, body)
     \<and> decodeManifest sampleHash body = Inr (m', hdr)"
proof -
  define body where "body = snd (encodeManifest sampleHash sampleManifest 1 [])"
  then have enc: "encodeManifest sampleHash sampleManifest 1 [] = (Ok, body)"
    using sampleManifest_encodes by (simp add: prod_eq_iff)
  have "\<And>x. length (sampleHash x) = 32" by (simp add: sampleHash_def)
  from decode_encode [OF this enc] enc show ?thesis
    by (auto simp: sampleManifest_def DeviceManifest0_def configurationByValue_def)
qed

section \<open>Properties\<close>







end
