(* ===== verification/Ep0.thy ===== *)
theory Ep0
  imports Manifest
begin

text \<open>
  The ep0 policy table (\<open>core/Ep0Arbiter.h\<close>, \<open>core/Ep0Arbiter.cpp\<close>): which control requests are
  answered from the manifest, absorbed, turned into a control verb, forwarded or refused, and the
  shadow of the configuration and alternate settings.  The log text of a decision is left out.
\<close>

section \<open>Decisions\<close>

datatype Ep0Disposition = Local | Absorb | Arbitrate | Forward | Stall

datatype Ep0Verb = VerbNone | VerbSetConfiguration | VerbSetInterface | VerbEpClearHalt

record Ep0Decision =
  ed_disposition :: Ep0Disposition
  ed_verb :: Ep0Verb
  ed_data :: bytes
  ed_isShort :: bool
  ed_arg0 :: u16
  ed_arg1 :: u16
  ed_status :: Status

definition Ep0Decision0 :: Ep0Decision where
  "Ep0Decision0 = \<lparr>ed_disposition = Forward, ed_verb = VerbNone, ed_data = [], ed_isShort = False,
     ed_arg0 = 0, ed_arg1 = 0, ed_status = Ok\<rparr>"

definition localAnswer :: "bytes \<Rightarrow> u16 \<Rightarrow> Ep0Decision" where
  "localAnswer blob wLen =
     (let n = (if length blob < unat wLen then length blob else unat wLen)
      in Ep0Decision0\<lparr>ed_disposition := Local, ed_data := take n blob, ed_isShort := n < unat wLen\<rparr>)"

definition absorb :: Ep0Decision where
  "absorb = Ep0Decision0\<lparr>ed_disposition := Absorb\<rparr>"

definition forward :: Ep0Decision where
  "forward = Ep0Decision0\<lparr>ed_disposition := Forward\<rparr>"

definition arbitrate :: "Ep0Verb \<Rightarrow> u16 \<Rightarrow> u16 \<Rightarrow> Ep0Decision" where
  "arbitrate v a0 a1 =
     Ep0Decision0\<lparr>ed_disposition := Arbitrate, ed_verb := v, ed_arg0 := a0, ed_arg1 := a1\<rparr>"

definition stall :: "Status \<Rightarrow> Ep0Decision" where
  "stall s = Ep0Decision0\<lparr>ed_disposition := Stall, ed_status := s\<rparr>"

section \<open>The arbiter\<close>

record Ep0Arbiter =
  ea_manifest :: DeviceManifest
  ea_config :: u8
  ea_altSetting :: "u8 list"
  ea_generation :: u32

definition Ep0Arbiter_new :: "DeviceManifest \<Rightarrow> Ep0Arbiter" where
  "Ep0Arbiter_new m =
     \<lparr>ea_manifest = m, ea_config = 0, ea_altSetting = replicate 32 0, ea_generation = 0\<rparr>"

definition alternateSetting :: "Ep0Arbiter \<Rightarrow> u8 \<Rightarrow> u8" where
  "alternateSetting a interfaceNumber =
     (if unat interfaceNumber < length (ea_altSetting a)
      then ea_altSetting a ! unat interfaceNumber else 0)"

definition commitVerb :: "Ep0Verb \<Rightarrow> u16 \<Rightarrow> u16 \<Rightarrow> Ep0Arbiter \<Rightarrow> Ep0Arbiter" where
  "commitVerb verb arg0 arg1 a =
     (case verb of
        VerbSetConfiguration \<Rightarrow>
          a\<lparr>ea_config := ucast arg0, ea_altSetting := map (\<lambda>_. 0) (ea_altSetting a),
            ea_generation := ea_generation a + 1\<rparr>
      | VerbSetInterface \<Rightarrow>
          a\<lparr>ea_altSetting := (if unat arg0 < length (ea_altSetting a)
                             then (ea_altSetting a)[unat arg0 := ucast arg1] else ea_altSetting a),
            ea_generation := ea_generation a + 1\<rparr>
      | VerbEpClearHalt \<Rightarrow> a
      | VerbNone \<Rightarrow> a)"

definition descriptorResponse :: "Ep0Arbiter \<Rightarrow> SetupPacket \<Rightarrow> Ep0Decision" where
  "descriptorResponse a s =
     (let ty = ucast (drop_bit 8 (wValue s)) :: u8;
          index = ucast (wValue s AND 0xFF) :: u8;
          m = ea_manifest a
      in if ty = kDescDevice then localAnswer (dm_device m) (wLength s)
         else if ty = kDescConfiguration then localAnswer (configurationByIndex m index) (wLength s)
         else if ty = kDescString then localAnswer (stringDescriptor m index (wIndex s)) (wLength s)
         else if ty = kDescBos then localAnswer (dm_bos m) (wLength s)
         else if ty = kDescDeviceQualifier then localAnswer (dm_deviceQualifier m) (wLength s)
         else if ty = kDescOtherSpeedConfig then localAnswer (dm_otherSpeedConfig m) (wLength s)
         else forward)"

text \<open>The shared branch of SET_FEATURE and of CLEAR_FEATURE after its endpoint halt case.\<close>

definition featureDecision :: "SetupPacket \<Rightarrow> Ep0Decision" where
  "featureDecision s =
     (let f = wValue s in
      if f = kFeatDeviceRemoteWakeup \<or> f = kFeatU1Enable \<or> f = kFeatU2Enable \<or> f = kFeatLtmEnable
      then absorb
      else if bRequest s = kSetFeature \<and> f = kFeatTestMode then stall NotPermitted
      else forward)"

definition decideStandard :: "Ep0Arbiter \<Rightarrow> SetupPacket \<Rightarrow> Ep0Decision" where
  "decideStandard a s =
     (let r = bRequest s in
      if r = kGetDescriptor then descriptorResponse a s
      else if r = kSetAddress then absorb
      else if r = kSetConfiguration then arbitrate VerbSetConfiguration (wValue s AND 0xFF) 0
      else if r = kSetInterface then arbitrate VerbSetInterface (wIndex s) (wValue s)
      else if r = kGetConfiguration then localAnswer [ea_config a] (wLength s)
      else if r = kGetInterface
      then localAnswer [alternateSetting a (ucast (wIndex s AND 0xFF))] (wLength s)
      else if r = kGetStatus then forward
      else if r = kClearFeature then
        (if su_recipient s = kRcpEndpoint \<and> wValue s = kFeatEndpointHalt
         then arbitrate VerbEpClearHalt (wIndex s) 0
         else featureDecision s)
      else if r = kSetFeature then featureDecision s
      else if r = kSetDescriptor then stall NotPermitted
      else if r = kSetSel \<or> r = kSetIsochDelay then absorb
      else forward)"

definition decide :: "Ep0Arbiter \<Rightarrow> SetupPacket \<Rightarrow> Ep0Decision" where
  "decide a s = (if isStandard s then decideStandard a s else forward)"

primrec dispositionName :: "Ep0Disposition \<Rightarrow> string" where
  "dispositionName Local = ''LOCAL''"
| "dispositionName Absorb = ''ABSORB''"
| "dispositionName Arbitrate = ''ARBITRATE''"
| "dispositionName Forward = ''FORWARD''"
| "dispositionName Stall = ''STALL''"

primrec verbName :: "Ep0Verb \<Rightarrow> string" where
  "verbName VerbNone = ''none''"
| "verbName VerbSetConfiguration = ''SET_CONFIGURATION''"
| "verbName VerbSetInterface = ''SET_INTERFACE''"
| "verbName VerbEpClearHalt = ''EP_CLEAR_HALT''"

section \<open>Facts\<close>

lemmas decision_defs = localAnswer_def absorb_def forward_def arbitrate_def stall_def Ep0Decision0_def

lemma decision_kinds [simp]:
  "ed_disposition (localAnswer b n) = Local" "ed_disposition absorb = Absorb"
  "ed_disposition forward = Forward" "ed_disposition (arbitrate v x y) = Arbitrate"
  "ed_disposition (stall st) = Stall"
  by (simp_all add: decision_defs Let_def)

lemma local_data: "ed_data (localAnswer b n) = take (unat n) b"
  "ed_isShort (localAnswer b n) \<longleftrightarrow> length b < unat n"
  by (auto simp: decision_defs Let_def)

text \<open>The bytes a local answer is cut from.\<close>

definition localSource :: "Ep0Arbiter \<Rightarrow> SetupPacket \<Rightarrow> bytes" where
  "localSource a s =
     (let m = ea_manifest a; ty = ucast (drop_bit 8 (wValue s)) :: u8;
          index = ucast (wValue s AND 0xFF) :: u8
      in if bRequest s = kGetConfiguration then [ea_config a]
         else if bRequest s = kGetInterface then [alternateSetting a (ucast (wIndex s AND 0xFF))]
         else if ty = kDescDevice then dm_device m
         else if ty = kDescConfiguration then configurationByIndex m index
         else if ty = kDescString then stringDescriptor m index (wIndex s)
         else if ty = kDescBos then dm_bos m
         else if ty = kDescDeviceQualifier then dm_deviceQualifier m
         else dm_otherSpeedConfig m)"

lemma featureDecision_not_local: "ed_disposition (featureDecision s) \<noteq> Local"
  by (simp add: featureDecision_def Let_def)

lemma descriptorResponse_local:
  assumes "ed_disposition (descriptorResponse a s) = Local" "bRequest s = kGetDescriptor"
  shows "descriptorResponse a s = localAnswer (localSource a s) (wLength s)"
  using assms unfolding descriptorResponse_def localSource_def Let_def by (simp split: if_splits)

lemma decideStandard_local:
  assumes "ed_disposition (decideStandard a s) = Local"
  shows "bRequest s = kGetDescriptor \<or> bRequest s = kGetConfiguration \<or> bRequest s = kGetInterface"
  using assms featureDecision_not_local unfolding decideStandard_def Let_def
  by (simp split: if_split_asm)

lemma decide_local:
  assumes "ed_disposition (decide a s) = Local"
  shows "decide a s = localAnswer (localSource a s) (wLength s)"
proof -
  have std: "decide a s = decideStandard a s" "ed_disposition (decideStandard a s) = Local"
    using assms by (simp_all add: decide_def split: if_splits)
  from decideStandard_local [OF std(2)] show ?thesis
  proof (elim disjE)
    assume r: "bRequest s = kGetDescriptor"
    then have "decideStandard a s = descriptorResponse a s" by (simp add: decideStandard_def)
    with descriptorResponse_local [OF _ r] std show ?thesis by simp
  qed (simp_all add: std(1) decideStandard_def localSource_def Let_def)
qed

text \<open>
  The shadow, as the sequence of confirmed verbs defines it: the last configuration, and for each
  interface the alternate setting selected since.
\<close>

fun shadow :: "(Ep0Verb \<times> u16 \<times> u16) list \<Rightarrow> u8 \<times> (nat \<Rightarrow> u8)" where
  "shadow [] = (0, \<lambda>_. 0)"
| "shadow ((v, a0, a1) # vs) =
     (let (c, alt) = shadow vs in
      case v of
        VerbSetConfiguration \<Rightarrow> (ucast a0, \<lambda>_. 0)
      | VerbSetInterface \<Rightarrow> (c, alt(unat a0 := ucast a1))
      | _ \<Rightarrow> (c, alt))"

definition committed :: "DeviceManifest \<Rightarrow> (Ep0Verb \<times> u16 \<times> u16) list \<Rightarrow> Ep0Arbiter" where
  "committed m vs = foldr (\<lambda>(v, a0, a1). commitVerb v a0 a1) vs (Ep0Arbiter_new m)"

lemma committed_shadow:
  "length (ea_altSetting (committed m vs)) = 32 \<and> ea_manifest (committed m vs) = m
   \<and> ea_config (committed m vs) = fst (shadow vs)
   \<and> (\<forall>i<32. ea_altSetting (committed m vs) ! i = snd (shadow vs) i)"
proof (induction vs)
  case (Cons x vs)
  obtain v a0 a1 where x: "x = (v, a0, a1)" by (cases x)
  have "committed m (x # vs) = commitVerb v a0 a1 (committed m vs)" by (simp add: committed_def x)
  with Cons x show ?case
    by (cases v) (auto simp: commitVerb_def case_prod_unfold Let_def nth_list_update)
qed (simp add: committed_def Ep0Arbiter_new_def)

section \<open>Properties\<close>

text \<open>
  C28: a locally answered control request never overruns the requester's buffer.  The answer is the
  first \<open>wLength\<close> bytes of the descriptor (or state byte) the request names, and it is marked short
  exactly when that is fewer than \<open>wLength\<close> bytes.
\<close>

theorem ep0_local_answer:
  assumes "ed_disposition (decide a s) = Local"
  shows "ed_data (decide a s) = take (unat (wLength s)) (localSource a s)
    \<and> length (ed_data (decide a s)) \<le> unat (wLength s)
    \<and> (ed_isShort (decide a s) \<longleftrightarrow> length (ed_data (decide a s)) < unat (wLength s))"
  unfolding decide_local [OF assms] by (simp add: local_data) (simp add: local_data min_def)

theorem ep0_local_answer_witness:
  "ed_data (decide (Ep0Arbiter_new (DeviceManifest0\<lparr>dm_device := [18, 1, 0, 2]\<rparr>))
      \<lparr>bmRequestType = 0x80, bRequest = 6, wValue = 0x0100, wIndex = 0, wLength = 2\<rparr>) = [18, 1]"
proof -
  let ?a = "Ep0Arbiter_new (DeviceManifest0\<lparr>dm_device := [18, 1, 0, 2]\<rparr>)"
  let ?s = "\<lparr>bmRequestType = 0x80, bRequest = 6, wValue = 0x0100, wIndex = 0, wLength = 2\<rparr> :: SetupPacket"
  have "ed_disposition (decide ?a ?s) = Local"
    by (simp add: decide_def decideStandard_def descriptorResponse_def isStandard_def su_type_def)
  from ep0_local_answer [OF this] show ?thesis
    by (simp add: localSource_def Ep0Arbiter_new_def Let_def)
qed



text \<open>
  C30: the shadow refines the sequence of confirmed verbs.  After any of them, GET_CONFIGURATION
  answers the last configuration set, and GET_INTERFACE of an interface below 32 the last alternate
  setting selected since that configuration, or 0.
\<close>

theorem ep0_shadow_refines:
  assumes "isStandard s" "wLength s \<noteq> 0"
  shows "(bRequest s = kGetConfiguration \<longrightarrow> ed_data (decide (committed m vs) s) = [fst (shadow vs)])
    \<and> (bRequest s = kGetInterface \<and> wIndex s < 32 \<longrightarrow>
        ed_data (decide (committed m vs) s) = [snd (shadow vs) (unat (wIndex s))])"
proof -
  note c = committed_shadow [of m vs]
  have one: "take (unat (wLength s)) [x] = [x]" for x :: u8
    using assms(2) by (cases "unat (wLength s)") (simp_all add: unat_eq_0)
  have "unat (ucast (wIndex s AND 0xFF) :: u8) = unat (wIndex s)" if "wIndex s < 32"
  proof -
    have lt: "unat (wIndex s) < 32" using that by (simp add: word_less_nat_alt)
    have "wIndex s AND 0xFF = take_bit 8 (wIndex s)" by (simp add: take_bit_eq_mask mask_eq_exp_minus_1)
    then have "unat (ucast (wIndex s AND 0xFF) :: u8) = unat (wIndex s) mod 256"
      by (simp add: unsigned_ucast_eq unsigned_take_bit_eq take_bit_nat_def)
    with lt show ?thesis by simp
  qed
  with assms(1) one c show ?thesis
    by (auto simp: decide_def decideStandard_def local_data alternateSetting_def word_less_nat_alt)
qed

theorem ep0_shadow_refines_witness:
  "ed_data (decide (committed DeviceManifest0 [(VerbSetInterface, 1, 2), (VerbSetConfiguration, 3, 0)])
     \<lparr>bmRequestType = 0x81, bRequest = 0x0A, wValue = 0, wIndex = 1, wLength = 1\<rparr>) = [2]"
  using ep0_shadow_refines [of "\<lparr>bmRequestType = 0x81, bRequest = 0x0A, wValue = 0, wIndex = 1, wLength = 1\<rparr>"
      DeviceManifest0 "[(VerbSetInterface, 1, 2), (VerbSetConfiguration, 3, 0)]"]
  by (simp add: isStandard_def su_type_def)

text \<open>
  For interfaces numbered 32 and above the shadow has no entry: a confirmed SET_INTERFACE is
  forgotten, and GET_INTERFACE is answered locally with alternate setting 0 whatever was selected.
\<close>

theorem ep0_high_interface_forgotten:
  assumes "isStandard s" "bRequest s = kGetInterface" "wLength s \<noteq> 0" "32 \<le> unat (ucast (wIndex s AND 0xFF) :: u8)"
  shows "ed_disposition (decide (committed m vs) s) = Local \<and> ed_data (decide (committed m vs) s) = [0]"
proof -
  have one: "take (unat (wLength s)) [x] = [x]" for x :: u8
    using assms(3) by (cases "unat (wLength s)") (simp_all add: unat_eq_0)
  show ?thesis
    using assms(1,2,4) committed_shadow [of m vs] one
    by (simp add: decide_def decideStandard_def local_data alternateSetting_def)
qed

theorem ep0_high_interface_forgotten_witness:
  "ed_data (decide (committed DeviceManifest0 [(VerbSetInterface, 40, 1), (VerbSetConfiguration, 1, 0)])
     \<lparr>bmRequestType = 0x81, bRequest = 0x0A, wValue = 0, wIndex = 40, wLength = 1\<rparr>) = [0]"
  using ep0_high_interface_forgotten
    [of "\<lparr>bmRequestType = 0x81, bRequest = 0x0A, wValue = 0, wIndex = 40, wLength = 1\<rparr>"
      DeviceManifest0 "[(VerbSetInterface, 40, 1), (VerbSetConfiguration, 1, 0)]"]
  by (simp add: isStandard_def su_type_def)

end
