(* ===== verification/Timing.thy ===== *)
theory Timing
  imports Prelude
begin

text \<open>
  The continuous clock, deadlines and the timeout table (\<open>core/Clock.h\<close>, \<open>core/Watchdog.h\<close>,
  \<open>core/Watchdog.cpp\<close>).  A \<open>Clock\<close> appears only through the value of \<open>nowNs()\<close>, which the
  operations take as an argument.
\<close>

section \<open>The timeout table\<close>

abbreviation (input) kCmdKernelFatal :: u64 where "kCmdKernelFatal \<equiv> 8000"
abbreviation (input) kCmdHandlerBudgetUs :: u64 where "kCmdHandlerBudgetUs \<equiv> 200"
abbreviation (input) kCmdDeferredMax :: u64 where "kCmdDeferredMax \<equiv> 1500"
abbreviation (input) kNetCtrl :: u64 where "kNetCtrl \<equiv> 5000"
abbreviation (input) kUrbCeilingBulk :: u64 where "kUrbCeilingBulk \<equiv> 30000"
abbreviation (input) kUrbWatchdogImporter :: u64 where "kUrbWatchdogImporter \<equiv> 45000"
abbreviation (input) kUrbDeadlineIntr :: u64 where "kUrbDeadlineIntr \<equiv> 0"
abbreviation (input) kKeepaliveInterval :: u64 where "kKeepaliveInterval \<equiv> 500"
abbreviation (input) kKeepaliveMiss :: u64 where "kKeepaliveMiss \<equiv> 1500"
abbreviation (input) kDetachImporter :: u64 where "kDetachImporter \<equiv> 6000"
abbreviation (input) kDisconnectMax :: u64 where "kDisconnectMax \<equiv> 1000"
abbreviation (input) kLeaseExporter :: u64 where "kLeaseExporter \<equiv> 20000"
abbreviation (input) kSuspendHold :: u64 where "kSuspendHold \<equiv> 600000"
abbreviation (input) kDrainGraceful :: u64 where "kDrainGraceful \<equiv> 2000"

definition assertConsistent :: bool where
  "assertConsistent \<longleftrightarrow>
     kCmdDeferredMax * 4 < kCmdKernelFatal
     \<and> kUrbCeilingBulk < kUrbWatchdogImporter
     \<and> kKeepaliveMiss < kDetachImporter
     \<and> kDetachImporter + kDisconnectMax + 1000 < kLeaseExporter
     \<and> kNetCtrl < kUrbCeilingBulk
     \<and> kKeepaliveInterval * 3 \<le> kKeepaliveMiss"

section \<open>Deadlines\<close>

record Deadline =
  dl_atNs :: u64
  dl_set :: bool

definition never :: Deadline where
  "never = \<lparr>dl_atNs = 0, dl_set = False\<rparr>"

definition afterMs :: "u64 \<Rightarrow> u64 \<Rightarrow> Deadline" where
  "afterMs nowNs ms =
     (if ms = 0 then never
      else \<lparr>dl_atNs = nowNs + ms * 1000000, dl_set = True\<rparr>)"

definition expired :: "u64 \<Rightarrow> Deadline \<Rightarrow> bool" where
  "expired nowNs d \<longleftrightarrow> dl_set d \<and> nowNs \<ge> dl_atNs d"

definition remainingNs :: "u64 \<Rightarrow> Deadline \<Rightarrow> u64" where
  "remainingNs nowNs d =
     (if \<not> dl_set d then 0 else if nowNs \<ge> dl_atNs d then 0 else dl_atNs d - nowNs)"

record ManualClock =
  mc_now :: u64

definition advanceNs :: "u64 \<Rightarrow> ManualClock \<Rightarrow> ManualClock" where
  "advanceNs d c = c\<lparr>mc_now := mc_now c + d\<rparr>"

definition advanceMs :: "u64 \<Rightarrow> ManualClock \<Rightarrow> ManualClock" where
  "advanceMs ms c = c\<lparr>mc_now := mc_now c + ms * 1000000\<rparr>"

section \<open>Facts\<close>

lemma never_not_expired [simp]: "\<not> expired now never"
  by (simp add: expired_def never_def)

lemma afterMs_zero [simp]: "afterMs now 0 = never"
  by (simp add: afterMs_def)

lemma expired_iff_remaining: "dl_set d \<Longrightarrow> expired now d \<longleftrightarrow> remainingNs now d = 0"
  by (auto simp: expired_def remainingNs_def)

text \<open>
  As long as the arithmetic does not wrap (a clock below about 500 years and the timeouts of
  the table), a deadline fires after exactly the requested number of milliseconds.
\<close>

lemma unat_add_mult_nowrap:
  fixes now ms :: u64
  assumes "unat now + unat ms * 1000000 < 2 ^ 64"
  shows "unat (now + ms * 1000000) = unat now + unat ms * 1000000"
proof -
  have "unat (ms * 1000000) = unat ms * 1000000"
    using assms by (simp add: unat_word_ariths)
  then show ?thesis using assms by (simp add: unat_word_ariths)
qed

lemma expired_afterMs:
  assumes "unat now + unat ms * 1000000 < 2 ^ 64" "ms \<noteq> 0"
  shows "expired t (afterMs now ms) \<longleftrightarrow> unat now + unat ms * 1000000 \<le> unat t"
  using assms by (simp add: expired_def afterMs_def word_le_nat_alt unat_add_mult_nowrap)

lemma expired_mono: "\<lbrakk>expired t d; t \<le> t'\<rbrakk> \<Longrightarrow> expired t' d"
  by (auto simp: expired_def)

lemma timeouts_consistent: "assertConsistent"
  by (simp add: assertConsistent_def)

end
