(* ===== verification/RequestTable.thy ===== *)
theory RequestTable
  imports Assoc StatusCodes UsbTypes Timing Wire "HOL-Library.Multiset"
begin

text \<open>
  Outstanding request tracking (\<open>core/RequestTable.h\<close>, \<open>core/RequestTable.cpp\<close>).  The unordered
  maps of the class are association lists; the order in which a drain hands requests back is
  the iteration order of the hash table, which the code leaves unspecified, so the theorems
  speak of multisets of requests.  \<open>Clock::nowNs\<close> is the argument of \<open>rt_expired\<close>.
\<close>

section \<open>The table\<close>

text \<open>
  The transfer type and the direction are kept as the byte of the enumerator, since
  \<open>ImporterDataPlane::submit\<close> obtains them by a cast from a byte of any value.
\<close>

record OutstandingRequest =
  rq_requestId :: u64
  rq_channel :: u16
  rq_attachId :: u32
  rq_epAddr :: u8
  rq_xferType :: u8
  rq_dir :: u8
  rq_requestedLen :: u32
  rq_deviceEpoch :: u16
  rq_epGeneration :: u32
  rq_deadline :: Deadline
  rq_submittedNs :: u64

type_synonym RequestKey = "u16 \<times> u64"

record RequestTable =
  rt_byKey :: "(RequestKey, OutstandingRequest) smap"
  rt_lastSeen :: "(u16, u64) smap"
  rt_nextId :: "(u16, u64) smap"

definition RequestTable_new :: RequestTable where
  "RequestTable_new = \<lparr>rt_byKey = [], rt_lastSeen = [], rt_nextId = []\<rparr>"

abbreviation keyOf :: "OutstandingRequest \<Rightarrow> RequestKey" where
  "keyOf r \<equiv> (rq_channel r, rq_requestId r)"

definition rt_add :: "OutstandingRequest \<Rightarrow> RequestTable \<Rightarrow> Status \<times> RequestTable" where
  "rt_add r t =
     (if map_of (rt_byKey t) (keyOf r) \<noteq> None then (AlreadyExists, t)
      else if (case map_of (rt_lastSeen t) (rq_channel r) of
                 None \<Rightarrow> False | Some l \<Rightarrow> rq_requestId r \<le> l)
      then (BadArgument, t)
      else (Ok, t\<lparr>rt_lastSeen := AList.update (rq_channel r) (rq_requestId r) (rt_lastSeen t),
                  rt_byKey := AList.update (keyOf r) r (rt_byKey t)\<rparr>))"

definition rt_take :: "u16 \<Rightarrow> u64 \<Rightarrow> RequestTable \<Rightarrow> OutstandingRequest option \<times> RequestTable" where
  "rt_take channel requestId t =
     (case map_of (rt_byKey t) (channel, requestId) of
        None \<Rightarrow> (None, t)
      | Some r \<Rightarrow> (Some r, t\<lparr>rt_byKey := AList.delete (channel, requestId) (rt_byKey t)\<rparr>))"

definition rt_isOutstanding :: "u16 \<Rightarrow> u64 \<Rightarrow> RequestTable \<Rightarrow> bool" where
  "rt_isOutstanding channel requestId t \<longleftrightarrow> map_of (rt_byKey t) (channel, requestId) \<noteq> None"

definition rt_get :: "u16 \<Rightarrow> u64 \<Rightarrow> RequestTable \<Rightarrow> OutstandingRequest option" where
  "rt_get channel requestId t = map_of (rt_byKey t) (channel, requestId)"

text \<open>The erase loop the four drains share, with the condition as its argument.\<close>

fun drainLoop ::
    "(OutstandingRequest \<Rightarrow> bool) \<Rightarrow> (RequestKey, OutstandingRequest) smap \<Rightarrow>
      OutstandingRequest list \<times> (RequestKey, OutstandingRequest) smap" where
  "drainLoop c [] = ([], [])"
| "drainLoop c ((k, r) # m) =
     (let (out, kept) = drainLoop c m
      in if c r then (r # out, kept) else (out, (k, r) # kept))"

definition drain ::
    "(OutstandingRequest \<Rightarrow> bool) \<Rightarrow> RequestTable \<Rightarrow> OutstandingRequest list \<times> RequestTable" where
  "drain c t =
     (let (out, kept) = drainLoop c (rt_byKey t) in (out, t\<lparr>rt_byKey := kept\<rparr>))"

definition rt_expired :: "u64 \<Rightarrow> RequestTable \<Rightarrow> OutstandingRequest list \<times> RequestTable" where
  "rt_expired nowNs = drain (\<lambda>r. expired nowNs (rq_deadline r))"

definition takeEndpoint :: "u32 \<Rightarrow> u8 \<Rightarrow> RequestTable \<Rightarrow> OutstandingRequest list \<times> RequestTable" where
  "takeEndpoint attachId epAddr =
     drain (\<lambda>r. rq_attachId r = attachId \<and> rq_epAddr r = epAddr)"

definition takeAttach :: "u32 \<Rightarrow> RequestTable \<Rightarrow> OutstandingRequest list \<times> RequestTable" where
  "takeAttach attachId = drain (\<lambda>r. rq_attachId r = attachId)"

definition takeStaleEpoch :: "u32 \<Rightarrow> u16 \<Rightarrow> RequestTable \<Rightarrow> OutstandingRequest list \<times> RequestTable" where
  "takeStaleEpoch attachId currentEpoch =
     drain (\<lambda>r. rq_attachId r = attachId \<and> rq_deviceEpoch r \<noteq> currentEpoch)"

definition rt_size :: "RequestTable \<Rightarrow> nat" where
  "rt_size t = length (rt_byKey t)"

text \<open>\<open>_nextId[channel]\<close> creates the entry with value 0 when there is none.\<close>

definition nextRequestId :: "u16 \<Rightarrow> RequestTable \<Rightarrow> u64 \<times> RequestTable" where
  "nextRequestId channel t =
     (let n0 = (case map_of (rt_nextId t) channel of None \<Rightarrow> 0 | Some n \<Rightarrow> n);
          n = (if n0 = 0 then 1 else n0)
      in (n, t\<lparr>rt_nextId := AList.update channel (n + 1) (rt_nextId t)\<rparr>))"

section \<open>Invariant\<close>

text \<open>
  Entries are filed under their own key, and no entry is above the highest identifier seen on
  its channel.
\<close>

definition rtInv :: "RequestTable \<Rightarrow> bool" where
  "rtInv t \<longleftrightarrow> distinct (keys (rt_byKey t))
     \<and> (\<forall>(k, r) \<in> set (rt_byKey t). k = keyOf r
           \<and> (\<exists>l. map_of (rt_lastSeen t) (rq_channel r) = Some l \<and> rq_requestId r \<le> l))"

definition live :: "RequestTable \<Rightarrow> OutstandingRequest multiset" where
  "live t = mset (map snd (rt_byKey t))"

lemma drainLoop_filter:
  "drainLoop c m = (map snd (filter (c \<circ> snd) m), filter (Not \<circ> c \<circ> snd) m)"
  by (induction m) auto

lemma drain_filter:
  "drain c t = (map snd (filter (c \<circ> snd) (rt_byKey t)),
                t\<lparr>rt_byKey := filter (Not \<circ> c \<circ> snd) (rt_byKey t)\<rparr>)"
  by (simp add: drain_def drainLoop_filter)

lemma distinct_keys_filter: "distinct (keys m) \<Longrightarrow> distinct (keys (filter P m))"
  by (induction m) auto

lemma rtInv_new: "rtInv RequestTable_new"
  by (simp add: rtInv_def RequestTable_new_def)

lemma rtInv_drain: "rtInv t \<Longrightarrow> rtInv (snd (drain c t))"
  by (auto simp: rtInv_def drain_filter distinct_keys_filter)

lemma rtInv_take: "rtInv t \<Longrightarrow> rtInv (snd (rt_take ch i t))"
  by (auto simp: rtInv_def rt_take_def mem_delete split: option.split)

lemma rtInv_nextRequestId: "rtInv t \<Longrightarrow> rtInv (snd (nextRequestId ch t))"
  by (auto simp: rtInv_def nextRequestId_def Let_def)

lemma rtInv_add:
  assumes "rtInv t" shows "rtInv (snd (rt_add r t))"
proof (cases "fst (rt_add r t) = Ok")
  case False
  then show ?thesis using assms by (auto simp: rt_add_def split: if_splits)
next
  case True
  then have up: "snd (rt_add r t) =
      t\<lparr>rt_lastSeen := AList.update (rq_channel r) (rq_requestId r) (rt_lastSeen t),
        rt_byKey := AList.update (keyOf r) r (rt_byKey t)\<rparr>"
    and seen: "\<And>l. map_of (rt_lastSeen t) (rq_channel r) = Some l \<Longrightarrow> l < rq_requestId r"
    by (auto simp: rt_add_def split: if_splits option.splits)
  show ?thesis
    using assms unfolding up rtInv_def
    by (auto simp: update_conv' dest!: mem_update) (force dest: seen)+
qed

section \<open>Runs of the table\<close>

datatype RtOp =
    OpAdd OutstandingRequest
  | OpTake u16 u64
  | OpExpired u64
  | OpTakeEndpoint u32 u8
  | OpTakeAttach u32
  | OpTakeStaleEpoch u32 u16
  | OpNextRequestId u16

text \<open>One call, with the requests it accepted and the requests it handed back.\<close>

fun rtStep :: "RtOp \<Rightarrow> RequestTable \<Rightarrow> OutstandingRequest list \<times> OutstandingRequest list \<times> RequestTable" where
  "rtStep (OpAdd r) t = (let (s, t') = rt_add r t in (if s = Ok then [r] else [], [], t'))"
| "rtStep (OpTake ch i) t =
     (let (o', t') = rt_take ch i t in ([], (case o' of None \<Rightarrow> [] | Some r \<Rightarrow> [r]), t'))"
| "rtStep (OpExpired now) t = (let (out, t') = rt_expired now t in ([], out, t'))"
| "rtStep (OpTakeEndpoint a e) t = (let (out, t') = takeEndpoint a e t in ([], out, t'))"
| "rtStep (OpTakeAttach a) t = (let (out, t') = takeAttach a t in ([], out, t'))"
| "rtStep (OpTakeStaleEpoch a e) t = (let (out, t') = takeStaleEpoch a e t in ([], out, t'))"
| "rtStep (OpNextRequestId ch) t = ([], [], snd (nextRequestId ch t))"

fun rtRun :: "RtOp list \<Rightarrow> RequestTable \<Rightarrow> OutstandingRequest list \<times> OutstandingRequest list \<times> RequestTable" where
  "rtRun [] t = ([], [], t)"
| "rtRun (op # ops) t =
     (let (acc, rel, t') = rtStep op t;
          (acc', rel', t'') = rtRun ops t'
      in (acc @ acc', rel @ rel', t''))"

lemmas rt_drains = rt_expired_def takeEndpoint_def takeAttach_def takeStaleEpoch_def

lemma rtInv_step: "rtInv t \<Longrightarrow> rtInv (snd (snd (rtStep op t)))"
proof (cases op)
  case (OpAdd r)
  then show "rtInv t \<Longrightarrow> ?thesis" using rtInv_add [of t r] by (simp add: case_prod_unfold Let_def)
next
  case (OpTake ch i)
  then show "rtInv t \<Longrightarrow> ?thesis" using rtInv_take [of t] by (simp add: case_prod_unfold Let_def)
next
  case (OpNextRequestId ch)
  then show "rtInv t \<Longrightarrow> ?thesis" using rtInv_nextRequestId [of t] by simp
qed (use rtInv_drain in \<open>simp_all add: case_prod_unfold Let_def rt_drains\<close>)

lemma mset_partition_map:
  "mset (map f (filter P m)) + mset (map f (filter (Not \<circ> P) m)) = mset (map f m)"
  by (induction m) auto

lemma live_drain: "mset (fst (drain c t)) + live (snd (drain c t)) = live t"
  using mset_partition_map [of snd "c \<circ> snd" "rt_byKey t"]
  by (simp add: drain_filter live_def o_assoc)

lemma live_drain_pair: "drain c t = (out, t') \<Longrightarrow> live t = mset out + live t'"
  using live_drain [of c t] by simp

lemma mset_delete:
  "\<lbrakk>distinct (keys m); map_of m k = Some v\<rbrakk> \<Longrightarrow>
    mset (map snd m) = add_mset v (mset (map snd (AList.delete k m)))"
  by (induction m) (auto split: if_splits simp: delete_notin)

lemma live_step:
  assumes "rtInv t" "rtStep op t = (acc, rel, t')"
  shows "live t + mset acc = mset rel + live t'"
proof (cases op)
  case (OpAdd r)
  then show ?thesis using assms
    by (auto simp: rt_add_def live_def update_notin map_of_notin_keys split: if_splits option.splits)
next
  case (OpTake ch i)
  show ?thesis
  proof (cases "map_of (rt_byKey t) (ch, i)")
    case None
    then show ?thesis using assms OpTake by (simp add: rt_take_def)
  next
    case (Some r)
    have "distinct (keys (rt_byKey t))" using assms(1) by (simp add: rtInv_def)
    from mset_delete [OF this Some] show ?thesis
      using assms(2) OpTake Some by (auto simp: rt_take_def live_def)
  qed
next
  case (OpNextRequestId ch)
  then show ?thesis using assms by (auto simp: nextRequestId_def live_def Let_def)
qed (use assms(2) live_drain_pair in \<open>auto simp: rt_drains split: prod.splits\<close>)

lemma live_run:
  assumes "rtInv t" "rtRun ops t = (acc, rel, t')"
  shows "rtInv t' \<and> live t + mset acc = mset rel + live t'"
  using assms
proof (induction ops arbitrary: t acc rel t')
  case (Cons op ops)
  obtain a1 r1 t1 where s: "rtStep op t = (a1, r1, t1)" by (cases "rtStep op t") auto
  obtain a2 r2 t2 where u: "rtRun ops t1 = (a2, r2, t2)" by (cases "rtRun ops t1") auto
  have "rtInv t1" using rtInv_step [OF Cons.prems(1), of op] s by simp
  from Cons.IH [OF this u] live_step [OF Cons.prems(1) s] Cons.prems(2) s u
  show ?case by (auto simp: algebra_simps) (metis add.assoc add.left_commute)
qed simp

section \<open>Identifiers never come back\<close>

text \<open>The highest identifier seen on a channel, as a lower bound for what is accepted next.\<close>

definition seenAt :: "RequestTable \<Rightarrow> u16 \<Rightarrow> u64 option" where
  "seenAt t ch = map_of (rt_lastSeen t) ch"

lemma seenAt_step:
  assumes "rtStep op t = (acc, rel, t')"
  shows "(\<forall>r. acc = [r] \<longrightarrow> (case seenAt t (rq_channel r) of None \<Rightarrow> True | Some l \<Rightarrow> l < rq_requestId r)
             \<and> seenAt t' = (seenAt t)(rq_channel r \<mapsto> rq_requestId r))
         \<and> (acc = [] \<longrightarrow> seenAt t' = seenAt t) \<and> length acc \<le> 1"
  using assms
  by (cases op)
     (auto simp: rt_add_def rt_take_def nextRequestId_def rt_drains drain_filter Let_def seenAt_def
        fun_eq_iff update_conv' split: if_splits option.splits)

text \<open>A later request on the same channel has a strictly greater identifier.\<close>

definition laterAbove :: "OutstandingRequest \<Rightarrow> OutstandingRequest \<Rightarrow> bool" where
  "laterAbove r s \<longleftrightarrow> rq_channel r = rq_channel s \<longrightarrow> rq_requestId r < rq_requestId s"

lemma accepted_above_seen:
  assumes "rtRun ops t = (acc, rel, t')" "r \<in> set acc" "seenAt t (rq_channel r) = Some l"
  shows "l < rq_requestId r"
  using assms
proof (induction ops arbitrary: t acc rel l t')
  case (Cons op ops)
  obtain a1 r1 t1 where s: "rtStep op t = (a1, r1, t1)" by (cases "rtStep op t") auto
  obtain a2 r2 t2 where u: "rtRun ops t1 = (a2, r2, t2)" by (cases "rtRun ops t1") auto
  have acc: "acc = a1 @ a2" using Cons.prems(1) s u by simp
  consider "a1 = []" | q where "a1 = [q]"
    using seenAt_step [OF s] by (cases a1) auto
  then show ?case
  proof cases
    case 1
    then show ?thesis
      using Cons.IH [OF u] Cons.prems(2,3) acc seenAt_step [OF s] by auto
  next
    case (2 q)
    then have q: "seenAt t1 = (seenAt t)(rq_channel q \<mapsto> rq_requestId q)"
      and lt: "rq_channel q = rq_channel r \<Longrightarrow> l < rq_requestId q"
      using seenAt_step [OF s] Cons.prems(3) by auto
    show ?thesis
    proof (cases "r = q")
      case False
      then have r2: "r \<in> set a2" using Cons.prems(2) acc 2 by simp
      show ?thesis
        using Cons.IH [OF u r2] q lt Cons.prems(3)
        by (cases "rq_channel q = rq_channel r") (auto intro: less_trans)
    qed (use lt in simp)
  qed
qed simp

lemma accepted_increasing:
  "rtRun ops t = (acc, rel, t') \<Longrightarrow> sorted_wrt laterAbove acc"
proof (induction ops arbitrary: t acc rel t')
  case (Cons op ops)
  obtain a1 r1 t1 where s: "rtStep op t = (a1, r1, t1)" by (cases "rtStep op t") auto
  obtain a2 r2 t2 where u: "rtRun ops t1 = (a2, r2, t2)" by (cases "rtRun ops t1") auto
  have acc: "acc = a1 @ a2" using Cons.prems s u by simp
  consider "a1 = []" | q where "a1 = [q]"
    using seenAt_step [OF s] by (cases a1) auto
  then show ?case
  proof cases
    case (2 q)
    then have q: "seenAt t1 (rq_channel q) = Some (rq_requestId q)"
      using seenAt_step [OF s] by auto
    have "\<forall>r \<in> set a2. laterAbove q r"
      using accepted_above_seen [OF u] q by (auto simp: laterAbove_def)
    then show ?thesis using Cons.IH [OF u] acc 2 by simp
  qed (use Cons.IH [OF u] acc in simp)
qed simp

lemma increasing_distinct_keys: "sorted_wrt laterAbove acc \<Longrightarrow> distinct (map keyOf acc)"
  by (induction acc) (auto simp: laterAbove_def)

section \<open>Drawing identifiers\<close>

text \<open>
  The use of the table by the sending side: draw an identifier on the channel of the request,
  then record the request under it.
\<close>

definition submitDrawn :: "OutstandingRequest \<Rightarrow> RequestTable \<Rightarrow> Status \<times> u64 \<times> RequestTable" where
  "submitDrawn r t =
     (let (i, t1) = nextRequestId (rq_channel r) t;
          (s, t2) = rt_add (r\<lparr>rq_requestId := i\<rparr>) t1
      in (s, i, t2))"

fun removes :: "RtOp \<Rightarrow> bool" where
  "removes (OpAdd r) \<longleftrightarrow> False"
| "removes (OpNextRequestId ch) \<longleftrightarrow> False"
| "removes op \<longleftrightarrow> True"

datatype PlaneOp = Submit OutstandingRequest | Retire RtOp

fun planeRun :: "PlaneOp list \<Rightarrow> RequestTable \<Rightarrow> (u16 \<times> Status \<times> u64) list" where
  "planeRun [] t = []"
| "planeRun (Submit r # ops) t =
     (let (s, i, t') = submitDrawn r t in (rq_channel r, s, i) # planeRun ops t')"
| "planeRun (Retire op # ops) t = planeRun ops (snd (snd (rtStep op t)))"

definition drawnOn :: "u16 \<Rightarrow> (u16 \<times> Status \<times> u64) list \<Rightarrow> nat list" where
  "drawnOn ch log = map (\<lambda>(c, s, i). unat i) (filter (\<lambda>(c, s, i). c = ch) log)"

text \<open>With \<open>f ch\<close> identifiers drawn so far, all recorded.\<close>

definition drawInv :: "(u16 \<Rightarrow> nat) \<Rightarrow> RequestTable \<Rightarrow> bool" where
  "drawInv f t \<longleftrightarrow> (\<forall>ch.
     (if f ch = 0 then map_of (rt_nextId t) ch = None \<and> map_of (rt_lastSeen t) ch = None
      else map_of (rt_nextId t) ch = Some (of_nat (Suc (f ch)))
         \<and> map_of (rt_lastSeen t) ch = Some (of_nat (f ch))))"

lemma drawInv_retire:
  assumes "drawInv f t" "removes op" shows "drawInv f (snd (snd (rtStep op t)))"
  using assms
  by (cases op)
     (auto simp: drawInv_def rt_drains drain_filter rt_take_def split: option.splits)

lemma of_nat_less_u64: "\<lbrakk>m < n; n < 2 ^ 64\<rbrakk> \<Longrightarrow> (of_nat m :: u64) < of_nat n"
  by (simp add: word_less_nat_alt unat_of_nat)

lemma of_nat_pos_u64: "\<lbrakk>0 < n; n < 2 ^ 64\<rbrakk> \<Longrightarrow> (of_nat n :: u64) \<noteq> 0"
  using of_nat_less_u64 [of 0 n] by auto

lemma submitDrawn_ok:
  fixes t :: RequestTable
  assumes inv: "drawInv f t" "rtInv t" and room: "Suc (Suc (f (rq_channel r))) < 2 ^ 64"
  obtains t' where
    "submitDrawn r t = (Ok, of_nat (Suc (f (rq_channel r))), t')"
    "drawInv (f(rq_channel r := Suc (f (rq_channel r)))) t'" "rtInv t'"
proof -
  define ch where "ch = rq_channel r"
  define i where "i = (of_nat (Suc (f ch)) :: u64)"
  define t1 where "t1 = t\<lparr>rt_nextId := AList.update ch (i + 1) (rt_nextId t)\<rparr>"
  have d: "if f ch = 0 then map_of (rt_nextId t) ch = None \<and> map_of (rt_lastSeen t) ch = None
      else map_of (rt_nextId t) ch = Some i \<and> map_of (rt_lastSeen t) ch = Some (of_nat (f ch))"
    using inv(1) unfolding drawInv_def i_def by blast
  have i0: "i \<noteq> 0" using of_nat_pos_u64 [of "Suc (f ch)"] room unfolding i_def ch_def by simp
  have nx: "nextRequestId ch t = (i, t1)"
    using d i0 by (auto simp: nextRequestId_def t1_def Let_def i_def split: if_splits)
  have inv1: "rtInv t1" using rtInv_nextRequestId [OF inv(2), of ch] nx by simp
  have lt: "(of_nat (f ch) :: u64) < i"
    using of_nat_less_u64 [of "f ch" "Suc (f ch)"] room unfolding i_def ch_def by simp
  have seen: "map_of (rt_lastSeen t) ch = Some l \<Longrightarrow> l < i" for l
    using d lt by (auto split: if_splits)
  have fresh: "map_of (rt_byKey t1) (ch, i) = None"
  proof (rule ccontr)
    assume "map_of (rt_byKey t1) (ch, i) \<noteq> None"
    then obtain q where "((ch, i), q) \<in> set (rt_byKey t1)" by (auto dest: map_of_SomeD)
    then obtain l where "map_of (rt_lastSeen t) ch = Some l" "i \<le> l"
      using inv1 by (auto simp: rtInv_def t1_def)
    then show False using seen by fastforce
  qed
  define t' where "t' = snd (rt_add (r\<lparr>rq_requestId := i\<rparr>) t1)"
  have add: "rt_add (r\<lparr>rq_requestId := i\<rparr>) t1 = (Ok, t')"
    using fresh seen
    by (fastforce simp: rt_add_def t'_def ch_def t1_def split: option.splits)
  have t': "map_of (rt_lastSeen t') = (map_of (rt_lastSeen t))(ch \<mapsto> i)"
    "map_of (rt_nextId t') = (map_of (rt_nextId t))(ch \<mapsto> i + 1)"
    using add by (auto simp: rt_add_def t1_def ch_def update_conv' split: if_splits)
  have "drawInv (f(ch := Suc (f ch))) t'"
    using inv(1) unfolding drawInv_def t' by (auto simp: i_def add.commute)
  moreover have "rtInv t'" using rtInv_add [OF inv1] unfolding t'_def .
  moreover have "submitDrawn r t = (Ok, i, t')"
    using nx add by (simp add: submitDrawn_def ch_def)
  ultimately show thesis using that unfolding i_def ch_def by blast
qed

lemma planeRun_ids:
  assumes "drawInv f t" "rtInv t" "\<forall>op. Retire op \<in> set ops \<longrightarrow> removes op"
    "\<And>ch. f ch + length ops + 1 < 2 ^ 64"
  shows "(\<forall>(c, s, i) \<in> set (planeRun ops t). s = Ok)
    \<and> drawnOn ch (planeRun ops t)
        = [Suc (f ch) ..< Suc (f ch + length (drawnOn ch (planeRun ops t)))]"
  using assms
proof (induction ops arbitrary: f t)
  case Nil
  show ?case by (simp add: drawnOn_def)
next
  case (Cons op ops)
  show ?case
  proof (cases op)
    case (Retire x)
    have b: "f c + length ops + 1 < 2 ^ 64" for c using Cons.prems(4) [of c] by simp
    have r: "removes x" "\<forall>op. Retire op \<in> set ops \<longrightarrow> removes op"
      using Cons.prems(3) Retire by auto
    have eq: "planeRun (op # ops) t = planeRun ops (snd (snd (rtStep x t)))" using Retire by simp
    show ?thesis
      unfolding eq
      by (rule Cons.IH [OF drawInv_retire [OF Cons.prems(1) r(1)] rtInv_step [OF Cons.prems(2)] r(2) b])
  next
    case (Submit r)
    let ?f = "f(rq_channel r := Suc (f (rq_channel r)))"
    have room: "Suc (Suc (f (rq_channel r))) < 2 ^ 64" using Cons.prems(4) [of "rq_channel r"] by simp
    obtain t' where s: "submitDrawn r t = (Ok, of_nat (Suc (f (rq_channel r))), t')"
      "drawInv ?f t'" "rtInv t'"
      by (rule submitDrawn_ok [OF Cons.prems(1,2) room])
    have b: "?f c + length ops + 1 < 2 ^ 64" for c using Cons.prems(4) [of c] by auto
    have "Retire op \<in> set ops \<Longrightarrow> removes op" for op using Cons.prems(3) by simp
    from Cons.IH [OF s(2,3) _ b] this
    have IH: "(\<forall>(c, s, i) \<in> set (planeRun ops t'). s = Ok)"
      "drawnOn ch (planeRun ops t') = [Suc (?f ch) ..< Suc (?f ch + length (drawnOn ch (planeRun ops t')))]"
      by blast+
    show ?thesis
    proof (cases "rq_channel r = ch")
      case True
      have u: "unat (of_nat (Suc (f ch)) :: u64) = Suc (f ch)"
        using room True by (simp add: unat_of_nat_u64 del: of_nat_Suc)
      have "drawnOn ch (planeRun (op # ops) t) = Suc (f ch) # drawnOn ch (planeRun ops t')"
        using s(1) Submit True u by (simp add: drawnOn_def del: of_nat_Suc)
      moreover define n where "n = length (drawnOn ch (planeRun ops t'))"
      have "drawnOn ch (planeRun ops t') = [Suc (Suc (f ch)) ..< Suc (Suc (f ch + n))]"
        using IH(2) True unfolding n_def by (simp del: upt_Suc)
      ultimately have "drawnOn ch (planeRun (op # ops) t) = [Suc (f ch) ..< Suc (Suc (f ch + n))]"
        by (simp add: upt_conv_Cons del: upt_Suc)
      then have "drawnOn ch (planeRun (op # ops) t)
          = [Suc (f ch) ..< Suc (f ch + length (drawnOn ch (planeRun (op # ops) t)))]"
        by (simp del: upt_Suc)
      moreover have "\<forall>(c, s, i) \<in> set (planeRun (op # ops) t). s = Ok"
        using IH(1) s(1) Submit by simp
      ultimately show ?thesis by blast
    next
      case False
      then have "drawnOn ch (planeRun (op # ops) t) = drawnOn ch (planeRun ops t')"
        using s(1) Submit by (simp add: drawnOn_def)
      then show ?thesis using IH s(1) Submit False by auto
    qed
  qed
qed

section \<open>Properties\<close>

text \<open>
  C16. Exactly once: over every sequence of calls on a fresh table, the requests accepted are, as
  a multiset, those handed back by \<open>take\<close> or a drain together with those still outstanding, so no
  request is lost and none is handed back twice. No two accepted requests have the same channel
  and identifier, and on a channel identifiers strictly increase (rule R8), also after the
  earlier request has gone.
\<close>

theorem request_exactly_once:
  assumes "rtRun ops RequestTable_new = (accepted, released, t)"
  shows "mset accepted = mset released + live t
    \<and> distinct (map keyOf accepted) \<and> sorted_wrt laterAbove accepted"
proof -
  have "sorted_wrt laterAbove accepted" by (rule accepted_increasing [OF assms])
  moreover have "live RequestTable_new = {#}" by (simp add: live_def RequestTable_new_def)
  ultimately show ?thesis
    using live_run [OF rtInv_new assms] increasing_distinct_keys by simp
qed

definition sampleRequest :: "u16 \<Rightarrow> u64 \<Rightarrow> OutstandingRequest" where
  "sampleRequest ch i =
     \<lparr>rq_requestId = i, rq_channel = ch, rq_attachId = 1, rq_epAddr = 0x81, rq_xferType = xferCode XBulk,
      rq_dir = dirCode DirIn, rq_requestedLen = 512, rq_deviceEpoch = 1, rq_epGeneration = 0,
      rq_deadline = never, rq_submittedNs = 0\<rparr>"

theorem request_exactly_once_witness:
  "rtRun [OpAdd (sampleRequest 3 1), OpAdd (sampleRequest 3 1), OpAdd (sampleRequest 3 2), OpTake 3 1]
      RequestTable_new
    = ([sampleRequest 3 1, sampleRequest 3 2], [sampleRequest 3 1],
       \<lparr>rt_byKey = [((3, 2), sampleRequest 3 2)], rt_lastSeen = [(3, 2)], rt_nextId = []\<rparr>)
   \<and> mset [sampleRequest 3 1, sampleRequest 3 2] = mset [sampleRequest 3 1] + {#sampleRequest 3 2#}"
proof -
  have r: "rtRun [OpAdd (sampleRequest 3 1), OpAdd (sampleRequest 3 1), OpAdd (sampleRequest 3 2),
      OpTake 3 1] RequestTable_new
    = ([sampleRequest 3 1, sampleRequest 3 2], [sampleRequest 3 1],
       \<lparr>rt_byKey = [((3, 2), sampleRequest 3 2)], rt_lastSeen = [(3, 2)], rt_nextId = []\<rparr>)"
    by (simp add: RequestTable_new_def rt_add_def rt_take_def sampleRequest_def word_le_nat_alt)
  show ?thesis using request_exactly_once [OF r] r by (simp add: live_def)
qed

text \<open>
  C31. Drawn identifiers are always accepted: as long as fewer than \<open>2^64 - 1\<close> operations have
  been run, a request recorded under the identifier \<open>nextRequestId\<close> drew for its channel is
  never refused, whatever requests were retired in between, and the identifiers of each channel
  are 1, 2, 3, and so on, never 0 and never repeated.
\<close>

theorem drawn_ids_accepted:
  assumes "\<forall>op. Retire op \<in> set ops \<longrightarrow> removes op" "length ops + 1 < 2 ^ 64"
  shows "(\<forall>(c, s, i) \<in> set (planeRun ops RequestTable_new). s = Ok)
    \<and> (let ids = drawnOn ch (planeRun ops RequestTable_new) in ids = [1 ..< Suc (length ids)])"
proof -
  have "drawInv (\<lambda>_. 0) RequestTable_new" by (simp add: drawInv_def RequestTable_new_def)
  from planeRun_ids [OF this rtInv_new assms(1), of ch] assms(2) show ?thesis by (simp add: Let_def)
qed

theorem drawn_ids_accepted_witness:
  "planeRun [Submit (sampleRequest 3 0), Retire (OpTake 3 1), Submit (sampleRequest 3 0)]
     RequestTable_new = [(3, Ok, 1), (3, Ok, 2)]
   \<and> list_all (\<lambda>(c, s, i). s = Ok) (planeRun [Submit (sampleRequest 3 0), Retire (OpTake 3 1),
        Submit (sampleRequest 3 0)] RequestTable_new)"
proof
  have "\<forall>(c, s, i) \<in> set (planeRun [Submit (sampleRequest 3 0), Retire (OpTake 3 1),
        Submit (sampleRequest 3 0)] RequestTable_new). s = Ok"
    by (rule drawn_ids_accepted [THEN conjunct1]) auto
  then show "list_all (\<lambda>(c, s, i). s = Ok) (planeRun [Submit (sampleRequest 3 0), Retire (OpTake 3 1),
        Submit (sampleRequest 3 0)] RequestTable_new)"
    by (simp add: list_all_iff)
qed (simp add: submitDrawn_def nextRequestId_def RequestTable_new_def rt_add_def rt_take_def
       sampleRequest_def Let_def word_le_nat_alt)

end
