(* ===== verification/Credit.thy ===== *)
theory Credit
  imports Prelude StatusCodes "HOL-Library.Multiset"
begin

text \<open>
  Two-dimensional flow control (\<open>core/CreditController.h\<close>, \<open>core/CreditController.cpp\<close>).  The
  counters are 32-bit words; additions and subtractions wrap exactly where the code's do.
\<close>

section \<open>The controller\<close>

record CreditGrant =
  gr_urbs :: u32
  gr_bytes :: u32

definition CreditGrant0 :: CreditGrant where
  "CreditGrant0 = \<lparr>gr_urbs = 64, gr_bytes = 4 * 1024 * 1024\<rparr>"

record CreditController =
  cc_grant :: CreditGrant
  cc_urbsInUse :: u32
  cc_bytesInUse :: u32
  cc_overruns :: u32
  cc_grossOverrun :: bool

definition CreditController_new :: "CreditGrant \<Rightarrow> CreditController" where
  "CreditController_new g =
     \<lparr>cc_grant = g, cc_urbsInUse = 0, cc_bytesInUse = 0, cc_overruns = 0, cc_grossOverrun = False\<rparr>"

definition setGrant :: "CreditGrant \<Rightarrow> CreditController \<Rightarrow> CreditController" where
  "setGrant g c = c\<lparr>cc_grant := g\<rparr>"

definition urbsAvailable :: "CreditController \<Rightarrow> u32" where
  "urbsAvailable c = gr_urbs (cc_grant c) - cc_urbsInUse c"

definition bytesAvailable :: "CreditController \<Rightarrow> u32" where
  "bytesAvailable c = gr_bytes (cc_grant c) - cc_bytesInUse c"

definition wouldFit :: "u32 \<Rightarrow> CreditController \<Rightarrow> bool" where
  "wouldFit bytes c \<longleftrightarrow>
     cc_urbsInUse c < gr_urbs (cc_grant c)
     \<and> ((ucast (cc_bytesInUse c) :: u64) + (ucast bytes :: u64) \<le> (ucast (gr_bytes (cc_grant c)) :: u64))"

definition acquire :: "u32 \<Rightarrow> CreditController \<Rightarrow> Status \<times> CreditController" where
  "acquire bytes c =
     (if \<not> wouldFit bytes c then (NoResources, c)
      else (Ok, c\<lparr>cc_urbsInUse := cc_urbsInUse c + 1, cc_bytesInUse := cc_bytesInUse c + bytes\<rparr>))"

definition release :: "u32 \<Rightarrow> CreditController \<Rightarrow> bool \<times> CreditController" where
  "release bytes c =
     (if cc_urbsInUse c = 0 \<or> cc_bytesInUse c < bytes then (False, c)
      else (True, c\<lparr>cc_urbsInUse := cc_urbsInUse c - 1, cc_bytesInUse := cc_bytesInUse c - bytes\<rparr>))"

definition recordOverrun :: "u32 \<Rightarrow> CreditController \<Rightarrow> CreditController" where
  "recordOverrun requestedBytes c =
     (let c1 = c\<lparr>cc_overruns := cc_overruns c + 1\<rparr>;
          c2 = (if (ucast requestedBytes :: u64) > 2 * (ucast (gr_bytes (cc_grant c)) :: u64)
                then c1\<lparr>cc_grossOverrun := True\<rparr> else c1)
      in if cc_urbsInUse c > 2 * gr_urbs (cc_grant c) then c2\<lparr>cc_grossOverrun := True\<rparr> else c2)"

definition overrunIsFatal :: "CreditController \<Rightarrow> bool" where
  "overrunIsFatal c \<longleftrightarrow> cc_grossOverrun c \<or> cc_overruns c \<ge> 3"

definition matches :: "u32 \<Rightarrow> u32 \<Rightarrow> CreditController \<Rightarrow> bool" where
  "matches peerUrbs peerBytes c \<longleftrightarrow> peerUrbs = cc_urbsInUse c \<and> peerBytes = cc_bytesInUse c"

definition resetForTeardown :: "CreditController \<Rightarrow> CreditController" where
  "resetForTeardown c = c\<lparr>cc_urbsInUse := 0, cc_bytesInUse := 0, cc_overruns := 0\<rparr>"

section \<open>Accounting\<close>

text \<open>
  The abstract window is the multiset of the byte counts acquired and not yet released.
\<close>

definition mbytes :: "u32 multiset \<Rightarrow> nat" where
  "mbytes m = sum_mset (image_mset unat m)"

definition accounts :: "u32 multiset \<Rightarrow> CreditController \<Rightarrow> bool" where
  "accounts m c \<longleftrightarrow>
     unat (cc_urbsInUse c) = size m \<and> unat (cc_bytesInUse c) = mbytes m
     \<and> size m \<le> unat (gr_urbs (cc_grant c)) \<and> mbytes m \<le> unat (gr_bytes (cc_grant c))"

lemma mbytes_simps [simp]: "mbytes {#} = 0" "mbytes (add_mset b m) = unat b + mbytes m"
  by (simp_all add: mbytes_def)

lemma u64_sum_le:
  fixes a b g :: u32
  shows "((ucast a :: u64) + (ucast b :: u64) \<le> (ucast g :: u64)) \<longleftrightarrow> unat a + unat b \<le> unat g"
proof -
  have "unat ((ucast a :: u64) + (ucast b :: u64)) = unat a + unat b"
    using unat_u32_less [of a] unat_u32_less [of b] by (simp add: unat_word_ariths unat_ucast_u64)
  then show ?thesis by (simp add: word_le_nat_alt unat_ucast_u64)
qed

lemma wouldFit_accounts:
  assumes "accounts m c"
  shows "wouldFit b c \<longleftrightarrow> size m < unat (gr_urbs (cc_grant c))
    \<and> mbytes m + unat b \<le> unat (gr_bytes (cc_grant c))"
  using assms by (simp add: wouldFit_def accounts_def u64_sum_le word_less_nat_alt)

lemma unat_plus_u32: "unat (a :: u32) + unat b < 2 ^ 32 \<Longrightarrow> unat (a + b) = unat a + unat b"
  by (simp add: unat_word_ariths)

lemma acquire_accounts:
  assumes "accounts m c" "acquire b c = (s, c')"
  shows "(s = Ok \<and> accounts (add_mset b m) c') \<or> (s = NoResources \<and> c' = c \<and> \<not> wouldFit b c)"
proof (cases "wouldFit b c")
  case True
  let ?g = "cc_grant c"
  have fit: "size m < unat (gr_urbs ?g)" "mbytes m + unat b \<le> unat (gr_bytes ?g)"
    using True wouldFit_accounts [OF assms(1)] by auto
  have "unat (cc_urbsInUse c + 1) = size m + 1"
    using unat_plus_u32 [of "cc_urbsInUse c" 1] assms(1) fit unat_u32_less [of "gr_urbs ?g"]
    by (simp add: accounts_def)
  moreover have "unat (cc_bytesInUse c + b) = mbytes m + unat b"
    using unat_plus_u32 [of "cc_bytesInUse c" b] assms(1) fit unat_u32_less [of "gr_bytes ?g"]
    by (simp add: accounts_def)
  ultimately show ?thesis using assms(2) True fit by (auto simp: acquire_def accounts_def)
qed (use assms(2) in \<open>simp add: acquire_def\<close>)

lemma release_accounts:
  assumes "accounts (add_mset b m) c"
  obtains c' where "release b c = (True, c')" "accounts m c'" "cc_grant c' = cc_grant c"
proof -
  have a: "unat (cc_urbsInUse c) = Suc (size m)" "unat (cc_bytesInUse c) = unat b + mbytes m"
    using assms by (simp_all add: accounts_def)
  have nz: "cc_urbsInUse c \<noteq> 0" using a(1) by auto
  have ge: "\<not> cc_bytesInUse c < b" using a(2) by (simp add: word_less_nat_alt)
  have "unat (cc_urbsInUse c - 1) = size m"
    using a(1) by (simp add: unat_sub word_le_nat_alt)
  moreover have "unat (cc_bytesInUse c - b) = mbytes m"
    using a(2) ge by (simp add: unat_sub word_le_nat_alt word_less_nat_alt)
  ultimately have "accounts m (snd (release b c))"
    using assms nz ge by (simp add: release_def accounts_def)
  then show thesis using that nz ge by (simp add: release_def)
qed

section \<open>Runs\<close>

datatype CreditOp = Acquire u32 | Release u32 | Overrun u32

text \<open>
  The caller's obligation: a release names the byte count of an acquire that was granted and
  not yet released.  \<open>creditRun\<close> returns the final controller with the window the caller holds,
  the status of every acquire and the result of every release.
\<close>

fun creditRun ::
    "CreditOp list \<Rightarrow> u32 multiset \<Rightarrow> CreditController \<Rightarrow> (bool list \<times> u32 multiset \<times> CreditController) option" where
  "creditRun [] m c = Some ([], m, c)"
| "creditRun (Acquire b # ops) m c =
     (let (s, c') = acquire b c in creditRun ops (if s = Ok then add_mset b m else m) c')"
| "creditRun (Release b # ops) m c =
     (if b \<notin># m then None
      else let (ok, c') = release b c
           in map_option (\<lambda>(rs, r). (ok # rs, r)) (creditRun ops (m - {#b#}) c'))"
| "creditRun (Overrun b # ops) m c = creditRun ops m (recordOverrun b c)"

lemma recordOverrun_simps [simp]:
  "cc_grant (recordOverrun b c) = cc_grant c"
  "cc_urbsInUse (recordOverrun b c) = cc_urbsInUse c"
  "cc_bytesInUse (recordOverrun b c) = cc_bytesInUse c"
  by (simp_all add: recordOverrun_def Let_def)

lemma acquire_grant [simp]: "cc_grant (snd (acquire b c)) = cc_grant c"
  by (simp add: acquire_def)

lemma creditRun_accounts:
  assumes "accounts m c" "creditRun ops m c = Some (rs, m', c')"
  shows "accounts m' c' \<and> cc_grant c' = cc_grant c \<and> False \<notin> set rs"
  using assms
proof (induction ops m c arbitrary: rs rule: creditRun.induct)
  case (2 b ops m c)
  obtain s d where a: "acquire b c = (s, d)" by fastforce
  have "accounts (if s = Ok then add_mset b m else m) d"
    using acquire_accounts [OF 2(2) a] 2(2) by auto
  with 2(1) [OF a [symmetric] refl] 2(3) a show ?case
    using acquire_grant [of b c] by simp
next
  case (3 b ops m c)
  from 3(3) have b: "b \<in># m" by (auto split: if_splits)
  then have "accounts (add_mset b (m - {#b#})) c" using 3(2) by simp
  then obtain d where r: "release b c = (True, d)" "accounts (m - {#b#}) d" "cc_grant d = cc_grant c"
    by (rule release_accounts)
  obtain rs' where "creditRun ops (m - {#b#}) d = Some (rs', m', c')" "rs = True # rs'"
    using 3(3) b r(1) by auto
  with 3(1) [of "(True, d)" True d rs'] b r show ?case by simp
next
  case (4 b ops m c)
  then show ?case by (auto simp: accounts_def)
qed simp

section \<open>Properties\<close>

text \<open>
  C32. The window never drifts: over every sequence of acquires, overruns and releases in which a
  release names an acquire that is still held, every release succeeds, the counters equal the
  number and the byte total of the acquires held, neither exceeds the grant, the free amounts
  complete the grant without wrap, and when nothing is held the whole window is open again.
\<close>

theorem credit_never_drifts:
  assumes "creditRun ops {#} (CreditController_new g) = Some (results, held, c)"
  shows "False \<notin> set results
    \<and> unat (cc_urbsInUse c) = size held \<and> unat (cc_bytesInUse c) = mbytes held
    \<and> unat (urbsAvailable c) + size held = unat (gr_urbs g)
    \<and> unat (bytesAvailable c) + mbytes held = unat (gr_bytes g)
    \<and> (held = {#} \<longrightarrow> (\<forall>b. wouldFit b c \<longleftrightarrow> 0 < gr_urbs g \<and> b \<le> gr_bytes g))"
proof -
  have "accounts {#} (CreditController_new g)" by (simp add: accounts_def CreditController_new_def)
  from creditRun_accounts [OF this assms]
  have a: "accounts held c" and g: "cc_grant c = g" and r: "False \<notin> set results"
    by (simp_all add: CreditController_new_def)
  have "unat (urbsAvailable c) + size held = unat (gr_urbs g)"
    "unat (bytesAvailable c) + mbytes held = unat (gr_bytes g)"
    using a g by (simp_all add: accounts_def urbsAvailable_def bytesAvailable_def unat_sub
        word_le_nat_alt)
  moreover have "held = {#} \<longrightarrow> (\<forall>b. wouldFit b c \<longleftrightarrow> 0 < gr_urbs g \<and> b \<le> gr_bytes g)"
    using wouldFit_accounts [OF a] g by (simp add: word_less_nat_alt word_le_nat_alt)
  ultimately show ?thesis using a r by (simp add: accounts_def)
qed

theorem credit_never_drifts_witness:
  "creditRun [Acquire 512, Acquire 4096, Release 512, Release 4096] {#}
     (CreditController_new \<lparr>gr_urbs = 1, gr_bytes = 1024\<rparr>) = None
   \<and> creditRun [Acquire 512, Acquire 4096, Release 512] {#}
     (CreditController_new \<lparr>gr_urbs = 1, gr_bytes = 1024\<rparr>)
     = Some ([True], {#}, CreditController_new \<lparr>gr_urbs = 1, gr_bytes = 1024\<rparr>)
   \<and> wouldFit 1024 (CreditController_new \<lparr>gr_urbs = 1, gr_bytes = 1024\<rparr>)"
proof -
  let ?c = "CreditController_new \<lparr>gr_urbs = 1, gr_bytes = 1024\<rparr>"
  have r: "creditRun [Acquire 512, Acquire 4096, Release 512] {#} ?c = Some ([True], {#}, ?c)"
    by (simp add: acquire_def release_def wouldFit_def CreditController_new_def)
  have "wouldFit 1024 ?c" using credit_never_drifts [OF r] by simp
  moreover have "creditRun [Acquire 512, Acquire 4096, Release 512, Release 4096] {#} ?c = None"
    by (simp add: acquire_def release_def wouldFit_def CreditController_new_def)
  ultimately show ?thesis using r by blast
qed

text \<open>
  Overruns: one request of more than twice the byte grant makes the peer's overruns fatal at
  once, three requests do whatever their size, and the gross flag outlives the reset for
  teardown, so a controller that is reset stays fatal for the next attach.
\<close>

theorem overrun_fatal:
  "(unat b > 2 * unat (gr_bytes (cc_grant c)) \<longrightarrow> overrunIsFatal (recordOverrun b c)
      \<and> overrunIsFatal (resetForTeardown (recordOverrun b c)))
   \<and> (cc_overruns c = 0 \<longrightarrow>
       overrunIsFatal (recordOverrun b3 (recordOverrun b2 (recordOverrun b1 c))))"
proof -
  have "unat (2 * (ucast (gr_bytes (cc_grant c)) :: u64)) = 2 * unat (gr_bytes (cc_grant c))"
    using unat_u32_less [of "gr_bytes (cc_grant c)"] by (simp add: unat_word_ariths unat_ucast_u64)
  then have "unat b > 2 * unat (gr_bytes (cc_grant c)) \<Longrightarrow> cc_grossOverrun (recordOverrun b c)"
    by (simp add: recordOverrun_def Let_def word_less_nat_alt unat_ucast_u64)
  moreover have "cc_overruns (recordOverrun b' c') = cc_overruns c' + 1" for b' c'
    by (simp add: recordOverrun_def Let_def)
  ultimately show ?thesis by (simp add: overrunIsFatal_def resetForTeardown_def)
qed

theorem overrun_fatal_witness:
  "overrunIsFatal (resetForTeardown (recordOverrun 5000 (CreditController_new \<lparr>gr_urbs = 1, gr_bytes = 1024\<rparr>)))"
  using overrun_fatal [of "CreditController_new \<lparr>gr_urbs = 1, gr_bytes = 1024\<rparr>" 5000]
  by (simp add: CreditController_new_def)

end
