(* ===== verification/Transport.thy ===== *)
theory Transport
  imports Prelude StatusCodes
begin

text \<open>
  Ordered byte pipes (\<open>transport/IAirUsbTransport.h\<close>, \<open>transport/TcpTransport.h\<close>).  The interface
  \<open>IByteStream\<close> is the locale \<open>byte_pipe\<close>; the in-memory pipe of \<open>TcpTransport.cpp\<close> provides it in
  both directions.  A write reports how many bytes it took, a read returns the bytes it got;
  zero bytes with \<open>Ok\<close> means that the call would block.  The socket variant \<open>TcpStream\<close> is
  operating system input and output and is not modelled.
\<close>

section \<open>The in-memory pipe\<close>

text \<open>A capacity of 0 means unbounded.\<close>

definition endpointWrite :: "bool \<Rightarrow> bool \<Rightarrow> nat \<Rightarrow> bytes \<Rightarrow> bytes \<Rightarrow> Status \<times> nat \<times> bytes" where
  "endpointWrite self peer capacity out src =
     (if \<not> self \<or> \<not> peer then (TransportLost, 0, out)
      else if capacity \<noteq> 0 \<and> length out \<ge> capacity then (Ok, 0, out)
      else let room = (if capacity \<noteq> 0 then min (capacity - length out) (length src) else length src)
           in (Ok, room, out @ take room src))"

definition endpointRead :: "bool \<Rightarrow> bool \<Rightarrow> bytes \<Rightarrow> nat \<Rightarrow> Status \<times> bytes \<times> bytes" where
  "endpointRead self peer inq dstSize =
     (if inq = [] then ((if self \<and> peer then Ok else TransportLost), [], inq)
      else let n = (if length inq < dstSize then length inq else dstSize)
           in (Ok, take n inq, drop n inq))"

record MemoryPipe =
  mp_aToB :: bytes
  mp_bToA :: bytes
  mp_openA :: bool
  mp_openB :: bool
  mp_capacityAtoB :: nat
  mp_capacityBtoA :: nat

definition MemoryPipe_new :: MemoryPipe where
  "MemoryPipe_new =
     \<lparr>mp_aToB = [], mp_bToA = [], mp_openA = True, mp_openB = True,
      mp_capacityAtoB = 0, mp_capacityBtoA = 0\<rparr>"

definition setCapacity :: "nat \<Rightarrow> nat \<Rightarrow> MemoryPipe \<Rightarrow> MemoryPipe" where
  "setCapacity ab ba p = p\<lparr>mp_capacityAtoB := ab, mp_capacityBtoA := ba\<rparr>"

definition writeA :: "bytes \<Rightarrow> MemoryPipe \<Rightarrow> Status \<times> nat \<times> MemoryPipe" where
  "writeA src p =
     (let (st, n, out) = endpointWrite (mp_openA p) (mp_openB p) (mp_capacityAtoB p) (mp_aToB p) src
      in (st, n, p\<lparr>mp_aToB := out\<rparr>))"

definition writeB :: "bytes \<Rightarrow> MemoryPipe \<Rightarrow> Status \<times> nat \<times> MemoryPipe" where
  "writeB src p =
     (let (st, n, out) = endpointWrite (mp_openB p) (mp_openA p) (mp_capacityBtoA p) (mp_bToA p) src
      in (st, n, p\<lparr>mp_bToA := out\<rparr>))"

definition readA :: "nat \<Rightarrow> MemoryPipe \<Rightarrow> Status \<times> bytes \<times> MemoryPipe" where
  "readA m p =
     (let (st, d, inq) = endpointRead (mp_openA p) (mp_openB p) (mp_bToA p) m
      in (st, d, p\<lparr>mp_bToA := inq\<rparr>))"

definition readB :: "nat \<Rightarrow> MemoryPipe \<Rightarrow> Status \<times> bytes \<times> MemoryPipe" where
  "readB m p =
     (let (st, d, inq) = endpointRead (mp_openB p) (mp_openA p) (mp_aToB p) m
      in (st, d, p\<lparr>mp_aToB := inq\<rparr>))"

definition closeA :: "MemoryPipe \<Rightarrow> MemoryPipe" where
  "closeA p = p\<lparr>mp_openA := False\<rparr>"

definition closeB :: "MemoryPipe \<Rightarrow> MemoryPipe" where
  "closeB p = p\<lparr>mp_openB := False\<rparr>"

section \<open>The contract of a byte stream\<close>

text \<open>
  One direction of a connection: what the writer's end takes, the reader's end gives back in
  order, in pieces of its own choosing.  \<open>up\<close> holds while both ends are open.
\<close>

locale byte_pipe =
  fixes wr :: "bytes \<Rightarrow> 's \<Rightarrow> Status \<times> nat \<times> 's"
    and rd :: "nat \<Rightarrow> 's \<Rightarrow> Status \<times> bytes \<times> 's"
    and inflight :: "'s \<Rightarrow> bytes"
    and up :: "'s \<Rightarrow> bool"
  assumes wr_takes: "wr src s = (st, n, s') \<Longrightarrow>
      n \<le> length src \<and> inflight s' = inflight s @ take n src"
    and wr_up: "\<lbrakk>wr src s = (st, n, s'); up s\<rbrakk> \<Longrightarrow> st = Ok \<and> up s'"
    and wr_progress: "\<lbrakk>wr src s = (st, n, s'); up s; inflight s = []; src \<noteq> []\<rbrakk> \<Longrightarrow> 0 < n"
    and rd_gives: "rd m s = (st, d, s') \<Longrightarrow> length d \<le> m \<and> inflight s = d @ inflight s'"
    and rd_up: "\<lbrakk>rd m s = (st, d, s'); up s\<rbrakk> \<Longrightarrow> st = Ok \<and> up s'"
    and rd_block: "\<lbrakk>rd m s = (Ok, [], s'); 0 < m\<rbrakk> \<Longrightarrow> inflight s = []"

lemma endpointWrite_takes:
  "endpointWrite a b c out src = (st, n, out') \<Longrightarrow> n \<le> length src \<and> out' = out @ take n src"
  by (auto simp: endpointWrite_def Let_def split: if_splits)

lemma endpointWrite_up: "endpointWrite True True c out src = (st, n, out') \<Longrightarrow> st = Ok"
  by (auto simp: endpointWrite_def Let_def split: if_splits)

lemma endpointWrite_progress:
  "\<lbrakk>endpointWrite True True c [] src = (st, n, out'); src \<noteq> []\<rbrakk> \<Longrightarrow> 0 < n"
  by (auto simp: endpointWrite_def Let_def split: if_splits)

lemma endpointRead_gives:
  "endpointRead a b inq m = (st, d, inq') \<Longrightarrow> length d \<le> m \<and> inq = d @ inq'"
  by (auto simp: endpointRead_def Let_def split: if_splits)

lemma endpointRead_up: "endpointRead True True inq m = (st, d, inq') \<Longrightarrow> st = Ok"
  by (auto simp: endpointRead_def Let_def split: if_splits)

lemma endpointRead_block: "\<lbrakk>endpointRead a b inq m = (Ok, [], inq'); 0 < m\<rbrakk> \<Longrightarrow> inq = []"
  by (auto simp: endpointRead_def Let_def split: if_splits)

lemmas pipe_ops = writeA_def writeB_def readA_def readB_def

definition pipeUp :: "MemoryPipe \<Rightarrow> bool" where
  "pipeUp p \<longleftrightarrow> mp_openA p \<and> mp_openB p"

interpretation aToB: byte_pipe writeA readB mp_aToB pipeUp
  by unfold_locales
     (auto simp: pipe_ops pipeUp_def split: prod.splits
       dest: endpointWrite_takes endpointWrite_up endpointWrite_progress
         endpointRead_gives endpointRead_up endpointRead_block)

interpretation bToA: byte_pipe writeB readA mp_bToA pipeUp
  by unfold_locales
     (auto simp: pipe_ops pipeUp_def split: prod.splits
       dest: endpointWrite_takes endpointWrite_up endpointWrite_progress
         endpointRead_gives endpointRead_up endpointRead_block)

end
