(* ===== verification/Cipher.thy ===== *)
theory Cipher
  imports Bytes StatusCodes
begin

text \<open>
  The record ciphers (\<open>transport/RecordLayer.h\<close>, \<open>transport/NoiseCipher.h\<close>, the class
  \<open>CipherState\<close> of \<open>protocol/Noise.cpp\<close> and the AEAD wrappers of \<open>crypto/Primitives.cpp\<close>).  The
  ChaCha20-Poly1305 primitives of the vendored library are a parameter: \<open>ae_write\<close> stands for
  \<open>crypto_aead_write\<close> (ciphertext and tag), \<open>ae_read\<close> for \<open>crypto_aead_read\<close> (the plaintext, or
  nothing when the tag does not verify), each after \<open>crypto_aead_init_ietf\<close> with key and nonce.
  A sealing function returns the bytes it appends to its output vector.
\<close>

section \<open>AEAD wrappers\<close>

abbreviation (input) kKeyLen :: nat where "kKeyLen \<equiv> 32"
abbreviation (input) kTagLen :: nat where "kTagLen \<equiv> 16"
abbreviation (input) kNoiseMaxMessage :: nat where "kNoiseMaxMessage \<equiv> 65535"
abbreviation (input) kNoiseMaxPlaintext :: nat where "kNoiseMaxPlaintext \<equiv> kNoiseMaxMessage - kTagLen"
abbreviation (input) kNoiseMaxNonce :: u64 where "kNoiseMaxNonce \<equiv> 0xFFFFFFFFFFFFFFFF"
abbreviation (input) kRekeyInterval :: u64 where "kRekeyInterval \<equiv> 0x100000000"

record Aead =
  ae_write :: "bytes \<Rightarrow> bytes \<Rightarrow> bytes \<Rightarrow> bytes \<Rightarrow> bytes \<times> bytes"
  ae_read :: "bytes \<Rightarrow> bytes \<Rightarrow> bytes \<Rightarrow> bytes \<Rightarrow> bytes \<Rightarrow> bytes option"

definition noiseNonce :: "u64 \<Rightarrow> bytes" where
  "noiseNonce n = [0, 0, 0, 0] @ le64 n"

definition aeadSeal :: "Aead \<Rightarrow> bytes \<Rightarrow> u64 \<Rightarrow> bytes \<Rightarrow> bytes \<Rightarrow> Status \<times> bytes" where
  "aeadSeal P k nonce ad plaintext =
     (let (ct, mac) = ae_write P k (noiseNonce nonce) ad plaintext in (Ok, ct @ mac))"

definition aeadOpen :: "Aead \<Rightarrow> bytes \<Rightarrow> u64 \<Rightarrow> bytes \<Rightarrow> bytes \<Rightarrow> Status \<times> bytes" where
  "aeadOpen P k nonce ad ciphertext =
     (if length ciphertext < kTagLen then (AuthFailed, [])
      else let ptLen = length ciphertext - kTagLen
           in case ae_read P k (noiseNonce nonce) (drop ptLen ciphertext) ad (take ptLen ciphertext) of
                None \<Rightarrow> (AuthFailed, [])
              | Some tmp \<Rightarrow> (Ok, tmp))"

text \<open>
  What the library documents: the ciphertext has the length of the plaintext, the tag has 16
  bytes, and reading what was written under the same key, nonce and data gives the plaintext.
\<close>

definition aeadCorrect :: "Aead \<Rightarrow> bool" where
  "aeadCorrect P \<longleftrightarrow> (\<forall>k n ad pt ct mac. ae_write P k n ad pt = (ct, mac) \<longrightarrow>
     length ct = length pt \<and> length mac = kTagLen \<and> ae_read P k n mac ad ct = Some pt)"

section \<open>CipherState\<close>

record CipherState =
  cs_k :: bytes
  cs_hasKey :: bool
  cs_n :: u64

definition initializeKey :: "bytes \<Rightarrow> CipherState \<Rightarrow> CipherState" where
  "initializeKey k c = c\<lparr>cs_k := k, cs_hasKey := True, cs_n := 0\<rparr>"

definition cs_clear :: "CipherState \<Rightarrow> CipherState" where
  "cs_clear c = c\<lparr>cs_k := replicate kKeyLen 0, cs_hasKey := False, cs_n := 0\<rparr>"

definition encryptWithAd :: "Aead \<Rightarrow> bytes \<Rightarrow> bytes \<Rightarrow> CipherState \<Rightarrow> Status \<times> bytes \<times> CipherState" where
  "encryptWithAd P ad plaintext c =
     (if \<not> cs_hasKey c then (Ok, plaintext, c)
      else if cs_n c = kNoiseMaxNonce then (LimitExceeded, [], c)
      else let (s, out) = aeadSeal P (cs_k c) (cs_n c) ad plaintext
           in if s \<noteq> Ok then (s, out, c) else (Ok, out, c\<lparr>cs_n := cs_n c + 1\<rparr>))"

definition decryptWithAd :: "Aead \<Rightarrow> bytes \<Rightarrow> bytes \<Rightarrow> CipherState \<Rightarrow> Status \<times> bytes \<times> CipherState" where
  "decryptWithAd P ad ciphertext c =
     (if \<not> cs_hasKey c then (Ok, ciphertext, c)
      else if cs_n c = kNoiseMaxNonce then (LimitExceeded, [], c)
      else let (s, out) = aeadOpen P (cs_k c) (cs_n c) ad ciphertext
           in if s \<noteq> Ok then (s, out, c) else (Ok, out, c\<lparr>cs_n := cs_n c + 1\<rparr>))"

definition rekey :: "Aead \<Rightarrow> CipherState \<Rightarrow> CipherState" where
  "rekey P c =
     (if \<not> cs_hasKey c then c
      else let (s, out) = aeadSeal P (cs_k c) kNoiseMaxNonce [] (replicate kKeyLen 0)
           in if length out \<ge> kKeyLen then c\<lparr>cs_k := take kKeyLen out\<rparr> else c)"

section \<open>NullCipher and NoiseCipher\<close>

text \<open>The virtual functions of \<open>IRecordCipher\<close>.\<close>

record 'c IRecordCipher =
  ic_seal :: "bytes \<Rightarrow> 'c \<Rightarrow> Status \<times> bytes \<times> 'c"
  ic_open :: "bytes \<Rightarrow> 'c \<Rightarrow> Status \<times> bytes \<times> 'c"
  ic_overhead :: nat

definition NullCipher :: "unit IRecordCipher" where
  "NullCipher = \<lparr>ic_seal = (\<lambda>pt c. (Ok, pt, c)), ic_open = (\<lambda>ct c. (Ok, ct, c)), ic_overhead = 0\<rparr>"

record NoiseCipherState =
  nc_send :: CipherState
  nc_recv :: CipherState
  nc_rekeyInterval :: u64
  nc_sealed :: u64
  nc_opened :: u64

definition NoiseCipher_new :: "CipherState \<Rightarrow> CipherState \<Rightarrow> u64 \<Rightarrow> NoiseCipherState" where
  "NoiseCipher_new send recv interval =
     \<lparr>nc_send = send, nc_recv = recv, nc_rekeyInterval = interval, nc_sealed = 0, nc_opened = 0\<rparr>"

definition noiseSeal :: "Aead \<Rightarrow> bytes \<Rightarrow> NoiseCipherState \<Rightarrow> Status \<times> bytes \<times> NoiseCipherState" where
  "noiseSeal P plaintext c =
     (if length plaintext > kNoiseMaxPlaintext then (LimitExceeded, [], c)
      else let (s, out, send) = encryptWithAd P [] plaintext (nc_send c)
           in if s \<noteq> Ok then (s, out, c\<lparr>nc_send := send\<rparr>)
              else let sealed = nc_sealed c + 1;
                       send' = (if nc_rekeyInterval c \<noteq> 0 \<and> sealed mod nc_rekeyInterval c = 0
                                then rekey P send else send)
                   in (Ok, out, c\<lparr>nc_sealed := sealed, nc_send := send'\<rparr>))"

definition noiseOpen :: "Aead \<Rightarrow> bytes \<Rightarrow> NoiseCipherState \<Rightarrow> Status \<times> bytes \<times> NoiseCipherState" where
  "noiseOpen P ciphertext c =
     (if length ciphertext > kNoiseMaxMessage then (LimitExceeded, [], c)
      else let (s, out, recv) = decryptWithAd P [] ciphertext (nc_recv c)
           in if s \<noteq> Ok then (s, out, c\<lparr>nc_recv := recv\<rparr>)
              else let opened = nc_opened c + 1;
                       recv' = (if nc_rekeyInterval c \<noteq> 0 \<and> opened mod nc_rekeyInterval c = 0
                                then rekey P recv else recv)
                   in (Ok, out, c\<lparr>nc_opened := opened, nc_recv := recv'\<rparr>))"

definition NoiseCipher :: "Aead \<Rightarrow> NoiseCipherState IRecordCipher" where
  "NoiseCipher P = \<lparr>ic_seal = noiseSeal P, ic_open = noiseOpen P, ic_overhead = kTagLen\<rparr>"

section \<open>The contract of a record cipher\<close>

text \<open>
  \<open>ready n s r\<close>: the sender's state \<open>s\<close> and the receiver's state \<open>r\<close> are in step and at least \<open>n\<close> more
  records can be sealed.  Sealing then succeeds, opening gives the plaintext back, the record
  grows by the overhead, and both ends stay in step.
\<close>

locale record_cipher =
  fixes ci :: "'c IRecordCipher"
    and ready :: "nat \<Rightarrow> 'c \<Rightarrow> 'c \<Rightarrow> bool"
  assumes seal_open: "\<lbrakk>ready (Suc n) s r; length b + ic_overhead ci \<le> 65535\<rbrakk> \<Longrightarrow>
      \<exists>ct s' r'. ic_seal ci b s = (Ok, ct, s') \<and> ic_open ci ct r = (Ok, b, r') \<and> ready n s' r'
        \<and> length ct = length b + ic_overhead ci"

interpretation null: record_cipher NullCipher "\<lambda>n s r. True"
  by unfold_locales (auto simp: NullCipher_def)

definition noiseReady :: "Aead \<Rightarrow> nat \<Rightarrow> NoiseCipherState \<Rightarrow> NoiseCipherState \<Rightarrow> bool" where
  "noiseReady P n s r \<longleftrightarrow> aeadCorrect P \<and> cs_hasKey (nc_send s) \<and> nc_send s = nc_recv r
     \<and> nc_rekeyInterval s = nc_rekeyInterval r \<and> nc_sealed s = nc_opened r
     \<and> unat (cs_n (nc_send s)) + n < 2 ^ 64"

lemma aead_roundtrip:
  assumes "aeadCorrect P" "aeadSeal P k n ad pt = (s, ct)"
  shows "s = Ok \<and> length ct = length pt + kTagLen \<and> aeadOpen P k n ad ct = (Ok, pt)"
proof -
  obtain c mac where w: "ae_write P k (noiseNonce n) ad pt = (c, mac)" by fastforce
  with assms(1) have "length c = length pt" "length mac = kTagLen"
    "ae_read P k (noiseNonce n) mac ad c = Some pt" unfolding aeadCorrect_def by blast+
  then show ?thesis using assms(2) w by (auto simp: aeadSeal_def aeadOpen_def)
qed

lemma rekey_simps [simp]: "cs_hasKey (rekey P c) = cs_hasKey c" "cs_n (rekey P c) = cs_n c"
  by (simp_all add: rekey_def split: prod.split)

lemma cipherState_roundtrip:
  assumes P: "aeadCorrect P" and c: "cs_hasKey c" "cs_n c \<noteq> kNoiseMaxNonce"
  obtains ct where "encryptWithAd P ad pt c = (Ok, ct, c\<lparr>cs_n := cs_n c + 1\<rparr>)"
    "decryptWithAd P ad ct c = (Ok, pt, c\<lparr>cs_n := cs_n c + 1\<rparr>)" "length ct = length pt + kTagLen"
proof -
  obtain s ct where a: "aeadSeal P (cs_k c) (cs_n c) ad pt = (s, ct)" by fastforce
  from aead_roundtrip [OF P a] show thesis
    using that [of ct] a c by (simp add: encryptWithAd_def decryptWithAd_def)
qed

lemma nonce_room: "unat (n :: u64) + Suc k < 2 ^ 64 \<Longrightarrow>
    n \<noteq> kNoiseMaxNonce \<and> unat (n + 1) + k < 2 ^ 64"
  using unat_add_of_nat [of n 1] by auto

interpretation noise: record_cipher "NoiseCipher P" "noiseReady P" for P
proof
  fix n s r and b :: bytes
  assume rdy: "noiseReady P (Suc n) s r" and len: "length b + ic_overhead (NoiseCipher P) \<le> 65535"
  have h: "aeadCorrect P" "cs_hasKey (nc_send s)" and eq: "nc_recv r = nc_send s"
    "nc_rekeyInterval r = nc_rekeyInterval s" "nc_opened r = nc_sealed s"
    using rdy unfolding noiseReady_def by auto
  have room: "cs_n (nc_send s) \<noteq> kNoiseMaxNonce" "unat (cs_n (nc_send s) + 1) + n < 2 ^ 64"
    using rdy nonce_room unfolding noiseReady_def by blast+
  obtain ct where ct: "encryptWithAd P [] b (nc_send s) = (Ok, ct, (nc_send s)\<lparr>cs_n := cs_n (nc_send s) + 1\<rparr>)"
    "decryptWithAd P [] ct (nc_send s) = (Ok, b, (nc_send s)\<lparr>cs_n := cs_n (nc_send s) + 1\<rparr>)"
    "length ct = length b + kTagLen"
    by (rule cipherState_roundtrip [OF h room(1)])
  show "\<exists>ct s' r'. ic_seal (NoiseCipher P) b s = (Ok, ct, s') \<and>
      ic_open (NoiseCipher P) ct r = (Ok, b, r') \<and> noiseReady P n s' r' \<and>
      length ct = length b + ic_overhead (NoiseCipher P)"
    using len ct h room(2) eq
    by (auto simp: NoiseCipher_def noiseSeal_def noiseOpen_def noiseReady_def Let_def)
qed

end
