(* ===== verification/RecordLayer.thy ===== *)
theory RecordLayer
  imports Transport Cipher Validate
begin

text \<open>
  Record framing (\<open>transport/RecordLayer.h\<close>, \<open>transport/RecordLayer.cpp\<close>): a four-byte length and
  a sealed body per record, over a byte stream that may take and give any number of bytes.  The
  cipher is the argument \<open>ci\<close> (its virtual functions), the stream appears as the functions \<open>wr\<close>
  and \<open>rd\<close> on a stream state.
\<close>

section \<open>State and operations\<close>

record 'c RecordLayer =
  rl_cipher :: 'c
  rl_tx :: bytes
  rl_txSent :: nat
  rl_rx :: bytes
  rl_maxRecord :: u32
  rl_handshakeDone :: bool
  rl_fatal :: bool
  rl_recordsSent :: u64
  rl_recordsReceived :: u64

definition RecordLayer_new :: "'c \<Rightarrow> 'c RecordLayer" where
  "RecordLayer_new c =
     \<lparr>rl_cipher = c, rl_tx = [], rl_txSent = 0, rl_rx = [], rl_maxRecord = kHandshakeRecordMax,
      rl_handshakeDone = False, rl_fatal = False, rl_recordsSent = 0, rl_recordsReceived = 0\<rparr>"

definition pendingTxBytes :: "'c RecordLayer \<Rightarrow> nat" where
  "pendingTxBytes rl = length (rl_tx rl) - rl_txSent rl"

definition setHandshakeComplete :: "u32 \<Rightarrow> 'c RecordLayer \<Rightarrow> 'c RecordLayer" where
  "setHandshakeComplete negotiated rl =
     rl\<lparr>rl_handshakeDone := True,
        rl_maxRecord := (if negotiated > kRecordBytesCeiling then kRecordBytesCeiling else negotiated)\<rparr>"

definition adoptRecordSize :: "u32 \<Rightarrow> 'c RecordLayer \<Rightarrow> Status \<times> 'c RecordLayer" where
  "adoptRecordSize n rl =
     (if n < kRecordBytesFloor then (BadArgument, rl)
      else if n > kRecordBytesCeiling then (LimitExceeded, rl)
      else (Ok, rl\<lparr>rl_maxRecord := n\<rparr>))"

text \<open>A null cipher pointer is \<open>None\<close>.\<close>

definition adoptCipher :: "'c option \<Rightarrow> u32 \<Rightarrow> 'c RecordLayer \<Rightarrow> Status \<times> 'c RecordLayer" where
  "adoptCipher cipher negotiated rl =
     (case cipher of
        None \<Rightarrow> (BadArgument, rl)
      | Some c \<Rightarrow>
          if pendingTxBytes rl \<noteq> 0 then (Busy, rl)
          else (Ok, setHandshakeComplete negotiated (rl\<lparr>rl_cipher := c\<rparr>)))"

definition maxPlaintextBytes :: "'c IRecordCipher \<Rightarrow> 'c RecordLayer \<Rightarrow> u32" where
  "maxPlaintextBytes ci rl =
     (if unat (rl_maxRecord rl) > ic_overhead ci then rl_maxRecord rl - of_nat (ic_overhead ci) else 0)"

text \<open>The loop of \<open>flush\<close>: write from \<open>sent\<close> on until everything is out or the stream blocks.\<close>

function flushLoop ::
    "(bytes \<Rightarrow> 's \<Rightarrow> Status \<times> nat \<times> 's) \<Rightarrow> bytes \<Rightarrow> nat \<Rightarrow> 's \<Rightarrow> Status \<times> nat \<times> 's" where
  "flushLoop wr tx sent s =
     (if sent < length tx then
        let (st, n, s') = wr (drop sent tx) s
        in if st \<noteq> Ok then (st, sent, s')
           else if n = 0 then (Ok, sent, s')
           else flushLoop wr tx (sent + n) s'
      else (Ok, sent, s))"
  by pat_completeness auto

termination flushLoop
  by (relation "measure (\<lambda>(wr, tx, sent, s). length tx - sent)") auto

declare flushLoop.simps [simp del]

definition flush ::
    "(bytes \<Rightarrow> 's \<Rightarrow> Status \<times> nat \<times> 's) \<Rightarrow> 'c RecordLayer \<Rightarrow> 's \<Rightarrow> Status \<times> 'c RecordLayer \<times> 's" where
  "flush wr rl s =
     (let (st, sent, s') = flushLoop wr (rl_tx rl) (rl_txSent rl) s
      in if st \<noteq> Ok then (st, rl\<lparr>rl_txSent := sent, rl_fatal := True\<rparr>, s')
         else if sent = length (rl_tx rl) then (Ok, rl\<lparr>rl_tx := [], rl_txSent := 0\<rparr>, s')
         else if sent > 64 * 1024 then (Ok, rl\<lparr>rl_tx := drop sent (rl_tx rl), rl_txSent := 0\<rparr>, s')
         else (Ok, rl\<lparr>rl_txSent := sent\<rparr>, s'))"

definition sendRecord ::
    "'c IRecordCipher \<Rightarrow> (bytes \<Rightarrow> 's \<Rightarrow> Status \<times> nat \<times> 's) \<Rightarrow> bytes \<Rightarrow> 'c RecordLayer \<Rightarrow> 's \<Rightarrow>
      Status \<times> 'c RecordLayer \<times> 's" where
  "sendRecord ci wr body rl s =
     (if rl_fatal rl then (TransportLost, rl, s)
      else let recordLen = length body + ic_overhead ci
           in if recordLen > unat (rl_maxRecord rl) then (LimitExceeded, rl, s)
              else let tx = rl_tx rl @ le32 (of_nat recordLen);
                       (st, ct, c') = ic_seal ci body (rl_cipher rl);
                       rl' = rl\<lparr>rl_tx := tx @ ct, rl_cipher := c'\<rparr>
                   in if st \<noteq> Ok then (st, rl', s)
                      else flush wr (rl'\<lparr>rl_recordsSent := rl_recordsSent rl + 1\<rparr>) s)"

text \<open>
  The first half of the loop of \<open>receiveRecord\<close>: the outcome when the buffer holds a whole record
  or an inadmissible length, \<open>None\<close> when more bytes are needed.
\<close>

definition tryRecord ::
    "'c IRecordCipher \<Rightarrow> 'c RecordLayer \<Rightarrow> (Status \<times> bytes \<times> 'c RecordLayer) option" where
  "tryRecord ci rl =
     (if length (rl_rx rl) \<ge> kRecordLenSize then
        let len = rd_u32 (rl_rx rl) 0;
            v = r1_recordSize len (Limits0\<lparr>lim_maxRecordBytes := rl_maxRecord rl\<rparr>) (rl_handshakeDone rl)
        in if \<not> v_ok v then Some (v_status v, [], rl\<lparr>rl_fatal := True\<rparr>)
           else if unat len < ic_overhead ci then Some (MalformedFrame, [], rl\<lparr>rl_fatal := True\<rparr>)
           else if length (rl_rx rl) \<ge> kRecordLenSize + unat len then
             (let (st, out, c') = ic_open ci (subspan (rl_rx rl) kRecordLenSize (unat len)) (rl_cipher rl);
                  rl' = rl\<lparr>rl_cipher := c'\<rparr>
              in if st \<noteq> Ok then Some (st, out, rl'\<lparr>rl_fatal := True\<rparr>)
                 else Some (Ok, out, rl'\<lparr>rl_rx := drop (kRecordLenSize + unat len) (rl_rx rl),
                        rl_recordsReceived := rl_recordsReceived rl + 1\<rparr>))
           else None
      else None)"

lemma tryRecord_None_short: "tryRecord ci rl = None \<Longrightarrow> length (rl_rx rl) < 2 ^ 33"
  using unat_u32_less [of "rd_u32 (rl_rx rl) 0"]
  by (auto simp: tryRecord_def Let_def split: if_splits prod.splits)

abbreviation (input) rxChunk :: nat where "rxChunk \<equiv> 16 * 1024"

function receiveLoop ::
    "'c IRecordCipher \<Rightarrow> (nat \<Rightarrow> 's \<Rightarrow> Status \<times> bytes \<times> 's) \<Rightarrow> 'c RecordLayer \<Rightarrow> 's \<Rightarrow>
      Status \<times> bytes \<times> 'c RecordLayer \<times> 's" where
  "receiveLoop ci rd rl s =
     (case tryRecord ci rl of
        Some (st, out, rl') \<Rightarrow> (st, out, rl', s)
      | None \<Rightarrow>
          let (st, d, s') = rd rxChunk s;
              rl' = rl\<lparr>rl_rx := rl_rx rl @ d\<rparr>
          in if st \<noteq> Ok then (st, [], rl'\<lparr>rl_fatal := True\<rparr>, s')
             else if d = [] then (Ok, [], rl', s')
             else receiveLoop ci rd rl' s')"
  by pat_completeness auto

termination receiveLoop
proof (relation "measure (\<lambda>(ci, rd, rl, s). 2 ^ 33 - length (rl_rx rl))", goal_cases)
  case (2 ci rd rl s x xa y d s' rl')
  then have "d \<noteq> []" "length (rl_rx rl) < 2 ^ 33" "rl' = rl\<lparr>rl_rx := rl_rx rl @ d\<rparr>"
    using tryRecord_None_short by auto
  then show ?case by (cases d) auto
qed simp

declare receiveLoop.simps [simp del]

definition receiveRecord ::
    "'c IRecordCipher \<Rightarrow> (nat \<Rightarrow> 's \<Rightarrow> Status \<times> bytes \<times> 's) \<Rightarrow> 'c RecordLayer \<Rightarrow> 's \<Rightarrow>
      Status \<times> bytes \<times> 'c RecordLayer \<times> 's" where
  "receiveRecord ci rd rl s =
     (if rl_fatal rl then (TransportLost, [], rl, s) else receiveLoop ci rd rl s)"

section \<open>Sending\<close>

text \<open>The bytes not yet given to the stream.\<close>

definition unsent :: "'c RecordLayer \<Rightarrow> bytes" where
  "unsent rl = drop (rl_txSent rl) (rl_tx rl)"

definition frame :: "bytes \<Rightarrow> bytes" where
  "frame ct = le32 (of_nat (length ct)) @ ct"

lemma length_frame [simp]: "length (frame ct) = 4 + length ct"
  by (simp add: frame_def le32_def)

lemma rd_frame:
  assumes "rx @ rest = frame ct @ later" "4 \<le> length rx" "length ct < 2 ^ 32"
  shows "unat (rd_u32 rx 0) = length ct"
proof -
  have "take 4 rx = le32 (of_nat (length ct))"
    using arg_cong [OF assms(1), of "take 4"] assms(2) by (simp add: frame_def)
  moreover have "rd_u32 rx 0 = rd_u32 (take 4 rx) 0" using assms(2) by (simp add: rd_u32_def)
  ultimately show ?thesis
    using assms(3) rd_le(2) [of "[]" "of_nat (length ct)" "[]"] by (simp add: unat_of_nat)
qed

text \<open>Opening the records \<open>cts\<close> in order gives the bodies \<open>bs\<close> and ends in the state \<open>c'\<close>.\<close>

fun opens :: "'c IRecordCipher \<Rightarrow> 'c \<Rightarrow> bytes list \<Rightarrow> bytes list \<Rightarrow> 'c \<Rightarrow> bool" where
  "opens ci c [] [] c' \<longleftrightarrow> c' = c"
| "opens ci c (ct # cts) (b # bs) c' \<longleftrightarrow>
     ic_overhead ci \<le> length ct \<and> (\<exists>c1. ic_open ci ct c = (Ok, b, c1) \<and> opens ci c1 cts bs c')"
| "opens ci c _ _ c' \<longleftrightarrow> False"

lemma opens_snoc:
  "\<lbrakk>opens ci c cts bs c'; ic_open ci ct c' = (Ok, b, c''); ic_overhead ci \<le> length ct\<rbrakk> \<Longrightarrow>
    opens ci c (cts @ [ct]) (bs @ [b]) c''"
  by (induction ci c cts bs c' rule: opens.induct) auto

text \<open>The largest record a receiver admits (rule R1).\<close>

definition rxCeiling :: "'c RecordLayer \<Rightarrow> nat" where
  "rxCeiling rl = (if rl_handshakeDone rl then unat (rl_maxRecord rl) else unat kHandshakeRecordMax)"

lemma r1_ok:
  "v_ok (r1_recordSize len (Limits0\<lparr>lim_maxRecordBytes := rl_maxRecord rl\<rparr>) (rl_handshakeDone rl))
    \<longleftrightarrow> unat len \<le> rxCeiling rl"
  by (auto simp: r1_recordSize_def rxCeiling_def pass_def fail_def v_ok_def word_less_nat_alt)

lemma rxCeiling_updates [simp]:
  "rxCeiling (rl\<lparr>rl_rx := x\<rparr>) = rxCeiling rl" "rxCeiling (rl\<lparr>rl_cipher := c\<rparr>) = rxCeiling rl"
  "rxCeiling (rl\<lparr>rl_recordsReceived := n\<rparr>) = rxCeiling rl"
  by (simp_all add: rxCeiling_def)

lemma rxCeiling_less: "rxCeiling rl < 2 ^ 32"
  using unat_u32_less by (simp add: rxCeiling_def)

lemma tryRecord_frames:
  assumes st: "rl_rx rl @ rest = concat (map frame cts)" and op: "opens ci (rl_cipher rl) cts pend c'"
    and le: "\<forall>ct \<in> set cts. length ct \<le> rxCeiling rl"
  obtains "tryRecord ci rl = None" "rest = [] \<longrightarrow> pend = []"
  | ct cts' b pend' c1 where "cts = ct # cts'" "pend = b # pend'"
      "opens ci c1 cts' pend' c'"
      "tryRecord ci rl = Some (Ok, b, rl\<lparr>rl_cipher := c1, rl_rx := drop (4 + length ct) (rl_rx rl),
          rl_recordsReceived := rl_recordsReceived rl + 1\<rparr>)"
      "drop (4 + length ct) (rl_rx rl) @ rest = concat (map frame cts')"
proof (cases cts)
  case Nil
  then have "pend = []" "rl_rx rl = []" using st op by (cases pend; simp)+
  then show ?thesis using that(1) by (simp add: tryRecord_def)
next
  case (Cons ct cts')
  then obtain b pend' c1 where p: "pend = b # pend'" "ic_overhead ci \<le> length ct"
    "ic_open ci ct (rl_cipher rl) = (Ok, b, c1)" "opens ci c1 cts' pend' c'"
    using op by (cases pend) auto
  have s: "rl_rx rl @ rest = frame ct @ concat (map frame cts')" using st Cons by simp
  have c: "length ct \<le> rxCeiling rl" using le Cons by simp
  then have c32: "length ct < 2 ^ 32" using rxCeiling_less [of rl] by linarith
  show ?thesis
  proof (cases "4 + length ct \<le> length (rl_rx rl)")
    case True
    have len: "unat (rd_u32 (rl_rx rl) 0) = length ct"
      by (rule rd_frame [OF s _ c32]) (use True in simp)
    have "take (4 + length ct) (rl_rx rl) = frame ct"
      using arg_cong [OF s, of "take (4 + length ct)"] True by simp
    from arg_cong [OF this, of "drop 4"]
    have ct: "subspan (rl_rx rl) 4 (length ct) = ct"
      by (simp add: take_drop add.commute frame_def)
    have d: "drop (4 + length ct) (rl_rx rl) @ rest = concat (map frame cts')"
      using arg_cong [OF s, of "drop (4 + length ct)"] True by simp
    have v: "v_ok (r1_recordSize (rd_u32 (rl_rx rl) 0) (Limits0\<lparr>lim_maxRecordBytes := rl_maxRecord rl\<rparr>)
        (rl_handshakeDone rl))" by (rule r1_ok [THEN iffD2]) (use len c in simp)
    show ?thesis
      by (rule that(2) [OF Cons p(1,4) _ d])
         (use True len ct v p in \<open>simp add: tryRecord_def Let_def\<close>)
  next
    case False
    have "rest \<noteq> []"
    proof
      assume "rest = []"
      then have "length (rl_rx rl) \<ge> 4 + length ct" using arg_cong [OF s, of length] by simp
      with False show False by simp
    qed
    moreover have "tryRecord ci rl = None"
    proof (cases "4 \<le> length (rl_rx rl)")
      case True
      then have "unat (rd_u32 (rl_rx rl) 0) = length ct" by (rule rd_frame [OF s _ c32])
      then show ?thesis using False c p(2) by (simp add: tryRecord_def Let_def r1_ok)
    qed (simp add: tryRecord_def)
    ultimately show ?thesis using that(1) by blast
  qed
qed

section \<open>A connection\<close>

text \<open>
  The sending layer \<open>A\<close>, the receiving layer \<open>B\<close> and the stream between them.  \<open>linkInv\<close> says that
  the bytes on their way are the records of the bodies \<open>pend\<close>, and that both ciphers agree on
  them; \<open>n\<close> bounds the records that can still be sealed.
\<close>

definition linkInv ::
    "'c IRecordCipher \<Rightarrow> (nat \<Rightarrow> 'c \<Rightarrow> 'c \<Rightarrow> bool) \<Rightarrow> ('s \<Rightarrow> bytes) \<Rightarrow> ('s \<Rightarrow> bool) \<Rightarrow>
      nat \<Rightarrow> bytes list \<Rightarrow> 'c RecordLayer \<Rightarrow> 'c RecordLayer \<Rightarrow> 's \<Rightarrow> bool" where
  "linkInv ci ready inflight up n pend A B s \<longleftrightarrow>
     (\<exists>cts c'. rl_rx B @ inflight s @ unsent A = concat (map frame cts)
        \<and> opens ci (rl_cipher B) cts pend c' \<and> ready n (rl_cipher A) c'
        \<and> (\<forall>ct \<in> set cts. length ct \<le> rxCeiling B))
     \<and> \<not> rl_fatal A \<and> \<not> rl_fatal B \<and> up s \<and> rl_txSent A \<le> length (rl_tx A)
     \<and> unat (rl_maxRecord A) \<le> rxCeiling B \<and> unat (rl_maxRecord A) \<le> 65535"

lemma linkInvI:
  assumes "rl_rx B @ inflight s @ unsent A = concat (map frame cts)"
    "opens ci (rl_cipher B) cts pend c'" "ready n (rl_cipher A) c'"
    "\<forall>ct \<in> set cts. length ct \<le> rxCeiling B"
    "\<not> rl_fatal A" "\<not> rl_fatal B" "up s" "rl_txSent A \<le> length (rl_tx A)"
    "unat (rl_maxRecord A) \<le> rxCeiling B" "unat (rl_maxRecord A) \<le> 65535"
  shows "linkInv ci ready inflight up n pend A B s"
  using assms unfolding linkInv_def by blast

datatype LinkOp = LinkSend bytes | LinkFlush | LinkReceive

text \<open>
  A run of the connection, with the bodies \<open>sendRecord\<close> accepted and the bodies \<open>receiveRecord\<close>
  delivered.
\<close>

fun linkRun ::
    "'c IRecordCipher \<Rightarrow> (bytes \<Rightarrow> 's \<Rightarrow> Status \<times> nat \<times> 's) \<Rightarrow> (nat \<Rightarrow> 's \<Rightarrow> Status \<times> bytes \<times> 's) \<Rightarrow>
      LinkOp list \<Rightarrow> 'c RecordLayer \<Rightarrow> 'c RecordLayer \<Rightarrow> 's \<Rightarrow>
      bytes list \<times> bytes list \<times> 'c RecordLayer \<times> 'c RecordLayer \<times> 's" where
  "linkRun ci wr rd [] A B s = ([], [], A, B, s)"
| "linkRun ci wr rd (LinkSend b # ops) A B s =
     (let (st, A', s') = sendRecord ci wr b A s;
          (sent, got, r) = linkRun ci wr rd ops A' B s'
      in (if st = Ok then b # sent else sent, got, r))"
| "linkRun ci wr rd (LinkFlush # ops) A B s =
     (let (st, A', s') = flush wr A s in linkRun ci wr rd ops A' B s')"
| "linkRun ci wr rd (LinkReceive # ops) A B s =
     (let (st, out, B', s') = receiveRecord ci rd B s;
          (sent, got, r) = linkRun ci wr rd ops A B' s'
      in (sent, if rl_recordsReceived B' \<noteq> rl_recordsReceived B then out # got else got, r))"

locale record_link = record_cipher ci ready + byte_pipe wr rd inflight up
  for ci :: "'c IRecordCipher" and ready :: "nat \<Rightarrow> 'c \<Rightarrow> 'c \<Rightarrow> bool"
    and wr :: "bytes \<Rightarrow> 's \<Rightarrow> Status \<times> nat \<times> 's" and rd :: "nat \<Rightarrow> 's \<Rightarrow> Status \<times> bytes \<times> 's"
    and inflight :: "'s \<Rightarrow> bytes" and up :: "'s \<Rightarrow> bool"
begin

abbreviation inv :: "nat \<Rightarrow> bytes list \<Rightarrow> 'c RecordLayer \<Rightarrow> 'c RecordLayer \<Rightarrow> 's \<Rightarrow> bool" where
  "inv \<equiv> linkInv ci ready inflight up"

lemma flushLoop_moves:
  assumes "flushLoop wr tx sent s = (st, sent', s')" "up s" "sent \<le> length tx"
  shows "st = Ok \<and> up s' \<and> sent \<le> sent' \<and> sent' \<le> length tx
    \<and> length (inflight s) \<le> length (inflight s')
    \<and> inflight s' @ drop sent' tx = inflight s @ drop sent tx"
  using assms
proof (induction "length tx - sent" arbitrary: sent s rule: less_induct)
  case less
  obtain st1 k s1 where w: "wr (drop sent tx) s = (st1, k, s1)" by (cases "wr (drop sent tx) s")
  have k: "k \<le> length tx - sent" "inflight s1 = inflight s @ take k (drop sent tx)" "st1 = Ok" "up s1"
    using wr_takes [OF w] wr_up [OF w less.prems(2)] by simp_all
  show ?case
  proof (cases "sent < length tx \<and> k \<noteq> 0")
    case True
    then have f: "flushLoop wr tx (sent + k) s1 = (st, sent', s')"
      using less.prems(1) w k by (subst (asm) flushLoop.simps) simp
    have "drop sent tx = take k (drop sent tx) @ drop (sent + k) tx"
      by (metis add.commute append_take_drop_id drop_drop)
    moreover have "length tx - (sent + k) < length tx - sent" "sent + k \<le> length tx"
      using k(1) True by auto
    ultimately show ?thesis using less.hyps [OF _ f k(4)] k(2) by simp
  next
    case False
    then show ?thesis
      using less.prems w k by (subst (asm) flushLoop.simps) (auto split: if_splits)
  qed
qed

lemma flushLoop_progress:
  assumes "flushLoop wr tx sent s = (st, sent', s')" "up s" "sent < length tx" "inflight s = []"
  shows "sent < sent'"
proof -
  obtain st1 k s1 where w: "wr (drop sent tx) s = (st1, k, s1)" by (cases "wr (drop sent tx) s")
  have k: "0 < k" "k \<le> length tx - sent" "st1 = Ok" "up s1"
    using wr_progress [OF w assms(2,4)] wr_takes [OF w] wr_up [OF w assms(2)] assms(3) by auto
  then have "flushLoop wr tx (sent + k) s1 = (st, sent', s')"
    using assms(1,3) w by (subst (asm) flushLoop.simps) simp
  from flushLoop_moves [OF this k(4)] k(1,2) assms(3) show ?thesis by linarith
qed

lemma flush_moves:
  assumes "flush wr A s = (st, A', s')" "up s" "rl_txSent A \<le> length (rl_tx A)"
  shows "st = Ok \<and> up s' \<and> rl_txSent A' \<le> length (rl_tx A')
    \<and> inflight s' @ unsent A' = inflight s @ unsent A \<and> length (inflight s) \<le> length (inflight s')
    \<and> rl_fatal A' = rl_fatal A \<and> rl_cipher A' = rl_cipher A \<and> rl_maxRecord A' = rl_maxRecord A"
proof -
  obtain st1 sent s1 where f: "flushLoop wr (rl_tx A) (rl_txSent A) s = (st1, sent, s1)"
    by (cases "flushLoop wr (rl_tx A) (rl_txSent A) s")
  from flushLoop_moves [OF this assms(2,3)] assms(1) f show ?thesis
    by (auto simp: flush_def unsent_def split: if_splits)
qed

lemma flush_progress:
  assumes "flush wr A s = (st, A', s')" "up s" "rl_txSent A \<le> length (rl_tx A)"
    "inflight s = []" "unsent A \<noteq> []"
  shows "inflight s' \<noteq> []"
proof -
  obtain st1 sent s1 where f: "flushLoop wr (rl_tx A) (rl_txSent A) s = (st1, sent, s1)"
    by (cases "flushLoop wr (rl_tx A) (rl_txSent A) s")
  have lt: "rl_txSent A < length (rl_tx A)" using assms(5) by (simp add: unsent_def)
  have "rl_txSent A < sent" by (rule flushLoop_progress [OF f assms(2) lt assms(4)])
  moreover have "inflight s1 @ drop sent (rl_tx A) = unsent A"
    using flushLoop_moves [OF f assms(2,3)] assms(4) by (simp add: unsent_def)
  then have "length (inflight s1 @ drop sent (rl_tx A)) = length (unsent A)" by simp
  ultimately have "inflight s1 \<noteq> []" using lt by (auto simp: unsent_def)
  then show ?thesis using assms(1) f by (auto simp: flush_def split: if_splits)
qed

lemma inv_flush:
  assumes "inv n pend A B s" "flush wr A s = (st, A', s')"
  shows "inv n pend A' B s'"
  using flush_moves [OF assms(2)] assms(1) unfolding linkInv_def by auto

lemma inv_send:
  assumes inv: "inv (Suc n) pend A B s" and send: "sendRecord ci wr b A s = (st, A', s')"
  shows "(st = Ok \<and> inv n (pend @ [b]) A' B s') \<or> (st = LimitExceeded \<and> A' = A \<and> s' = s)"
proof (cases "length b + ic_overhead ci > unat (rl_maxRecord A)")
  case True
  then show ?thesis using send inv by (simp add: sendRecord_def linkInv_def)
next
  case False
  obtain cts c' where i: "rl_rx B @ inflight s @ unsent A = concat (map frame cts)"
    "opens ci (rl_cipher B) cts pend c'" "ready (Suc n) (rl_cipher A) c'"
    "\<forall>ct \<in> set cts. length ct \<le> rxCeiling B"
    and rest: "\<not> rl_fatal A" "\<not> rl_fatal B" "up s" "rl_txSent A \<le> length (rl_tx A)"
    "unat (rl_maxRecord A) \<le> rxCeiling B" "unat (rl_maxRecord A) \<le> 65535"
    using inv unfolding linkInv_def by blast
  obtain ct cA c'' where seal: "ic_seal ci b (rl_cipher A) = (Ok, ct, cA)"
    "ic_open ci ct c' = (Ok, b, c'')" "ready n cA c''" "length ct = length b + ic_overhead ci"
    using seal_open [OF i(3), of b] False rest(6) by auto
  define A1 where "A1 = A\<lparr>rl_tx := rl_tx A @ frame ct, rl_cipher := cA, rl_recordsSent := rl_recordsSent A + 1\<rparr>"
  have f: "flush wr A1 s = (st, A', s')"
    using send False rest(1) seal(1,4) by (simp add: sendRecord_def A1_def frame_def)
  have "unsent A1 = unsent A @ frame ct" using rest(4) by (simp add: A1_def unsent_def)
  then have "rl_rx B @ inflight s @ unsent A1 = concat (map frame (cts @ [ct]))" using i(1) by simp
  moreover have "\<forall>ct \<in> set (cts @ [ct]). length ct \<le> rxCeiling B"
    using i(4) seal(4) False rest(5) by auto
  moreover have "opens ci (rl_cipher B) (cts @ [ct]) (pend @ [b]) c''"
    using opens_snoc [OF i(2) seal(2)] seal(4) by simp
  ultimately have "inv n (pend @ [b]) A1 B s"
    using seal(3) rest by (intro linkInvI [of B inflight s A1 "cts @ [ct]" ci _ c'']) (simp_all add: A1_def)
  then show ?thesis using inv_flush [OF _ f] flush_moves [OF f rest(3)] rest(4) by (simp add: A1_def)
qed

lemma inv_receive:
  assumes "inv n pend A B s" "receiveRecord ci rd B s = (st, out, B', s')"
  shows "st = Ok \<and> length (inflight s') \<le> length (inflight s) \<and>
    ((\<exists>p. pend = out # p \<and> inv n p A B' s' \<and> rl_recordsReceived B' = rl_recordsReceived B + 1)
     \<or> (inv n pend A B' s' \<and> rl_recordsReceived B' = rl_recordsReceived B
         \<and> inflight s' = [] \<and> (unsent A = [] \<longrightarrow> pend = [])))"
proof -
  have "receiveLoop ci rd B s = (st, out, B', s')"
    using assms by (simp add: receiveRecord_def linkInv_def)
  with assms(1) show ?thesis
  proof (induction "2 ^ 33 - length (rl_rx B)" arbitrary: B s rule: less_induct)
    case less
    obtain cts c' where i: "rl_rx B @ inflight s @ unsent A = concat (map frame cts)"
      "opens ci (rl_cipher B) cts pend c'" "ready n (rl_cipher A) c'"
      "\<forall>ct \<in> set cts. length ct \<le> rxCeiling B"
      and rest: "\<not> rl_fatal A" "\<not> rl_fatal B" "up s" "rl_txSent A \<le> length (rl_tx A)"
      "unat (rl_maxRecord A) \<le> rxCeiling B" "unat (rl_maxRecord A) \<le> 65535"
      using less.prems(1) unfolding linkInv_def by blast
    show ?case
    proof (cases rule: tryRecord_frames [OF i(1,2,4)])
      case (2 ct cts' b pend' c1)
      then have r: "st = Ok" "out = b" "s' = s"
        "B' = B\<lparr>rl_cipher := c1, rl_rx := drop (4 + length ct) (rl_rx B),
          rl_recordsReceived := rl_recordsReceived B + 1\<rparr>"
        using less.prems(2) by (simp_all add: receiveLoop.simps)
      have "inv n pend' A B' s'"
        using 2(1,3,5) i(3,4) rest unfolding r
        by (intro linkInvI [of _ inflight s A cts' ci _ c']) simp_all
      then show ?thesis using r 2(2) by simp
    next
      case 1
      obtain st1 d s1 where g: "rd rxChunk s = (st1, d, s1)" by (cases "rd rxChunk s")
      have d: "inflight s = d @ inflight s1" "st1 = Ok" "up s1"
        using rd_gives [OF g] rd_up [OF g rest(3)] by simp_all
      define B1 where "B1 = B\<lparr>rl_rx := rl_rx B @ d\<rparr>"
      have inv1: "inv n pend A B1 s1"
        using i d rest unfolding B1_def
        by (intro linkInvI [of _ inflight s1 A cts ci _ c']) simp_all
      show ?thesis
      proof (cases "d = []")
        case True
        then have "inflight s = []" using rd_block [of rxChunk s s1] g d(2) by simp
        moreover have "st = Ok" "B' = B1" "s' = s1"
          using less.prems(2) 1 g d True by (simp_all add: receiveLoop.simps B1_def)
        moreover have "inflight s1 = []" using calculation(1) d(1) by simp
        ultimately show ?thesis using inv1 1(2) by (simp add: B1_def)
      next
        case False
        then have l: "receiveLoop ci rd B1 s1 = (st, out, B', s')"
          using less.prems(2) 1 g d by (subst (asm) receiveLoop.simps) (simp add: B1_def)
        have "length (rl_rx B) < 2 ^ 33" using tryRecord_None_short [OF 1(1)] .
        then have "2 ^ 33 - length (rl_rx B1) < 2 ^ 33 - length (rl_rx B)"
          using False by (cases d) (auto simp: B1_def)
        from less.hyps [OF this inv1 l] show ?thesis using d(1) by (simp add: B1_def)
      qed
    qed
  qed
qed

lemma run_delivers:
  assumes "inv (n + length ops) pend A B s" "linkRun ci wr rd ops A B s = (sent, got, A', B', s')"
  shows "\<exists>pend' m. pend @ sent = got @ pend' \<and> inv m pend' A' B' s'"
  using assms
proof (induction ops arbitrary: n pend A B s sent got)
  case (Cons op ops)
  show ?case
  proof (cases op)
    case (LinkSend b)
    obtain st A1 s1 where 1: "sendRecord ci wr b A s = (st, A1, s1)"
      by (cases "sendRecord ci wr b A s")
    obtain sent1 where 2: "linkRun ci wr rd ops A1 B s1 = (sent1, got, A', B', s')"
      "sent = (if st = Ok then b # sent1 else sent1)"
      using Cons.prems(2) 1 LinkSend by (auto split: prod.splits)
    from inv_send [of "n + length ops" pend A B s, OF _ 1] Cons.prems(1)
    consider "st = Ok" "inv (n + length ops) (pend @ [b]) A1 B s1"
      | "st = LimitExceeded" "A1 = A" "s1 = s" by auto
    then show ?thesis
    proof cases
      case 1
      then show ?thesis using Cons.IH [OF 1(2) 2(1)] 2(2) by simp
    next
      case keep: 2
      have "inv (Suc n + length ops) pend A1 B s1" using Cons.prems(1) keep by simp
      then show ?thesis using Cons.IH [OF _ 2(1)] 2(2) keep by fastforce
    qed
  next
    case LinkFlush
    obtain st A1 s1 where 1: "flush wr A s = (st, A1, s1)" by (cases "flush wr A s")
    then have "inv (Suc n + length ops) pend A1 B s1"
      using inv_flush [OF Cons.prems(1) 1] by simp
    then show ?thesis using Cons.IH Cons.prems(2) 1 LinkFlush by fastforce
  next
    case LinkReceive
    obtain st out B1 s1 where 1: "receiveRecord ci rd B s = (st, out, B1, s1)"
      by (cases "receiveRecord ci rd B s")
    obtain got1 where 2: "linkRun ci wr rd ops A B1 s1 = (sent, got1, A', B', s')"
      "got = (if rl_recordsReceived B1 \<noteq> rl_recordsReceived B then out # got1 else got1)"
      using Cons.prems(2) 1 LinkReceive by (auto split: prod.splits)
    have "inv (Suc n + length ops) pend A B s" using Cons.prems(1) by simp
    from inv_receive [OF this 1]
    consider p where "pend = out # p" "inv (Suc n + length ops) p A B1 s1"
        "rl_recordsReceived B1 = rl_recordsReceived B + 1"
      | "inv (Suc n + length ops) pend A B1 s1" "rl_recordsReceived B1 = rl_recordsReceived B"
      by blast
    then show ?thesis
    proof cases
      case 1
      from Cons.IH [OF 1(2) 2(1)] 2(2) 1(1,3) show ?thesis by auto
    next
      case keep: 2
      from Cons.IH [OF keep(1) 2(1)] 2(2) keep(2) show ?thesis by auto
    qed
  qed
qed auto

lemma rounds_deliver:
  assumes "inv n pend A B s" "k \<ge> length pend + length (inflight s) + length (unsent A)"
    "linkRun ci wr rd (concat (replicate k [LinkFlush, LinkReceive])) A B s = (sent, got, A', B', s')"
  shows "got = pend"
  using assms
proof (induction k arbitrary: pend A B s sent got)
  case 0
  then show ?case by simp
next
  case (Suc k)
  obtain st1 A1 s1 where f: "flush wr A s = (st1, A1, s1)" by (cases "flush wr A s")
  obtain st2 out B1 s2 where r: "receiveRecord ci rd B s1 = (st2, out, B1, s2)"
    by (cases "receiveRecord ci rd B s1")
  have inv1: "inv n pend A1 B s1" by (rule inv_flush [OF Suc.prems(1) f])
  have u: "up s" "rl_txSent A \<le> length (rl_tx A)" using Suc.prems(1) by (simp_all add: linkInv_def)
  have "length (inflight s1) + length (unsent A1) = length (inflight s) + length (unsent A)"
    using flush_moves [OF f u] by (metis length_append)
  then have k: "length pend + length (inflight s1) + length (unsent A1) \<le> Suc k"
    using Suc.prems(2) by simp
  obtain got1 where run: "linkRun ci wr rd (concat (replicate k [LinkFlush, LinkReceive])) A1 B1 s2
      = (sent, got1, A', B', s')"
    "got = (if rl_recordsReceived B1 \<noteq> rl_recordsReceived B then out # got1 else got1)"
    using Suc.prems(3) f r by (auto split: prod.splits)
  from inv_receive [OF inv1 r] show ?case
  proof (elim conjE disjE exE)
    fix p assume p: "pend = out # p" "inv n p A1 B1 s2" "rl_recordsReceived B1 = rl_recordsReceived B + 1"
      and le: "length (inflight s2) \<le> length (inflight s1)"
    have "got1 = p" by (rule Suc.IH [OF p(2) _ run(1)]) (use k p(1) le in simp)
    then show ?thesis using run(2) p by simp
  next
    assume p: "inv n pend A1 B1 s2" "rl_recordsReceived B1 = rl_recordsReceived B"
      "inflight s2 = []" "unsent A1 = [] \<longrightarrow> pend = []"
    have "length pend + length (inflight s2) + length (unsent A1) \<le> k"
    proof (cases "inflight s1 = []")
      case True
      then have "inflight s = []" "unsent A1 = unsent A" using flush_moves [OF f u] by auto
      then have "unsent A1 = []" "pend = []" using flush_progress [OF f u] True p(4) by auto
      then show ?thesis using p(3) by simp
    next
      case False
      then show ?thesis using k p(3) by (cases "inflight s1") auto
    qed
    from Suc.IH [OF p(1) this run(1)] show ?thesis using run(2) p(2) by simp
  qed
qed

end

interpretation nullLink: record_link NullCipher "\<lambda>n s r. True" writeA readB mp_aToB pipeUp ..

interpretation noiseLink: record_link "NoiseCipher P" "noiseReady P" writeA readB mp_aToB pipeUp for P ..

interpretation noiseBack: record_link "NoiseCipher P" "noiseReady P" writeB readA mp_bToA pipeUp for P ..

lemma noise_start:
  assumes "noiseReady P n cA cB" "pipeUp p" "mp_aToB p = []"
  shows "linkInv (NoiseCipher P) (noiseReady P) mp_aToB pipeUp (0 + n) []
      (setHandshakeComplete m (RecordLayer_new cA)) (setHandshakeComplete m (RecordLayer_new cB)) p"
  by (rule linkInvI [of _ _ _ _ "[]" _ _ cB])
     (use assms in \<open>simp_all add: setHandshakeComplete_def RecordLayer_new_def unsent_def
        rxCeiling_def word_less_nat_alt\<close>)

lemma rounds_send_nothing:
  "linkRun ci wr rd (concat (replicate k [LinkFlush, LinkReceive])) A B s = (sent, got, r) \<Longrightarrow> sent = []"
proof (induction k arbitrary: A B s sent got r)
  case (Suc k)
  then show ?case by (simp split: prod.splits)
qed simp

section \<open>Bounds\<close>

definition rxBound :: "'c RecordLayer \<Rightarrow> nat" where
  "rxBound rl = rxCeiling rl + 3 + rxChunk"

lemma tryRecord_result:
  assumes "tryRecord ci rl = Some (st, out, rl')"
  shows "length (rl_rx rl') \<le> length (rl_rx rl) \<and> rxCeiling rl' = rxCeiling rl \<and> (st \<noteq> Ok \<longrightarrow> rl_fatal rl')"
  using assms by (auto simp: tryRecord_def Let_def rxCeiling_def split: if_splits prod.splits)

lemma tryRecord_waits: "tryRecord ci rl = None \<Longrightarrow> length (rl_rx rl) \<le> rxCeiling rl + 3"
  by (auto simp: tryRecord_def Let_def r1_ok split: if_splits prod.splits)

lemma receiveLoop_bounded:
  assumes rd: "\<And>m s st d s'. rd m s = (st, d, s') \<Longrightarrow> length d \<le> m"
    and "receiveLoop ci rd rl s = (st, out, rl', s')" "length (rl_rx rl) \<le> rxBound rl"
  shows "length (rl_rx rl') \<le> rxBound rl \<and> rxCeiling rl' = rxCeiling rl \<and> (st \<noteq> Ok \<longrightarrow> rl_fatal rl')"
  using assms(2,3)
proof (induction "2 ^ 33 - length (rl_rx rl)" arbitrary: rl s rule: less_induct)
  case less
  show ?case
  proof (cases "tryRecord ci rl")
    case (Some r)
    then show ?thesis
      using less.prems tryRecord_result [of ci rl st out rl'] by (cases r) (auto simp: receiveLoop.simps)
  next
    case None
    obtain st1 d s1 where g: "rd rxChunk s = (st1, d, s1)" by (cases "rd rxChunk s")
    define rl1 where "rl1 = rl\<lparr>rl_rx := rl_rx rl @ d\<rparr>"
    have b: "length (rl_rx rl1) \<le> rxBound rl1" "rxBound rl1 = rxBound rl" "rxCeiling rl1 = rxCeiling rl"
      using rd [OF g] tryRecord_waits [OF None] by (simp_all add: rl1_def rxBound_def)
    have step: "(st, out, rl', s') = (if st1 \<noteq> Ok then (st1, [], rl1\<lparr>rl_fatal := True\<rparr>, s1)
        else if d = [] then (Ok, [], rl1, s1) else receiveLoop ci rd rl1 s1)"
      using less.prems(1) None g by (subst (asm) receiveLoop.simps) (auto simp: rl1_def Let_def)
    show ?thesis
    proof (cases "st1 = Ok \<and> d \<noteq> []")
      case True
      have "2 ^ 33 - length (rl_rx rl1) < 2 ^ 33 - length (rl_rx rl)"
        using True tryRecord_None_short [OF None] by (cases d) (auto simp: rl1_def)
      from less.hyps [OF this _ b(1)] step True b(2,3) show ?thesis by simp
    next
      case False
      then show ?thesis using step b by (auto simp: rxCeiling_def rxBound_def split: if_splits)
    qed
  qed
qed

section \<open>Properties\<close>

text \<open>
  C9. Records survive the stream: two layers with Noise ciphers in step, joined by an in-memory
  pipe of any capacity, and any interleaving of sends, flushes and receives. The bodies
  delivered are a prefix of the bodies accepted, in order and unaltered, whatever the
  fragmentation; neither layer becomes fatal; and when the sender holds nothing back and a
  further receive delivers no record, every accepted body has been delivered.
\<close>

theorem record_stream:
  assumes "noiseReady P (length ops) cA cB" "pipeUp p" "mp_aToB p = []"
    and "linkRun (NoiseCipher P) writeA readB ops
      (setHandshakeComplete m (RecordLayer_new cA)) (setHandshakeComplete m (RecordLayer_new cB)) p
      = (sent, got, A, B, p')"
    and "receiveRecord (NoiseCipher P) readB B p' = (st, out, B', p'')"
  shows "\<exists>pend. sent = got @ pend \<and> \<not> rl_fatal A \<and> \<not> rl_fatal B \<and> st = Ok
    \<and> (unsent A = [] \<and> rl_recordsReceived B' = rl_recordsReceived B \<longrightarrow> pend = [])
    \<and> (rl_recordsReceived B' \<noteq> rl_recordsReceived B \<longrightarrow> pend \<noteq> [] \<and> out = hd pend)"
proof -
  have "linkInv (NoiseCipher P) (noiseReady P) mp_aToB pipeUp (0 + length ops) []
      (setHandshakeComplete m (RecordLayer_new cA)) (setHandshakeComplete m (RecordLayer_new cB)) p"
    by (rule noise_start [OF assms(1-3)])
  from noiseLink.run_delivers [OF this assms(4)] obtain pend n where
    p: "sent = got @ pend" "linkInv (NoiseCipher P) (noiseReady P) mp_aToB pipeUp n pend A B p'" by auto
  have "\<not> rl_fatal A" "\<not> rl_fatal B" using p(2) by (simp_all add: linkInv_def)
  with noiseLink.inv_receive [OF p(2) assms(5)] p(1) show ?thesis by auto
qed

definition plainAead :: Aead where
  "plainAead = \<lparr>ae_write = (\<lambda>k n ad pt. (pt, replicate 16 0)),
     ae_read = (\<lambda>k n mac ad ct. if mac = replicate 16 0 then Some ct else None)\<rparr>"

definition sampleKey :: CipherState where
  "sampleKey = initializeKey (replicate 32 7) \<lparr>cs_k = [], cs_hasKey = False, cs_n = 0\<rparr>"

lemma sample_ready: "n < 2 ^ 64 \<Longrightarrow> noiseReady plainAead n (NoiseCipher_new sampleKey sampleKey 1)
    (NoiseCipher_new sampleKey sampleKey 1)"
  by (simp add: noiseReady_def aeadCorrect_def plainAead_def sampleKey_def NoiseCipher_new_def
      initializeKey_def)

definition sampleEnd :: "NoiseCipherState RecordLayer" where
  "sampleEnd = setHandshakeComplete 2048 (RecordLayer_new (NoiseCipher_new sampleKey sampleKey 1))"

lemma replicate_sixteen: "replicate 16 x = [x, x, x, x, x, x, x, x, x, x, x, x, x, x, x, x]"
  by (simp add: numeral_eq_Suc)

lemmas link_eval = replicate_sixteen sampleEnd_def NoiseCipher_new_def sampleKey_def initializeKey_def sendRecord_def
  NoiseCipher_def noiseSeal_def encryptWithAd_def aeadSeal_def plainAead_def rekey_def le32_def
  flush_def flushLoop.simps writeA_def endpointWrite_def setCapacity_def MemoryPipe_new_def
  setHandshakeComplete_def RecordLayer_new_def Let_def receiveRecord_def receiveLoop.simps
  tryRecord_def readB_def endpointRead_def rd_u32_def r1_recordSize_def v_ok_def pass_def
  noiseOpen_def decryptWithAd_def aeadOpen_def

theorem record_stream_witness:
  "\<exists>A B p'. linkRun (NoiseCipher plainAead) writeA readB
      [LinkSend [1, 2, 3], LinkReceive, LinkFlush, LinkReceive] sampleEnd sampleEnd
      (setCapacity 20 20 MemoryPipe_new) = ([[1, 2, 3]], [[1, 2, 3]], A, B, p') \<and> \<not> rl_fatal B"
proof -
  let ?ops = "[LinkSend [1, 2, 3], LinkReceive, LinkFlush, LinkReceive]"
  let ?p = "setCapacity 20 20 MemoryPipe_new"
  obtain A B p' where run: "linkRun (NoiseCipher plainAead) writeA readB ?ops sampleEnd sampleEnd ?p
      = ([[1, 2, 3]], [[1, 2, 3]], A, B, p')"
    by (simp add: link_eval)
  obtain st out B' p'' where r: "receiveRecord (NoiseCipher plainAead) readB B p' = (st, out, B', p'')"
    by (cases "receiveRecord (NoiseCipher plainAead) readB B p'")
  have "\<not> rl_fatal B"
    using record_stream [OF sample_ready [of "length ?ops"] _ _ run [unfolded sampleEnd_def] r]
    by (simp add: pipeUp_def setCapacity_def MemoryPipe_new_def)
  with run show ?thesis by blast
qed

text \<open>
  C10. Records arrive: from any state the connection can reach, as many rounds of flush and receive
  as there are records on their way plus bytes not yet read deliver every accepted body, even
  over a pipe that takes a single byte at a time.
\<close>

theorem record_delivery:
  assumes "noiseReady P (length ops) cA cB" "pipeUp p" "mp_aToB p = []"
    and "linkRun (NoiseCipher P) writeA readB ops
      (setHandshakeComplete m (RecordLayer_new cA)) (setHandshakeComplete m (RecordLayer_new cB)) p
      = (sent, got, A, B, p')"
    and "k \<ge> length sent + length (mp_aToB p') + length (unsent A)"
    and "linkRun (NoiseCipher P) writeA readB (concat (replicate k [LinkFlush, LinkReceive])) A B p'
      = (sent', got', A', B', p'')"
  shows "got @ got' = sent"
proof -
  have "linkInv (NoiseCipher P) (noiseReady P) mp_aToB pipeUp (0 + length ops) []
      (setHandshakeComplete m (RecordLayer_new cA)) (setHandshakeComplete m (RecordLayer_new cB)) p"
    by (rule noise_start [OF assms(1-3)])
  from noiseLink.run_delivers [OF this assms(4)] obtain pend n where
    p: "sent = got @ pend" "linkInv (NoiseCipher P) (noiseReady P) mp_aToB pipeUp n pend A B p'" by auto
  have "got' = pend" by (rule noiseLink.rounds_deliver [OF p(2) _ assms(6)]) (use assms(5) p(1) in simp)
  then show ?thesis using p(1) by simp
qed

theorem record_delivery_witness:
  "\<exists>A B p' A' B' p''.
    linkRun (NoiseCipher plainAead) writeA readB [LinkSend [5]] sampleEnd sampleEnd
      (setCapacity 1 1 MemoryPipe_new) = ([[5]], [], A, B, p')
    \<and> linkRun (NoiseCipher plainAead) writeA readB (concat (replicate 22 [LinkFlush, LinkReceive])) A B p'
      = ([], [[5]], A', B', p'')"
proof -
  let ?p = "setCapacity 1 1 MemoryPipe_new"
  have up: "pipeUp ?p" "mp_aToB ?p = []" by (simp_all add: pipeUp_def setCapacity_def MemoryPipe_new_def)
  obtain A B p' where run: "linkRun (NoiseCipher plainAead) writeA readB [LinkSend [5]] sampleEnd sampleEnd ?p
      = ([[5]], [], A, B, p')" and len: "length (mp_aToB p') + length (unsent A) = 21"
    by (simp add: link_eval unsent_def)
  obtain sent got A' B' p'' where rounds: "linkRun (NoiseCipher plainAead) writeA readB
      (concat (replicate 22 [LinkFlush, LinkReceive])) A B p' = (sent, got, A', B', p'')"
    by (metis prod_cases5)
  have "got = [[5]]"
    using record_delivery [OF sample_ready [of "length [LinkSend [5]]"] up run [unfolded sampleEnd_def] _ rounds] len
    by simp
  moreover have "sent = []" by (rule rounds_send_nothing [OF rounds])
  ultimately show ?thesis using run rounds by blast
qed

text \<open>
  C33. Bounded buffering and no resynchronisation: whatever the peer sends, over any stream that
  returns at most the bytes asked for, the receive buffer never exceeds the record ceiling of
  rule R1 by more than one read, and after any refusal the layer is dead: it neither sends nor
  receives again.
\<close>

theorem receive_bounded:
  assumes "\<And>m s st d s'. rd m s = (st, d, s') \<Longrightarrow> length d \<le> m"
    and "length (rl_rx rl) \<le> rxBound rl" and "receiveRecord ci rd rl s = (st, out, rl', s')"
  shows "length (rl_rx rl') \<le> rxBound rl' \<and> rxBound rl' = rxBound rl
    \<and> (st \<noteq> Ok \<longrightarrow> receiveRecord ci rd rl' t = (TransportLost, [], rl', t)
         \<and> sendRecord ci wr b rl' t = (TransportLost, rl', t))"
proof (cases "rl_fatal rl")
  case True
  then show ?thesis using assms(2,3) by (auto simp: receiveRecord_def sendRecord_def)
next
  case False
  then have "receiveLoop ci rd rl s = (st, out, rl', s')" using assms(3) by (simp add: receiveRecord_def)
  from receiveLoop_bounded [OF assms(1) this assms(2)] show ?thesis
    by (auto simp: receiveRecord_def sendRecord_def rxBound_def)
qed

theorem receive_bounded_witness:
  "\<exists>rl' s'. receiveRecord NullCipher readB (RecordLayer_new ())
      (MemoryPipe_new\<lparr>mp_aToB := [255, 255, 255, 255, 1]\<rparr>) = (LimitExceeded, [], rl', s')
    \<and> sendRecord NullCipher writeA [9] rl' s' = (TransportLost, rl', s')"
proof -
  obtain rl' s' where r: "receiveRecord NullCipher readB (RecordLayer_new ())
      (MemoryPipe_new\<lparr>mp_aToB := [255, 255, 255, 255, 1]\<rparr>) = (LimitExceeded, [], rl', s')"
    by (simp add: link_eval NullCipher_def fail_def)
  have "length d \<le> m" if "readB m s = (st, d, s')" for m s st d s'
    using aToB.rd_gives [OF that] by simp
  from receive_bounded [OF this _ r] show ?thesis using r by (simp add: RecordLayer_new_def)
qed

end
