(* ===== verification/Scheduler.thy ===== *)
theory Scheduler
  imports Prelude UsbTypes Wire "HOL-Library.Multiset"
begin

text \<open>
  Egress scheduling (\<open>transport/FrameScheduler.h\<close>, \<open>transport/FrameScheduler.cpp\<close>): four queues,
  the first with strict priority, deficit round robin over the others.  The arrays of the class
  are lists of length four.  The deficits are 64-bit signed counters of bytes; they are modelled
  as integers, which they cannot leave before 2 to the 63 bytes have been sent.
\<close>

section \<open>The scheduler\<close>

datatype Priority = PControl | PRt | PHigh | PBulk

primrec prioIndex :: "Priority \<Rightarrow> nat" where
  "prioIndex PControl = 0"
| "prioIndex PRt = 1"
| "prioIndex PHigh = 2"
| "prioIndex PBulk = 3"

abbreviation (input) kPriorityCount :: nat where "kPriorityCount \<equiv> 4"

primrec priorityFor :: "XferType \<Rightarrow> Priority" where
  "priorityFor XIsochronous = PRt"
| "priorityFor XControl = PHigh"
| "priorityFor XInterrupt = PHigh"
| "priorityFor XBulk = PBulk"

record Frame =
  fr_bytes :: bytes
  fr_priority :: Priority
  fr_channel :: u16
  fr_expedite :: bool

record FrameScheduler =
  fs_quantum :: u32
  fs_q :: "Frame list list"
  fs_deficit :: "int list"
  fs_rrCursor :: nat
  fs_totalBytes :: nat

definition FrameScheduler_new :: "u32 \<Rightarrow> FrameScheduler" where
  "FrameScheduler_new quantumBytes =
     \<lparr>fs_quantum = quantumBytes, fs_q = [[], [], [], []], fs_deficit = [0, 0, 0, 0],
      fs_rrCursor = 1, fs_totalBytes = 0\<rparr>"

definition enqueue :: "Frame \<Rightarrow> FrameScheduler \<Rightarrow> FrameScheduler" where
  "enqueue f s =
     (let p = prioIndex (fr_priority f);
          q = fs_q s ! p
      in s\<lparr>fs_totalBytes := fs_totalBytes s + length (fr_bytes f),
           fs_q := (fs_q s)[p := (if fr_expedite f then f # q else q @ [f])]\<rparr>)"

text \<open>Popping the front of class \<open>p\<close>; the data classes also pay for it and move the cursor.\<close>

definition popFront :: "nat \<Rightarrow> FrameScheduler \<Rightarrow> Frame \<times> FrameScheduler" where
  "popFront p s =
     (let out = hd (fs_q s ! p)
      in (out, s\<lparr>fs_q := (fs_q s)[p := tl (fs_q s ! p)],
                 fs_totalBytes := fs_totalBytes s - length (fr_bytes out)\<rparr>))"

definition serve :: "nat \<Rightarrow> FrameScheduler \<Rightarrow> Frame \<times> FrameScheduler" where
  "serve p s =
     (let (out, s') = popFront p s
      in (out, s'\<lparr>fs_deficit := (fs_deficit s)[p := fs_deficit s ! p - int (length (fr_bytes out))],
                  fs_rrCursor := 1 + ((p - 1 + 1) mod 3)\<rparr>))"

definition credit :: "nat \<Rightarrow> FrameScheduler \<Rightarrow> FrameScheduler" where
  "credit p s = s\<lparr>fs_deficit := (fs_deficit s)[p := fs_deficit s ! p + int (unat (fs_quantum s))]\<rparr>"

text \<open>The round robin loop, with the attempts left and the number of the attempt.\<close>

fun drrLoop :: "nat \<Rightarrow> nat \<Rightarrow> FrameScheduler \<Rightarrow> Frame option \<times> FrameScheduler" where
  "drrLoop 0 attempt s = (None, s)"
| "drrLoop (Suc n) attempt s =
     (let p = 1 + ((fs_rrCursor s - 1 + attempt) mod 3)
      in if fs_q s ! p = [] then drrLoop n (Suc attempt) (s\<lparr>fs_deficit := (fs_deficit s)[p := 0]\<rparr>)
         else if fs_deficit s ! p \<le> 0 then drrLoop n (Suc attempt) (credit p s)
         else let (out, s') = serve p s in (Some out, s'))"

fun grantLoop :: "nat list \<Rightarrow> FrameScheduler \<Rightarrow> Frame option \<times> FrameScheduler" where
  "grantLoop [] s = (None, s)"
| "grantLoop (p # ps) s =
     (if fs_q s ! p \<noteq> [] then let (out, s') = serve p (credit p s) in (Some out, s')
      else grantLoop ps s)"

definition dequeue :: "FrameScheduler \<Rightarrow> Frame option \<times> FrameScheduler" where
  "dequeue s =
     (if fs_q s ! 0 \<noteq> [] then let (out, s') = popFront 0 s in (Some out, s')
      else case drrLoop 6 0 s of
             (Some out, s') \<Rightarrow> (Some out, s')
           | (None, s') \<Rightarrow> grantLoop [1, 2, 3] s')"

definition fs_empty :: "FrameScheduler \<Rightarrow> bool" where
  "fs_empty s \<longleftrightarrow> (\<forall>q \<in> set (fs_q s). q = [])"

definition queuedFrames :: "FrameScheduler \<Rightarrow> nat" where
  "queuedFrames s = sum_list (map length (fs_q s))"

fun dropIn :: "u16 \<Rightarrow> Frame list \<Rightarrow> nat \<Rightarrow> nat \<Rightarrow> Frame list \<times> nat \<times> nat" where
  "dropIn channel [] bytes dropped = ([], bytes, dropped)"
| "dropIn channel (f # q) bytes dropped =
     (if fr_channel f = channel then dropIn channel q (bytes - length (fr_bytes f)) (dropped + 1)
      else let (q', b, d) = dropIn channel q bytes dropped in (f # q', b, d))"

fun dropQueues :: "u16 \<Rightarrow> Frame list list \<Rightarrow> nat \<Rightarrow> nat \<Rightarrow> Frame list list \<times> nat \<times> nat" where
  "dropQueues channel [] bytes dropped = ([], bytes, dropped)"
| "dropQueues channel (q # qs) bytes dropped =
     (let (q', b, d) = dropIn channel q bytes dropped;
          (qs', b', d') = dropQueues channel qs b d
      in (q' # qs', b', d'))"

definition dropChannel :: "u16 \<Rightarrow> FrameScheduler \<Rightarrow> nat \<times> FrameScheduler" where
  "dropChannel channel s =
     (let (qs, b, d) = dropQueues channel (fs_q s) (fs_totalBytes s) 0
      in (d, s\<lparr>fs_q := qs, fs_totalBytes := b\<rparr>))"

section \<open>Invariant\<close>

definition frameBytes :: "Frame list \<Rightarrow> nat" where
  "frameBytes q = sum_list (map (length \<circ> fr_bytes) q)"

definition fsInv :: "FrameScheduler \<Rightarrow> bool" where
  "fsInv s \<longleftrightarrow> length (fs_q s) = 4 \<and> length (fs_deficit s) = 4
     \<and> 1 \<le> fs_rrCursor s \<and> fs_rrCursor s \<le> 3
     \<and> (\<forall>p < 4. \<forall>f \<in> set (fs_q s ! p). prioIndex (fr_priority f) = p)
     \<and> fs_totalBytes s = sum_list (map frameBytes (fs_q s))"

lemma frameBytes_simps [simp]: "frameBytes [] = 0" "frameBytes (f # q) = length (fr_bytes f) + frameBytes q"
    "frameBytes (q @ r) = frameBytes q + frameBytes r"
  by (simp_all add: frameBytes_def)

lemma prioIndex_less [simp]: "prioIndex x < 4"
  by (cases x) simp_all

lemma prioIndex_inj [simp]: "prioIndex x = prioIndex y \<longleftrightarrow> x = y"
  by (cases x; cases y) simp_all

lemma sum_list_update_nat:
  "p < length xs \<Longrightarrow> sum_list (map f (xs[p := y])) + f (xs ! p) = sum_list (map f xs) + (f y :: nat)"
  by (induction xs arbitrary: p) (auto split: nat.splits)

lemma fsInv_new: "fsInv (FrameScheduler_new n)"
  by (auto simp: fsInv_def FrameScheduler_new_def less_Suc_eq numeral_eq_Suc)

lemma fsInv_deficit: "\<lbrakk>fsInv s; length d = 4\<rbrakk> \<Longrightarrow> fsInv (s\<lparr>fs_deficit := d\<rparr>)"
  by (simp add: fsInv_def)

lemma fsInv_credit: "fsInv s \<Longrightarrow> fsInv (credit p s)"
  by (simp add: credit_def fsInv_def)

lemma fsInv_enqueue:
  assumes "fsInv s" shows "fsInv (enqueue f s)"
proof -
  let ?p = "prioIndex (fr_priority f)"
  have "sum_list (map frameBytes ((fs_q s)[?p := q])) + frameBytes (fs_q s ! ?p)
      = fs_totalBytes s + frameBytes q" for q
    using assms sum_list_update_nat [of ?p "fs_q s" frameBytes q] by (simp add: fsInv_def)
  from this [of "f # fs_q s ! ?p"] this [of "fs_q s ! ?p @ [f]"]
  show ?thesis
    using assms by (auto simp: fsInv_def enqueue_def Let_def nth_list_update)
qed

lemma popFront_inv:
  assumes "fsInv s" "p < 4" "fs_q s ! p \<noteq> []"
  shows "fsInv (snd (popFront p s)) \<and> fs_q s ! p = fst (popFront p s) # (fs_q (snd (popFront p s)) ! p)
    \<and> prioIndex (fr_priority (fst (popFront p s))) = p
    \<and> (\<forall>r. r \<noteq> p \<longrightarrow> fs_q (snd (popFront p s)) ! r = fs_q s ! r)"
proof -
  obtain f q where q: "fs_q s ! p = f # q" using assms(3) by (cases "fs_q s ! p") auto
  have l: "p < length (fs_q s)" using assms(1,2) by (simp add: fsInv_def)
  have "sum_list (map frameBytes ((fs_q s)[p := q])) + length (fr_bytes f) = fs_totalBytes s"
    using assms(1) sum_list_update_nat [OF l, of frameBytes q] q by (simp add: fsInv_def)
  moreover have "prioIndex (fr_priority f) = p" "\<forall>g \<in> set q. prioIndex (fr_priority g) = p"
    using assms(1,2) q by (auto simp: fsInv_def)
  ultimately show ?thesis
    using assms(1,2) l q by (auto simp: fsInv_def popFront_def Let_def nth_list_update)
qed

section \<open>Dequeueing\<close>

text \<open>From \<open>s\<close> to \<open>s'\<close> exactly the front frame \<open>f\<close> of class \<open>p\<close> was taken.\<close>

definition popped :: "nat \<Rightarrow> Frame \<Rightarrow> FrameScheduler \<Rightarrow> FrameScheduler \<Rightarrow> bool" where
  "popped p f s s' \<longleftrightarrow> p < 4 \<and> prioIndex (fr_priority f) = p \<and> fs_q s ! p = f # fs_q s' ! p
     \<and> (\<forall>r. r \<noteq> p \<longrightarrow> fs_q s' ! r = fs_q s ! r) \<and> fs_quantum s' = fs_quantum s"

lemma popFront_popped:
  assumes "fsInv s" "p < 4" "fs_q s ! p \<noteq> []" "popFront p s = (f, s')"
  shows "fsInv s' \<and> popped p f s s'"
  using popFront_inv [OF assms(1-3)] assms(2,4) by (auto simp: popped_def popFront_def Let_def)

lemma serve_popped:
  assumes "fsInv s" "p < 4" "fs_q s ! p \<noteq> []" "serve p s = (f, s')"
  shows "fsInv s' \<and> popped p f s s'"
proof -
  obtain s1 where s1: "popFront p s = (f, s1)" "s' = s1\<lparr>fs_deficit :=
      (fs_deficit s)[p := fs_deficit s ! p - int (length (fr_bytes f))], fs_rrCursor := 1 + (p - 1 + 1) mod 3\<rparr>"
    using assms(4) by (auto simp: serve_def split: prod.splits)
  have "(p - 1 + 1) mod 3 \<le> 2" using mod_less_divisor [of 3 "p - 1 + 1"] by linarith
  then show ?thesis
    using popFront_popped [OF assms(1-3) s1(1)] s1(2) assms(1) by (simp add: fsInv_def popped_def)
qed

lemma credit_simps [simp]: "fs_q (credit p s) = fs_q s" "fs_quantum (credit p s) = fs_quantum s"
    "fs_rrCursor (credit p s) = fs_rrCursor s"
  by (simp_all add: credit_def)

lemma popped_cong: "\<lbrakk>popped p f t s'; fs_q t = fs_q s; fs_quantum t = fs_quantum s\<rbrakk> \<Longrightarrow> popped p f s s'"
  by (simp add: popped_def)

text \<open>The class the loop visits at an attempt.\<close>

abbreviation visited :: "FrameScheduler \<Rightarrow> nat \<Rightarrow> nat" where
  "visited s a \<equiv> 1 + ((fs_rrCursor s - 1 + a) mod 3)"

lemma visited_range: "1 \<le> visited s a" "visited s a < 4"
  using mod_less_divisor [of 3 "fs_rrCursor s - 1 + a"] by linarith+

lemma drrLoop_result:
  assumes "fsInv s" "drrLoop n a s = (r, s')"
  shows "fsInv s' \<and> fs_quantum s' = fs_quantum s \<and>
    (case r of None \<Rightarrow> fs_q s' = fs_q s | Some f \<Rightarrow> \<exists>p. 1 \<le> p \<and> popped p f s s')"
  using assms
proof (induction n a s rule: drrLoop.induct)
  case (2 n a s)
  let ?p = "visited s a"
  have pr: "1 \<le> ?p" "?p < 4" by (rule visited_range)+
  consider "fs_q s ! ?p = []" | "fs_q s ! ?p \<noteq> []" "fs_deficit s ! ?p \<le> 0"
    | "fs_q s ! ?p \<noteq> []" "\<not> fs_deficit s ! ?p \<le> 0" by blast
  then show ?case
  proof cases
    case 1
    then show ?thesis
      using 2(1) [OF refl 1 fsInv_deficit [OF 2(3)]] 2(3,4)
      by (auto simp: fsInv_def Let_def popped_def split: option.splits)
  next
    case low: 2
    then show ?thesis
      using 2(2) [OF refl low fsInv_credit [OF 2(3)]] 2(4)
      by (auto simp: Let_def popped_def split: option.splits)
  next
    case 3
    then show ?thesis
      using 2(4) serve_popped [OF 2(3) pr(2) 3(1)] pr(1)
      by (auto simp: Let_def popped_def split: prod.splits)
  qed
qed simp

lemma grantLoop_result:
  assumes "fsInv s" "grantLoop ps s = (r, s')" "\<forall>p \<in> set ps. p < 4"
  shows "fsInv s' \<and> (case r of None \<Rightarrow> s' = s \<and> (\<forall>p \<in> set ps. fs_q s ! p = [])
    | Some f \<Rightarrow> \<exists>p \<in> set ps. popped p f s s' \<and> (\<forall>c. c \<noteq> p \<longrightarrow> fs_deficit s' ! c = fs_deficit s ! c))"
  using assms
proof (induction ps s rule: grantLoop.induct)
  case (2 p ps s)
  show ?case
  proof (cases "fs_q s ! p = []")
    case True
    then show ?thesis using 2 by (auto split: option.splits)
  next
    case False
    then obtain f where f: "serve p (credit p s) = (f, s')" "r = Some f"
      using 2(3) by (auto simp: Let_def split: prod.splits)
    have "fs_deficit s' ! c = fs_deficit s ! c" if "c \<noteq> p" for c
      using f(1) that by (auto simp: serve_def credit_def popFront_def Let_def nth_list_update)
    then show ?thesis
      using serve_popped [OF fsInv_credit [OF 2(2)] _ _ f(1)] False f(2) 2(4)
      by (auto simp: popped_def)
  qed
qed simp

lemma list_of_four: "length xs = 4 \<Longrightarrow> \<exists>a b c d. xs = [a, b, c, d]"
  by (auto simp: length_Suc_conv numeral_eq_Suc)

lemma all_queues:
  assumes "fsInv s"
  shows "fs_empty s \<longleftrightarrow> fs_q s ! 0 = [] \<and> fs_q s ! 1 = [] \<and> fs_q s ! 2 = [] \<and> fs_q s ! 3 = []"
proof -
  obtain a b c d where "fs_q s = [a, b, c, d]" using assms list_of_four unfolding fsInv_def by blast
  then show ?thesis by (auto simp: fs_empty_def)
qed

lemma popped_class: "popped p f s s' \<Longrightarrow> p = prioIndex (fr_priority f)"
  by (simp add: popped_def)

lemma dequeue_result:
  assumes inv: "fsInv s" and d: "dequeue s = (r, s')"
  shows "fsInv s' \<and> (case r of None \<Rightarrow> fs_empty s \<and> fs_q s' = fs_q s \<and> fs_quantum s' = fs_quantum s
    | Some f \<Rightarrow> popped (prioIndex (fr_priority f)) f s s' \<and> (fs_q s ! 0 \<noteq> [] \<longrightarrow> fr_priority f = PControl))"
proof (cases "fs_q s ! 0 = []")
  case False
  then obtain f where f: "popFront 0 s = (f, s')" "r = Some f"
    using d by (auto simp: dequeue_def split: prod.splits)
  have "fsInv s'" "popped 0 f s s'" using popFront_popped [OF inv _ False f(1)] by simp_all
  then show ?thesis using f(2) prioIndex_inj [of "fr_priority f" PControl] by (auto simp: popped_def)
next
  case True
  obtain r1 s1 where l: "drrLoop 6 0 s = (r1, s1)" by fastforce
  note l1 = drrLoop_result [OF inv l]
  show ?thesis
  proof (cases r1)
    case (Some f)
    then show ?thesis using l l1 True d popped_class by (auto simp: dequeue_def)
  next
    case None
    then have g: "grantLoop [1, 2, 3] s1 = (r, s')" using d True l by (simp add: dequeue_def)
    have q: "fsInv s1" "fs_q s1 = fs_q s" "fs_quantum s1 = fs_quantum s" using l1 None by simp_all
    from grantLoop_result [OF q(1) g] have
      "fsInv s' \<and> (case r of None \<Rightarrow> s' = s1 \<and> fs_q s ! 1 = [] \<and> fs_q s ! 2 = [] \<and> fs_q s ! 3 = []
        | Some f \<Rightarrow> \<exists>p. popped p f s s')"
      using q(2,3) by (auto split: option.splits intro: popped_cong)
    then show ?thesis
      using True q(2,3) all_queues [OF inv] popped_class by (auto split: option.splits)
  qed
qed

lemma dropIn_spec:
  "b = frameBytes q + x \<Longrightarrow> dropIn ch q b n
    = (filter (\<lambda>f. fr_channel f \<noteq> ch) q, frameBytes (filter (\<lambda>f. fr_channel f \<noteq> ch) q) + x,
       n + length (filter (\<lambda>f. fr_channel f = ch) q))"
proof (induction q arbitrary: b x n)
  case (Cons f q)
  then show ?case
    using Cons.IH [of b "length (fr_bytes f) + x" n] Cons.IH [of "frameBytes q + x" x "n + 1"] by simp
qed simp

lemma dropQueues_spec:
  "b = sum_list (map frameBytes qs) + x \<Longrightarrow> dropQueues ch qs b n
    = (map (filter (\<lambda>f. fr_channel f \<noteq> ch)) qs,
       sum_list (map (frameBytes \<circ> filter (\<lambda>f. fr_channel f \<noteq> ch)) qs) + x,
       n + length (filter (\<lambda>f. fr_channel f = ch) (concat qs)))"
proof (induction qs arbitrary: b x n)
  case (Cons q qs)
  let ?k = "frameBytes (filter (\<lambda>f. fr_channel f \<noteq> ch) q)"
  have 1: "dropIn ch q b n = (filter (\<lambda>f. fr_channel f \<noteq> ch) q, ?k + (sum_list (map frameBytes qs) + x),
      n + length (filter (\<lambda>f. fr_channel f = ch) q))"
    by (rule dropIn_spec) (use Cons.prems in simp)
  have k: "?k + (sum_list (map frameBytes qs) + x) = sum_list (map frameBytes qs) + (?k + x)" by simp
  show ?case by (simp add: 1 Cons.IH [OF k])
qed simp

lemma dropChannel_result:
  assumes "fsInv s" "dropChannel ch s = (d, s')"
  shows "fsInv s' \<and> fs_q s' = map (filter (\<lambda>f. fr_channel f \<noteq> ch)) (fs_q s)
    \<and> d = length (filter (\<lambda>f. fr_channel f = ch) (concat (fs_q s)))
    \<and> fs_deficit s' = fs_deficit s \<and> fs_rrCursor s' = fs_rrCursor s \<and> fs_quantum s' = fs_quantum s"
  using assms dropQueues_spec [of "fs_totalBytes s" "fs_q s" 0 ch 0]
  by (auto simp: dropChannel_def fsInv_def)

section \<open>Runs\<close>

datatype SchedOp = OpEnqueue Frame | OpDequeue | OpDropChannel u16

text \<open>The frames handed out by the dequeues of a run.\<close>

fun schedRun :: "SchedOp list \<Rightarrow> FrameScheduler \<Rightarrow> Frame list \<times> FrameScheduler" where
  "schedRun [] s = ([], s)"
| "schedRun (OpEnqueue f # ops) s = schedRun ops (enqueue f s)"
| "schedRun (OpDequeue # ops) s =
     (let (r, s') = dequeue s; (out, s'') = schedRun ops s'
      in (case r of None \<Rightarrow> out | Some f \<Rightarrow> f # out, s''))"
| "schedRun (OpDropChannel ch # ops) s = schedRun ops (snd (dropChannel ch s))"

fun enqueued :: "SchedOp list \<Rightarrow> Frame list" where
  "enqueued [] = []"
| "enqueued (OpEnqueue f # ops) = f # enqueued ops"
| "enqueued (_ # ops) = enqueued ops"

definition droppedIn :: "SchedOp list \<Rightarrow> u16 set" where
  "droppedIn ops = {ch. OpDropChannel ch \<in> set ops}"

abbreviation ofClass :: "nat \<Rightarrow> u16 set \<Rightarrow> Frame \<Rightarrow> bool" where
  "ofClass p D f \<equiv> prioIndex (fr_priority f) = p \<and> fr_channel f \<notin> D"

lemma class_queue: "\<lbrakk>fsInv s; p < 4\<rbrakk> \<Longrightarrow> filter (ofClass p D) (fs_q s ! p) = filter (\<lambda>f. fr_channel f \<notin> D) (fs_q s ! p)"
  by (rule filter_cong) (auto simp: fsInv_def)

lemma run_fifo:
  assumes "fsInv s" "p < 4" "\<forall>f \<in> set (enqueued ops). \<not> fr_expedite f" "droppedIn ops \<subseteq> D"
    "schedRun ops s = (out, s')"
  shows "fsInv s' \<and> filter (ofClass p D) (fs_q s ! p @ enqueued ops)
    = filter (ofClass p D) (out @ fs_q s' ! p)"
  using assms
proof (induction ops s arbitrary: out s' rule: schedRun.induct)
  case (2 f ops s)
  let ?c = "prioIndex (fr_priority f)"
  have "fs_q (enqueue f s) ! p = fs_q s ! p @ (if ?c = p then [f] else [])"
    using 2(2-4) by (auto simp: enqueue_def Let_def fsInv_def nth_list_update)
  then show ?case using 2 fsInv_enqueue by (auto simp: droppedIn_def)
next
  case (3 ops s)
  obtain r s1 where d: "dequeue s = (r, s1)" by fastforce
  obtain out1 where o: "schedRun ops s1 = (out1, s')" "out = (case r of None \<Rightarrow> out1 | Some f \<Rightarrow> f # out1)"
    using 3(6) d by (auto split: prod.splits)
  have r: "fsInv s1" "fs_q s ! p = (case r of None \<Rightarrow> [] | Some f \<Rightarrow> if prioIndex (fr_priority f) = p then [f] else [])
      @ fs_q s1 ! p"
    using dequeue_result [OF 3(2) d] by (auto simp: popped_def split: option.splits if_splits)
  from 3(1) [OF d [symmetric] refl r(1) 3(3) _ _ o(1)] 3(4,5) r(2) o(2)
  show ?case by (auto simp: droppedIn_def split: option.splits)
next
  case (4 ch ops s)
  obtain d s1 where d: "dropChannel ch s = (d, s1)" by fastforce
  note r = dropChannel_result [OF 4(2) d]
  have "ch \<in> D" using 4(5) by (auto simp: droppedIn_def)
  then have "filter (ofClass p D) (fs_q s1 ! p) = filter (ofClass p D) (fs_q s ! p)"
    using r 4(2,3) by (auto simp: fsInv_def intro: filter_cong)
  then show ?case using 4(1) [of out s'] 4(3-) r d by (auto simp: droppedIn_def)
qed simp

lemma run_inv: "\<lbrakk>fsInv s; schedRun ops s = (out, s')\<rbrakk> \<Longrightarrow> fsInv s'"
proof (induction ops s arbitrary: out s' rule: schedRun.induct)
  case (2 f ops s)
  then show ?case using fsInv_enqueue by simp
next
  case (3 ops s)
  obtain r s1 where d: "dequeue s = (r, s1)" by fastforce
  obtain out1 where "schedRun ops s1 = (out1, s')" using 3(3) d by (auto split: prod.splits)
  moreover have "fsInv s1" using dequeue_result [OF 3(2) d] by simp
  ultimately show ?case using 3(1) [OF d [symmetric] refl] by simp
next
  case (4 ch ops s)
  then show ?case using dropChannel_result [of s ch "fst (dropChannel ch s)" "snd (dropChannel ch s)"] by simp
qed simp

lemma run_quantum: "\<lbrakk>fsInv s; schedRun ops s = (out, s')\<rbrakk> \<Longrightarrow> fs_quantum s' = fs_quantum s"
proof (induction ops s arbitrary: out s' rule: schedRun.induct)
  case (2 f ops s)
  then show ?case using fsInv_enqueue by (simp add: enqueue_def Let_def)
next
  case (3 ops s)
  obtain r s1 where d: "dequeue s = (r, s1)" by fastforce
  obtain out1 where o: "schedRun ops s1 = (out1, s')" using 3(3) d by (auto split: prod.splits)
  have s1: "fsInv s1" "fs_quantum s1 = fs_quantum s"
    using dequeue_result [OF 3(2) d] by (cases r; simp add: popped_def)+
  have "fs_quantum s' = fs_quantum s1" by (rule 3(1) [OF d [symmetric] refl s1(1) o])
  then show ?case using s1(2) by simp
next
  case (4 ch ops s)
  obtain d s1 where d: "dropChannel ch s = (d, s1)" by fastforce
  note r = dropChannel_result [OF 4(2) d]
  have "fs_quantum s' = fs_quantum (snd (dropChannel ch s))" by (rule 4(1)) (use r d 4(3) in simp_all)
  then show ?case using r d by simp
qed simp

section \<open>No class starves\<close>

text \<open>The credits class \<open>p\<close> needs before it may send, and the classes the cursor passes before it.\<close>

definition need :: "int \<Rightarrow> int \<Rightarrow> nat" where
  "need q d = (if 0 < d then 0 else nat ((- d) div q) + 1)"

definition needOf :: "nat \<Rightarrow> FrameScheduler \<Rightarrow> nat" where
  "needOf p s = need (int (unat (fs_quantum s))) (fs_deficit s ! p)"

definition distTo :: "nat \<Rightarrow> FrameScheduler \<Rightarrow> nat" where
  "distTo p s = (p + 3 - fs_rrCursor s) mod 3"

definition patience :: "nat \<Rightarrow> FrameScheduler \<Rightarrow> nat" where
  "patience p s = 3 * needOf p s + distTo p s"

lemma need_credit:
  assumes "0 < q" "d \<le> 0" shows "need q d = Suc (need q (d + q))"
proof (cases "0 < d + q")
  case True
  then have "(- d) div q = 0" using assms by (simp add: div_pos_pos_trivial)
  then show ?thesis using True assms by (simp add: need_def)
next
  case False
  have "(- d) div q = (- (d + q)) div q + 1" using assms(1) div_add_self2 [of q "- (d + q)"] by simp
  moreover have "0 \<le> (- (d + q)) div q" using False assms(1) by (simp add: pos_imp_zdiv_nonneg_iff)
  ultimately show ?thesis using False assms by (simp add: need_def nat_add_distrib)
qed

text \<open>The attempts until the loop reaches class \<open>p\<close>.\<close>

definition dAt :: "nat \<Rightarrow> FrameScheduler \<Rightarrow> nat \<Rightarrow> nat" where
  "dAt p s a = (p + 2 - (fs_rrCursor s - 1 + a) mod 3) mod 3"

lemma third_cases: "(x :: nat) mod 3 = 0 \<or> x mod 3 = 1 \<or> x mod 3 = 2"
  by linarith

lemma class_cases: "\<lbrakk>1 \<le> p; p < 4\<rbrakk> \<Longrightarrow> p = 1 \<or> p = 2 \<or> p = (3 :: nat)"
  by linarith

lemma thirds:
  fixes x p :: nat
  assumes "x = 0 \<or> x = 1 \<or> x = 2" "1 \<le> p" "p < 4"
  shows "(p + 2 - x) mod 3 = 0 \<longleftrightarrow> 1 + x = p"
    and "(p + 2 - x) mod 3 \<noteq> 0 \<Longrightarrow> (p + 2 - Suc x mod 3) mod 3 = (p + 2 - x) mod 3 - 1"
    and "(p + 2 - x) mod 3 \<noteq> 0 \<Longrightarrow> (p + 3 - (1 + (1 + x) mod 3)) mod 3 < (p + 2 - x) mod 3"
  using class_cases [OF assms(2,3)] assms(1) by (elim disjE; simp)+

lemma dAt_zero: "\<lbrakk>1 \<le> p; p < 4\<rbrakk> \<Longrightarrow> dAt p s a = 0 \<longleftrightarrow> visited s a = p"
  unfolding dAt_def by (rule thirds(1) [OF third_cases])

lemma dAt_Suc:
  assumes "1 \<le> p" "p < 4" "dAt p s a \<noteq> 0" shows "dAt p s (Suc a) = dAt p s a - 1"
proof -
  have "(fs_rrCursor s - 1 + Suc a) mod 3 = Suc ((fs_rrCursor s - 1 + a) mod 3) mod 3"
    by (metis add_Suc_right mod_Suc_eq)
  then show ?thesis
    using thirds(2) [OF third_cases assms(1,2)] assms(3) unfolding dAt_def by (simp only:) blast
qed

lemma dAt_start:
  assumes "fsInv s" shows "dAt p s 0 = distTo p s"
proof -
  have c: "1 \<le> fs_rrCursor s" "fs_rrCursor s \<le> 3" using assms by (simp_all add: fsInv_def)
  then have "(fs_rrCursor s - 1 + 0) mod 3 = fs_rrCursor s - 1" by simp
  moreover have "p + 2 - (fs_rrCursor s - 1) = p + 3 - fs_rrCursor s" using c by linarith
  ultimately show ?thesis unfolding dAt_def distTo_def by (simp only:)
qed

lemma dist_after_serve:
  "\<lbrakk>1 \<le> p; p < 4; fs_rrCursor s' = 1 + visited s a mod 3; dAt p s a \<noteq> 0\<rbrakk> \<Longrightarrow> distTo p s' < dAt p s a"
  unfolding dAt_def distTo_def by (simp only:) (rule thirds(3) [OF third_cases])

lemma dAt_cong: "fs_rrCursor t = fs_rrCursor s \<Longrightarrow> dAt p t a = dAt p s a"
  by (simp only: dAt_def)

text \<open>What one loop leaves for a waiting class \<open>p\<close> that it does not serve.\<close>

lemma drrLoop_waiting:
  assumes "fsInv s" "1 \<le> p" "p < 4" "fs_q s ! p \<noteq> []" "0 < fs_quantum s" "drrLoop n a s = (r, s')"
    and "\<And>f. r = Some f \<Longrightarrow> prioIndex (fr_priority f) \<noteq> p"
  shows "needOf p s' < needOf p s
    \<or> (needOf p s' = needOf p s \<and> (r = None \<longrightarrow> n \<le> dAt p s a) \<and> (r \<noteq> None \<longrightarrow> distTo p s' < dAt p s a))"
  using assms
proof (induction n a s rule: drrLoop.induct)
  case (2 n a s)
  let ?v = "visited s a"
  have v: "1 \<le> ?v" "?v < 4" by (rule visited_range)+
  have dz: "dAt p s a = 0 \<longleftrightarrow> ?v = p" and ds: "?v \<noteq> p \<Longrightarrow> dAt p s (Suc a) = dAt p s a - 1"
    using dAt_zero dAt_Suc 2(4,5) by auto
  consider (empty) "fs_q s ! ?v = []" | (credit) "fs_q s ! ?v \<noteq> []" "fs_deficit s ! ?v \<le> 0"
    | (serve) "fs_q s ! ?v \<noteq> []" "\<not> fs_deficit s ! ?v \<le> 0" by blast
  then show ?case
  proof cases
    case empty
    let ?s = "s\<lparr>fs_deficit := (fs_deficit s)[?v := 0]\<rparr>"
    have np: "?v \<noteq> p" using empty 2(6) by auto
    have r: "drrLoop n (Suc a) ?s = (r, s')" using 2(8) empty by (simp add: Let_def)
    have inv: "fsInv ?s" using 2(3) by (simp add: fsInv_def)
    have eq: "needOf p ?s = needOf p s" using np by (simp add: needOf_def)
    have dec: "dAt p ?s (Suc a) = dAt p s a - 1" using ds [OF np] dAt_cong [of ?s s] by simp
    from 2(1) [OF refl empty inv 2(4,5) _ _ r 2(9)] 2(6,7) eq dec np dz show ?thesis by auto
  next
    case credit
    let ?s = "Scheduler.credit ?v s"
    have r: "drrLoop n (Suc a) ?s = (r, s')" using 2(8) credit by (simp add: Let_def)
    have IH: "needOf p s' < needOf p ?s
      \<or> (needOf p s' = needOf p ?s \<and> (r = None \<longrightarrow> n \<le> dAt p ?s (Suc a))
         \<and> (r \<noteq> None \<longrightarrow> distTo p s' < dAt p ?s (Suc a)))"
      using 2(2) [OF refl credit fsInv_credit [OF 2(3)] 2(4,5) _ _ r 2(9)] 2(6,7) by auto
    have d: "dAt p ?s (Suc a) = dAt p s (Suc a)" by (rule dAt_cong) simp
    show ?thesis
    proof (cases "?v = p")
      case True
      have "0 < int (unat (fs_quantum s))" using 2(7) unfolding word_less_nat_alt by linarith
      then have "needOf p s = Suc (needOf p ?s)"
        using True credit(2) need_credit 2(3) v(2)
        by (simp add: needOf_def Scheduler.credit_def fsInv_def)
      then show ?thesis using IH by linarith
    next
      case False
      then have "needOf p ?s = needOf p s" by (simp add: needOf_def Scheduler.credit_def)
      moreover obtain k where "dAt p s a = Suc k" using dz False by (cases "dAt p s a") auto
      ultimately show ?thesis using IH d ds [OF False] by auto
    qed
  next
    case serve
    obtain f where f: "Scheduler.serve ?v s = (f, s')" "r = Some f"
      using 2(8) serve by (auto simp: Let_def split: prod.splits)
    have c: "prioIndex (fr_priority f) = ?v"
      using serve_popped [OF 2(3) v(2) serve(1) f(1)] by (simp add: popped_def)
    then have np: "?v \<noteq> p" using 2(9) [OF f(2)] by simp
    have s': "fs_rrCursor s' = 1 + ?v mod 3" "needOf p s' = needOf p s"
      using f(1) np by (auto simp: Scheduler.serve_def popFront_def Let_def needOf_def)
    then show ?thesis using dist_after_serve [OF 2(4,5) s'(1)] dz np f(2) by simp
  qed
qed auto

lemma distTo_less: "distTo p s < 3"
  by (simp add: distTo_def)

lemma dequeue_waiting:
  assumes inv: "fsInv s" and p: "1 \<le> p" "p < 4" "fs_q s ! p \<noteq> []" and q: "0 < fs_quantum s"
    and c: "fs_q s ! 0 = []" and d: "dequeue s = (Some f, s')" "prioIndex (fr_priority f) \<noteq> p"
  shows "patience p s' < patience p s"
proof -
  obtain r1 s1 where l: "drrLoop 6 0 s = (r1, s1)" by fastforce
  have np: "prioIndex (fr_priority g) \<noteq> p" if "r1 = Some g" for g
    using that l c d by (simp add: dequeue_def)
  note w = drrLoop_waiting [OF inv p q l np]
  have dist: "dAt p s 0 = distTo p s" "distTo p s < 3" "distTo p s' < 3"
    using dAt_start [OF inv] distTo_less by auto
  show ?thesis
  proof (cases r1)
    case (Some g)
    then have "s1 = s'" using l c d(1) by (simp add: dequeue_def)
    then show ?thesis using w Some dist by (auto simp: patience_def)
  next
    case None
    then have g: "grantLoop [1, 2, 3] s1 = (Some f, s')" using l c d(1) by (simp add: dequeue_def)
    have s1: "fsInv s1" "fs_quantum s1 = fs_quantum s" using drrLoop_result [OF inv l] by auto
    have "\<forall>k. k \<noteq> prioIndex (fr_priority f) \<longrightarrow> fs_deficit s' ! k = fs_deficit s1 ! k" "fs_quantum s' = fs_quantum s1"
      using grantLoop_result [OF s1(1) g] by (auto simp: popped_def)
    then have "needOf p s' = needOf p s1" using d(2) by (simp add: needOf_def)
    moreover have "needOf p s1 < needOf p s" using w None dist by auto
    ultimately show ?thesis using dist by (simp add: patience_def)
  qed
qed

definition plainOp :: "SchedOp \<Rightarrow> bool" where
  "plainOp op \<longleftrightarrow> (case op of OpEnqueue f \<Rightarrow> fr_priority f \<noteq> PControl | OpDequeue \<Rightarrow> True | OpDropChannel ch \<Rightarrow> False)"

lemma enqueue_keeps:
  assumes "fsInv s" "fr_priority f \<noteq> PControl"
  shows "patience p (enqueue f s) = patience p s" "fs_q (enqueue f s) ! 0 = fs_q s ! 0"
    "fs_q s ! p \<noteq> [] \<Longrightarrow> p < 4 \<Longrightarrow> fs_q (enqueue f s) ! p \<noteq> []" "fs_quantum (enqueue f s) = fs_quantum s"
proof -
  have "prioIndex (fr_priority f) \<noteq> 0" using assms(2) prioIndex_inj [of "fr_priority f" PControl] by simp
  then show "fs_q (enqueue f s) ! 0 = fs_q s ! 0" by (simp add: enqueue_def Let_def)
  show "patience p (enqueue f s) = patience p s" "fs_quantum (enqueue f s) = fs_quantum s"
    by (simp_all add: enqueue_def Let_def patience_def needOf_def distTo_def)
  show "fs_q s ! p \<noteq> [] \<Longrightarrow> p < 4 \<Longrightarrow> fs_q (enqueue f s) ! p \<noteq> []"
    using assms(1) by (auto simp: enqueue_def Let_def fsInv_def nth_list_update)
qed

lemma run_serves:
  assumes "fsInv s" "1 \<le> p" "p < 4" "fs_q s ! p \<noteq> []" "0 < fs_quantum s" "fs_q s ! 0 = []"
    "\<forall>op \<in> set ops. plainOp op" "patience p s < length (filter (\<lambda>op. op = OpDequeue) ops)"
    "schedRun ops s = (out, s')"
  shows "\<exists>f \<in> set out. prioIndex (fr_priority f) = p"
  using assms
proof (induction ops s arbitrary: out s' rule: schedRun.induct)
  case (2 f ops s)
  have f: "fr_priority f \<noteq> PControl" using 2(8) by (simp add: plainOp_def)
  show ?case
    by (rule 2(1) [OF fsInv_enqueue [OF 2(2)] 2(3,4)])
       (use 2(5-10) enqueue_keeps [OF 2(2) f] 2(4) in auto)
next
  case (3 ops s)
  obtain r s1 where d: "dequeue s = (r, s1)" by fastforce
  obtain out1 where o: "schedRun ops s1 = (out1, s')" "out = (case r of None \<Rightarrow> out1 | Some f \<Rightarrow> f # out1)"
    using 3(10) d by (auto split: prod.splits)
  note res = dequeue_result [OF 3(2) d]
  have "\<not> fs_empty s" using class_cases [OF 3(3,4)] 3(5) all_queues [OF 3(2)] by auto
  then obtain f where f: "r = Some f" using res by (cases r) auto
  show ?case
  proof (cases "prioIndex (fr_priority f) = p")
    case False
    have pop: "popped (prioIndex (fr_priority f)) f s s1" "fsInv s1" using res f by auto
    have c: "prioIndex (fr_priority f) \<noteq> 0"
      using pop(1) 3(7) unfolding popped_def by (metis list.distinct(1))
    have "patience p s1 < patience p s"
      by (rule dequeue_waiting [OF 3(2-7)]) (use d f False in auto)
    then have "\<exists>g \<in> set out1. prioIndex (fr_priority g) = p"
      using 3(1) [OF d [symmetric] refl pop(2) 3(3,4) _ _ _ _ _ o(1)] pop(1) False c 3(5-9)
      by (auto simp: popped_def)
    then show ?thesis using o(2) f by simp
  qed (use o(2) f in simp)
next
  case (4 ch ops s)
  then show ?case by (simp add: plainOp_def)
qed auto

section \<open>Properties\<close>

text \<open>
  Dequeueing is exact and work conserving: from a scheduler a run of operations has produced,
  \<open>dequeue\<close> fails only when every queue is empty; otherwise it hands out the front frame of one
  class and changes no other queue, and a waiting control frame always goes first. The byte
  count is the size of what is queued.
\<close>

theorem dequeue_exact:
  assumes "schedRun ops (FrameScheduler_new n) = (out, s)" "dequeue s = (r, s')"
  shows "fs_totalBytes s = frameBytes (concat (fs_q s))
    \<and> (r = None \<longleftrightarrow> fs_empty s)
    \<and> (\<forall>f. r = Some f \<longrightarrow> popped (prioIndex (fr_priority f)) f s s'
         \<and> (fs_q s ! 0 \<noteq> [] \<longrightarrow> fr_priority f = PControl))"
proof -
  have inv: "fsInv s" by (rule run_inv [OF fsInv_new assms(1)])
  have "frameBytes (concat qs) = sum_list (map frameBytes qs)" for qs by (induction qs) simp_all
  then have "fs_totalBytes s = frameBytes (concat (fs_q s))" using inv by (simp add: fsInv_def)
  moreover have "r = None \<longleftrightarrow> fs_empty s"
  proof (cases r)
    case (Some f)
    then have "popped (prioIndex (fr_priority f)) f s s'" using dequeue_result [OF inv assms(2)] by simp
    then have "fs_q s ! prioIndex (fr_priority f) \<noteq> []" by (simp add: popped_def)
    moreover have "prioIndex (fr_priority f) < length (fs_q s)" using inv by (simp add: fsInv_def)
    ultimately have "\<not> fs_empty s" unfolding fs_empty_def by (metis nth_mem)
    then show ?thesis using Some by simp
  qed (use dequeue_result [OF inv assms(2)] in simp)
  ultimately show ?thesis using dequeue_result [OF inv assms(2)] by (cases r) auto
qed

definition sampleFrame :: "Priority \<Rightarrow> nat \<Rightarrow> Frame" where
  "sampleFrame x n = \<lparr>fr_bytes = replicate n 0, fr_priority = x, fr_channel = 1, fr_expedite = False\<rparr>"

lemma drrLoop_numeral: "drrLoop (numeral k) a s =
     (let p = 1 + ((fs_rrCursor s - 1 + a) mod 3)
      in if fs_q s ! p = [] then drrLoop (pred_numeral k) (Suc a) (s\<lparr>fs_deficit := (fs_deficit s)[p := 0]\<rparr>)
         else if fs_deficit s ! p \<le> 0 then drrLoop (pred_numeral k) (Suc a) (credit p s)
         else let (out, s') = serve p s in (Some out, s'))"
  unfolding numeral_eq_Suc [of k] by (rule drrLoop.simps)

lemmas sched_eval = sampleFrame_def FrameScheduler_new_def enqueue_def dequeue_def popFront_def
  serve_def credit_def Let_def drrLoop_numeral

definition twoFrames :: FrameScheduler where
  "twoFrames = enqueue (sampleFrame PControl 2) (enqueue (sampleFrame PBulk 3) (FrameScheduler_new 1))"

theorem dequeue_exact_witness:
  "schedRun [OpEnqueue (sampleFrame PBulk 3), OpEnqueue (sampleFrame PControl 2)]
      (FrameScheduler_new 1) = ([], twoFrames)
   \<and> fst (dequeue twoFrames) = Some (sampleFrame PControl 2)
   \<and> popped 0 (sampleFrame PControl 2) twoFrames (snd (dequeue twoFrames))"
proof -
  have r: "schedRun [OpEnqueue (sampleFrame PBulk 3), OpEnqueue (sampleFrame PControl 2)]
      (FrameScheduler_new 1) = ([], twoFrames)" by (simp add: twoFrames_def)
  have f: "fst (dequeue twoFrames) = Some (sampleFrame PControl 2)"
    by (simp add: twoFrames_def sched_eval)
  then have "dequeue twoFrames = (Some (sampleFrame PControl 2), snd (dequeue twoFrames))"
    by (simp add: prod_eq_iff)
  from dequeue_exact [OF r this] r f show ?thesis by (simp add: sampleFrame_def)
qed

text \<open>
  First in, first out: over every sequence of enqueues without expedition, dequeues and channel
  drops, the frames of a class on channels that were not dropped leave in the order they came,
  none lost and none repeated; what has not left is queued in that order.
\<close>

theorem class_fifo:
  assumes "\<forall>f \<in> set (enqueued ops). \<not> fr_expedite f" "schedRun ops (FrameScheduler_new n) = (out, s)" "p < 4"
  shows "filter (ofClass p (droppedIn ops)) (enqueued ops)
    = filter (ofClass p (droppedIn ops)) out @ filter (ofClass p (droppedIn ops)) (fs_q s ! p)"
proof -
  have "fs_q (FrameScheduler_new n) ! p = []"
    using assms(3) by (auto simp: FrameScheduler_new_def nth_Cons')
  then show ?thesis using run_fifo [OF fsInv_new assms(3,1) order_refl assms(2)] by simp
qed

theorem class_fifo_witness:
  "\<exists>s. schedRun [OpEnqueue (sampleFrame PBulk 3), OpEnqueue (sampleFrame PBulk 4), OpDequeue]
      (FrameScheduler_new 1) = ([sampleFrame PBulk 3], s) \<and> fs_q s ! 3 = [sampleFrame PBulk 4]"
proof -
  let ?ops = "[OpEnqueue (sampleFrame PBulk 3), OpEnqueue (sampleFrame PBulk 4), OpDequeue]"
  obtain s where r: "schedRun ?ops (FrameScheduler_new 1) = ([sampleFrame PBulk 3], s)"
    by (simp add: sched_eval)
  have n: "droppedIn ?ops = {}" by (auto simp: droppedIn_def)
  have "filter (ofClass 3 {}) (fs_q s ! 3) = [sampleFrame PBulk 4]"
    using class_fifo [OF _ r, of 3] unfolding n by (simp add: sampleFrame_def)
  moreover have "fsInv s" by (rule run_inv [OF fsInv_new r])
  ultimately have "fs_q s ! 3 = [sampleFrame PBulk 4]" using class_queue [of s 3 "{}"] by simp
  then show ?thesis using r by blast
qed

text \<open>
  C34. No data class starves: once class \<open>p\<close> has a frame, whatever frames of the data classes are
  enqueued meanwhile, it is served within the credits it still needs, three dequeues for each,
  plus the distance of the cursor, provided that no control traffic comes in between and the
  quantum is not zero.
\<close>

theorem no_starvation:
  assumes "schedRun before (FrameScheduler_new n) = (out0, s)" "0 < n"
    "1 \<le> p" "p < 4" "fs_q s ! p \<noteq> []" "fs_q s ! 0 = []"
    "\<forall>op \<in> set ops. plainOp op" "patience p s < length (filter (\<lambda>op. op = OpDequeue) ops)"
    "schedRun ops s = (out, s')"
  shows "\<exists>f \<in> set out. prioIndex (fr_priority f) = p"
proof -
  have "fs_quantum s = n" using run_quantum [OF fsInv_new assms(1)] by (simp add: FrameScheduler_new_def)
  then show ?thesis
    using run_serves [OF run_inv [OF fsInv_new assms(1)] assms(3-5) _ assms(6-9)] assms(2) by simp
qed

theorem no_starvation_witness:
  "\<exists>s out s'. schedRun [OpEnqueue (sampleFrame PRt 9), OpEnqueue (sampleFrame PBulk 1)]
      (FrameScheduler_new 4) = ([], s)
    \<and> schedRun (replicate 6 OpDequeue) s = (out, s') \<and> (\<exists>f \<in> set out. prioIndex (fr_priority f) = 3)"
proof -
  obtain s where r: "schedRun [OpEnqueue (sampleFrame PRt 9), OpEnqueue (sampleFrame PBulk 1)]
      (FrameScheduler_new 4) = ([], s)" by simp
  obtain out s' where o: "schedRun (replicate 6 OpDequeue) s = (out, s')" by fastforce
  have "patience 3 s < 6" "fs_q s ! 3 \<noteq> []" "fs_q s ! 0 = []"
    using r by (auto simp: sampleFrame_def FrameScheduler_new_def enqueue_def Let_def patience_def
        needOf_def need_def distTo_def)
  then have "\<exists>f \<in> set out. prioIndex (fr_priority f) = 3"
    using no_starvation [OF r _ _ _ _ _ _ _ o, of 3] by (auto simp: plainOp_def)
  then show ?thesis using r o by blast
qed

end
