(* ===== verification/Lease.thy ===== *)
theory Lease
  imports Prelude StatusCodes Timing Messages
begin

text \<open>
  The lease on the captured device (\<open>session/LeaseAuthority.h\<close>, \<open>session/LeaseAuthority.cpp\<close>).
  Public keys and recovery tokens are byte strings; \<open>Clock::nowNs\<close> and the bytes drawn from
  \<open>crypto::randomBytes\<close> are arguments of the operations that read them.
\<close>

section \<open>The authority\<close>

type_synonym PublicKey = bytes
type_synonym RecoveryToken = bytes

datatype LeaseState = Free | Leased | Quarantined

primrec leaseStateText :: "LeaseState \<Rightarrow> string" where
  "leaseStateText Free = ''free''"
| "leaseStateText Leased = ''leased''"
| "leaseStateText Quarantined = ''quarantined''"

record Snapshot =
  sn_state :: LeaseState
  sn_uid :: DeviceUid
  sn_owner :: PublicKey
  sn_hasOwner :: bool
  sn_attachId :: u32
  sn_leaseEpoch :: u32
  sn_incarnation :: u16
  sn_lastHeardNs :: u64
  sn_sinceNs :: u64

definition Snapshot0 :: Snapshot where
  "Snapshot0 =
     \<lparr>sn_state = Free, sn_uid = replicate 16 0, sn_owner = replicate 32 0, sn_hasOwner = False,
      sn_attachId = 0, sn_leaseEpoch = 0, sn_incarnation = 0, sn_lastHeardNs = 0, sn_sinceNs = 0\<rparr>"

record LeaseAuthority =
  la_s :: Snapshot
  la_token :: RecoveryToken
  la_nextAttachId :: u32

definition LeaseAuthority_new :: LeaseAuthority where
  "LeaseAuthority_new = \<lparr>la_s = Snapshot0, la_token = replicate 16 0, la_nextAttachId = 1\<rparr>"

definition isOwner :: "LeaseAuthority \<Rightarrow> PublicKey \<Rightarrow> bool" where
  "isOwner la peer \<longleftrightarrow> sn_hasOwner (la_s la) \<and> sn_owner (la_s la) = peer"

datatype ClaimRefusal = DeviceInUse | MachineSharing | RecoverInstead | HeldForAnother

primrec claimRefusalText :: "ClaimRefusal \<Rightarrow> string" where
  "claimRefusalText DeviceInUse = ''That device is already in use.''"
| "claimRefusalText MachineSharing = ''This machine is already sharing a device.''"
| "claimRefusalText RecoverInstead =
     ''Your earlier session is still holding this device. Recover it rather than attaching again.''"
| "claimRefusalText HeldForAnother =
     ''Another machine still holds this device. It stopped answering rather than releasing it, so it is being kept for that machine until somebody at this one takes it back.''"

definition mayClaim :: "LeaseAuthority \<Rightarrow> PublicKey \<Rightarrow> DeviceUid \<Rightarrow> Status \<times> ClaimRefusal option" where
  "mayClaim la peer uid =
     (case sn_state (la_s la) of
        Free \<Rightarrow> (Ok, None)
      | Leased \<Rightarrow> (Busy, Some (if sn_uid (la_s la) = uid then DeviceInUse else MachineSharing))
      | Quarantined \<Rightarrow>
          (ExclusivityDenied, Some (if isOwner la peer then RecoverInstead else HeldForAnother)))"

definition mintToken :: "RecoveryToken \<Rightarrow> LeaseAuthority \<Rightarrow> LeaseAuthority" where
  "mintToken rnd la = la\<lparr>la_token := rnd\<rparr>"

definition grant ::
    "u64 \<Rightarrow> RecoveryToken \<Rightarrow> PublicKey \<Rightarrow> DeviceUid \<Rightarrow> LeaseAuthority \<Rightarrow> u32 \<times> LeaseAuthority" where
  "grant now rnd peer uid la =
     (let s = la_s la;
          s' = s\<lparr>sn_state := Leased, sn_owner := peer, sn_hasOwner := True, sn_uid := uid,
                 sn_attachId := la_nextAttachId la, sn_leaseEpoch := sn_leaseEpoch s + 1,
                 sn_incarnation := sn_incarnation s + 1, sn_lastHeardNs := now, sn_sinceNs := now\<rparr>
      in (sn_attachId s',
          mintToken rnd (la\<lparr>la_s := s', la_nextAttachId := la_nextAttachId la + 1\<rparr>)))"

definition heard :: "u64 \<Rightarrow> PublicKey \<Rightarrow> LeaseAuthority \<Rightarrow> LeaseAuthority" where
  "heard now peer la =
     (if \<not> isOwner la peer then la
      else let s = (la_s la)\<lparr>sn_lastHeardNs := now\<rparr>
           in la\<lparr>la_s := (if sn_state s = Quarantined then s\<lparr>sn_state := Leased, sn_sinceNs := now\<rparr> else s)\<rparr>)"

definition quarantine :: "u64 \<Rightarrow> LeaseAuthority \<Rightarrow> LeaseAuthority" where
  "quarantine now la =
     (if sn_state (la_s la) \<noteq> Leased then la
      else la\<lparr>la_s := (la_s la)\<lparr>sn_state := Quarantined, sn_sinceNs := now\<rparr>\<rparr>)"

definition forceReclaim :: "u64 \<Rightarrow> LeaseAuthority \<Rightarrow> LeaseAuthority" where
  "forceReclaim now la = la\<lparr>la_s := Snapshot0\<lparr>sn_sinceNs := now\<rparr>, la_token := replicate 16 0\<rparr>"

definition release_lease :: "u64 \<Rightarrow> PublicKey \<Rightarrow> LeaseAuthority \<Rightarrow> LeaseAuthority" where
  "release_lease now peer la =
     (if \<not> isOwner la peer then la
      else la\<lparr>la_s := Snapshot0\<lparr>sn_sinceNs := now\<rparr>, la_token := replicate 16 0\<rparr>)"

definition tryRecover ::
    "u64 \<Rightarrow> RecoveryToken \<Rightarrow> PublicKey \<Rightarrow> RecoveryToken \<Rightarrow> LeaseAuthority \<Rightarrow>
      Status \<times> (u32 \<times> RecoveryToken) option \<times> LeaseAuthority" where
  "tryRecover now rnd peer token la =
     (if sn_state (la_s la) = Free then (NotFound, None, la)
      else if \<not> isOwner la peer then (NotPermitted, None, la)
      else if token \<noteq> la_token la then (NotPermitted, None, la)
      else
        let s = la_s la;
            s' = s\<lparr>sn_state := Leased, sn_attachId := la_nextAttachId la,
                   sn_leaseEpoch := sn_leaseEpoch s + 1, sn_incarnation := sn_incarnation s + 1,
                   sn_lastHeardNs := now, sn_sinceNs := now\<rparr>
        in (Ok, Some (sn_attachId s', rnd),
            mintToken rnd (la\<lparr>la_s := s', la_nextAttachId := la_nextAttachId la + 1\<rparr>)))"

definition silenceExpired :: "u64 \<Rightarrow> LeaseAuthority \<Rightarrow> bool" where
  "silenceExpired now la \<longleftrightarrow>
     sn_state (la_s la) = Leased
     \<and> \<not> now < sn_lastHeardNs (la_s la)
     \<and> now - sn_lastHeardNs (la_s la) \<ge> kLeaseExporter * 1000000"

section \<open>The authority as a state machine\<close>

text \<open>
  What sessions and the person at the machine do: a session claims only after \<open>mayClaim\<close> has
  agreed.  The label of a step names the event; a refused claim and a refused recovery leave the
  authority as it is.
\<close>

datatype LeaseEvent =
    EvClaim u64 RecoveryToken PublicKey DeviceUid
  | EvRefused PublicKey DeviceUid Status
  | EvHeard u64 PublicKey
  | EvQuarantine u64
  | EvRelease u64 PublicKey
  | EvForceReclaim u64
  | EvRecover u64 RecoveryToken PublicKey RecoveryToken
  | EvNotRecovered PublicKey RecoveryToken Status

inductive leaseStep :: "LeaseAuthority \<Rightarrow> LeaseEvent \<Rightarrow> LeaseAuthority \<Rightarrow> bool" where
  claim: "fst (mayClaim la peer uid) = Ok \<Longrightarrow>
    leaseStep la (EvClaim now rnd peer uid) (snd (grant now rnd peer uid la))"
| refused: "fst (mayClaim la peer uid) = st \<Longrightarrow> st \<noteq> Ok \<Longrightarrow> leaseStep la (EvRefused peer uid st) la"
| heard: "leaseStep la (EvHeard now peer) (heard now peer la)"
| quarantine: "leaseStep la (EvQuarantine now) (quarantine now la)"
| release: "leaseStep la (EvRelease now peer) (release_lease now peer la)"
| reclaim: "leaseStep la (EvForceReclaim now) (forceReclaim now la)"
| recover: "tryRecover now rnd peer token la = (Ok, r, la') \<Longrightarrow>
    leaseStep la (EvRecover now rnd peer token) la'"
| notRecovered: "tryRecover now rnd peer token la = (st, r, la') \<Longrightarrow> st \<noteq> Ok \<Longrightarrow>
    leaseStep la (EvNotRecovered peer token st) la'"

inductive_cases leaseStepE: "leaseStep la ev la'"

text \<open>The events that hand out an attach identifier.\<close>

fun issues :: "LeaseEvent \<Rightarrow> bool" where
  "issues (EvClaim now rnd peer uid) \<longleftrightarrow> True"
| "issues (EvRecover now rnd peer token) \<longleftrightarrow> True"
| "issues _ \<longleftrightarrow> False"

text \<open>A history of the authority, with the attach identifiers handed out along it.\<close>

inductive leaseRun :: "LeaseAuthority \<Rightarrow> LeaseEvent list \<Rightarrow> u32 list \<Rightarrow> LeaseAuthority \<Rightarrow> bool" where
  nil: "leaseRun la [] [] la"
| cons: "leaseStep la ev la1 \<Longrightarrow> leaseRun la1 evs ids la2 \<Longrightarrow>
    leaseRun la (ev # evs) ((if issues ev then [sn_attachId (la_s la1)] else []) @ ids) la2"

inductive_cases leaseRunE: "leaseRun la (ev # evs) ids la'"

lemmas lease_ops = mayClaim_def grant_def mintToken_def heard_def quarantine_def release_lease_def
  forceReclaim_def tryRecover_def isOwner_def Let_def

text \<open>A lease has an owner exactly while it is not free.\<close>

definition leaseInv :: "LeaseAuthority \<Rightarrow> bool" where
  "leaseInv la \<longleftrightarrow> (sn_state (la_s la) \<noteq> Free \<longleftrightarrow> sn_hasOwner (la_s la))"

lemma leaseInv_step: "\<lbrakk>leaseStep la ev la'; leaseInv la\<rbrakk> \<Longrightarrow> leaseInv la'"
  by (induction rule: leaseStep.induct)
     (auto simp: leaseInv_def lease_ops Snapshot0_def split: if_splits LeaseState.splits)

lemma leaseInv_run: "\<lbrakk>leaseRun la evs ids la'; leaseInv la\<rbrakk> \<Longrightarrow> leaseInv la'"
  by (induction rule: leaseRun.induct) (auto dest: leaseInv_step)

lemma leaseInv_new: "leaseInv LeaseAuthority_new"
  by (simp add: leaseInv_def LeaseAuthority_new_def Snapshot0_def)

section \<open>Ownership\<close>

definition heldBy :: "PublicKey \<Rightarrow> LeaseAuthority \<Rightarrow> bool" where
  "heldBy peer la \<longleftrightarrow> isOwner la peer \<and> sn_state (la_s la) \<noteq> Free"

fun ends :: "PublicKey \<Rightarrow> LeaseEvent \<Rightarrow> bool" where
  "ends peer (EvRelease now p) \<longleftrightarrow> p = peer"
| "ends peer (EvForceReclaim now) \<longleftrightarrow> True"
| "ends peer _ \<longleftrightarrow> False"

lemma heldBy_step: "\<lbrakk>leaseStep la ev la'; heldBy peer la; \<not> ends peer ev\<rbrakk> \<Longrightarrow> heldBy peer la'"
  by (induction rule: leaseStep.induct)
     (auto simp: heldBy_def lease_ops split: if_splits LeaseState.splits)

lemma heldBy_run:
  "\<lbrakk>leaseRun la evs ids la'; heldBy peer la; \<forall>ev \<in> set evs. \<not> ends peer ev\<rbrakk> \<Longrightarrow> heldBy peer la'"
  by (induction rule: leaseRun.induct) (auto dest: heldBy_step)

lemma heldBy_refuses:
  assumes "heldBy peer la"
  shows "fst (mayClaim la other uid) \<in> {Busy, ExclusivityDenied}"
    and "other \<noteq> peer \<Longrightarrow> fst (tryRecover now rnd other token la) = NotPermitted"
  using assms by (auto simp: heldBy_def lease_ops split: LeaseState.splits)

lemma nextAttachId_step:
  assumes "leaseStep la ev la'"
  shows "la_nextAttachId la' = la_nextAttachId la + (if issues ev then 1 else 0)
    \<and> (issues ev \<longrightarrow> sn_attachId (la_s la') = la_nextAttachId la)"
  using assms by (induction rule: leaseStep.induct) (auto simp: lease_ops split: if_splits)

lemma attachIds_run:
  "\<lbrakk>leaseRun la evs ids la'; unat (la_nextAttachId la) + length ids < 2 ^ 32\<rbrakk> \<Longrightarrow>
    map unat ids = [unat (la_nextAttachId la) ..< unat (la_nextAttachId la) + length ids]"
proof (induction rule: leaseRun.induct)
  case (cons la ev la1 evs ids la2)
  show ?case
  proof (cases "issues ev")
    case True
    have n: "la_nextAttachId la1 = la_nextAttachId la + 1" "sn_attachId (la_s la1) = la_nextAttachId la"
      using nextAttachId_step [OF cons.hyps(1)] True by simp_all
    have "unat (la_nextAttachId la + 1) = unat (la_nextAttachId la) + 1"
      using cons.prems True unat_u32_less [of "la_nextAttachId la"] by (simp add: unat_word_ariths)
    then show ?thesis using cons.IH cons.prems True n by (simp add: upt_conv_Cons del: upt_Suc)
  next
    case False
    then show ?thesis using cons nextAttachId_step [OF cons.hyps(1)] by simp
  qed
qed simp

section \<open>Properties\<close>

text \<open>
  C17. A lease never decays into availability: once a peer holds the device, then whatever claims,
  silences, quarantines, recoveries and releases by other peers follow, as long as it does not
  release the lease itself and nobody at the machine forces it back, it still holds the device,
  every claim is refused with \<open>Busy\<close> or \<open>ExclusivityDenied\<close>, and no other peer can recover it.
\<close>

theorem lease_never_decays:
  assumes "leaseRun la evs ids la'" "heldBy peer la" "\<forall>ev \<in> set evs. \<not> ends peer ev"
  shows "heldBy peer la'
    \<and> fst (mayClaim la' other uid) \<in> {Busy, ExclusivityDenied}
    \<and> (other \<noteq> peer \<longrightarrow> fst (tryRecover now rnd other token la') = NotPermitted)"
  using heldBy_run [OF assms] heldBy_refuses by blast

definition sampleHeld :: LeaseAuthority where
  "sampleHeld = snd (grant 5 [1] [7] [9] LeaseAuthority_new)"

theorem lease_never_decays_witness:
  "leaseRun sampleHeld [EvQuarantine 6, EvRelease 7 [8], EvRefused [8] [9] ExclusivityDenied] []
     (quarantine 6 sampleHeld)
   \<and> heldBy [7] (quarantine 6 sampleHeld)"
proof -
  let ?q = "quarantine 6 sampleHeld"
  have rel: "release_lease 7 [8] ?q = ?q" "fst (mayClaim ?q [8] [9]) = ExclusivityDenied"
    by (simp_all add: sampleHeld_def lease_ops)
  have r: "leaseRun sampleHeld [EvQuarantine 6, EvRelease 7 [8], EvRefused [8] [9] ExclusivityDenied] [] ?q"
    using leaseRun.cons [OF leaseStep.quarantine [of sampleHeld 6]
        leaseRun.cons [OF leaseStep.release [of ?q 7 "[8]", unfolded rel(1)]
          leaseRun.cons [OF leaseStep.refused [OF rel(2)] leaseRun.nil]]] by simp
  moreover have "heldBy [7] sampleHeld" by (simp add: sampleHeld_def heldBy_def lease_ops)
  ultimately show ?thesis using lease_never_decays [OF r, of "[7]"] by simp
qed

text \<open>
  C35. Attach identifiers are unique: over every history of the authority the identifiers handed out
  by grants and recoveries are 1, 2, 3 and so on, so no two sessions ever share one, until 2 to the
  32 less one have been issued.
\<close>

theorem attach_ids_unique:
  assumes "leaseRun LeaseAuthority_new evs ids la" "1 + length ids < 2 ^ 32"
  shows "map unat ids = [1 ..< 1 + length ids] \<and> distinct ids"
proof -
  have "map unat ids = [1 ..< 1 + length ids]"
    using attachIds_run [OF assms(1)] assms(2) by (simp add: LeaseAuthority_new_def)
  moreover from this have "distinct (map unat ids)" by (metis distinct_upt)
  ultimately show ?thesis unfolding distinct_map by blast
qed

theorem attach_ids_unique_witness:
  "\<exists>la. leaseRun LeaseAuthority_new [EvClaim 5 [1] [7] [9], EvForceReclaim 6, EvClaim 7 [2] [8] [9]] [1, 2] la
     \<and> distinct [1 :: u32, 2]"
proof -
  let ?a = "snd (grant 5 [1] [7] [9] LeaseAuthority_new)"
  let ?b = "forceReclaim 6 ?a"
  let ?c = "snd (grant 7 [2] [8] [9] ?b)"
  have ok: "fst (mayClaim LeaseAuthority_new [7] [9]) = Ok" "fst (mayClaim ?b [8] [9]) = Ok"
    and id: "sn_attachId (la_s ?a) = 1" "sn_attachId (la_s ?c) = 2"
    by (simp_all add: lease_ops LeaseAuthority_new_def Snapshot0_def)
  have r: "leaseRun LeaseAuthority_new [EvClaim 5 [1] [7] [9], EvForceReclaim 6, EvClaim 7 [2] [8] [9]] [1, 2] ?c"
    using leaseRun.cons [OF leaseStep.claim [OF ok(1), of 5 "[1]"]
        leaseRun.cons [OF leaseStep.reclaim [of ?a 6]
          leaseRun.cons [OF leaseStep.claim [OF ok(2), of 7 "[2]"] leaseRun.nil]]] id by simp
  from attach_ids_unique [OF this] r show ?thesis by auto
qed

text \<open>
  The silence timer: while the clock does not wrap, a lease last heard of at \<open>t\<close> counts as
  silent exactly from twenty seconds after \<open>t\<close>; quarantining it then keeps the owner, and the
  owner being heard of again restores the lease with the same attach identifier, while the
  recovery token opens it once: after a recovery the old token is refused unless the random
  source repeats it.
\<close>

theorem lease_silence:
  assumes "heldBy peer la" "sn_state (la_s la) = Leased"
    "unat (sn_lastHeardNs (la_s la)) + 20000000000 < 2 ^ 64"
  shows "(silenceExpired now la \<longleftrightarrow> unat (sn_lastHeardNs (la_s la)) + 20000000000 \<le> unat now)
    \<and> heldBy peer (quarantine now la) \<and> \<not> silenceExpired t (quarantine now la)
    \<and> sn_state (la_s (heard t peer (quarantine now la))) = Leased
    \<and> sn_attachId (la_s (heard t peer (quarantine now la))) = sn_attachId (la_s la)
    \<and> (tryRecover t rnd peer token la = (Ok, r, la') \<and> rnd \<noteq> token \<longrightarrow>
         fst (tryRecover t' rnd' peer token la') = NotPermitted)"
proof -
  let ?h = "sn_lastHeardNs (la_s la)"
  have "silenceExpired now la \<longleftrightarrow> unat ?h + 20000000000 \<le> unat now"
  proof (cases "now < ?h")
    case True
    then show ?thesis by (simp add: silenceExpired_def word_less_nat_alt)
  next
    case False
    then have "unat (now - ?h) = unat now - unat ?h" by (simp add: unat_sub)
    then show ?thesis
      using False assms(2) by (auto simp: silenceExpired_def word_le_nat_alt word_less_nat_alt)
  qed
  moreover have "heldBy peer (quarantine now la)" "\<not> silenceExpired t (quarantine now la)"
    "sn_state (la_s (heard t peer (quarantine now la))) = Leased"
    "sn_attachId (la_s (heard t peer (quarantine now la))) = sn_attachId (la_s la)"
    using assms(1,2) by (auto simp: heldBy_def lease_ops silenceExpired_def)
  moreover have "fst (tryRecover t' rnd' peer token la') = NotPermitted"
    if "tryRecover t rnd peer token la = (Ok, r, la')" "rnd \<noteq> token"
    using that assms(1,2) by (auto simp: heldBy_def lease_ops split: if_splits)
  ultimately show ?thesis by blast
qed

theorem lease_silence_witness:
  "silenceExpired 20000000005 sampleHeld \<and> \<not> silenceExpired 20000000004 sampleHeld
    \<and> fst (tryRecover 9 [2] [7] [1] sampleHeld) = Ok
    \<and> fst (tryRecover 9 [3] [7] [1] (snd (snd (tryRecover 9 [2] [7] [1] sampleHeld)))) = NotPermitted"
proof -
  have h: "heldBy [7] sampleHeld" "sn_state (la_s sampleHeld) = Leased"
    "sn_lastHeardNs (la_s sampleHeld) = 5" by (simp_all add: sampleHeld_def heldBy_def lease_ops)
  obtain r la' where t: "tryRecover 9 [2] [7] [1] sampleHeld = (Ok, r, la')"
    by (simp add: sampleHeld_def lease_ops)
  show ?thesis
    using lease_silence [OF h(1,2), of 20000000005 9 "[2]" "[1]" r la' 9 "[3]"]
      lease_silence [OF h(1,2), of 20000000004] h(3) t by simp
qed

end
