(* ===== verification/TextFormat.thy ===== *)
theory TextFormat
  imports Prelude
begin

text \<open>
  The text conversions behind the two line-oriented state files: \<open>std::getline\<close>,
  \<open>operator<<\<close> of an unsigned integer, \<open>std::stoul\<close> and \<open>std::stoull\<close> (on platforms with a
  64-bit \<open>unsigned long\<close>), and \<open>toHex\<close> and \<open>fromHex\<close> of \<open>crypto/Primitives.cpp\<close>.
\<close>

section \<open>Lines and fields\<close>

text \<open>One call of \<open>std::getline\<close> on what is left of a string stream: the line and the rest.\<close>

definition getline :: "char \<Rightarrow> string \<Rightarrow> (string \<times> string) option" where
  "getline d s =
     (if s = [] then None
      else Some (takeWhile (\<lambda>c. c \<noteq> d) s, drop 1 (dropWhile (\<lambda>c. c \<noteq> d) s)))"

lemma getline_shrinks: "getline d s = Some (l, r) \<Longrightarrow> length r < length s"
proof -
  assume "getline d s = Some (l, r)"
  then have "s \<noteq> []" "r = drop 1 (dropWhile (\<lambda>c. c \<noteq> d) s)" by (auto simp: getline_def split: if_splits)
  then show ?thesis using length_dropWhile_le [of "\<lambda>c. c \<noteq> d" s] by (cases s) auto
qed

text \<open>The loop that collects fields until the stream is exhausted.\<close>

function getlines :: "char \<Rightarrow> string \<Rightarrow> string list" where
  "getlines d s = (case getline d s of None \<Rightarrow> [] | Some (l, r) \<Rightarrow> l # getlines d r)"
  by pat_completeness auto

termination getlines
  by (relation "measure (\<lambda>(d, s). length s)") (auto dest: getline_shrinks)

declare getlines.simps [simp del]

lemma getline_word: "d \<notin> set w \<Longrightarrow> getline d (w @ d # r) = Some (w, r)"
  by (induction w) (auto simp: getline_def takeWhile_append dropWhile_append)

lemma getline_last: "\<lbrakk>d \<notin> set w; w \<noteq> []\<rbrakk> \<Longrightarrow> getline d w = Some (w, [])"
  by (auto simp: getline_def takeWhile_eq_all_conv) (metis (mono_tags, lifting) dropWhile_eq_Nil_conv list.size(3) zero_le)

lemma getlines_Nil [simp]: "getlines d [] = []"
  by (simp add: getlines.simps getline_def)

lemma getlines_word: "d \<notin> set w \<Longrightarrow> getlines d (w @ d # r) = w # getlines d r"
  by (subst getlines.simps) (simp add: getline_word)

lemma getlines_last: "d \<notin> set w \<Longrightarrow> getlines d w = (if w = [] then [] else [w])"
  by (cases "w = []") (simp_all add: getlines.simps [of d w] getline_last)

lemma getlines_lines:
  "\<forall>w \<in> set ws. d \<notin> set w \<Longrightarrow> getlines d (concat (map (\<lambda>w. w @ [d]) ws)) = ws"
  by (induction ws) (simp_all add: getlines_word)

section \<open>Unsigned integers\<close>

definition digitChar :: "nat \<Rightarrow> char" where
  "digitChar n = char_of (48 + n)"

fun showNat :: "nat \<Rightarrow> string" where
  "showNat n = (if n < 10 then [digitChar n] else showNat (n div 10) @ [digitChar (n mod 10)])"

declare showNat.simps [simp del]

definition code :: "char \<Rightarrow> nat" where
  "code c = of_char c"

definition isspace :: "char \<Rightarrow> bool" where
  "isspace c \<longleftrightarrow> code c = 32 \<or> (9 \<le> code c \<and> code c \<le> 13)"

definition isdigit :: "char \<Rightarrow> bool" where
  "isdigit c \<longleftrightarrow> 48 \<le> code c \<and> code c \<le> 57"

definition readDigits :: "string \<Rightarrow> nat" where
  "readDigits ds = foldl (\<lambda>a c. 10 * a + (code c - 48)) 0 ds"

text \<open>
  \<open>None\<close> is the exception \<open>invalid_argument\<close> (no digits) or \<open>out_of_range\<close>.  A minus sign negates the
  value modulo 2 to the 64; characters after the digits are ignored.
\<close>

definition stoull :: "string \<Rightarrow> u64 option" where
  "stoull s =
     (let s1 = dropWhile isspace s;
          neg = (s1 \<noteq> [] \<and> hd s1 = CHR ''-'');
          s2 = (if s1 \<noteq> [] \<and> (hd s1 = CHR ''-'' \<or> hd s1 = CHR ''+'') then tl s1 else s1);
          ds = takeWhile isdigit s2
      in if ds = [] then None
         else let v = readDigits ds
              in if v \<ge> 2 ^ 64 then None
                 else Some (if neg then - of_nat v else of_nat v))"

lemma code_digitChar: "n < 10 \<Longrightarrow> code (digitChar n) = 48 + n"
  by (simp add: code_def digitChar_def)

lemma isdigit_digitChar: "n < 10 \<Longrightarrow> isdigit (digitChar n)"
  by (simp add: isdigit_def code_digitChar)

lemma showNat_digits: "\<forall>c \<in> set (showNat n). isdigit c"
proof (induction n rule: showNat.induct)
  case (1 n)
  then show ?case by (subst showNat.simps) (auto simp: isdigit_digitChar)
qed

lemma showNat_nonempty: "showNat n \<noteq> []"
  by (subst showNat.simps) simp

lemma readDigits_snoc: "readDigits (ds @ [c]) = 10 * readDigits ds + (code c - 48)"
  by (simp add: readDigits_def)

lemma readDigits_showNat: "readDigits (showNat n) = n"
proof (induction n rule: showNat.induct)
  case (1 n)
  show ?case
  proof (cases "n < 10")
    case True
    then show ?thesis by (subst showNat.simps) (simp add: readDigits_def code_digitChar)
  next
    case False
    then have "showNat n = showNat (n div 10) @ [digitChar (n mod 10)]" by (subst showNat.simps) simp
    then show ?thesis using 1 [OF False] by (simp add: readDigits_snoc code_digitChar)
  qed
qed

lemma isdigit_not: "isdigit c \<Longrightarrow> \<not> isspace c \<and> c \<noteq> CHR ''-'' \<and> c \<noteq> CHR ''+'' \<and> c \<noteq> CHR 0x09 \<and> c \<noteq> CHR 0x0A"
  by (auto simp: isdigit_def isspace_def code_def)

lemma stoull_showNat: "n < 2 ^ 64 \<Longrightarrow> stoull (showNat n) = Some (of_nat n)"
proof -
  assume n: "n < 2 ^ 64"
  obtain c cs where s: "showNat n = c # cs" using showNat_nonempty by (cases "showNat n") auto
  have d: "\<forall>x \<in> set (showNat n). isdigit x" by (rule showNat_digits)
  then have c: "\<not> isspace c" "c \<noteq> CHR ''-''" "c \<noteq> CHR ''+''" using s isdigit_not by auto
  have "dropWhile isspace (showNat n) = showNat n" "takeWhile isdigit (showNat n) = showNat n"
    using s c d by (simp_all add: takeWhile_eq_all_conv)
  then show ?thesis
    using n c s readDigits_showNat [of n] by (simp add: stoull_def Let_def)
qed

lemma showNat_no_sep: "CHR 0x09 \<notin> set (showNat n)" "CHR 0x0A \<notin> set (showNat n)" "CHR 0x0D \<notin> set (showNat n)"
  using showNat_digits [of n] by (auto simp: isdigit_def code_def)

section \<open>Hexadecimal\<close>

definition hexChar :: "nat \<Rightarrow> char" where
  "hexChar n = ''0123456789abcdef'' ! n"

definition toHex :: "bytes \<Rightarrow> string" where
  "toHex bs = concat (map (\<lambda>b. [hexChar (unat (drop_bit 4 b)), hexChar (unat (b AND 0x0F))]) bs)"

definition nib :: "char \<Rightarrow> nat option" where
  "nib c =
     (if 48 \<le> code c \<and> code c \<le> 57 then Some (code c - 48)
      else if 97 \<le> code c \<and> code c \<le> 102 then Some (code c - 97 + 10)
      else if 65 \<le> code c \<and> code c \<le> 70 then Some (code c - 65 + 10)
      else None)"

fun fromHexLoop :: "string \<Rightarrow> bytes option" where
  "fromHexLoop (a # b # r) =
     (case (nib a, nib b) of
        (Some hi, Some lo) \<Rightarrow> map_option ((#) (of_nat (hi * 16 + lo))) (fromHexLoop r)
      | _ \<Rightarrow> None)"
| "fromHexLoop _ = Some []"

definition fromHex :: "string \<Rightarrow> bytes option" where
  "fromHex hex = (if length hex mod 2 \<noteq> 0 then None else fromHexLoop hex)"

lemma hexChars: "n < 16 \<Longrightarrow> nib (hexChar n) = Some n \<and> hexChar n \<noteq> CHR 0x09 \<and> hexChar n \<noteq> CHR 0x0A"
proof -
  have "list_all (\<lambda>n. nib (hexChar n) = Some n \<and> hexChar n \<noteq> CHR 0x09 \<and> hexChar n \<noteq> CHR 0x0A) [0 ..< 16]"
    by code_simp
  moreover assume "n < 16"
  ultimately show ?thesis by (simp add: list_all_iff)
qed

lemma nibbles:
  fixes b :: u8
  shows "unat (drop_bit 4 b) < 16" "unat (b AND 0x0F) < 16"
    "unat (drop_bit 4 b) * 16 + unat (b AND 0x0F) = unat b"
proof -
  have h: "unat (drop_bit 4 b) = unat b div 16" by (simp add: drop_bit_eq_div unat_div)
  have l: "unat (b AND 0x0F) = unat b mod 16"
  proof -
    have "unat (b AND mask 4) = unat b mod 2 ^ 4"
      unfolding take_bit_eq_mask [symmetric] unsigned_take_bit_eq by (rule take_bit_eq_mod)
    then show ?thesis by (simp add: mask_eq_exp_minus_1)
  qed
  show "unat (drop_bit 4 b) < 16" using h unat_u8_less [of b] by simp
  show "unat (b AND 0x0F) < 16" using l by simp
  show "unat (drop_bit 4 b) * 16 + unat (b AND 0x0F) = unat b" using h l by simp
qed

lemma fromHex_toHex: "fromHex (toHex bs) = Some bs"
proof -
  have "length (toHex bs) = 2 * length bs" by (induction bs) (simp_all add: toHex_def)
  moreover have "fromHexLoop (toHex bs) = Some bs"
  proof (induction bs)
    case (Cons b bs)
    have "of_nat (unat (drop_bit 4 b) * 16 + unat (b AND 0x0F)) = b"
      using nibbles(3) [of b] by (simp only: nibbles(3) of_nat_unat ucast_id)
    then show ?case using Cons hexChars nibbles(1,2) [of b] by (simp add: toHex_def)
  qed (simp add: toHex_def)
  ultimately show ?thesis by (simp add: fromHex_def)
qed

lemma toHex_no_sep: "CHR 0x09 \<notin> set (toHex bs)" "CHR 0x0A \<notin> set (toHex bs)"
proof -
  have "\<forall>c \<in> set (toHex bs). c \<noteq> CHR 0x09 \<and> c \<noteq> CHR 0x0A"
    using hexChars nibbles(1,2) by (fastforce simp: toHex_def)
  then show "CHR 0x09 \<notin> set (toHex bs)" "CHR 0x0A \<notin> set (toHex bs)" by auto
qed

lemma toHex_inj: "toHex a = toHex b \<longleftrightarrow> a = b"
  by (metis fromHex_toHex option.inject)

end
