(* ===== verification/PairingGate.thy ===== *)
theory PairingGate
  imports TextFormat StatusCodes
begin

text \<open>
  The limit on pairing attempts (\<open>session/PairingGate.h\<close>, \<open>session/PairingGate.cpp\<close>).  Times are
  64-bit nanosecond counts; the clock is the argument \<open>now\<close>.
\<close>

section \<open>The gate\<close>

record PairingLimits =
  pl_freeAttempts :: u32
  pl_baseLockoutMs :: u64
  pl_maxLockoutMs :: u64
  pl_decayAfterMs :: u64

definition PairingLimits0 :: PairingLimits where
  "PairingLimits0 =
     \<lparr>pl_freeAttempts = 3, pl_baseLockoutMs = 30000, pl_maxLockoutMs = 3600000,
      pl_decayAfterMs = 86400000\<rparr>"

record PairingGate =
  pg_limits :: PairingLimits
  pg_failures :: u32
  pg_lastFailureNs :: u64
  pg_everFailed :: bool

definition PairingGate_new :: "PairingLimits \<Rightarrow> PairingGate" where
  "PairingGate_new l = \<lparr>pg_limits = l, pg_failures = 0, pg_lastFailureNs = 0, pg_everFailed = False\<rparr>"

abbreviation (input) kMsToNs :: u64 where "kMsToNs \<equiv> 1000000"

text \<open>The doubling loop, with the number of rounds left.\<close>

fun doubleLoop :: "u64 \<Rightarrow> nat \<Rightarrow> u64 \<Rightarrow> u64" where
  "doubleLoop mx 0 ms = ms"
| "doubleLoop mx (Suc n) ms = (if ms \<ge> mx then ms else doubleLoop mx n (ms * 2))"

definition lockoutMsFor :: "PairingLimits \<Rightarrow> u32 \<Rightarrow> u64" where
  "lockoutMsFor l failures =
     (if failures \<le> pl_freeAttempts l then 0
      else let over = failures - pl_freeAttempts l;
               ms = doubleLoop (pl_maxLockoutMs l) (unat over - 1) (pl_baseLockoutMs l)
           in if ms > pl_maxLockoutMs l then pl_maxLockoutMs l else ms)"

definition sinceNs :: "u64 \<Rightarrow> PairingGate \<Rightarrow> u64" where
  "sinceNs now g = (if now \<ge> pg_lastFailureNs g then now - pg_lastFailureNs g else 0)"

text \<open>The status and the value of \<open>*retryAfterMs\<close>.\<close>

definition mayAttempt :: "u64 \<Rightarrow> PairingGate \<Rightarrow> Status \<times> u64" where
  "mayAttempt now g =
     (if \<not> pg_everFailed g \<or> pg_failures g = 0 then (Ok, 0)
      else let since = sinceNs now g;
               l = pg_limits g
           in if pl_decayAfterMs l \<noteq> 0 \<and> since \<ge> pl_decayAfterMs l * kMsToNs then (Ok, 0)
              else let lockMs = lockoutMsFor l (pg_failures g)
                   in if lockMs = 0 then (Ok, 0)
                      else let lockNs = lockMs * kMsToNs
                           in if since \<ge> lockNs then (Ok, 0)
                              else (Busy, (lockNs - since) div kMsToNs + 1))"

definition lockedOut :: "u64 \<Rightarrow> PairingGate \<Rightarrow> bool" where
  "lockedOut now g \<longleftrightarrow> fst (mayAttempt now g) \<noteq> Ok"

definition recordFailure :: "u64 \<Rightarrow> PairingGate \<Rightarrow> PairingGate" where
  "recordFailure now g =
     (let l = pg_limits g;
          f = (if pg_everFailed g \<and> pl_decayAfterMs l \<noteq> 0
                  \<and> sinceNs now g \<ge> pl_decayAfterMs l * kMsToNs then 0 else pg_failures g)
      in g\<lparr>pg_failures := (if f \<noteq> 0xFFFFFFFF then f + 1 else f),
           pg_lastFailureNs := now, pg_everFailed := True\<rparr>)"

definition recordSuccess :: "PairingGate \<Rightarrow> PairingGate" where
  "recordSuccess g = g\<lparr>pg_failures := 0, pg_everFailed := False\<rparr>"

abbreviation kGateHeader :: string where "kGateHeader \<equiv> ''airusb-pairgate-v1''"
abbreviation TAB :: char where "TAB \<equiv> CHR 0x09"
abbreviation LF :: char where "LF \<equiv> CHR 0x0A"
abbreviation CR :: char where "CR \<equiv> CHR 0x0D"

definition gate_serialize :: "PairingGate \<Rightarrow> string" where
  "gate_serialize g =
     kGateHeader @ [LF]
     @ showNat (unat (pg_failures g)) @ [TAB]
     @ showNat (unat (pg_lastFailureNs g)) @ [TAB]
     @ showNat (if pg_everFailed g then 1 else 0) @ [LF]"

definition chopCR :: "string \<Rightarrow> string" where
  "chopCR line = (if line \<noteq> [] \<and> last line = CR then butlast line else line)"

definition gate_deserialize :: "string \<Rightarrow> PairingGate \<Rightarrow> bool \<times> PairingGate" where
  "gate_deserialize txt g =
     (case getline LF txt of
        None \<Rightarrow> (False, g)
      | Some (l1, r1) \<Rightarrow>
          if chopCR l1 \<noteq> kGateHeader then (False, g)
          else case getline LF r1 of
            None \<Rightarrow> (False, g)
          | Some (l2, _) \<Rightarrow>
              (case getline TAB (chopCR l2) of
                 None \<Rightarrow> (False, g)
               | Some (a, ra) \<Rightarrow>
                   case getline TAB ra of
                     None \<Rightarrow> (False, g)
                   | Some (b, rb) \<Rightarrow>
                       case getline TAB rb of
                         None \<Rightarrow> (False, g)
                       | Some (c, _) \<Rightarrow>
                           case (stoull a, stoull b, stoull c) of
                             (Some f, Some ns, Some ev) \<Rightarrow>
                               (True, g\<lparr>pg_failures := ucast f, pg_lastFailureNs := ns,
                                       pg_everFailed := (ev \<noteq> 0)\<rparr>)
                           | _ \<Rightarrow> (False, g)))"

section \<open>The lockout\<close>

lemma doubleLoop_min:
  assumes "unat mx \<le> 2 ^ 63"
  shows "min (unat (doubleLoop mx n ms)) (unat mx) = min (unat ms * 2 ^ n) (unat mx)"
proof (induction n arbitrary: ms)
  case (Suc n)
  show ?case
  proof (cases "ms \<ge> mx")
    case True
    then have "unat mx \<le> unat ms" by (simp add: word_le_nat_alt)
    moreover from this have "unat mx \<le> unat ms * 2 ^ Suc n"
      by (rule le_trans) simp
    ultimately show ?thesis using True by (simp only: doubleLoop.simps if_True min.absorb2)
  next
    case False
    then have "unat ms < 2 ^ 63" using assms by (simp add: word_le_nat_alt)
    then have "unat (ms * 2) = unat ms * 2" by (simp add: unat_word_ariths)
    then show ?thesis using False Suc [of "ms * 2"] by (simp add: mult_ac)
  qed
qed simp

lemma lockout_value:
  assumes "unat (pl_maxLockoutMs l) \<le> 2 ^ 63"
  shows "unat (lockoutMsFor l f) =
    (if f \<le> pl_freeAttempts l then 0
     else min (unat (pl_baseLockoutMs l) * 2 ^ (unat f - unat (pl_freeAttempts l) - 1)) (unat (pl_maxLockoutMs l)))"
proof (cases "f \<le> pl_freeAttempts l")
  case False
  let ?n = "unat (f - pl_freeAttempts l) - 1"
  let ?d = "doubleLoop (pl_maxLockoutMs l) ?n (pl_baseLockoutMs l)"
  have "unat (f - pl_freeAttempts l) = unat f - unat (pl_freeAttempts l)"
    using False by (simp add: unat_sub word_le_nat_alt)
  moreover have "unat (lockoutMsFor l f) = min (unat ?d) (unat (pl_maxLockoutMs l))"
    using False by (auto simp: lockoutMsFor_def Let_def min_def word_less_nat_alt)
  ultimately show ?thesis using False doubleLoop_min [OF assms, of ?n "pl_baseLockoutMs l"] by simp
qed (simp add: lockoutMsFor_def)

text \<open>The waiting time after the \<open>n\<close>-th failure of a streak, with the default limits.\<close>

definition waitNs :: "nat \<Rightarrow> nat" where
  "waitNs n = (if n \<le> 3 then 0 else min (30000 * 2 ^ (n - 4)) 3600000) * 1000000"

lemma waitNs_le: "waitNs n \<le> 3600000000000"
  by (simp add: waitNs_def)

lemma lockout_default: "unat (lockoutMsFor PairingLimits0 f * kMsToNs) = waitNs (unat f)"
proof -
  have v: "unat (lockoutMsFor PairingLimits0 f) = waitNs (unat f) div 1000000"
    by (simp add: lockout_value PairingLimits0_def waitNs_def word_le_nat_alt)
  moreover have "waitNs (unat f) div 1000000 * 1000000 = waitNs (unat f)" by (simp add: waitNs_def)
  ultimately show ?thesis
    using waitNs_le [of "unat f"] by (simp add: unat_word_ariths)
qed

lemma unat_since:
  "unat (pg_lastFailureNs g) \<le> unat now \<Longrightarrow> unat (sinceNs now g) = unat now - unat (pg_lastFailureNs g)"
  by (simp add: sinceNs_def word_le_nat_alt unat_sub)

lemma decay_default: "unat (pl_decayAfterMs PairingLimits0 * kMsToNs) = 86400000000000"
  by (simp add: PairingLimits0_def)

lemma mayAttempt_default:
  assumes "pg_limits g = PairingLimits0" "pg_everFailed g" "pg_failures g \<noteq> 0"
    "unat (pg_lastFailureNs g) \<le> unat now"
  shows "fst (mayAttempt now g) = Ok \<longleftrightarrow>
    unat now - unat (pg_lastFailureNs g) \<ge> waitNs (unat (pg_failures g))"
proof -
  let ?s = "unat now - unat (pg_lastFailureNs g)"
  have s: "unat (sinceNs now g) = ?s" using unat_since assms(4) by simp
  have d: "pl_decayAfterMs PairingLimits0 \<noteq> 0" by (simp add: PairingLimits0_def)
  have lock: "lockoutMsFor PairingLimits0 (pg_failures g) = 0 \<Longrightarrow> waitNs (unat (pg_failures g)) = 0"
    using lockout_default [of "pg_failures g"] by simp
  show ?thesis
    using assms(1-3) d s lock waitNs_le [of "unat (pg_failures g)"]
      lockout_default [of "pg_failures g"] decay_default
    by (auto simp: mayAttempt_def Let_def word_le_nat_alt)
qed

section \<open>Runs of guesses\<close>

text \<open>Failed attempts at the times \<open>ts\<close>, each begun when the gate allows it.\<close>

fun guesses :: "u64 list \<Rightarrow> PairingGate \<Rightarrow> bool" where
  "guesses [] g \<longleftrightarrow> True"
| "guesses (t # ts) g \<longleftrightarrow> fst (mayAttempt t g) = Ok \<and> guesses ts (recordFailure t g)"

text \<open>The gate after \<open>n\<close> failures without a quiet day, the last one at \<open>t\<close>.\<close>

definition streak :: "nat \<Rightarrow> u64 \<Rightarrow> PairingGate \<Rightarrow> bool" where
  "streak n t g \<longleftrightarrow> pg_limits g = PairingLimits0 \<and> unat (pg_failures g) = n
     \<and> (0 < n \<longrightarrow> pg_everFailed g \<and> pg_lastFailureNs g = t)"

lemma streak_failure:
  assumes "streak n t g" "Suc n < 2 ^ 32" "0 < n \<longrightarrow> unat t \<le> unat t' \<and> unat t' - unat t < 86400000000000"
  shows "streak (Suc n) t' (recordFailure t' g)"
proof -
  have "\<not> (pg_everFailed g \<and> pl_decayAfterMs PairingLimits0 \<noteq> 0
      \<and> sinceNs t' g \<ge> pl_decayAfterMs PairingLimits0 * kMsToNs) \<or> n = 0"
    using assms(1,3) unat_since [of g t'] decay_default by (auto simp: streak_def word_le_nat_alt)
  moreover have "pg_failures g \<noteq> 0xFFFFFFFF" using assms(1,2) by (auto simp: streak_def)
  moreover have "unat (pg_failures g + 1) = Suc (unat (pg_failures g))"
    using assms(1,2) by (simp add: streak_def unat_word_ariths)
  ultimately show ?thesis
    using assms(1) by (auto simp: streak_def recordFailure_def Let_def unat_eq_zero)
qed

lemma streak_allowed:
  assumes "streak n t g" "0 < n" "unat t \<le> unat t'"
  shows "fst (mayAttempt t' g) = Ok \<longleftrightarrow> unat t' - unat t \<ge> waitNs n"
proof -
  have "pg_failures g \<noteq> 0" using assms(1,2) by (auto simp: streak_def)
  then show ?thesis using mayAttempt_default [of g t'] assms by (auto simp: streak_def)
qed

text \<open>Consecutive guesses of a streak are at least the waiting time apart.\<close>

lemma guesses_spaced:
  assumes "streak n t g" "0 < n" "guesses ts g" "n + length ts < 2 ^ 32"
    "sorted (map unat (t # ts))" "\<forall>x \<in> set ts. unat x - unat t < 86400000000000" "m < length ts"
  shows "unat (ts ! m) \<ge> unat t + (\<Sum>j \<leftarrow> [0 ..< Suc m]. waitNs (n + j))"
  using assms
proof (induction ts arbitrary: n t g m)
  case (Cons t' ts)
  have le: "unat t \<le> unat t'" "unat t' - unat t < 86400000000000" using Cons.prems(5,6) by simp_all
  have gap: "unat t' \<ge> unat t + waitNs n"
    using streak_allowed [OF Cons.prems(1,2) le(1)] Cons.prems(3) le(1) by auto
  show ?case
  proof (cases m)
    case (Suc k)
    have st: "streak (Suc n) t' (recordFailure t' g)"
      by (rule streak_failure [OF Cons.prems(1)]) (use Cons.prems(4) le in auto)
    have near: "\<forall>x \<in> set ts. unat x - unat t' < 86400000000000"
      using Cons.prems(5,6) by fastforce
    have "unat (ts ! k) \<ge> unat t' + (\<Sum>j \<leftarrow> [0 ..< Suc k]. waitNs (Suc n + j))"
      by (rule Cons.IH [OF st]) (use Cons.prems Suc near in auto)
    moreover have "(\<Sum>j \<leftarrow> [0 ..< Suc m]. waitNs (n + j))
        = waitNs n + (\<Sum>j \<leftarrow> [0 ..< Suc k]. waitNs (Suc n + j))"
      unfolding Suc by (simp only: upt_conv_Cons map_Suc_upt [symmetric] zero_less_Suc list.map sum_list.Cons map_map) (simp add: comp_def)
    ultimately show ?thesis using gap Suc by simp
  qed (use gap in simp)
qed simp

lemma guesses_take: "guesses ts g \<Longrightarrow> guesses (take n ts) g"
  by (induction ts arbitrary: n g) (auto simp: take_Cons split: nat.split)

lemma sorted_map_take: "sorted (map f xs) \<Longrightarrow> sorted (map f (take n xs))"
  by (simp add: take_map [symmetric] sorted_wrt_take)

lemma hourly_allowed:
  assumes "pg_limits g = PairingLimits0" "unat (pg_lastFailureNs g) + 3600000000000 \<le> unat now"
  shows "fst (mayAttempt now g) = Ok"
proof (cases "pg_everFailed g \<and> pg_failures g \<noteq> 0")
  case True
  have "waitNs (unat (pg_failures g)) \<le> unat now - unat (pg_lastFailureNs g)"
    using assms(2) waitNs_le [of "unat (pg_failures g)"] by linarith
  then show ?thesis using mayAttempt_default [OF assms(1)] True assms(2) by simp
qed (auto simp: mayAttempt_def)

section \<open>Properties\<close>

text \<open>
  The lockout follows its description: after \<open>f\<close> failures it is zero up to the free attempts,
  then the base doubled once per further failure, capped at the maximum, with no overflow for
  any maximum up to 2 to the 63.
\<close>

theorem lockout_doubles:
  assumes "unat (pl_maxLockoutMs l) \<le> 2 ^ 63"
  shows "unat (lockoutMsFor l f) =
    (if f \<le> pl_freeAttempts l then 0
     else min (unat (pl_baseLockoutMs l) * 2 ^ (unat f - unat (pl_freeAttempts l) - 1)) (unat (pl_maxLockoutMs l)))"
  by (rule lockout_value [OF assms])

theorem lockout_doubles_witness:
  "unat (lockoutMsFor PairingLimits0 6) = 120000 \<and> unat (lockoutMsFor PairingLimits0 40) = 3600000"
proof -
  have m: "unat (pl_maxLockoutMs PairingLimits0) \<le> 2 ^ 63" by (simp add: PairingLimits0_def)
  show ?thesis
    using lockout_doubles [OF m, of 6] lockout_doubles [OF m, of 40]
    by (simp add: PairingLimits0_def word_le_nat_alt)
qed

text \<open>
  C36. Guessing is slow: on a gate with the default limits and no failure on record, at most 33
  failed attempts are admitted within any twenty-four hours, whatever their timing.
\<close>

theorem guesses_per_day:
  assumes "guesses ts (PairingGate_new PairingLimits0)" "sorted (map unat ts)"
    "\<forall>x \<in> set ts. unat x - unat (hd ts) < 86400000000000"
  shows "length ts \<le> 33"
proof (rule ccontr)
  assume "\<not> length ts \<le> 33"
  then obtain t us where ts: "ts = t # us" "33 \<le> length us" by (cases ts) auto
  define vs where "vs = take 33 us"
  have "streak 0 0 (PairingGate_new PairingLimits0)" by (simp add: streak_def PairingGate_new_def)
  then have st: "streak 1 t (recordFailure t (PairingGate_new PairingLimits0))"
    using streak_failure [of 0 0 _ t] by simp
  have vs: "guesses vs (recordFailure t (PairingGate_new PairingLimits0))" "length vs = 33"
    "sorted (map unat (t # vs))" "\<forall>x \<in> set vs. unat x - unat t < 86400000000000"
    using assms ts guesses_take [of us _ 33] by (auto simp: vs_def sorted_map_take dest: in_set_takeD)
  have "unat (vs ! 32) \<ge> unat t + (\<Sum>j \<leftarrow> [0 ..< Suc 32]. waitNs (1 + j))"
    by (rule guesses_spaced [OF st _ vs(1) _ vs(3,4)]) (use vs(2) in simp_all)
  moreover have "[0 ..< Suc 32] = [0 ..< 3] @ [3 ..< 33]" 
    using upt_add_eq_append [of 0 3 30] by simp
  then have "(\<Sum>j \<leftarrow> [0 ..< Suc 32]. waitNs (1 + j)) = 86610000000000"
    by (simp add: waitNs_def upt_rec_numeral upt_conv_Cons)
  moreover have "unat (vs ! 32) - unat t < 86400000000000" using vs(2,4) by simp
  ultimately show False by linarith
qed

theorem guesses_per_day_witness:
  "guesses [0, 0, 0, 0, 30000000000] (PairingGate_new PairingLimits0)
    \<and> length [0 :: u64, 0, 0, 0, 30000000000] \<le> 33"
proof -
  have g: "guesses [0, 0, 0, 0, 30000000000] (PairingGate_new PairingLimits0)"
    by (simp add: PairingGate_new_def PairingLimits0_def mayAttempt_def recordFailure_def sinceNs_def
        lockoutMsFor_def Let_def word_le_nat_alt)
  from guesses_per_day [OF this] g show ?thesis by simp
qed

text \<open>
  No lockout lasts longer than an hour: on a gate with the default limits, \<open>n\<close> failed attempts
  an hour apart are all admitted, so \<open>n\<close> guesses are through after \<open>n\<close> hours, a million of them after
  114 years, as long as the clock does not wrap.
\<close>

theorem hourly_guesses:
  assumes "n * 3600000000000 < 2 ^ 64"
  shows "guesses (map (\<lambda>i. of_nat (i * 3600000000000)) [0 ..< n]) (PairingGate_new PairingLimits0)"
proof -
  have "guesses (map (\<lambda>i. of_nat (i * 3600000000000)) [k ..< n]) g"
    if "pg_limits g = PairingLimits0" "k = 0 \<longrightarrow> \<not> pg_everFailed g"
      "0 < k \<longrightarrow> pg_lastFailureNs g = of_nat ((k - 1) * 3600000000000)" "k \<le> n" for k g
    using that
  proof (induction "n - k" arbitrary: k g)
    case (Suc d)
    have k: "k < n" using Suc.hyps(2) by simp
    then have bound: "k * 3600000000000 < 2 ^ 64" using assms mult_le_mono1 [of k n 3600000000000] by linarith
    have "fst (mayAttempt (of_nat (k * 3600000000000)) g) = Ok"
    proof (cases k)
      case 0
      then show ?thesis using Suc.prems by (simp add: mayAttempt_def)
    next
      case j: (Suc j)
      have "unat (of_nat (k * 3600000000000) :: u64) = k * 3600000000000"
        "unat (of_nat (j * 3600000000000) :: u64) = j * 3600000000000"
        by (rule unat_of_nat_u64, use bound j in simp)+
      moreover have "pg_lastFailureNs g = of_nat (j * 3600000000000)"
        using Suc.prems(3) j by (simp del: of_nat_mult)
      ultimately show ?thesis
        by (intro hourly_allowed [OF Suc.prems(1)]) (simp add: j del: of_nat_mult)
    qed
    moreover have "guesses (map (\<lambda>i. of_nat (i * 3600000000000)) [Suc k ..< n])
        (recordFailure (of_nat (k * 3600000000000)) g)"
      by (rule Suc.hyps(1)) (use Suc.hyps(2) Suc.prems k in \<open>auto simp: recordFailure_def Let_def\<close>)
    ultimately show ?case using k by (simp add: upt_conv_Cons)
  qed simp
  from this [of "PairingGate_new PairingLimits0" 0] show ?thesis by (simp add: PairingGate_new_def)
qed

theorem hourly_guesses_witness:
  "guesses (map (\<lambda>i. of_nat (i * 3600000000000)) [0 ..< 1000000]) (PairingGate_new PairingLimits0)"
  by (rule hourly_guesses) simp

text \<open>
  The gate survives a restart: reading back what \<open>serialize\<close> wrote restores the failure count,
  the time of the last failure and the flag, into a gate with any limits.
\<close>

theorem gate_roundtrip:
  "gate_deserialize (gate_serialize g) h
    = (True, g\<lparr>pg_limits := pg_limits h\<rparr>)"
proof -
  define a b c where "a = showNat (unat (pg_failures g))" and "b = showNat (unat (pg_lastFailureNs g))"
    and "c = showNat (if pg_everFailed g then 1 else 0)"
  note abc = this
  define line where "line = a @ TAB # b @ TAB # c"
  have c: "c \<noteq> []" "last c \<noteq> CR"
    using last_in_set [OF showNat_nonempty] showNat_no_sep(3) showNat_nonempty unfolding abc by metis+
  have line: "LF \<notin> set line" "chopCR line = line"
    using c by (auto simp: abc showNat_no_sep chopCR_def line_def)
  have g1: "getline LF (gate_serialize g) = Some (kGateHeader, line @ [LF])"
    using getline_word [of LF kGateHeader "line @ [LF]"] by (simp add: gate_serialize_def line_def abc)
  have g2: "getline LF (line @ [LF]) = Some (line, [])"
    using getline_word [of LF line "[]"] line(1) by simp
  have g3: "getline TAB line = Some (a, b @ TAB # c)" "getline TAB (b @ TAB # c) = Some (b, c)"
    "getline TAB c = Some (c, [])"
    unfolding line_def using c(1) by (simp_all add: getline_word getline_last abc showNat_no_sep)
  have n: "stoull a = Some (ucast (pg_failures g))" "stoull b = Some (pg_lastFailureNs g)"
    "stoull c = Some (if pg_everFailed g then 1 else 0)"
    using stoull_showNat unat_u32_less [of "pg_failures g"] unat_u64_less [of "pg_lastFailureNs g"]
    by (simp_all add: abc of_nat_unat)
  have h: "chopCR kGateHeader = kGateHeader" by (simp add: chopCR_def)
  have "gate_deserialize (gate_serialize g) h = (True, h\<lparr>pg_failures := pg_failures g,
      pg_lastFailureNs := pg_lastFailureNs g, pg_everFailed := pg_everFailed g\<rparr>)"
    by (simp add: gate_deserialize_def g1 g2 g3 n h line(2))
  then show ?thesis by (cases g; cases h) simp
qed

end
