(* ===== verification/PeerStore.thy ===== *)
theory PeerStore
  imports TextFormat Assoc StatusCodes "HOL-Library.List_Lexorder" "HOL-Library.Char_ord"
begin

text \<open>
  Pinned peer identities (\<open>session/PeerStore.h\<close>, \<open>session/PeerStore.cpp\<close>).  The \<open>std::map\<close> keyed by
  the hexadecimal identity key is an association list in key order.  \<open>crypto::verifyBinding\<close>,
  an Ed25519 check, is the parameter \<open>verify\<close>; what reading or writing the file does is the
  argument of \<open>ps_load\<close> and the result of \<open>ps_save\<close>.
\<close>

section \<open>The store\<close>

record PeerIdentity =
  pi_identityKey :: bytes
  pi_noiseKey :: bytes
  pi_binding :: bytes

abbreviation (input) kMayList :: u32 where "kMayList \<equiv> 1"
abbreviation (input) kMayAttach :: u32 where "kMayAttach \<equiv> 2"
abbreviation (input) kMayAttachWithoutPrompt :: u32 where "kMayAttachWithoutPrompt \<equiv> 4"

definition kDefaultGrants :: u32 where
  "kDefaultGrants = kMayList OR kMayAttach"

record PinnedPeer =
  pp_identityKey :: bytes
  pp_noiseKey :: bytes
  pp_name :: string
  pp_grants :: u32
  pp_firstSeenNs :: u64
  pp_lastSeenNs :: u64

type_synonym PeerStore = "(string, PinnedPeer) smap"

text \<open>Insertion at the place of the key, as \<open>std::map::emplace\<close>: an existing entry stays.\<close>

fun emplace :: "string \<Rightarrow> 'v \<Rightarrow> (string, 'v) smap \<Rightarrow> (string, 'v) smap" where
  "emplace k v [] = [(k, v)]"
| "emplace k v ((k', v') # m) =
     (if k = k' then (k', v') # m
      else if k < k' then (k, v) # (k', v') # m
      else (k', v') # emplace k v m)"

definition storeKey :: "bytes \<Rightarrow> string" where
  "storeKey k = toHex k"

definition parseKey :: "string \<Rightarrow> bytes option" where
  "parseKey hex =
     (case fromHex hex of None \<Rightarrow> None | Some v \<Rightarrow> if length v \<noteq> 32 then None else Some v)"

definition sanitizeName :: "string \<Rightarrow> string" where
  "sanitizeName s =
     map (\<lambda>c. if code c < 0x20 \<or> code c > 0x7E \<or> c = CHR 0x09 \<or> c = CHR 0x0A then CHR ''.'' else c)
       (if length s > 64 then take 64 s else s)"

definition ps_find :: "PeerStore \<Rightarrow> bytes \<Rightarrow> PinnedPeer option" where
  "ps_find s identityKey = map_of s (storeKey identityKey)"

definition isPaired :: "PeerStore \<Rightarrow> bytes \<Rightarrow> bool" where
  "isPaired s identityKey \<longleftrightarrow> ps_find s identityKey \<noteq> None"

definition hasGrant :: "PeerStore \<Rightarrow> bytes \<Rightarrow> u32 \<Rightarrow> bool" where
  "hasGrant s identityKey g \<longleftrightarrow>
     (case ps_find s identityKey of None \<Rightarrow> False | Some p \<Rightarrow> pp_grants p AND g \<noteq> 0)"

definition pin ::
    "(PeerIdentity \<Rightarrow> bool) \<Rightarrow> PeerIdentity \<Rightarrow> string \<Rightarrow> u32 \<Rightarrow> u64 \<Rightarrow> PeerStore \<Rightarrow> Status \<times> PeerStore" where
  "pin verify peer name grants nowNs s =
     (if \<not> verify peer then (AuthFailed, s)
      else let k = storeKey (pi_identityKey peer)
           in case map_of s k of
                None \<Rightarrow>
                  (Ok, emplace k
                    \<lparr>pp_identityKey = pi_identityKey peer, pp_noiseKey = pi_noiseKey peer,
                     pp_name = sanitizeName name, pp_grants = grants,
                     pp_firstSeenNs = nowNs, pp_lastSeenNs = nowNs\<rparr> s)
              | Some p \<Rightarrow>
                  (Ok, AList.update k
                    (p\<lparr>pp_noiseKey := pi_noiseKey peer, pp_name := sanitizeName name,
                       pp_grants := grants, pp_lastSeenNs := nowNs\<rparr>) s))"

definition unpin :: "bytes \<Rightarrow> PeerStore \<Rightarrow> bool \<times> PeerStore" where
  "unpin identityKey s =
     (let k = storeKey identityKey in (map_of s k \<noteq> None, AList.delete k s))"

definition setGrants :: "bytes \<Rightarrow> u32 \<Rightarrow> PeerStore \<Rightarrow> PeerStore" where
  "setGrants identityKey grants s =
     (let k = storeKey identityKey
      in case map_of s k of None \<Rightarrow> s | Some p \<Rightarrow> AList.update k (p\<lparr>pp_grants := grants\<rparr>) s)"

definition touch :: "bytes \<Rightarrow> u64 \<Rightarrow> PeerStore \<Rightarrow> PeerStore" where
  "touch identityKey nowNs s =
     (let k = storeKey identityKey
      in case map_of s k of None \<Rightarrow> s | Some p \<Rightarrow> AList.update k (p\<lparr>pp_lastSeenNs := nowNs\<rparr>) s)"

definition peers :: "PeerStore \<Rightarrow> PinnedPeer list" where
  "peers s = map snd s"

section \<open>Persistence\<close>

abbreviation kFileHeader :: string where "kFileHeader \<equiv> ''airusb-peers-v1''"

definition peerLine :: "PinnedPeer \<Rightarrow> string" where
  "peerLine p =
     storeKey (pp_identityKey p) @ [CHR 0x09]
     @ storeKey (pp_noiseKey p) @ [CHR 0x09]
     @ showNat (unat (pp_grants p)) @ [CHR 0x09]
     @ showNat (unat (pp_firstSeenNs p)) @ [CHR 0x09]
     @ showNat (unat (pp_lastSeenNs p)) @ [CHR 0x09]
     @ pp_name p"

definition ps_serialize :: "PeerStore \<Rightarrow> string" where
  "ps_serialize s = kFileHeader @ [CHR 0x0A] @ concat (map (\<lambda>(k, p). peerLine p @ [CHR 0x0A]) s)"

text \<open>One non-empty line; \<open>None\<close> is a malformed line.\<close>

definition parseLine :: "string \<Rightarrow> PinnedPeer option" where
  "parseLine line =
     (let f0 = getlines (CHR 0x09) line;
          f = (if length f0 = 5 then f0 @ [[]] else f0)
      in if length f \<noteq> 6 then None
         else case (parseKey (f ! 0), parseKey (f ! 1), stoull (f ! 2), stoull (f ! 3), stoull (f ! 4)) of
           (Some ik, Some nk, Some g, Some t0, Some t1) \<Rightarrow>
             Some \<lparr>pp_identityKey = ik, pp_noiseKey = nk, pp_name = sanitizeName (f ! 5),
                   pp_grants = ucast g, pp_firstSeenNs = t0, pp_lastSeenNs = t1\<rparr>
         | _ \<Rightarrow> None)"

fun parseLines :: "string list \<Rightarrow> PeerStore \<Rightarrow> PeerStore option" where
  "parseLines [] parsed = Some parsed"
| "parseLines (line # rest) parsed =
     (if line = [] then parseLines rest parsed
      else case parseLine line of
             None \<Rightarrow> None
           | Some p \<Rightarrow> parseLines rest (emplace (storeKey (pp_identityKey p)) p parsed))"

definition ps_deserialize :: "string \<Rightarrow> PeerStore \<Rightarrow> bool \<times> PeerStore" where
  "ps_deserialize txt s =
     (case getline (CHR 0x0A) txt of
        None \<Rightarrow> (False, s)
      | Some (line, rest) \<Rightarrow>
          if line \<noteq> kFileHeader then (False, s)
          else case parseLines (getlines (CHR 0x0A) rest) [] of
                 None \<Rightarrow> (False, s)
               | Some parsed \<Rightarrow> (True, parsed))"

text \<open>
  \<open>readWholeFile\<close> yields \<open>None\<close> when the file cannot be opened or is larger than a mebibyte;
  \<open>writeFileAtomically\<close> reports success or failure.
\<close>

definition ps_load :: "string option \<Rightarrow> PeerStore \<Rightarrow> Status \<times> PeerStore" where
  "ps_load contents s =
     (case contents of
        None \<Rightarrow> (Ok, [])
      | Some txt \<Rightarrow>
          let (ok, s') = ps_deserialize txt s in (if ok then (Ok, s') else (MalformedFrame, s')))"

definition ps_save :: "(string \<Rightarrow> bool) \<Rightarrow> PeerStore \<Rightarrow> Status" where
  "ps_save writeFile s = (if writeFile (ps_serialize s) then Ok else Internal)"

section \<open>Invariant\<close>

text \<open>What pinning guarantees of an entry: two 32-byte keys and a printable name.\<close>

definition goodPeer :: "PinnedPeer \<Rightarrow> bool" where
  "goodPeer p \<longleftrightarrow> length (pp_identityKey p) = 32 \<and> length (pp_noiseKey p) = 32
     \<and> sanitizeName (pp_name p) = pp_name p"

definition psInv :: "PeerStore \<Rightarrow> bool" where
  "psInv s \<longleftrightarrow> sorted_wrt (<) (keys s)
     \<and> (\<forall>(k, p) \<in> set s. k = storeKey (pp_identityKey p) \<and> goodPeer p)"

lemma sanitize_idem: "sanitizeName (sanitizeName n) = sanitizeName n"
  by (auto simp: sanitizeName_def code_def)

lemma sanitize_no_sep: "CHR 0x09 \<notin> set (sanitizeName n)" "CHR 0x0A \<notin> set (sanitizeName n)"
  by (auto simp: sanitizeName_def split: if_splits)

lemma keys_emplace: "set (keys (emplace k v m)) = insert k (set (keys m))"
  by (induction m rule: emplace.induct) auto

lemma sorted_emplace: "sorted_wrt (<) (keys m) \<Longrightarrow> sorted_wrt (<) (keys (emplace k v m))"
proof (induction k v m rule: emplace.induct)
  case (2 k v k' v' m)
  then show ?case using keys_emplace [of k v m] by auto
qed simp

lemma set_emplace: "set (emplace k v m) \<subseteq> insert (k, v) (set m)"
  by (induction m rule: emplace.induct) auto

lemma emplace_last: "\<forall>k' \<in> set (keys m). k' < k \<Longrightarrow> emplace k v m = m @ [(k, v)]"
  by (induction m rule: emplace.induct) auto

lemma map_of_emplace:
  "sorted_wrt (<) (keys m) \<Longrightarrow>
    map_of (emplace k v m) = (if map_of m k = None then (map_of m)(k \<mapsto> v) else map_of m)"
proof (induction k v m rule: emplace.induct)
  case (2 k v k' v' m)
  show ?case
  proof (cases "k < k'")
    case True
    then have "k \<notin> set (keys m)" using 2(2) by auto
    then have "map_of m k = None" by (simp add: map_of_notin_keys)
    then show ?thesis using True by auto
  qed (use 2 in \<open>auto split: if_splits\<close>)
qed simp

lemma keys_update_in: "k \<in> set (keys m) \<Longrightarrow> keys (AList.update k v m) = keys m"
  by (induction m) auto

lemma sorted_wrt_removeAll: "sorted_wrt R xs \<Longrightarrow> sorted_wrt R (removeAll x xs)"
  by (induction xs) auto

lemma psInv_distinct: "psInv s \<Longrightarrow> distinct (keys s)"
  by (auto simp: psInv_def strict_sorted_iff)

lemma psInv_lookup: "\<lbrakk>psInv s; map_of s k = Some p\<rbrakk> \<Longrightarrow> k = storeKey (pp_identityKey p) \<and> goodPeer p"
  by (auto simp: psInv_def dest: map_of_SomeD)

lemma psInv_update:
  assumes "psInv s" "map_of s k = Some p" "pp_identityKey q = pp_identityKey p" "goodPeer q"
  shows "psInv (AList.update k q s)"
proof -
  have "keys (AList.update k q s) = keys s"
    using assms(2) map_of_in_keys keys_update_in by metis
  then show ?thesis
    using assms psInv_lookup [OF assms(1,2)] unfolding psInv_def by (auto dest!: mem_update)
qed

lemma psInv_emplace:
  assumes "psInv s" "goodPeer p" "k = storeKey (pp_identityKey p)"
  shows "psInv (emplace k p s)"
  using assms sorted_emplace [of s k p] by (auto simp: psInv_def dest!: subsetD [OF set_emplace])

lemma psInv_delete: "psInv s \<Longrightarrow> psInv (AList.delete k s)"
  unfolding psInv_def keys_delete by (auto intro: sorted_wrt_removeAll dest: set_delete_sub)

section \<open>Sequences of operations\<close>

datatype PeerOp =
    Pin PeerIdentity string u32 u64
  | Unpin bytes
  | SetGrants bytes u32
  | Touch bytes u64

fun peerStep :: "(PeerIdentity \<Rightarrow> bool) \<Rightarrow> PeerOp \<Rightarrow> PeerStore \<Rightarrow> PeerStore" where
  "peerStep verify (Pin peer name grants nowNs) s = snd (pin verify peer name grants nowNs s)"
| "peerStep verify (Unpin k) s = snd (unpin k s)"
| "peerStep verify (SetGrants k grants) s = setGrants k grants s"
| "peerStep verify (Touch k nowNs) s = touch k nowNs s"

definition peerRun :: "(PeerIdentity \<Rightarrow> bool) \<Rightarrow> PeerOp list \<Rightarrow> PeerStore" where
  "peerRun verify ops = fold (peerStep verify) ops []"

text \<open>The two keys of an identity are \<open>std::array\<close>s of 32 bytes.\<close>

fun opSized :: "PeerOp \<Rightarrow> bool" where
  "opSized (Pin peer _ _ _) \<longleftrightarrow> length (pi_identityKey peer) = 32 \<and> length (pi_noiseKey peer) = 32"
| "opSized _ \<longleftrightarrow> True"

lemma psInv_peerStep: "\<lbrakk>psInv s; opSized op\<rbrakk> \<Longrightarrow> psInv (peerStep verify op s)"
proof (cases op)
  case (Pin peer name g t)
  assume inv: "psInv s" and op: "opSized op"
  show ?thesis
  proof (cases "map_of s (storeKey (pi_identityKey peer))")
    case None
    then show ?thesis using inv op Pin
      by (auto simp: pin_def Let_def goodPeer_def sanitize_idem intro!: psInv_emplace)
  next
    case (Some p)
    have good: "goodPeer (p\<lparr>pp_noiseKey := pi_noiseKey peer, pp_name := sanitizeName name, pp_grants := g,
        pp_lastSeenNs := t\<rparr>)"
      using op Pin psInv_lookup [OF inv Some] by (simp add: goodPeer_def sanitize_idem)
    show ?thesis using psInv_update [OF inv Some _ good] inv Some Pin by (simp add: pin_def)
  qed
next
  case (SetGrants k g)
  assume "psInv s"
  then show ?thesis using SetGrants psInv_lookup
    by (auto simp: setGrants_def Let_def goodPeer_def split: option.split intro!: psInv_update)
next
  case (Touch k t)
  assume "psInv s"
  then show ?thesis using Touch psInv_lookup
    by (auto simp: touch_def Let_def goodPeer_def split: option.split intro!: psInv_update)
qed (simp add: unpin_def Let_def psInv_delete)

lemma psInv_fold: "\<lbrakk>psInv s; \<forall>op \<in> set ops. opSized op\<rbrakk> \<Longrightarrow> psInv (fold (peerStep verify) ops s)"
  by (induction ops arbitrary: s) (simp_all add: psInv_peerStep)

lemma psInv_run: "\<forall>op \<in> set ops. opSized op \<Longrightarrow> psInv (peerRun verify ops)"
  unfolding peerRun_def by (rule psInv_fold) (simp_all add: psInv_def)

text \<open>Every key a store holds was vouched for by a binding that verified, in one of the given pins.\<close>

definition vouched :: "(PeerIdentity \<Rightarrow> bool) \<Rightarrow> PeerOp set \<Rightarrow> PinnedPeer \<Rightarrow> bool" where
  "vouched verify ops p \<longleftrightarrow> (\<exists>peer name g t. Pin peer name g t \<in> ops \<and> verify peer
     \<and> pi_identityKey peer = pp_identityKey p \<and> pi_noiseKey peer = pp_noiseKey p)"

lemma vouched_mono: "\<lbrakk>vouched verify A p; A \<subseteq> B\<rbrakk> \<Longrightarrow> vouched verify B p"
  unfolding vouched_def by blast

lemma vouched_step:
  assumes "psInv s" "\<forall>p \<in> snd ` set s. vouched verify A p" "op \<in> A" "p \<in> snd ` set (peerStep verify op s)"
  shows "vouched verify A p"
proof -
  obtain k where k: "(k, p) \<in> set (peerStep verify op s)" using assms(4) by force
  have old: "vouched verify A q" if "map_of s k' = Some q" for k' q
    using assms(2) map_of_SomeD [OF that] by force
  show ?thesis
  proof (cases op)
    case (Pin peer name g t)
    show ?thesis
    proof (cases "(k, p) \<in> set s")
      case False
      then have v: "verify peer" using k Pin by (auto simp: pin_def split: if_splits)
      show ?thesis
      proof (cases "map_of s (storeKey (pi_identityKey peer))")
        case None
        then show ?thesis using k False v Pin assms(3) set_emplace
          by (fastforce simp: pin_def Let_def vouched_def)
      next
        case (Some q)
        then have "pp_identityKey q = pi_identityKey peer"
          using psInv_lookup [OF assms(1) Some] by (simp add: storeKey_def toHex_inj)
        then show ?thesis using k False v Pin Some assms(3)
          by (fastforce simp: pin_def Let_def vouched_def dest: mem_update)
      qed
    qed (use assms(2) in force)
  next
    case (Unpin k')
    then show ?thesis using k assms(2) by (fastforce simp: unpin_def Let_def dest: set_delete_sub)
  next
    case (SetGrants k' g)
    then show ?thesis using k assms(2) old
      by (fastforce simp: setGrants_def Let_def vouched_def split: option.splits dest: mem_update)
  next
    case (Touch k' t)
    then show ?thesis using k assms(2) old
      by (fastforce simp: touch_def Let_def vouched_def split: option.splits dest: mem_update)
  qed
qed

lemma vouched_fold:
  assumes "psInv s" "\<forall>op \<in> set ops. opSized op" "set ops \<subseteq> A" "\<forall>p \<in> snd ` set s. vouched verify A p"
  shows "\<forall>p \<in> snd ` set (fold (peerStep verify) ops s). vouched verify A p"
  using assms
proof (induction ops arbitrary: s)
  case (Cons op ops)
  have "\<forall>p \<in> snd ` set (peerStep verify op s). vouched verify A p"
    using vouched_step [OF Cons.prems(1,4)] Cons.prems(3) by auto
  then show ?case
    using Cons.IH [OF psInv_peerStep [OF Cons.prems(1), of op verify]] Cons.prems(2,3) by simp
qed simp

section \<open>Properties\<close>

lemma getlines_peerLine:
  assumes "goodPeer p"
  shows "parseLine (peerLine p) = Some p"
proof -
  have name: "CHR 0x09 \<notin> set (pp_name p)" using assms sanitize_no_sep(1) [of "pp_name p"] by (simp add: goodPeer_def)
  have fields: "getlines (CHR 0x09) (peerLine p)
      = [storeKey (pp_identityKey p), storeKey (pp_noiseKey p), showNat (unat (pp_grants p)),
         showNat (unat (pp_firstSeenNs p)), showNat (unat (pp_lastSeenNs p))]
        @ (if pp_name p = [] then [] else [pp_name p])"
    by (simp add: peerLine_def storeKey_def getlines_word getlines_last toHex_no_sep showNat_no_sep name)
  have keys: "parseKey (storeKey (pp_identityKey p)) = Some (pp_identityKey p)"
    "parseKey (storeKey (pp_noiseKey p)) = Some (pp_noiseKey p)"
    using assms by (simp_all add: goodPeer_def parseKey_def storeKey_def fromHex_toHex)
  have nums: "stoull (showNat (unat (pp_grants p))) = Some (ucast (pp_grants p))"
    "stoull (showNat (unat (pp_firstSeenNs p))) = Some (pp_firstSeenNs p)"
    "stoull (showNat (unat (pp_lastSeenNs p))) = Some (pp_lastSeenNs p)"
    using stoull_showNat unat_u32_less [of "pp_grants p"] unat_u64_less [of "pp_firstSeenNs p"]
      unat_u64_less [of "pp_lastSeenNs p"] by (simp_all add: of_nat_unat)
  show ?thesis
    using assms by (cases "pp_name p = []") (auto simp: parseLine_def fields keys nums goodPeer_def)
qed

lemma peerLine_clean: "goodPeer p \<Longrightarrow> CHR 0x0A \<notin> set (peerLine p)"
  using sanitize_no_sep(2) [of "pp_name p"]
  by (simp add: peerLine_def storeKey_def goodPeer_def toHex_no_sep showNat_no_sep)

lemma peerLine_nonempty: "peerLine p \<noteq> []"
  by (simp add: peerLine_def)

lemma parseLines_store:
  assumes "psInv (acc @ s)"
  shows "parseLines (map (\<lambda>(k, p). peerLine p) s) acc = Some (acc @ s)"
  using assms
proof (induction s arbitrary: acc)
  case (Cons kp s)
  obtain k p where kp: "kp = (k, p)" by fastforce
  have p: "k = storeKey (pp_identityKey p)" "goodPeer p" "\<forall>k' \<in> set (keys acc). k' < k"
    using Cons.prems by (auto simp: psInv_def kp sorted_wrt_append)
  then have "parseLines (map (\<lambda>(k, p). peerLine p) (kp # s)) acc
      = parseLines (map (\<lambda>(k, p). peerLine p) s) (acc @ [(k, p)])"
    by (simp add: kp getlines_peerLine peerLine_nonempty emplace_last)
  then show ?case using Cons.IH [of "acc @ [(k, p)]"] Cons.prems by (simp add: kp)
qed simp





end
