(* ===== verification/Link.thy ===== *)
theory Link
  imports RecordLayer
begin

text \<open>
  A record layer together with the byte stream it writes to and reads from, as the sessions hold
  it (\<open>transport::RecordLayer*\<close> in \<open>session/ImporterDataPlane.h\<close> and \<open>session/SecureSession.h\<close>).
  What the link is made of is the record \<open>LinkIo\<close>, its state is a \<open>Link\<close>; the three operations are
  those of \<open>RecordLayer\<close> on that state.
\<close>

record ('c, 's) LinkIo =
  io_cipher :: "'c IRecordCipher"
  io_write :: "bytes \<Rightarrow> 's \<Rightarrow> Status \<times> nat \<times> 's"
  io_read :: "nat \<Rightarrow> 's \<Rightarrow> Status \<times> bytes \<times> 's"

type_synonym ('c, 's) Link = "'c RecordLayer \<times> 's"

definition linkSend :: "('c, 's) LinkIo \<Rightarrow> bytes \<Rightarrow> ('c, 's) Link \<Rightarrow> Status \<times> ('c, 's) Link" where
  "linkSend io rec l = sendRecord (io_cipher io) (io_write io) rec (fst l) (snd l)"

definition linkFlush :: "('c, 's) LinkIo \<Rightarrow> ('c, 's) Link \<Rightarrow> Status \<times> ('c, 's) Link" where
  "linkFlush io l = flush (io_write io) (fst l) (snd l)"

definition linkReceive :: "('c, 's) LinkIo \<Rightarrow> ('c, 's) Link \<Rightarrow> Status \<times> bytes \<times> ('c, 's) Link" where
  "linkReceive io l = receiveRecord (io_cipher io) (io_read io) (fst l) (snd l)"

section \<open>The record limit is constant\<close>

text \<open>Sending, flushing and receiving never change the negotiated record size.\<close>

lemma linkFlush_maxRecord [simp]: "rl_maxRecord (fst (snd (linkFlush io l))) = rl_maxRecord (fst l)"
  by (simp add: linkFlush_def flush_def Let_def split: prod.split)

lemma flush_maxRecord: "flush wr rl s = (st, rl', s') \<Longrightarrow> rl_maxRecord rl' = rl_maxRecord rl"
  by (auto simp: flush_def Let_def split: prod.splits if_splits)

lemma linkSend_maxRecord [simp]: "rl_maxRecord (fst (snd (linkSend io rec l))) = rl_maxRecord (fst l)"
proof -
  obtain st ct c where "ic_seal (io_cipher io) rec (rl_cipher (fst l)) = (st, ct, c)" by (metis prod_cases3)
  then show ?thesis
    by (cases "flush (io_write io) ((fst l)\<lparr>rl_tx := rl_tx (fst l) @ le32 (of_nat (length rec + ic_overhead (io_cipher io))) @ ct,
          rl_cipher := c, rl_recordsSent := rl_recordsSent (fst l) + 1\<rparr>) (snd l)")
       (auto simp: linkSend_def sendRecord_def Let_def dest: flush_maxRecord)
qed

lemma tryRecord_maxRecord: "tryRecord ci rl = Some (st, out, rl') \<Longrightarrow> rl_maxRecord rl' = rl_maxRecord rl"
  by (auto simp: tryRecord_def Let_def split: prod.splits if_splits)

lemma receiveLoop_maxRecord: "rl_maxRecord (fst (snd (snd (receiveLoop ci rd rl s)))) = rl_maxRecord rl"
proof (induction ci rd rl s rule: receiveLoop.induct)
  case (1 ci rd rl s)
  show ?case
    by (subst receiveLoop.simps)
       (auto simp: Let_def tryRecord_maxRecord 1 split: option.split prod.split)
qed

lemma linkReceive_maxRecord:
  "linkReceive io l = (st, rec, l') \<Longrightarrow> rl_maxRecord (fst l') = rl_maxRecord (fst l)"
  using receiveLoop_maxRecord [of "io_cipher io" "io_read io" "fst l" "snd l"]
  by (auto simp: linkReceive_def receiveRecord_def split: if_splits)

section \<open>Input is finite\<close>

text \<open>
  The bytes the link may still deliver: those buffered and those in flight towards the reader.  Each
  record consumes some of them.
\<close>

context byte_pipe
begin

definition ahead :: "'c RecordLayer \<times> 's \<Rightarrow> nat" where
  "ahead l = length (rl_rx (fst l)) + length (inflight (snd l))"

lemma receiveLoop_shrinks:
  assumes "receiveLoop ci rd rl s = (st, out, rl', s')"
  shows "ahead (rl', s') \<le> ahead (rl, s) \<and> (st = Ok \<and> out \<noteq> [] \<longrightarrow> ahead (rl', s') < ahead (rl, s))"
  using assms
proof (induction "2 ^ 33 - length (rl_rx rl)" arbitrary: rl s rule: less_induct)
  case less
  show ?case
  proof (cases "tryRecord ci rl")
    case (Some x)
    then show ?thesis using less.prems
      by (subst (asm) receiveLoop.simps)
         (auto simp: ahead_def tryRecord_def Let_def split: if_splits prod.splits)
  next
    case None
    obtain st1 d s1 where rd: "rd rxChunk s = (st1, d, s1)" by (metis prod_cases3)
    let ?rl = "rl\<lparr>rl_rx := rl_rx rl @ d\<rparr>"
    have same: "ahead (?rl, s1) = ahead (rl, s)" using rd_gives [OF rd] by (simp add: ahead_def)
    show ?thesis
    proof (cases "st1 = Ok \<and> d \<noteq> []")
      case True
      then have rec: "receiveLoop ci rd ?rl s1 = (st, out, rl', s')"
        using less.prems None rd by (subst (asm) receiveLoop.simps) simp
      have "2 ^ 33 - length (rl_rx ?rl) < 2 ^ 33 - length (rl_rx rl)"
        using True tryRecord_None_short [OF None] by (cases d) auto
      from less.hyps [OF this rec] show ?thesis by (simp add: same)
    next
      case False
      then show ?thesis using less.prems None rd same
        by (subst (asm) receiveLoop.simps) (auto simp: ahead_def split: if_splits)
    qed
  qed
qed

end

section \<open>A sink\<close>

text \<open>A link that takes every byte and never gives one beyond what is already buffered.\<close>

definition sinkIo :: "(unit, nat) LinkIo" where
  "sinkIo = \<lparr>io_cipher = NullCipher, io_write = (\<lambda>src s. (Ok, length src, s)), io_read = (\<lambda>n s. (Ok, [], s))\<rparr>"

lemma sinkFlush_loop: "flushLoop (\<lambda>src s. (Ok, length src, s)) tx sent s = (Ok, max sent (length tx), s)"
  by (subst flushLoop.simps, subst flushLoop.simps) simp

lemma sinkSend:
  assumes "length rec \<le> unat (rl_maxRecord rl)" "\<not> rl_fatal rl" "rl_txSent rl \<le> length (rl_tx rl)"
  shows "linkSend sinkIo rec (rl, s) =
    (Ok, rl\<lparr>rl_tx := [], rl_txSent := 0, rl_recordsSent := rl_recordsSent rl + 1\<rparr>, s)"
  using assms
  by (simp add: linkSend_def sendRecord_def flush_def Let_def sinkIo_def NullCipher_def sinkFlush_loop)

lemma sinkFlush:
  "\<lbrakk>rl_tx rl = []; rl_txSent rl = 0\<rbrakk> \<Longrightarrow> linkFlush sinkIo (rl, s) = (Ok, rl, s)"
  by (simp add: linkFlush_def flush_def Let_def sinkIo_def sinkFlush_loop)

lemma sinkReceive:
  assumes "\<not> rl_fatal rl" "rl_rx rl = frame rec @ rest" "length rec \<le> rxCeiling rl"
  shows "linkReceive sinkIo (rl, s)
    = (Ok, rec, rl\<lparr>rl_rx := rest, rl_recordsReceived := rl_recordsReceived rl + 1\<rparr>, s)"
proof -
  have "length rec < 2 ^ 32"
    using assms(3) unat_u32_less [of "rl_maxRecord rl"] by (auto simp: rxCeiling_def split: if_splits)
  then have len: "unat (rd_u32 (rl_rx rl) 0) = length rec"
    using rd_frame [of "rl_rx rl" "[]" rec rest] assms(2) by simp
  have "drop 4 (frame rec) = rec" by (simp add: frame_def)
  then have "tryRecord NullCipher rl
      = Some (Ok, rec, rl\<lparr>rl_rx := rest, rl_recordsReceived := rl_recordsReceived rl + 1\<rparr>)"
    using len assms(3) by (simp add: tryRecord_def Let_def r1_ok NullCipher_def assms(2))
  then show ?thesis
    using assms(1) by (simp add: linkReceive_def receiveRecord_def sinkIo_def receiveLoop.simps)
qed

lemma sinkDrained:
  assumes "\<not> rl_fatal rl" "rl_rx rl = []"
  shows "linkReceive sinkIo (rl, s) = (Ok, [], rl, s)"
proof -
  have "rl\<lparr>rl_rx := []\<rparr> = rl" using assms(2) by simp
  then show ?thesis using assms
    by (simp add: linkReceive_def receiveRecord_def sinkIo_def receiveLoop.simps tryRecord_def)
qed

lemma length_encodeHeader: "length (encodeHeader h out) = length out + 32"
  by (simp add: encodeHeader_bytes)

end
