(* ===== verification/DataPlane.thy ===== *)
theory DataPlane
  imports Segmentation RequestTable Link "HOL-Library.Product_Lexorder" "HOL-Library.Sublist"
begin

text \<open>
  The importer's data plane (\<open>session/ImporterDataPlane.h\<close>, \<open>session/ImporterDataPlane.cpp\<close>): it
  submits transfers over a record layer without waiting, matches the replies to the table of
  outstanding requests and reports one outcome for each.  The calls of \<open>onComplete\<close> and \<open>onVerb\<close> are
  the list of events an operation returns.  The record layer is the one of \<open>RecordLayer\<close>, over any
  byte stream and record cipher.  The time is an argument.  The constructor dereferences the clock,
  so the later tests of \<open>_clock\<close> for null always succeed and are left out; \<open>_link\<close> may be null and is
  an option.
\<close>

section \<open>State\<close>

record DataCompletion =
  dc_channel :: u16
  dc_requestId :: u64
  dc_epAddr :: u8
  dc_dir :: u8
  dc_status :: u16
  dc_requestedLen :: u32
  dc_actualLen :: u32
  dc_shortXfer :: bool
  dc_data :: bytes

record VerbCompletion =
  vc_channel :: u16
  vc_requestId :: u64
  vc_epAddr :: u8
  vc_status :: u16

datatype Event = Done DataCompletion | VerbDone VerbCompletion

record DpConfig =
  cfg_attachId :: u32
  cfg_attachSlot :: u8
  cfg_maxInFlight :: nat
  cfg_maxTransferBytes :: u32

definition DpConfig0 :: DpConfig where
  "DpConfig0 = \<lparr>cfg_attachId = 0, cfg_attachSlot = 0, cfg_maxInFlight = 1,
     cfg_maxTransferBytes = kTransferBytesDefault\<rparr>"

record PendingReply =
  pr_status :: u16
  pr_actualLen :: u32
  pr_shortXfer :: bool

record PendingVerb =
  pv_epAddr :: u8
  pv_deadlineNs :: u64

record ('c, 's) DataPlane =
  dp_link :: "('c, 's) Link option"
  dp_cfg :: DpConfig
  dp_table :: RequestTable
  dp_reasm :: Reassembler
  dp_pendingReply :: "(Key, PendingReply) smap"
  dp_verbs :: "(Key, PendingVerb) smap"
  dp_nextVerbId :: u64

definition dpLimits :: "DpConfig \<Rightarrow> RsLimits" where
  "dpLimits cfg =
     (let inFlight = (if cfg_maxInFlight cfg = 0 then 1 else of_nat (cfg_maxInFlight cfg)) :: u32
      in \<lparr>rl_maxTransferBytes = cfg_maxTransferBytes cfg,
          rl_arenaBytes = ucast (cfg_maxTransferBytes cfg) * ucast inFlight,
          rl_maxInFlight = inFlight\<rparr>)"

definition DataPlane_new :: "('c, 's) Link option \<Rightarrow> DpConfig \<Rightarrow> ('c, 's) DataPlane" where
  "DataPlane_new link cfg =
     \<lparr>dp_link = link, dp_cfg = cfg, dp_table = RequestTable_new,
      dp_reasm = Reassembler_new (dpLimits cfg), dp_pendingReply = [], dp_verbs = [],
      dp_nextVerbId = 1\<rparr>"

definition canAdmit :: "('c, 's) DataPlane \<Rightarrow> bool" where
  "canAdmit dp \<longleftrightarrow> rt_size (dp_table dp) < cfg_maxInFlight (dp_cfg dp)"

section \<open>Submitting\<close>

definition submitBody :: "u8 \<Rightarrow> u8 \<Rightarrow> u8 \<Rightarrow> u32 \<Rightarrow> bytes option \<Rightarrow> u32 \<Rightarrow> SubmitBody" where
  "submitBody epAddr xferType dir bufferLen stp timeoutMs =
     \<lparr>sb_epAddr = epAddr, sb_xferType = xferType, sb_dir = dir, sb_xflags = 0,
      sb_bufferLen = bufferLen, sb_timeoutMs = timeoutMs, sb_isoPktCount = 0, sb_interval = 0,
      sb_streamId = 0, sb_setup = (case stp of None \<Rightarrow> replicate 8 0 | Some s \<Rightarrow> take 8 s),
      sb_submitTsNs = 0\<rparr>"

definition newRequest ::
    "DpConfig \<Rightarrow> u64 \<Rightarrow> u16 \<Rightarrow> u64 \<Rightarrow> u8 \<Rightarrow> u8 \<Rightarrow> u8 \<Rightarrow> u32 \<Rightarrow> u32 \<Rightarrow> OutstandingRequest" where
  "newRequest cfg now channel rid epAddr xferType dir bufferLen timeoutMs =
     \<lparr>rq_requestId = rid, rq_channel = channel, rq_attachId = cfg_attachId cfg, rq_epAddr = epAddr,
      rq_xferType = xferType, rq_dir = dir, rq_requestedLen = bufferLen, rq_deviceEpoch = 0,
      rq_epGeneration = 0, rq_deadline = afterMs now (ucast timeoutMs), rq_submittedNs = now\<rparr>"

text \<open>The status, and on success the channel and identifier the completion will carry.\<close>

definition submit ::
    "('c, 's) LinkIo \<Rightarrow> u64 \<Rightarrow> u8 \<Rightarrow> u8 \<Rightarrow> u8 \<Rightarrow> u32 \<Rightarrow> bytes option \<Rightarrow> bytes \<Rightarrow> u32 \<Rightarrow>
      ('c, 's) DataPlane \<Rightarrow> Status \<times> (u16 \<times> u64) option \<times> ('c, 's) DataPlane" where
  "submit io now epAddr xferType dir bufferLen stp dataOut timeoutMs dp =
     (case dp_link dp of
        None \<Rightarrow> (TransportLost, None, dp)
      | Some link \<Rightarrow>
          if rt_size (dp_table dp) \<ge> cfg_maxInFlight (dp_cfg dp) then (Busy, None, dp)
          else
            let channel = channelFor (cfg_attachSlot (dp_cfg dp)) epAddr;
                (rid, table) = nextRequestId channel (dp_table dp);
                dp = dp\<lparr>dp_table := table\<rparr>;
                subBody = encodeSubmit (submitBody epAddr xferType dir bufferLen stp timeoutMs) [];
                base = Header0\<lparr>h_type := typeCode T_Submit, h_channel := channel,
                         h_attachId := cfg_attachId (dp_cfg dp), h_requestId := rid, h_status := 0\<rparr>;
                outData = (if dir = dirCode DirOut then dataOut else []);
                maxPlain = maxPlaintextBytes (io_cipher io) (fst link)
            in if unat maxPlain \<le> kHeaderSize + kBodySubmit then (Internal, None, dp)
               else
                 let maxSeg = maxPlain - of_nat kHeaderSize - of_nat kBodySubmit;
                     req = newRequest (dp_cfg dp) now channel rid epAddr xferType dir bufferLen timeoutMs;
                     (added, table) = rt_add req (dp_table dp)
                 in if added \<noteq> Ok then (Internal, None, dp\<lparr>dp_table := table\<rparr>)
                    else
                      let (s, link) = emitTransfer base subBody outData maxSeg (linkSend io) link
                      in if s \<noteq> Ok
                         then (s, None, dp\<lparr>dp_link := Some link, dp_table := snd (rt_take channel rid table)\<rparr>)
                         else (Ok, Some (channel, rid),
                               dp\<lparr>dp_link := Some (snd (linkFlush io link)), dp_table := table\<rparr>))"

definition clearHalt ::
    "('c, 's) LinkIo \<Rightarrow> u64 \<Rightarrow> u8 \<Rightarrow> ('c, 's) DataPlane \<Rightarrow>
      Status \<times> (u16 \<times> u64) option \<times> ('c, 's) DataPlane" where
  "clearHalt io now epAddr dp =
     (case dp_link dp of
        None \<Rightarrow> (TransportLost, None, dp)
      | Some link \<Rightarrow>
          let channel = channelFor (cfg_attachSlot (dp_cfg dp)) epAddr;
              rid = dp_nextVerbId dp;
              dp = dp\<lparr>dp_nextVerbId := rid + 1\<rparr>;
              h = Header0\<lparr>h_type := typeCode T_EpClearHalt, h_flags := kFlagSegFirst,
                    h_channel := channel, h_attachId := cfg_attachId (dp_cfg dp), h_requestId := rid\<rparr>;
              (s, link) = linkSend io (encodeHeader h []) link
          in if s \<noteq> Ok then (s, None, dp\<lparr>dp_link := Some link\<rparr>)
             else
               let v = \<lparr>pv_epAddr = epAddr, pv_deadlineNs = now + kNetCtrl * 1000000\<rparr>
               in (Ok, Some (channel, rid),
                   dp\<lparr>dp_link := Some (snd (linkFlush io link)),
                      dp_verbs := mapPut (channel, rid) v (dp_verbs dp)\<rparr>))"

section \<open>Delivering\<close>

definition deliver :: "OutstandingRequest \<Rightarrow> u16 \<Rightarrow> u32 \<Rightarrow> bool \<Rightarrow> bytes \<Rightarrow> Event" where
  "deliver req status actualLen shortXfer data =
     Done \<lparr>dc_channel = rq_channel req, dc_requestId = rq_requestId req, dc_epAddr = rq_epAddr req,
           dc_dir = rq_dir req, dc_status = status, dc_requestedLen = rq_requestedLen req,
           dc_actualLen = actualLen, dc_shortXfer = shortXfer, dc_data = data\<rparr>"

text \<open>What \<open>drop\<close> and \<open>cancel\<close> share: the request, its half-received reply and its bytes go.\<close>

definition dropTransfer :: "u16 \<Rightarrow> u64 \<Rightarrow> ('c, 's) DataPlane \<Rightarrow> ('c, 's) DataPlane" where
  "dropTransfer channel requestId dp =
     dp\<lparr>dp_table := snd (rt_take channel requestId (dp_table dp)),
        dp_pendingReply := AList.delete (channel, requestId) (dp_pendingReply dp),
        dp_reasm := forget channel requestId (dp_reasm dp)\<rparr>"

definition handleCtrlAck :: "Header \<Rightarrow> ('c, 's) DataPlane \<Rightarrow> Event list \<times> ('c, 's) DataPlane" where
  "handleCtrlAck h dp =
     (let key = (h_channel h, h_requestId h)
      in case map_of (dp_verbs dp) key of
           None \<Rightarrow> ([], dp)
         | Some v \<Rightarrow>
             ([VerbDone \<lparr>vc_channel = h_channel h, vc_requestId = h_requestId h,
                         vc_epAddr = pv_epAddr v, vc_status = h_status h\<rparr>],
              dp\<lparr>dp_verbs := AList.delete key (dp_verbs dp)\<rparr>))"

definition dpRecvLimits :: "u32 \<Rightarrow> DpConfig \<Rightarrow> Limits" where
  "dpRecvLimits maxRecord cfg =
     Limits0\<lparr>lim_maxRecordBytes := maxRecord, lim_maxTransferBytes := cfg_maxTransferBytes cfg\<rparr>"

text \<open>The fields a COMPLETE echoes are those of the request it answers.\<close>

definition echoes :: "Header \<Rightarrow> CompleteBody \<Rightarrow> OutstandingRequest \<Rightarrow> bool" where
  "echoes h cb req \<longleftrightarrow>
     h_attachId h = rq_attachId req \<and> cb_epAddr cb = rq_epAddr req \<and> cb_xferType cb = rq_xferType req
     \<and> cb_dir cb = rq_dir req \<and> cb_requestedLen cb = rq_requestedLen req"

definition cbIsShort :: "CompleteBody \<Rightarrow> bool" where
  "cbIsShort cb \<longleftrightarrow> cb_cflags cb AND kCfShort \<noteq> 0"

text \<open>
  \<open>maxRecord\<close> is \<open>_link->maxRecordBytes()\<close>.  A status other than \<open>Ok\<close> ends \<open>pump\<close>.
\<close>

definition handleComplete ::
    "u32 \<Rightarrow> Header \<Rightarrow> bytes \<Rightarrow> ('c, 's) DataPlane \<Rightarrow> Status \<times> Event list \<times> ('c, 's) DataPlane" where
  "handleComplete maxRecord h rec dp =
     (let rbody = subspan rec kHeaderSize (unat (h_bodyLen h))
      in case decodeComplete rbody of
           None \<Rightarrow> (MalformedFrame, [], dp)
         | Some cb \<Rightarrow>
             let firstChunk = drop kBodyComplete rbody;
                 v = validateComplete h cb firstChunk (dpRecvLimits maxRecord (dp_cfg dp))
             in if \<not> v_ok v then (v_status v, [], dp)
                else case rt_get (h_channel h) (h_requestId h) (dp_table dp) of
                  None \<Rightarrow> (Ok, [], dp)
                | Some req \<Rightarrow>
                    if \<not> echoes h cb req then (MalformedFrame, [], dp)
                    else if cb_actualLen cb > rq_requestedLen req then (MalformedFrame, [], dp)
                    else if \<not> segMore h then
                      (if rq_dir req = dirCode DirIn \<and> cb_payloadLen cb > rq_requestedLen req
                       then (MalformedFrame, [], dp)
                       else if rq_dir req = dirCode DirIn \<and> unat (cb_payloadLen cb) > length firstChunk
                       then (MalformedFrame, [], dp)
                       else
                         let payload = (if rq_dir req = dirCode DirIn
                                        then take (unat (cb_payloadLen cb)) firstChunk else [])
                         in (Ok, [deliver req (h_status h) (cb_actualLen cb) (cbIsShort cb) payload],
                             dp\<lparr>dp_table := snd (rt_take (h_channel h) (h_requestId h) (dp_table dp))\<rparr>))
                    else
                      let pr = \<lparr>pr_status = h_status h, pr_actualLen = cb_actualLen cb,
                                pr_shortXfer = cbIsShort cb\<rparr>;
                          (out, e, reasm) = accept h firstChunk (dp_reasm dp);
                          dp = dp\<lparr>dp_pendingReply :=
                                     mapPut (h_channel h, h_requestId h) pr (dp_pendingReply dp),
                                  dp_reasm := reasm\<rparr>
                      in if out = Rejected then (e, [], dropTransfer (h_channel h) (h_requestId h) dp)
                         else (Ok, [], dp))"

definition handleData ::
    "u32 \<Rightarrow> Header \<Rightarrow> bytes \<Rightarrow> ('c, 's) DataPlane \<Rightarrow> Status \<times> Event list \<times> ('c, 's) DataPlane" where
  "handleData maxRecord h rec dp =
     (let v = validateHeader h (length rec - kHeaderSize) (dpRecvLimits maxRecord (dp_cfg dp));
          key = (h_channel h, h_requestId h)
      in if \<not> v_ok v then (v_status v, [], dp)
         else case map_of (dp_pendingReply dp) key of
           None \<Rightarrow> (MalformedFrame, [], dp)
         | Some pr \<Rightarrow>
             if (case rt_get (h_channel h) (h_requestId h) (dp_table dp) of
                   None \<Rightarrow> False | Some req \<Rightarrow> h_attachId h \<noteq> rq_attachId req)
             then (MalformedFrame, [], dp)
             else
               let (out, e, reasm) = accept h (subspan rec kHeaderSize (unat (h_bodyLen h))) (dp_reasm dp);
                   dp = dp\<lparr>dp_reasm := reasm\<rparr>
               in case out of
                    Rejected \<Rightarrow> (e, [], dropTransfer (h_channel h) (h_requestId h) dp)
                  | NeedMore \<Rightarrow> (Ok, [], dp)
                  | Complete \<Rightarrow>
                      let (full, reasm) = takeCompleted h (dp_reasm dp);
                          dp = dp\<lparr>dp_reasm := reasm,
                                  dp_pendingReply := AList.delete key (dp_pendingReply dp)\<rparr>
                      in case rt_get (h_channel h) (h_requestId h) (dp_table dp) of
                           None \<Rightarrow> (Ok, [], dp)
                         | Some req \<Rightarrow>
                             if pr_actualLen pr > rq_requestedLen req then (MalformedFrame, [], dp)
                             else
                               (Ok, [deliver req (pr_status pr) (pr_actualLen pr) (pr_shortXfer pr)
                                       (if rq_dir req = dirCode DirIn then full else [])],
                                dp\<lparr>dp_table := snd (rt_take (h_channel h) (h_requestId h) (dp_table dp))\<rparr>))"

section \<open>Pumping\<close>

text \<open>
  One record.  The result is the code of a status, since an ERROR passes on whatever code its
  header carries.
\<close>

definition handleRecord ::
    "u32 \<Rightarrow> bytes \<Rightarrow> ('c, 's) DataPlane \<Rightarrow> u16 \<times> Event list \<times> ('c, 's) DataPlane" where
  "handleRecord maxRecord rec dp =
     (case decodeHeader rec of
        None \<Rightarrow> (statusCode MalformedFrame, [], dp)
      | Some h \<Rightarrow>
          if length rec - kHeaderSize < unat (h_bodyLen h) then (statusCode MalformedFrame, [], dp)
          else if h_type h = typeCode T_Complete then
            (let (s, evs, dp) = handleComplete maxRecord h rec dp in (statusCode s, evs, dp))
          else if h_type h = typeCode T_Data then
            (let (s, evs, dp) = handleData maxRecord h rec dp in (statusCode s, evs, dp))
          else if h_type h = typeCode T_CtrlAck then
            (let (evs, dp) = handleCtrlAck h dp in (statusCode Ok, evs, dp))
          else if h_type h = typeCode T_Error then
            ((if h_status h = statusCode Ok then statusCode MalformedFrame else h_status h), [], dp)
          else (statusCode Ok, [], dp))"

text \<open>The loop of \<open>pump\<close>, which ends only when the stream has nothing more: \<open>None\<close> is a loop that never ends.\<close>

partial_function (option) pumpLoop ::
    "('c, 's) LinkIo \<Rightarrow> ('c, 's) Link \<Rightarrow> Event list \<Rightarrow> ('c, 's) DataPlane \<Rightarrow>
      (u16 \<times> ('c, 's) Link \<times> Event list \<times> ('c, 's) DataPlane) option" where
  "pumpLoop io link evs dp =
     (case linkReceive io link of
        (r, rec, link') \<Rightarrow>
          if r = Busy then Some (statusCode Ok, link', evs, dp)
          else if r \<noteq> Ok then Some (statusCode r, link', evs, dp)
          else if rec = [] then Some (statusCode Ok, link', evs, dp)
          else case handleRecord (rl_maxRecord (fst link')) rec dp of
            (s, evs', dp') \<Rightarrow>
              if s \<noteq> statusCode Ok then Some (s, link', evs @ evs', dp')
              else pumpLoop io link' (evs @ evs') dp')"

declare pumpLoop.simps [code]

definition pump ::
    "('c, 's) LinkIo \<Rightarrow> ('c, 's) DataPlane \<Rightarrow> (u16 \<times> Event list \<times> ('c, 's) DataPlane) option" where
  "pump io dp =
     (case dp_link dp of
        None \<Rightarrow> Some (statusCode TransportLost, [], dp)
      | Some link \<Rightarrow>
          case pumpLoop io (snd (linkFlush io link)) [] dp of
            None \<Rightarrow> None
          | Some (s, link', evs, dp') \<Rightarrow>
              Some (s, evs, dp'\<lparr>dp_link := Some (if s = statusCode Ok then snd (linkFlush io link') else link')\<rparr>))"

section \<open>Deadlines, cancellation and teardown\<close>

definition discardReply :: "OutstandingRequest \<Rightarrow> ('c, 's) DataPlane \<Rightarrow> ('c, 's) DataPlane" where
  "discardReply req dp =
     dp\<lparr>dp_pendingReply := AList.delete (keyOf req) (dp_pendingReply dp),
        dp_reasm := forget (rq_channel req) (rq_requestId req) (dp_reasm dp)\<rparr>"

definition verbCompletion :: "u16 \<Rightarrow> Key \<times> PendingVerb \<Rightarrow> Event" where
  "verbCompletion status x =
     VerbDone \<lparr>vc_channel = fst (fst x), vc_requestId = snd (fst x), vc_epAddr = pv_epAddr (snd x),
               vc_status = status\<rparr>"

definition verbExpired :: "u64 \<Rightarrow> Key \<times> PendingVerb \<Rightarrow> bool" where
  "verbExpired now x \<longleftrightarrow> pv_deadlineNs (snd x) \<noteq> 0 \<and> now \<ge> pv_deadlineNs (snd x)"

definition sweepDeadlines :: "u64 \<Rightarrow> ('c, 's) DataPlane \<Rightarrow> Event list \<times> ('c, 's) DataPlane" where
  "sweepDeadlines now dp =
     (let (gone, table) = rt_expired now (dp_table dp);
          dp = fold discardReply gone (dp\<lparr>dp_table := table\<rparr>);
          (late, kept) = (filter (verbExpired now) (dp_verbs dp), filter (Not \<circ> verbExpired now) (dp_verbs dp))
      in (map (\<lambda>req. deliver req (statusCode XferTimeout) 0 False []) gone
            @ map (verbCompletion (statusCode XferTimeout)) late,
          dp\<lparr>dp_verbs := kept\<rparr>))"

definition cancelRecord :: "DpConfig \<Rightarrow> u16 \<Rightarrow> u64 \<Rightarrow> u8 \<Rightarrow> bytes" where
  "cancelRecord cfg channel requestId epAddr =
     (let body = encodeCancel \<lparr>can_targetRequestId = requestId, can_epAddr = epAddr,
                   can_scope = scopeCode ScopeRequest, can_reserved = 0, can_reserved2 = 0\<rparr> [];
          h = Header0\<lparr>h_type := typeCode T_Cancel, h_flags := kFlagSegFirst OR kFlagExpedite,
                h_channel := channel, h_attachId := cfg_attachId cfg, h_requestId := requestId,
                h_bodyLen := of_nat (length body), h_totalLen := 0\<rparr>
      in encodeHeader h [] @ body)"

definition cancel ::
    "('c, 's) LinkIo \<Rightarrow> u16 \<Rightarrow> u64 \<Rightarrow> ('c, 's) DataPlane \<Rightarrow> bool \<times> ('c, 's) DataPlane" where
  "cancel io channel requestId dp =
     (let (gone, _) = rt_take channel requestId (dp_table dp);
          dp = dropTransfer channel requestId dp
      in case gone of
           None \<Rightarrow> (False, dp)
         | Some req \<Rightarrow>
             (True,
              case dp_link dp of
                None \<Rightarrow> dp
              | Some link \<Rightarrow>
                  let (_, link) = linkSend io (cancelRecord (dp_cfg dp) channel requestId (rq_epAddr req)) link
                  in dp\<lparr>dp_link := Some (snd (linkFlush io link))\<rparr>))"

definition completeAll :: "Status \<Rightarrow> ('c, 's) DataPlane \<Rightarrow> Event list \<times> ('c, 's) DataPlane" where
  "completeAll status dp =
     (let (drained, table) = takeAttach (cfg_attachId (dp_cfg dp)) (dp_table dp)
      in (map (\<lambda>req. deliver req (statusCode status) 0 False []) drained
            @ map (verbCompletion (statusCode status)) (dp_verbs dp),
          dp\<lparr>dp_table := table, dp_pendingReply := [], dp_reasm := clear (dp_reasm dp), dp_verbs := []\<rparr>))"

section \<open>What the operations do to the table\<close>

text \<open>Some sequence of table calls leads from \<open>t\<close> to \<open>t'\<close>, accepting \<open>a\<close> and handing back \<open>r\<close>.\<close>

definition moves ::
    "RequestTable \<Rightarrow> OutstandingRequest list \<Rightarrow> OutstandingRequest list \<Rightarrow> RequestTable \<Rightarrow> bool" where
  "moves t a r t' \<longleftrightarrow> (\<exists>ops. rtRun ops t = (a, r, t'))"

lemma rtRun_append:
  "rtRun ops t = (a, r, t') \<Longrightarrow> rtRun (ops @ ops') t =
    (let (a', r', t'') = rtRun ops' t' in (a @ a', r @ r', t''))"
proof (induction ops arbitrary: t a r t')
  case (Cons op ops)
  obtain a1 r1 t1 where s: "rtStep op t = (a1, r1, t1)" by (cases "rtStep op t") auto
  obtain a2 r2 t2 where u: "rtRun ops t1 = (a2, r2, t2)" by (cases "rtRun ops t1") auto
  show ?case using Cons.IH [OF u] Cons.prems s u by (auto simp: Let_def split: prod.split)
qed (simp split: prod.split)

lemma moves_refl [intro]: "moves t [] [] t"
  unfolding moves_def by (rule exI [of _ "[]"]) simp

lemma moves_trans: "\<lbrakk>moves t a r t'; moves t' a' r' t''\<rbrakk> \<Longrightarrow> moves t (a @ a') (r @ r') t''"
proof -
  assume "moves t a r t'" "moves t' a' r' t''"
  then obtain ops ops' where "rtRun ops t = (a, r, t')" "rtRun ops' t' = (a', r', t'')"
    unfolding moves_def by blast
  then have "rtRun (ops @ ops') t = (a @ a', r @ r', t'')" using rtRun_append [of ops t a r t' ops'] by simp
  then show ?thesis unfolding moves_def by blast
qed

lemma moves_op: "rtStep op t = (a, r, t') \<Longrightarrow> moves t a r t'"
  unfolding moves_def by (rule exI [of _ "[op]"]) simp

lemma moves_inv: "\<lbrakk>moves t a r t'; rtInv t\<rbrakk> \<Longrightarrow> rtInv t'"
  unfolding moves_def using live_run by blast

lemma moves_live: "\<lbrakk>moves t a r t'; rtInv t\<rbrakk> \<Longrightarrow> live t + mset a = mset r + live t'"
  unfolding moves_def using live_run by blast

lemma moves_distinct: "moves t a r t' \<Longrightarrow> distinct (map keyOf a)"
  unfolding moves_def using accepted_increasing increasing_distinct_keys by blast

lemma moves_take:
  "moves t [] (case rt_get ch i t of None \<Rightarrow> [] | Some r \<Rightarrow> [r]) (snd (rt_take ch i t))"
  by (rule moves_op [of "OpTake ch i"])
     (auto simp: rt_take_def rt_get_def split: option.split)

lemma moves_drop: "moves (dp_table dp) []
    (case rt_get ch i (dp_table dp) of None \<Rightarrow> [] | Some r \<Rightarrow> [r]) (dp_table (dropTransfer ch i dp))"
  using moves_take by (simp add: dropTransfer_def)

lemma rt_get_key: "\<lbrakk>rtInv t; rt_get ch i t = Some r\<rbrakk> \<Longrightarrow> rq_channel r = ch \<and> rq_requestId r = i"
  by (auto simp: rtInv_def rt_get_def dest: map_of_SomeD)

lemma rt_get_add: "rt_add q t = (Ok, t') \<Longrightarrow> rt_get (rq_channel q) (rq_requestId q) t' = Some q"
  by (auto simp: rt_add_def rt_get_def update_conv' split: if_splits)

text \<open>Which requests an event list completes, and which verbs.\<close>

fun doneOf :: "Event \<Rightarrow> DataCompletion list" where
  "doneOf (Done c) = [c]"
| "doneOf (VerbDone v) = []"

definition completions :: "Event list \<Rightarrow> DataCompletion list" where
  "completions evs = concat (map doneOf evs)"

definition doneKey :: "DataCompletion \<Rightarrow> RequestKey" where
  "doneKey c = (dc_channel c, dc_requestId c)"

lemma completions_simps [simp]:
  "completions [] = []" "completions (Done c # evs) = c # completions evs"
  "completions (VerbDone v # evs) = completions evs"
  "completions (evs @ evs') = completions evs @ completions evs'"
  by (simp_all add: completions_def)

lemma completions_verbs [simp]: "completions (map (verbCompletion s) vs) = []"
  by (induction vs) (simp_all add: verbCompletion_def)

lemma completions_deliver [simp]:
  "map doneKey (completions [deliver q s n b d]) = [keyOf q]"
  "map doneKey (completions (map (\<lambda>q. deliver q s n b d) qs)) = map keyOf qs"
  by (simp add: deliver_def doneKey_def) (induction qs, simp_all add: deliver_def doneKey_def)

text \<open>
  The accounting of one step: each completion is for a request handed back, and when the step
  succeeds each request handed back is completed.
\<close>

definition accounted :: "bool \<Rightarrow> Event list \<Rightarrow> RequestTable \<Rightarrow> RequestTable \<Rightarrow> bool" where
  "accounted ok evs t t' \<longleftrightarrow> (\<exists>r. moves t [] r t' \<and> subseq (map doneKey (completions evs)) (map keyOf r)
     \<and> (ok \<longrightarrow> map doneKey (completions evs) = map keyOf r))"

lemma accounted_none: "completions evs = [] \<Longrightarrow> accounted ok evs t t"
  unfolding accounted_def by (rule exI [of _ "[]"]) auto

lemma statusCode_0 [simp]: "statusCode s = 0 \<longleftrightarrow> s = Ok"
  using statusCode_eq_iff [of s Ok] by simp

lemma accounted_one:
  assumes "rt_get ch i t = Some q"
  shows "accounted ok [deliver q s n b d] t (snd (rt_take ch i t))"
  using moves_take [of t ch i] assms unfolding accounted_def by (intro exI [of _ "[q]"]) auto

lemma accounted_drop:
  "dp_table dp = t \<Longrightarrow> accounted False [] t (dp_table (dropTransfer ch i dp))"
  using moves_drop [of dp ch i] unfolding accounted_def by auto

lemma accept_rejected: "accept h payload r = (Rejected, e, r') \<Longrightarrow> e \<noteq> Ok"
  by (auto simp: accept_def appendSegment_def Let_def split: if_splits option.splits)

lemma accounted_trans:
  assumes "accounted True evs t t'" "accounted ok evs' t' t''"
  shows "accounted ok (evs @ evs') t t''"
proof -
  obtain r r' where "moves t [] r t'" "map doneKey (completions evs) = map keyOf r"
    "moves t' [] r' t''" "subseq (map doneKey (completions evs')) (map keyOf r')"
    "ok \<longrightarrow> map doneKey (completions evs') = map keyOf r'"
    using assms unfolding accounted_def by blast
  then show ?thesis
    unfolding accounted_def using moves_trans [of t "[]" r t' "[]" r' t'']
    by (intro exI [of _ "r @ r'"]) (auto intro: list_emb_append_mono)
qed

lemma handleComplete_accounted:
  assumes "handleComplete m h rec dp = (s, evs, dp')"
  shows "accounted (s = Ok) evs (dp_table dp) (dp_table dp')"
  using assms
  by (auto simp: handleComplete_def Let_def accounted_none accounted_one accounted_drop
      dest: accept_rejected split: option.splits if_splits prod.splits)

lemma handleData_accounted:
  assumes "handleData m h rec dp = (s, evs, dp')"
  shows "accounted (s = Ok) evs (dp_table dp) (dp_table dp')"
  using assms
  by (auto simp: handleData_def Let_def accounted_none accounted_one accounted_drop
      dest: accept_rejected split: option.splits if_splits prod.splits Outcome.splits)

lemma handleRecord_accounted:
  assumes "handleRecord m rec dp = (s, evs, dp')"
  shows "accounted (s = statusCode Ok) evs (dp_table dp) (dp_table dp')"
  using assms handleComplete_accounted handleData_accounted
  by (auto simp: handleRecord_def handleCtrlAck_def Let_def accounted_none statusCode_eq_iff
      split: option.splits if_splits prod.splits)

lemma pumpLoop_accounted:
  assumes "pumpLoop io link evs dp = Some y"
  shows "\<exists>new. fst (snd (snd y)) = evs @ new
    \<and> accounted (fst y = statusCode Ok) new (dp_table dp) (dp_table (snd (snd (snd y))))"
  using assms
proof (induction rule: pumpLoop.raw_induct [rotated, consumes 1, case_names step])
  case (step loop io link evs dp y)
  obtain r rec l where rec: "linkReceive io link = (r, rec, l)" by (metis prod_cases3)
  obtain s1 e1 d1 where h: "handleRecord (rl_maxRecord (fst l)) rec dp = (s1, e1, d1)" by (metis prod_cases3)
  note acc = handleRecord_accounted [OF h]
  show ?case
  proof (cases "r = Ok \<and> rec \<noteq> [] \<and> s1 = statusCode Ok")
    case True
    then have "loop io l (evs @ e1) d1 = Some y" using step(2) rec h by simp
    then obtain new where "fst (snd (snd y)) = (evs @ e1) @ new"
      "accounted (fst y = statusCode Ok) new (dp_table d1) (dp_table (snd (snd (snd y))))"
      using step(1) by blast
    then show ?thesis using acc True accounted_trans by (intro exI [of _ "e1 @ new"]) simp
  next
    case False
    then show ?thesis using step(2) rec h acc by (auto simp: accounted_none split: if_splits)
  qed
qed

lemma pump_accounted:
  assumes "pump io dp = Some (s, evs, dp')"
  shows "accounted (s = statusCode Ok) evs (dp_table dp) (dp_table dp')"
  using assms
  by (fastforce simp: pump_def accounted_none dest!: pumpLoop_accounted split: option.splits)

lemma discardReply_table [simp]: "dp_table (fold discardReply qs dp) = dp_table dp"
  by (induction qs arbitrary: dp) (simp_all add: discardReply_def)

lemma sweep_accounted:
  assumes "sweepDeadlines now dp = (evs, dp')"
  shows "accounted True evs (dp_table dp) (dp_table dp')"
proof -
  obtain gone t where g: "rt_expired now (dp_table dp) = (gone, t)" by fastforce
  then have "moves (dp_table dp) [] gone t" by (intro moves_op [of "OpExpired now"]) simp
  then show ?thesis using assms g
    by (auto simp: sweepDeadlines_def Let_def accounted_def)
qed

lemma completeAll_accounted:
  assumes "completeAll status dp = (evs, dp')"
  shows "accounted True evs (dp_table dp) (dp_table dp')"
proof -
  obtain gone t where g: "takeAttach (cfg_attachId (dp_cfg dp)) (dp_table dp) = (gone, t)" by fastforce
  then have "moves (dp_table dp) [] gone t"
    by (intro moves_op [of "OpTakeAttach (cfg_attachId (dp_cfg dp))"]) simp
  then show ?thesis using assms g
    by (auto simp: completeAll_def Let_def accounted_def)
qed

lemma moves_next: "nextRequestId ch t = (i, t') \<Longrightarrow> moves t [] [] t'"
  by (rule moves_op [of "OpNextRequestId ch"]) simp

lemma moves_add: "rt_add q t = (s, t') \<Longrightarrow> moves t (if s = Ok then [q] else []) [] t'"
  by (rule moves_op [of "OpAdd q"]) simp

lemma submit_moves:
  assumes "submit io now ep xt dir len stp data tmo dp = (s, res, dp')"
  shows "\<exists>a r. moves (dp_table dp) a r (dp_table dp')
    \<and> (\<forall>q \<in> set a. rq_attachId q = cfg_attachId (dp_cfg dp))
    \<and> (case res of
         None \<Rightarrow> a = r
       | Some k \<Rightarrow> r = [] \<and> (\<exists>q. a = [q] \<and> keyOf q = k
           \<and> rt_get (fst k) (snd k) (dp_table dp') = Some q))"
proof -
  define ch where "ch = channelFor (cfg_attachSlot (dp_cfg dp)) ep"
  obtain rid t where n: "nextRequestId ch (dp_table dp) = (rid, t)" by fastforce
  define q where "q = newRequest (dp_cfg dp) now ch rid ep xt dir len tmo"
  obtain st t' where a: "rt_add q t = (st, t')" by fastforce
  have q: "keyOf q = (ch, rid)" "rq_attachId q = cfg_attachId (dp_cfg dp)"
    by (simp_all add: q_def newRequest_def)
  note drawn = moves_next [OF n]
  have added: "moves (dp_table dp) (if st = Ok then [q] else []) [] t'"
    using moves_trans [OF drawn moves_add [OF a]] by simp
  have get: "st = Ok \<Longrightarrow> rt_get ch rid t' = Some q" using rt_get_add [of q t t'] a q by simp
  have taken: "moves (dp_table dp) [q] [q] (snd (rt_take ch rid t'))" if "st = Ok"
    using moves_trans [OF added moves_take [of t' ch rid]] that get by simp
  consider "res = None" "dp' = dp" | "res = None" "dp_table dp' = t" | "res = None" "st \<noteq> Ok" "dp_table dp' = t'"
    | "res = None" "st = Ok" "dp_table dp' = snd (rt_take ch rid t')"
    | "res = Some (ch, rid)" "st = Ok" "dp_table dp' = t'"
    using assms n a
    by (auto simp: submit_def Let_def ch_def q_def split: option.splits if_splits prod.splits)
  then show ?thesis
  proof cases
    case 1
    then show ?thesis by auto
  next
    case 2
    then show ?thesis using drawn by auto
  next
    case 3
    then show ?thesis using added by auto
  next
    case 4
    then show ?thesis using taken q by auto
  next
    case 5
    then show ?thesis using added get q by auto
  qed
qed

section \<open>Runs\<close>

text \<open>
  Calls on the plane in any order, between which the peer and the network may change the stream
  in any way (\<open>DpPeer\<close>).
\<close>

datatype 's DpOp =
    DpSubmit u64 u8 u8 u8 u32 "bytes option" bytes u32
  | DpClearHalt u64 u8
  | DpPump
  | DpSweep u64
  | DpCancel u16 u64
  | DpCompleteAll Status
  | DpPeer "'s \<Rightarrow> 's"

text \<open>
  What a run shows from outside: the requests whose submit succeeded, the events, the keys for
  which \<open>cancel\<close> returned true, and whether some \<open>pump\<close> failed.
\<close>

record DpLog =
  lg_accepted :: "OutstandingRequest list"
  lg_events :: "Event list"
  lg_cancelled :: "RequestKey list"
  lg_failed :: bool

definition noLog :: DpLog where
  "noLog = \<lparr>lg_accepted = [], lg_events = [], lg_cancelled = [], lg_failed = False\<rparr>"

definition logAppend :: "DpLog \<Rightarrow> DpLog \<Rightarrow> DpLog" where
  "logAppend l m = \<lparr>lg_accepted = lg_accepted l @ lg_accepted m, lg_events = lg_events l @ lg_events m,
     lg_cancelled = lg_cancelled l @ lg_cancelled m, lg_failed = (lg_failed l \<or> lg_failed m)\<rparr>"

fun dpStep :: "('c, 's) LinkIo \<Rightarrow> 's DpOp \<Rightarrow> ('c, 's) DataPlane \<Rightarrow> (DpLog \<times> ('c, 's) DataPlane) option" where
  "dpStep io (DpSubmit now ep xt dir len stp data tmo) dp =
     (let (s, res, dp') = submit io now ep xt dir len stp data tmo dp
      in Some (noLog\<lparr>lg_accepted := (case res of None \<Rightarrow> []
                 | Some k \<Rightarrow> (case rt_get (fst k) (snd k) (dp_table dp') of None \<Rightarrow> [] | Some q \<Rightarrow> [q]))\<rparr>, dp'))"
| "dpStep io (DpClearHalt now ep) dp = (let (s, res, dp') = clearHalt io now ep dp in Some (noLog, dp'))"
| "dpStep io DpPump dp =
     (case pump io dp of
        None \<Rightarrow> None
      | Some (s, evs, dp') \<Rightarrow> Some (noLog\<lparr>lg_events := evs, lg_failed := s \<noteq> statusCode Ok\<rparr>, dp'))"
| "dpStep io (DpSweep now) dp = (let (evs, dp') = sweepDeadlines now dp in Some (noLog\<lparr>lg_events := evs\<rparr>, dp'))"
| "dpStep io (DpCancel ch i) dp =
     (let (was, dp') = cancel io ch i dp in Some (noLog\<lparr>lg_cancelled := if was then [(ch, i)] else []\<rparr>, dp'))"
| "dpStep io (DpCompleteAll s) dp = (let (evs, dp') = completeAll s dp in Some (noLog\<lparr>lg_events := evs\<rparr>, dp'))"
| "dpStep io (DpPeer f) dp =
     Some (noLog, dp\<lparr>dp_link := map_option (\<lambda>(rl, s). (rl, f s)) (dp_link dp)\<rparr>)"

fun dpRun :: "('c, 's) LinkIo \<Rightarrow> 's DpOp list \<Rightarrow> ('c, 's) DataPlane \<Rightarrow> (DpLog \<times> ('c, 's) DataPlane) option" where
  "dpRun io [] dp = Some (noLog, dp)"
| "dpRun io (op # ops) dp =
     (case dpStep io op dp of
        None \<Rightarrow> None
      | Some (l, dp') \<Rightarrow>
          (case dpRun io ops dp' of None \<Rightarrow> None | Some (m, dp'') \<Rightarrow> Some (logAppend l m, dp'')))"

text \<open>The keys the log accounts for: completed or cancelled.\<close>

definition closedKeys :: "DpLog \<Rightarrow> RequestKey multiset" where
  "closedKeys l = mset (map doneKey (completions (lg_events l))) + mset (lg_cancelled l)"

definition liveKeys :: "RequestTable \<Rightarrow> RequestKey multiset" where
  "liveKeys t = image_mset keyOf (live t)"

text \<open>The accounting of a step or run as a whole.\<close>

definition balanced :: "u32 \<Rightarrow> DpLog \<Rightarrow> RequestTable \<Rightarrow> RequestTable \<Rightarrow> bool" where
  "balanced n l t t' \<longleftrightarrow> (\<exists>a r. moves t a r t' \<and> subseq (lg_accepted l) a \<and> (\<forall>q \<in> set a. rq_attachId q = n)
     \<and> (\<exists>back lost. mset a = mset (lg_accepted l) + back
           \<and> image_mset keyOf (mset r) = closedKeys l + image_mset keyOf back + lost
           \<and> (\<not> lg_failed l \<longrightarrow> lost = {#})))"

lemma balanced_refl: "balanced n noLog t t"
  unfolding balanced_def by (rule exI [of _ "[]"], rule exI [of _ "[]"]) (auto simp: noLog_def closedKeys_def)

lemma balanced_trans:
  assumes "balanced n l t t'" "balanced n m t' t''"
  shows "balanced n (logAppend l m) t t''"
proof -
  obtain a r b lo where 1: "moves t a r t'" "subseq (lg_accepted l) a" "\<forall>q \<in> set a. rq_attachId q = n" "mset a = mset (lg_accepted l) + b"
    "image_mset keyOf (mset r) = closedKeys l + image_mset keyOf b + lo" "\<not> lg_failed l \<longrightarrow> lo = {#}"
    using assms(1) unfolding balanced_def by blast
  obtain a' r' b' lo' where 2: "moves t' a' r' t''" "subseq (lg_accepted m) a'" "\<forall>q \<in> set a'. rq_attachId q = n" "mset a' = mset (lg_accepted m) + b'"
    "image_mset keyOf (mset r') = closedKeys m + image_mset keyOf b' + lo'" "\<not> lg_failed m \<longrightarrow> lo' = {#}"
    using assms(2) unfolding balanced_def by blast
  show ?thesis unfolding balanced_def
    by (intro exI [of _ "a @ a'"] exI [of _ "r @ r'"] conjI exI [of _ "b + b'"] exI [of _ "lo + lo'"])
       (use 1 2 moves_trans in \<open>auto simp: logAppend_def closedKeys_def intro: list_emb_append_mono\<close>)
qed

lemma subseq_mset_subset: "subseq xs ys \<Longrightarrow> mset xs \<subseteq># mset ys"
proof (induction rule: list_emb.induct)
  case (list_emb_Cons xs ys y)
  then show ?case using subset_mset.order_trans [OF _ mset_subset_eq_add_right [of "mset ys" "{#y#}"]] by simp
qed simp_all

lemma balanced_accounted:
  assumes "accounted (\<not> fl) evs t t'"
  shows "balanced n (noLog\<lparr>lg_events := evs, lg_failed := fl\<rparr>) t t'"
proof -
  obtain r where r: "moves t [] r t'" "subseq (map doneKey (completions evs)) (map keyOf r)"
    "\<not> fl \<longrightarrow> map doneKey (completions evs) = map keyOf r"
    using assms unfolding accounted_def by blast
  have "mset (map doneKey (completions evs)) \<subseteq># mset (map keyOf r)"
    using r(2) by (rule subseq_mset_subset)
  then obtain lost where lost: "mset (map keyOf r) = mset (map doneKey (completions evs)) + lost"
    unfolding mset_subset_eq_exists_conv by blast
  then have "lost = {#}" if "\<not> fl" using r(3) that by simp
  then show ?thesis unfolding balanced_def
    by (intro exI [of _ "[]"] exI [of _ r] conjI exI [of _ "{#}"] exI [of _ lost])
       (simp_all add: noLog_def closedKeys_def r(1) lost [unfolded mset_map])
qed

lemma cancel_balanced:
  assumes "cancel io ch i dp = (was, dp')" "rtInv (dp_table dp)"
  shows "balanced n (noLog\<lparr>lg_cancelled := if was then [(ch, i)] else []\<rparr>) (dp_table dp) (dp_table dp')"
proof -
  have t: "dp_table dp' = dp_table (dropTransfer ch i dp)"
    using assms(1) by (auto simp: cancel_def Let_def split: option.splits prod.splits)
  have was: "was \<longleftrightarrow> rt_get ch i (dp_table dp) \<noteq> None"
    using assms(1) by (auto simp: cancel_def Let_def rt_get_def rt_take_def split: option.splits prod.splits)
  show ?thesis
  proof (cases "rt_get ch i (dp_table dp)")
    case None
    then show ?thesis using moves_drop [of dp ch i] t was unfolding balanced_def
      by (intro exI [of _ "[]"] conjI exI [of _ "{#}"]) (auto simp: noLog_def closedKeys_def)
  next
    case (Some q)
    then show ?thesis using moves_drop [of dp ch i] t was rt_get_key [OF assms(2) Some] unfolding balanced_def
      by (intro exI [of _ "[]"] exI [of _ "[q]"] conjI exI [of _ "{#}"]) (auto simp: noLog_def closedKeys_def)
  qed
qed

lemma submit_balanced:
  assumes "submit io now ep xt dir len stp data tmo dp = (s, res, dp')"
  shows "balanced (cfg_attachId (dp_cfg dp)) (noLog\<lparr>lg_accepted := (case res of None \<Rightarrow> []
      | Some k \<Rightarrow> (case rt_get (fst k) (snd k) (dp_table dp') of None \<Rightarrow> [] | Some q \<Rightarrow> [q]))\<rparr>)
    (dp_table dp) (dp_table dp')"
proof (cases res)
  case None
  then obtain a where "moves (dp_table dp) a a (dp_table dp')" "\<forall>q \<in> set a. rq_attachId q = cfg_attachId (dp_cfg dp)"
    using submit_moves [OF assms] by auto
  then show ?thesis unfolding balanced_def using None
    by (intro exI [of _ a] conjI exI [of _ "mset a"] exI [of _ "{#}"]) (auto simp: noLog_def closedKeys_def)
next
  case (Some k)
  then obtain q where "moves (dp_table dp) [q] [] (dp_table dp')" "rt_get (fst k) (snd k) (dp_table dp') = Some q"
    "rq_attachId q = cfg_attachId (dp_cfg dp)"
    using submit_moves [OF assms] by auto
  then show ?thesis unfolding balanced_def using Some
    by (intro exI [of _ "[q]"] exI [of _ "[]"] conjI exI [of _ "{#}"]) (auto simp: noLog_def closedKeys_def)
qed

lemma clearHalt_table [simp]: "clearHalt io now ep dp = (s, res, dp') \<Longrightarrow> dp_table dp' = dp_table dp"
  by (auto simp: clearHalt_def Let_def split: option.splits if_splits prod.splits)

lemma dpStep_balanced:
  assumes "dpStep io op dp = Some (l, dp')" "rtInv (dp_table dp)"
  shows "balanced (cfg_attachId (dp_cfg dp)) l (dp_table dp) (dp_table dp')"
proof (cases op)
  case (DpSubmit now ep xt dir len stp data tmo)
  then show ?thesis using assms submit_balanced by (auto simp: Let_def split: prod.splits)
next
  case (DpClearHalt now ep)
  then show ?thesis using assms balanced_refl by (auto simp: Let_def split: prod.splits)
next
  case DpPump
  then show ?thesis using assms pump_accounted balanced_accounted
    by (fastforce split: option.splits)
next
  case (DpSweep now)
  then show ?thesis using assms sweep_accounted balanced_accounted [of False]
    by (fastforce simp: Let_def noLog_def split: prod.splits)
next
  case (DpCancel ch i)
  obtain was d where c: "cancel io ch i dp = (was, d)" by fastforce
  then show ?thesis using assms(1) DpCancel cancel_balanced [OF c assms(2)] by (simp add: Let_def)
next
  case (DpCompleteAll s)
  then show ?thesis using assms completeAll_accounted balanced_accounted [of False]
    by (fastforce simp: Let_def noLog_def split: prod.splits)
next
  case (DpPeer f)
  then show ?thesis using assms balanced_refl by auto
qed

lemma balanced_inv: "\<lbrakk>balanced (cfg_attachId (dp_cfg dp)) l t t'; rtInv t\<rbrakk> \<Longrightarrow> rtInv t'"
  unfolding balanced_def using moves_inv by blast

lemma dropTransfer_cfg [simp]: "dp_cfg (dropTransfer ch i dp) = dp_cfg dp"
  by (simp add: dropTransfer_def)

lemma handleRecord_cfg: "handleRecord m rec dp = (s, evs, dp') \<Longrightarrow> dp_cfg dp' = dp_cfg dp"
  by (auto simp: handleRecord_def handleComplete_def handleData_def handleCtrlAck_def Let_def
      split: option.splits if_splits prod.splits Outcome.splits)

lemma pumpLoop_cfg: "pumpLoop io link evs dp = Some y \<Longrightarrow> dp_cfg (snd (snd (snd y))) = dp_cfg dp"
proof (induction rule: pumpLoop.raw_induct [rotated, consumes 1, case_names step])
  case (step loop io link evs dp y)
  then show ?case
    by (auto split: prod.splits if_splits dest!: handleRecord_cfg)
qed

lemma discardReply_cfg [simp]: "dp_cfg (fold discardReply qs dp) = dp_cfg dp"
  by (induction qs arbitrary: dp) (simp_all add: discardReply_def)

lemma submit_cfg: "dp_cfg (snd (snd (submit io now ep xt dir len stp data tmo dp))) = dp_cfg dp"
  by (auto simp: submit_def Let_def split: option.split prod.split)

lemma clearHalt_cfg: "dp_cfg (snd (snd (clearHalt io now ep dp))) = dp_cfg dp"
  by (auto simp: clearHalt_def Let_def split: option.split prod.split)

lemma pump_cfg: "pump io dp = Some (s, evs, dp') \<Longrightarrow> dp_cfg dp' = dp_cfg dp"
  by (auto simp: pump_def dest!: pumpLoop_cfg split: option.splits)

lemma sweep_cfg: "dp_cfg (snd (sweepDeadlines now dp)) = dp_cfg dp"
  by (auto simp: sweepDeadlines_def Let_def split: prod.split)

lemma cancel_cfg: "dp_cfg (snd (cancel io ch i dp)) = dp_cfg dp"
  by (auto simp: cancel_def Let_def split: option.split prod.split)

lemma completeAll_cfg: "dp_cfg (snd (completeAll st dp)) = dp_cfg dp"
  by (auto simp: completeAll_def Let_def split: prod.split)

lemma dpStep_cfg: "dpStep io op dp = Some (l, dp') \<Longrightarrow> dp_cfg dp' = dp_cfg dp"
  using submit_cfg clearHalt_cfg sweep_cfg cancel_cfg completeAll_cfg
  by (cases op) (auto simp: Let_def case_prod_unfold split: option.splits dest: pump_cfg)

lemma dpRun_balanced:
  assumes "dpRun io ops dp = Some (l, dp')" "rtInv (dp_table dp)"
  shows "balanced (cfg_attachId (dp_cfg dp)) l (dp_table dp) (dp_table dp') \<and> dp_cfg dp' = dp_cfg dp"
  using assms
proof (induction ops arbitrary: dp l)
  case (Cons op ops)
  obtain l1 d1 m where s: "dpStep io op dp = Some (l1, d1)" "dpRun io ops d1 = Some (m, dp')" "l = logAppend l1 m"
    using Cons.prems(1) by (auto split: option.splits)
  have b: "balanced (cfg_attachId (dp_cfg dp)) l1 (dp_table dp) (dp_table d1)"
    using dpStep_balanced [OF s(1) Cons.prems(2)] .
  show ?case
    using balanced_trans [OF b] Cons.IH [OF s(2)] balanced_inv [OF b Cons.prems(2)] s(3) dpStep_cfg [OF s(1)]
    by simp
qed (simp add: balanced_refl)

text \<open>What a balanced run from an empty table means for the keys.\<close>

lemma balanced_keys:
  assumes "balanced n l RequestTable_new t'"
  shows "distinct (map keyOf (lg_accepted l))"
    and "closedKeys l + liveKeys t' \<subseteq># mset (map keyOf (lg_accepted l))"
    and "\<not> lg_failed l \<Longrightarrow> closedKeys l + liveKeys t' = mset (map keyOf (lg_accepted l))"
    and "\<forall>q \<in># live t'. rq_attachId q = n"
proof -
  obtain a r b lost where m: "moves RequestTable_new a r t'" "subseq (lg_accepted l) a"
      "\<forall>q \<in> set a. rq_attachId q = n"
    and a: "mset a = mset (lg_accepted l) + b"
    and r: "image_mset keyOf (mset r) = closedKeys l + image_mset keyOf b + lost"
    and lost: "\<not> lg_failed l \<longrightarrow> lost = {#}"
    using assms unfolding balanced_def by blast
  have live: "mset a = mset r + live t'"
    using moves_live [OF m(1) rtInv_new] by (simp add: live_def RequestTable_new_def)
  then have "image_mset keyOf (mset a) = image_mset keyOf (mset r) + liveKeys t'" by (simp add: liveKeys_def)
  then have eq: "mset (map keyOf (lg_accepted l)) = closedKeys l + lost + liveKeys t'" by (simp add: a r)
  show "distinct (map keyOf (lg_accepted l))"
  proof -
    obtain N where "map keyOf (lg_accepted l) = nths (map keyOf a) N"
      using subseq_map [OF m(2)] unfolding subseq_conv_nths by blast
    then show ?thesis using moves_distinct [OF m(1)] by simp
  qed
  show "closedKeys l + liveKeys t' \<subseteq># mset (map keyOf (lg_accepted l))"
    unfolding eq using mset_subset_eq_add_left [of "closedKeys l + liveKeys t'" lost] by (simp add: ac_simps)
  show "closedKeys l + liveKeys t' = mset (map keyOf (lg_accepted l))" if "\<not> lg_failed l"
    unfolding eq using lost that by simp
  have "live t' \<subseteq># mset a" by (simp add: live)
  then show "\<forall>q \<in># live t'. rq_attachId q = n" using m(3) by (auto dest: mset_subset_eqD)
qed

lemma completeAll_drains:
  assumes "completeAll status dp = (evs, dp')" "\<forall>q \<in># live (dp_table dp). rq_attachId q = cfg_attachId (dp_cfg dp)"
  shows "mset (map doneKey (completions evs)) = liveKeys (dp_table dp) \<and> live (dp_table dp') = {#}"
proof -
  have all: "\<forall>x \<in> set (rt_byKey (dp_table dp)). rq_attachId (snd x) = cfg_attachId (dp_cfg dp)"
    using assms(2) by (auto simp: live_def)
  then have "takeAttach (cfg_attachId (dp_cfg dp)) (dp_table dp)
      = (map snd (rt_byKey (dp_table dp)), (dp_table dp)\<lparr>rt_byKey := []\<rparr>)"
    by (simp add: takeAttach_def drain_filter filter_empty_conv)
  then have "completions evs = completions (map (\<lambda>q. deliver q (statusCode status) 0 False []) (map snd (rt_byKey (dp_table dp))))"
    "dp_table dp' = (dp_table dp)\<lparr>rt_byKey := []\<rparr>"
    using assms(1) by (auto simp: completeAll_def Let_def simp del: map_map)
  then show ?thesis by (simp add: liveKeys_def live_def del: map_map)
qed

end
