(* ===== verification/Delivery.thy ===== *)
theory Delivery
  imports DataPlane
begin

text \<open>
  What the data plane delivers: an invariant that ties half-received replies to the requests
  they answer, from which each completion has exactly the bytes it claims, and two results on
  \<open>pump\<close>, that it returns and what it loses.
\<close>

section \<open>Segments of a reply\<close>

text \<open>Accepted segments keep the total length announced first.\<close>

lemma accept_total:
  assumes "accept h payload r = (out, err, r')"
  shows "out = NeedMore \<Longrightarrow> \<exists>p. map_of (rs_partial r') (hkey h) = Some p \<and> pt_totalLen p = h_totalLen h"
    and "\<lbrakk>out \<noteq> Rejected; map_of (rs_partial r) (hkey h) = Some p\<rbrakk> \<Longrightarrow> h_totalLen h = pt_totalLen p"
proof -
  define s where "s = r\<lparr>rs_hasCompleted := False, rs_completed := []\<rparr>"
  have s: "rs_partial s = rs_partial r" by (simp add: s_def)
  from assms s_def have "(out = NeedMore \<longrightarrow> (\<exists>p. map_of (rs_partial r') (hkey h) = Some p \<and> pt_totalLen p = h_totalLen h))
      \<and> (out \<noteq> Rejected \<longrightarrow> (\<forall>p. map_of (rs_partial r) (hkey h) = Some p \<longrightarrow> h_totalLen h = pt_totalLen p))"
  proof (cases rule: accept_cases)
    case (new p)
    then show ?thesis using appendSegment_effect(2) [OF new(5)] by (auto simp: s)
  next
    case (cont p)
    then show ?thesis using appendSegment_effect(2) [OF cont(4)] by (auto simp: s)
  qed (auto simp: s)
  then show "out = NeedMore \<Longrightarrow> \<exists>p. map_of (rs_partial r') (hkey h) = Some p \<and> pt_totalLen p = h_totalLen h"
    "\<lbrakk>out \<noteq> Rejected; map_of (rs_partial r) (hkey h) = Some p\<rbrakk> \<Longrightarrow> h_totalLen h = pt_totalLen p"
    by blast+
qed

lemma forget_partial:
  "map_of (rs_partial (forget c i r)) k = (if k = (c, i) then None else map_of (rs_partial r) k)"
  by (auto simp: forget_def dropPartial_def delete_conv' split: option.split)

section \<open>The invariant\<close>

definition isIso :: "OutstandingRequest \<Rightarrow> bool" where
  "isIso q \<longleftrightarrow> rq_xferType q = xferCode XIsochronous"

text \<open>
  A half-received reply to an outstanding request that is not isochronous announced the length it
  reports as transferred, and its key has been seen by the table.
\<close>

definition replyOk :: "('c, 's) DataPlane \<Rightarrow> RequestKey \<Rightarrow> PendingReply \<Rightarrow> bool" where
  "replyOk dp k pr \<longleftrightarrow>
     (\<exists>l. seenAt (dp_table dp) (fst k) = Some l \<and> snd k \<le> l)
     \<and> (\<forall>q. rt_get (fst k) (snd k) (dp_table dp) = Some q \<and> \<not> isIso q \<longrightarrow>
          (\<exists>p. map_of (rs_partial (dp_reasm dp)) k = Some p
             \<and> (rq_dir q = dirCode DirIn \<longrightarrow> pt_totalLen p = pr_actualLen pr)))"

definition dpOk :: "('c, 's) DataPlane \<Rightarrow> bool" where
  "dpOk dp \<longleftrightarrow> rtInv (dp_table dp)
     \<and> (\<forall>k pr. map_of (dp_pendingReply dp) k = Some pr \<longrightarrow> replyOk dp k pr)"

lemma dpOk_reply: "\<lbrakk>dpOk dp; map_of (dp_pendingReply dp) k = Some pr\<rbrakk> \<Longrightarrow> replyOk dp k pr"
  unfolding dpOk_def by blast

text \<open>A completion answers the request and has the bytes it claims.\<close>

definition answers :: "OutstandingRequest \<Rightarrow> DataCompletion \<Rightarrow> bool" where
  "answers q c \<longleftrightarrow> doneKey c = keyOf q \<and> dc_epAddr c = rq_epAddr q \<and> dc_dir c = rq_dir q
     \<and> dc_requestedLen c = rq_requestedLen q \<and> dc_actualLen c \<le> rq_requestedLen q
     \<and> (\<not> isIso q \<longrightarrow> length (dc_data c) = (if rq_dir q = dirCode DirIn then unat (dc_actualLen c) else 0))"

lemma answers_empty: "completions [deliver q s 0 b []] = [c] \<Longrightarrow> answers q c"
  by (auto simp: deliver_def answers_def doneKey_def)

lemma rt_get_take:
  "rt_get ch i (snd (rt_take c j t)) = (if (ch, i) = (c, j) then None else rt_get ch i t)"
  by (auto simp: rt_get_def rt_take_def delete_conv' split: option.split)

lemma seenAt_take: "seenAt (snd (rt_take c j t)) = seenAt t"
  by (auto simp: seenAt_def rt_take_def split: option.split)

lemma dpOk_mono:
  assumes "dpOk dp" "rtInv (dp_table dp')" "seenAt (dp_table dp') = seenAt (dp_table dp)"
    and "\<And>ch i q. rt_get ch i (dp_table dp') = Some q \<Longrightarrow> rt_get ch i (dp_table dp) = Some q"
    and "\<And>k pr. map_of (dp_pendingReply dp') k = Some pr \<Longrightarrow>
      map_of (dp_pendingReply dp) k = Some pr
      \<and> map_of (rs_partial (dp_reasm dp')) k = map_of (rs_partial (dp_reasm dp)) k"
  shows "dpOk dp'"
  unfolding dpOk_def replyOk_def
proof (intro conjI allI impI)
  fix k pr assume k: "map_of (dp_pendingReply dp') k = Some pr"
  then have old: "replyOk dp k pr" using assms(1,5) unfolding dpOk_def by blast
  then show "\<exists>l. seenAt (dp_table dp') (fst k) = Some l \<and> snd k \<le> l"
    using assms(3) by (simp add: replyOk_def)
  fix q assume "rt_get (fst k) (snd k) (dp_table dp') = Some q \<and> \<not> isIso q"
  then show "\<exists>p. map_of (rs_partial (dp_reasm dp')) k = Some p
      \<and> (rq_dir q = dirCode DirIn \<longrightarrow> pt_totalLen p = pr_actualLen pr)"
    using old assms(4) assms(5) [OF k] unfolding replyOk_def by fastforce
qed (rule assms(2))

lemma dpOk_drop: "dpOk dp \<Longrightarrow> dpOk (dropTransfer ch i dp)"
  by (rule dpOk_mono)
     (auto simp: dropTransfer_def dpOk_def rtInv_take seenAt_take rt_get_take forget_partial
       delete_conv' split: if_splits)

lemma dpOk_rejected:
  assumes "dpOk dp" "accept h payload (dp_reasm dp) = (out, e, r')"
    and "\<And>k. k \<noteq> hkey h \<Longrightarrow> map_of pend k = map_of (dp_pendingReply dp) k"
  shows "dpOk (dropTransfer (h_channel h) (h_requestId h) (dp\<lparr>dp_pendingReply := pend, dp_reasm := r'\<rparr>))"
  by (rule dpOk_mono [OF assms(1)])
     (use assms(1,3) accept_effect(1) [OF assms(2)] in
       \<open>auto simp: dropTransfer_def dpOk_def rtInv_take seenAt_take rt_get_take forget_partial
          delete_conv' split: if_splits\<close>)

lemma dpOk_take:
  assumes "dpOk dp"
  shows "dpOk (dp\<lparr>dp_table := snd (rt_take ch i (dp_table dp))\<rparr>)"
  by (rule dpOk_mono [OF assms])
     (use assms in \<open>auto simp: dpOk_def rtInv_take seenAt_take rt_get_take split: if_splits\<close>)

text \<open>A single step: the invariant is kept and every completion answers a request that was outstanding.\<close>

definition delivers :: "('c, 's) DataPlane \<Rightarrow> Event list \<Rightarrow> ('c, 's) DataPlane \<Rightarrow> bool" where
  "delivers dp evs dp' \<longleftrightarrow> dpOk dp' \<and> (\<forall>c \<in> set (completions evs). \<exists>q \<in># live (dp_table dp). answers q c)"

lemma rt_get_live: "rt_get ch i t = Some q \<Longrightarrow> q \<in># live t"
  by (force simp: rt_get_def live_def dest: map_of_SomeD)

lemma seen_outstanding:
  assumes "rtInv t" "rt_get ch i t = Some q"
  shows "\<exists>l. seenAt t ch = Some l \<and> i \<le> l"
proof -
  have "((ch, i), q) \<in> set (rt_byKey t)" using assms(2) by (auto simp: rt_get_def dest: map_of_SomeD)
  then show ?thesis using assms(1) unfolding rtInv_def seenAt_def by fastforce
qed

lemma completeLens:
  assumes "v_ok (validateComplete h cb chunk lim)" "echoes h cb q" "\<not> isIso q"
  shows "unat (h_totalLen h) = unat (cb_payloadLen cb)"
    and "cb_payloadLen cb = (if rq_dir q = dirCode DirIn then cb_actualLen cb else 0)"
proof -
  have ok: "v_ok (r4_completeIdentity h cb)" "v_ok (r5_actualLen cb)"
    using assms(1) by (simp_all add: validateComplete_def)
  have x: "cb_xferType cb \<noteq> xferCode XIsochronous" "cb_dir cb = rq_dir q"
    using assms(2,3) by (auto simp: echoes_def isIso_def)
  show "unat (h_totalLen h) = unat (cb_payloadLen cb)"
    using r4_completeIdentity_ok(1,5) [OF ok(1)] x(1) by simp
  show "cb_payloadLen cb = (if rq_dir q = dirCode DirIn then cb_actualLen cb else 0)"
    using r5_actualLen_ok(2) [OF ok(2)] x by simp
qed

lemma handleComplete_cases:
  assumes "handleComplete m h rec dp = (s, evs, dp')"
  obtains (refused) "evs = []" "dp' = dp"
  | (single) q cb chunk d where "rt_get (h_channel h) (h_requestId h) (dp_table dp) = Some q"
      "v_ok (validateComplete h cb chunk (dpRecvLimits m (dp_cfg dp)))" "echoes h cb q"
      "cb_actualLen cb \<le> rq_requestedLen q"
      "d = (if rq_dir q = dirCode DirIn then take (unat (cb_payloadLen cb)) chunk else [])"
      "rq_dir q = dirCode DirIn \<longrightarrow> unat (cb_payloadLen cb) \<le> length chunk"
      "evs = [deliver q (h_status h) (cb_actualLen cb) (cbIsShort cb) d]"
      "dp' = dp\<lparr>dp_table := snd (rt_take (h_channel h) (h_requestId h) (dp_table dp))\<rparr>"
  | (segmented) q cb chunk pr out e r' where "rt_get (h_channel h) (h_requestId h) (dp_table dp) = Some q"
      "v_ok (validateComplete h cb chunk (dpRecvLimits m (dp_cfg dp)))" "echoes h cb q"
      "cb_actualLen cb \<le> rq_requestedLen q" "segMore h" "pr_actualLen pr = cb_actualLen cb"
      "accept h chunk (dp_reasm dp) = (out, e, r')" "evs = []"
      "dp' = (let dp1 = dp\<lparr>dp_pendingReply := mapPut (hkey h) pr (dp_pendingReply dp), dp_reasm := r'\<rparr>
              in if out = Rejected then dropTransfer (h_channel h) (h_requestId h) dp1 else dp1)"
proof -
  define rbody where "rbody = subspan rec kHeaderSize (unat (h_bodyLen h))"
  note def = handleComplete_def [of m h rec dp, folded rbody_def]
  define chunk where "chunk = drop kBodyComplete rbody"
  note def = def [folded chunk_def]
  show thesis
  proof (cases "decodeComplete rbody")
    case None
    then show thesis using refused assms by (simp add: def)
  next
    case (Some cb)
    let ?v = "validateComplete h cb chunk (dpRecvLimits m (dp_cfg dp))"
    show thesis
    proof (cases "v_ok ?v \<and> (\<exists>q. rt_get (h_channel h) (h_requestId h) (dp_table dp) = Some q \<and> echoes h cb q
        \<and> cb_actualLen cb \<le> rq_requestedLen q)")
      case False
      have "evs = []" "dp' = dp"
        using False assms Some
        by (cases "v_ok ?v"; cases "rt_get (h_channel h) (h_requestId h) (dp_table dp)";
            simp add: def Let_def chunk_def not_less [symmetric] split: if_split_asm)+
      then show thesis by (rule refused)
    next
      case True
      then obtain q where v: "v_ok ?v" and q: "rt_get (h_channel h) (h_requestId h) (dp_table dp) = Some q"
        and e: "echoes h cb q" and len: "cb_actualLen cb \<le> rq_requestedLen q" by blast
      note given = def Let_def Some v [unfolded chunk_def] q e
      show thesis
      proof (cases "segMore h")
        case False
        define d where "d = (if rq_dir q = dirCode DirIn then take (unat (cb_payloadLen cb)) chunk else [])"
        define bad where "bad \<longleftrightarrow> rq_dir q = dirCode DirIn \<and> (cb_payloadLen cb > rq_requestedLen q
          \<or> unat (cb_payloadLen cb) > length chunk)"
        have "handleComplete m h rec dp = (if bad then (MalformedFrame, [], dp)
          else (Ok, [deliver q (h_status h) (cb_actualLen cb) (cbIsShort cb) d],
            dp\<lparr>dp_table := snd (rt_take (h_channel h) (h_requestId h) (dp_table dp))\<rparr>))"
          using len by (simp add: given False d_def bad_def chunk_def not_less [symmetric])
        then show thesis
          using assms refused single [OF q v e len d_def] by (cases bad) (auto simp: bad_def)
      next
        case True
        obtain out er r' where acc: "accept h chunk (dp_reasm dp) = (out, er, r')" by (metis prod_cases3)
        define pr where "pr = \<lparr>pr_status = h_status h, pr_actualLen = cb_actualLen cb, pr_shortXfer = cbIsShort cb\<rparr>"
        let ?dp = "dp\<lparr>dp_pendingReply := mapPut (hkey h) pr (dp_pendingReply dp), dp_reasm := r'\<rparr>"
        have "handleComplete m h rec dp = (if out = Rejected
            then (er, [], dropTransfer (h_channel h) (h_requestId h) ?dp) else (Ok, [], ?dp))"
          using len by (simp add: given True pr_def acc [unfolded chunk_def] not_less [symmetric])
        then show thesis
          using assms by (intro segmented [OF q v e len True _ acc]) (auto simp: pr_def Let_def split: if_splits)
      qed
    qed
  qed
qed

lemma handleComplete_delivers:
  assumes "handleComplete m h rec dp = (s, evs, dp')" "dpOk dp"
  shows "delivers dp evs dp'"
  using assms(1)
proof (cases rule: handleComplete_cases)
  case refused
  then show ?thesis using assms(2) by (simp add: delivers_def)
next
  case (single q cb chunk d)
  have "length d = (if rq_dir q = dirCode DirIn then unat (cb_actualLen cb) else 0)" if "\<not> isIso q"
    using single(5,6) completeLens(2) [OF single(2,3) that] by auto
  then have "\<forall>c \<in> set (completions evs). answers q c"
    using single(4,7) by (simp add: deliver_def answers_def doneKey_def)
  then show ?thesis using rt_get_live [OF single(1)] dpOk_take [OF assms(2)] single(8)
    by (auto simp: delivers_def)
next
  case (segmented q cb chunk pr out e r')
  let ?dp = "dp\<lparr>dp_pendingReply := mapPut (hkey h) pr (dp_pendingReply dp), dp_reasm := r'\<rparr>"
  note acc = segmented(7)
  have inv: "rtInv (dp_table dp)" using assms(2) by (simp add: dpOk_def)
  have "dpOk ?dp" if "out \<noteq> Rejected"
  proof -
    have need: "out = NeedMore" using that accept_effect(3) [OF acc] segmented(5) by (cases out) auto
    obtain p where p: "map_of (rs_partial r') (hkey h) = Some p" "pt_totalLen p = h_totalLen h"
      using accept_total(1) [OF acc need] by blast
    have "pt_totalLen p = cb_actualLen cb" if "\<not> isIso q" "rq_dir q = dirCode DirIn"
      using completeLens [OF segmented(2,3) that(1)] that(2) p(2) by (simp add: word_unat_eq_iff)
    then have "replyOk ?dp (hkey h) pr"
      using p(1) segmented(1,6) seen_outstanding [OF inv segmented(1)] by (auto simp: replyOk_def)
    moreover have "replyOk ?dp k x" if "k \<noteq> hkey h" "map_of (dp_pendingReply dp) k = Some x" for k x
      using dpOk_reply [OF assms(2) that(2)] accept_effect(1) [OF acc that(1)] by (simp add: replyOk_def)
    ultimately show ?thesis using inv by (auto simp: dpOk_def map_of_mapPut)
  qed
  moreover have "dpOk (dropTransfer (h_channel h) (h_requestId h) ?dp)"
    by (rule dpOk_rejected [OF assms(2) acc]) (simp add: map_of_mapPut)
  ultimately show ?thesis using segmented(8,9) by (simp add: delivers_def Let_def)
qed

lemma handleData_cases:
  assumes "handleData m h rec dp = (s, evs, dp')"
  obtains (refused) "evs = []" "dp' = dp"
  | (accepted) pr payload out e r' where "map_of (dp_pendingReply dp) (hkey h) = Some pr"
      "accept h payload (dp_reasm dp) = (out, e, r')"
      "out = Rejected \<longrightarrow> evs = [] \<and> dp' = dropTransfer (h_channel h) (h_requestId h) (dp\<lparr>dp_reasm := r'\<rparr>)"
      "out = NeedMore \<longrightarrow> evs = [] \<and> dp' = dp\<lparr>dp_reasm := r'\<rparr>"
      "out = Complete \<longrightarrow> (let (full, r'') = takeCompleted h r';
           dp1 = dp\<lparr>dp_reasm := r'', dp_pendingReply := AList.delete (hkey h) (dp_pendingReply dp)\<rparr>
         in (evs = [] \<and> dp' = dp1)
          \<or> (\<exists>q. rt_get (h_channel h) (h_requestId h) (dp_table dp) = Some q
               \<and> pr_actualLen pr \<le> rq_requestedLen q
               \<and> evs = [deliver q (pr_status pr) (pr_actualLen pr) (pr_shortXfer pr)
                         (if rq_dir q = dirCode DirIn then full else [])]
               \<and> dp' = dp1\<lparr>dp_table := snd (rt_take (h_channel h) (h_requestId h) (dp_table dp))\<rparr>))"
proof -
  define payload where "payload = subspan rec kHeaderSize (unat (h_bodyLen h))"
  note def = handleData_def [of m h rec dp, folded payload_def]
  let ?v = "validateHeader h (length rec - kHeaderSize) (dpRecvLimits m (dp_cfg dp))"
  define alien where "alien \<longleftrightarrow> (case rt_get (h_channel h) (h_requestId h) (dp_table dp) of
    None \<Rightarrow> False | Some req \<Rightarrow> h_attachId h \<noteq> rq_attachId req)"
  show thesis
  proof (cases "v_ok ?v \<and> map_of (dp_pendingReply dp) (hkey h) \<noteq> None \<and> \<not> alien")
    case False
    then show thesis using assms refused
      by (cases "v_ok ?v"; cases "map_of (dp_pendingReply dp) (hkey h)")
         (simp_all add: def Let_def alien_def [symmetric])
  next
    case True
    then obtain pr where pr: "map_of (dp_pendingReply dp) (hkey h) = Some pr" by blast
    obtain out e r' where acc: "accept h payload (dp_reasm dp) = (out, e, r')" by (metis prod_cases3)
    note given = def Let_def pr acc alien_def [symmetric]
    show thesis
    proof (rule accepted [OF pr acc])
      show "out = Rejected \<longrightarrow> evs = [] \<and> dp' = dropTransfer (h_channel h) (h_requestId h) (dp\<lparr>dp_reasm := r'\<rparr>)"
        "out = NeedMore \<longrightarrow> evs = [] \<and> dp' = dp\<lparr>dp_reasm := r'\<rparr>"
        using assms True by (auto simp: given)
      show "out = Complete \<longrightarrow> (let (full, r'') = takeCompleted h r';
           dp1 = dp\<lparr>dp_reasm := r'', dp_pendingReply := AList.delete (hkey h) (dp_pendingReply dp)\<rparr>
         in (evs = [] \<and> dp' = dp1)
          \<or> (\<exists>q. rt_get (h_channel h) (h_requestId h) (dp_table dp) = Some q
               \<and> pr_actualLen pr \<le> rq_requestedLen q
               \<and> evs = [deliver q (pr_status pr) (pr_actualLen pr) (pr_shortXfer pr)
                         (if rq_dir q = dirCode DirIn then full else [])]
               \<and> dp' = dp1\<lparr>dp_table := snd (rt_take (h_channel h) (h_requestId h) (dp_table dp))\<rparr>))" (is "_ \<longrightarrow> ?complete")
      proof
        assume c: "out = Complete"
        obtain full r'' where t: "takeCompleted h r' = (full, r'')" by fastforce
        show "?complete" using assms True
          by (cases "rt_get (h_channel h) (h_requestId h) (dp_table dp)") (auto simp: def Let_def pr acc alien_def c t not_less split: if_splits)
      qed
    qed
  qed
qed

lemma handleData_delivers:
  assumes "handleData m h rec dp = (s, evs, dp')" "dpOk dp"
  shows "delivers dp evs dp'"
  using assms(1)
proof (cases rule: handleData_cases)
  case refused
  then show ?thesis using assms(2) by (simp add: delivers_def)
next
  case (accepted pr payload out e r')
  note acc = accepted(2)
  have inv: "rtInv (dp_table dp)" using assms(2) by (simp add: dpOk_def)
  note ok = dpOk_reply [OF assms(2) accepted(1)]
  show ?thesis
  proof (cases out)
    case NeedMore
    have "replyOk (dp\<lparr>dp_reasm := r'\<rparr>) k x" if "map_of (dp_pendingReply dp) k = Some x" for k x
    proof (cases "k = hkey h")
      case True
      obtain p where "map_of (rs_partial r') (hkey h) = Some p" "pt_totalLen p = h_totalLen h"
        using accept_total(1) [OF acc NeedMore] by blast
      then show ?thesis
        using ok accept_total(2) [OF acc] NeedMore True that accepted(1) by (fastforce simp: replyOk_def)
    next
      case False
      then show ?thesis
        using dpOk_reply [OF assms(2) that] accept_effect(1) [OF acc] by (simp add: replyOk_def)
    qed
    then show ?thesis using NeedMore accepted(4) inv by (simp add: delivers_def dpOk_def)
  next
    case Rejected
    then show ?thesis
      using accepted(3) dpOk_rejected [OF assms(2) acc, of "dp_pendingReply dp"] by (simp add: delivers_def)
  next
    case Complete
    obtain full r'' where t: "takeCompleted h r' = (full, r'')" by fastforce
    let ?dp = "dp\<lparr>dp_reasm := r'', dp_pendingReply := AList.delete (hkey h) (dp_pendingReply dp)\<rparr>"
    have part: "rs_partial r'' = rs_partial r'" using takeCompleted_partial [of h r'] t by simp
    have ok1: "dpOk ?dp"
      by (rule dpOk_mono [OF assms(2)])
         (use inv accept_effect(1) [OF acc] part in \<open>auto simp: delete_conv' split: if_splits\<close>)
    have len: "length full = unat (pr_actualLen pr)"
      if q: "rt_get (h_channel h) (h_requestId h) (dp_table dp) = Some q" "\<not> isIso q" "rq_dir q = dirCode DirIn" for q
    proof -
      obtain p where p: "map_of (rs_partial (dp_reasm dp)) (hkey h) = Some p" "pt_totalLen p = pr_actualLen pr"
        using ok q by (auto simp: replyOk_def)
      show ?thesis using accept_effect(3) [OF acc Complete] accept_total(2) [OF acc _ p(1)] p(2) t Complete
        by simp
    qed
    from accepted(5) Complete t consider "evs = []" "dp' = ?dp"
      | q where "rt_get (h_channel h) (h_requestId h) (dp_table dp) = Some q" "pr_actualLen pr \<le> rq_requestedLen q"
        "evs = [deliver q (pr_status pr) (pr_actualLen pr) (pr_shortXfer pr)
                  (if rq_dir q = dirCode DirIn then full else [])]"
        "dp' = ?dp\<lparr>dp_table := snd (rt_take (h_channel h) (h_requestId h) (dp_table dp))\<rparr>"
      by (auto simp: Let_def)
    then show ?thesis
    proof cases
      case 1
      then show ?thesis using ok1 by (simp add: delivers_def)
    next
      case (2 q)
      have "\<forall>c \<in> set (completions evs). answers q c"
        using 2(2,3) len [OF 2(1)] by (simp add: deliver_def answers_def doneKey_def)
      then show ?thesis using rt_get_live [OF 2(1)] dpOk_take [OF ok1] 2(4) by (auto simp: delivers_def)
    qed
  qed
qed

lemma dpOk_verbs [simp]: "dpOk (dp\<lparr>dp_verbs := v\<rparr>) = dpOk dp"
  by (simp add: dpOk_def replyOk_def)

lemma dpOk_link [simp]: "dpOk (dp\<lparr>dp_link := v\<rparr>) = dpOk dp"
  by (simp add: dpOk_def replyOk_def)

lemma dpOk_nextVerbId [simp]: "dpOk (dp\<lparr>dp_nextVerbId := v\<rparr>) = dpOk dp"
  by (simp add: dpOk_def replyOk_def)

lemma delivers_none: "\<lbrakk>dpOk dp'; completions evs = []\<rbrakk> \<Longrightarrow> delivers dp evs dp'"
  by (simp add: delivers_def)

lemma handleRecord_delivers:
  assumes "handleRecord m rec dp = (s, evs, dp')" "dpOk dp"
  shows "delivers dp evs dp'"
  using assms handleComplete_delivers handleData_delivers
  by (auto simp: handleRecord_def handleCtrlAck_def Let_def delivers_none
      split: option.splits if_splits prod.splits)

lemma accounted_live: "\<lbrakk>accounted ok evs t t'; rtInv t\<rbrakk> \<Longrightarrow> set_mset (live t') \<subseteq> set_mset (live t)"
  unfolding accounted_def using moves_live by (fastforce dest: arg_cong [where f = set_mset])

lemma delivers_trans:
  assumes "delivers dp evs dp'" "delivers dp' evs' dp''" "set_mset (live (dp_table dp')) \<subseteq> set_mset (live (dp_table dp))"
  shows "delivers dp (evs @ evs') dp''"
  using assms unfolding delivers_def by fastforce

lemma pumpLoop_delivers:
  "\<lbrakk>pumpLoop io link evs dp = Some y; dpOk dp\<rbrakk> \<Longrightarrow>
    \<exists>new. fst (snd (snd y)) = evs @ new \<and> delivers dp new (snd (snd (snd y)))"
proof (induction rule: pumpLoop.raw_induct [rotated, consumes 1, case_names step])
  case (step loop io link evs dp y)
  obtain r rec l where rec: "linkReceive io link = (r, rec, l)" by (metis prod_cases3)
  obtain s1 e1 d1 where h: "handleRecord (rl_maxRecord (fst l)) rec dp = (s1, e1, d1)" by (metis prod_cases3)
  have inv: "rtInv (dp_table dp)" using step(3) by (simp add: dpOk_def)
  note d = handleRecord_delivers [OF h step(3)]
  show ?case
  proof (cases "r = Ok \<and> rec \<noteq> [] \<and> s1 = statusCode Ok")
    case True
    then have "loop io l (evs @ e1) d1 = Some y" using step(2) rec h by simp
    then obtain new where n: "fst (snd (snd y)) = (evs @ e1) @ new" "delivers d1 new (snd (snd (snd y)))"
      using step(1) d unfolding delivers_def by blast
    show ?thesis using n delivers_trans [OF d n(2) accounted_live [OF handleRecord_accounted [OF h] inv]] by simp
  next
    case False
    then show ?thesis using step(2,3) rec h d by (auto simp: delivers_none split: if_splits)
  qed
qed

lemma pump_delivers:
  assumes "pump io dp = Some (s, evs, dp')" "dpOk dp"
  shows "delivers dp evs dp'"
  using assms
  by (fastforce simp: pump_def delivers_none delivers_def dest!: pumpLoop_delivers split: option.splits)

lemma completions_timeouts:
  "\<forall>c \<in> set (completions (map (\<lambda>q. deliver q st 0 b []) qs)). \<exists>q \<in> set qs. answers q c"
  by (induction qs) (auto simp: deliver_def answers_def doneKey_def)

lemma discardReply_ok:
  "dpOk dp \<Longrightarrow> dpOk (fold discardReply qs dp)"
proof (induction qs arbitrary: dp)
  case (Cons q qs)
  have "dpOk (discardReply q dp)"
    by (rule dpOk_mono [OF Cons.prems])
       (use Cons.prems in \<open>auto simp: discardReply_def dpOk_def forget_partial delete_conv' split: if_splits\<close>)
  then show ?case using Cons.IH by simp
qed simp

lemma dpOk_drain:
  assumes "dpOk dp"
  shows "dpOk (dp\<lparr>dp_table := snd (drain c (dp_table dp))\<rparr>)"
proof (rule dpOk_mono [OF assms])
  have inv: "rtInv (dp_table dp)" using assms by (simp add: dpOk_def)
  then show "rtInv (dp_table (dp\<lparr>dp_table := snd (drain c (dp_table dp))\<rparr>))" using rtInv_drain by simp
  fix ch i q assume g: "rt_get ch i (dp_table (dp\<lparr>dp_table := snd (drain c (dp_table dp))\<rparr>)) = Some q"
  then have "((ch, i), q) \<in> set (rt_byKey (dp_table dp))"
    by (auto simp: rt_get_def drain_filter dest!: map_of_SomeD)
  then show "rt_get ch i (dp_table dp) = Some q" using inv by (simp add: rt_get_def rtInv_def)
qed (simp_all add: drain_filter seenAt_def fun_eq_iff)

lemma drained_live: "q \<in> set (fst (drain c t)) \<Longrightarrow> q \<in># live t"
  by (auto simp: drain_filter live_def)

lemma sweep_delivers:
  assumes "sweepDeadlines now dp = (evs, dp')" "dpOk dp"
  shows "delivers dp evs dp'"
proof -
  let ?gone = "fst (rt_expired now (dp_table dp))"
  have "completions evs = completions (map (\<lambda>q. deliver q (statusCode XferTimeout) 0 False []) ?gone)"
    "dp' = (fold discardReply ?gone (dp\<lparr>dp_table := snd (rt_expired now (dp_table dp))\<rparr>))
       \<lparr>dp_verbs := dp_verbs dp'\<rparr>"
    using assms(1) by (auto simp: sweepDeadlines_def Let_def case_prod_unfold)
  then show ?thesis
    using discardReply_ok [OF dpOk_drain [OF assms(2)]] completions_timeouts drained_live
    unfolding delivers_def rt_expired_def by (metis dpOk_verbs)
qed

lemma completeAll_delivers:
  assumes "completeAll st dp = (evs, dp')" "dpOk dp"
  shows "delivers dp evs dp'"
proof -
  let ?t = "takeAttach (cfg_attachId (dp_cfg dp)) (dp_table dp)"
  have "completions evs = completions (map (\<lambda>q. deliver q (statusCode st) 0 False []) (fst ?t))"
    "dp_table dp' = snd ?t" "dp_pendingReply dp' = []"
    using assms(1) by (auto simp: completeAll_def Let_def case_prod_unfold)
  moreover have "rtInv (snd ?t)" using assms(2) by (simp add: dpOk_def takeAttach_def rtInv_drain)
  ultimately show ?thesis
    using completions_timeouts drained_live by (fastforce simp: delivers_def dpOk_def takeAttach_def)
qed

lemma cancel_ok:
  assumes "dpOk dp"
  shows "dpOk (snd (cancel io ch i dp))"
  using dpOk_drop [OF assms] by (auto simp: cancel_def Let_def split: option.split prod.split)

lemma rt_get_add_other:
  "\<lbrakk>rt_add q t = (s, t'); rt_get ch i t' = Some p\<rbrakk> \<Longrightarrow> (p = q \<and> (ch, i) = keyOf q \<and> s = Ok) \<or> rt_get ch i t = Some p"
  by (auto simp: rt_add_def rt_get_def update_conv' split: if_splits)

text \<open>A table that gains requests above all seen identifiers keeps the invariant.\<close>

lemma dpOk_add:
  assumes "dpOk dp" "rt_add q (dp_table dp) = (s, t')"
  shows "dpOk (dp\<lparr>dp_table := t'\<rparr>)"
proof -
  have inv: "rtInv (dp_table dp)" using assms(1) by (simp add: dpOk_def)
  have inv': "rtInv t'" using rtInv_add [OF inv, of q] assms(2) by simp
  have "replyOk (dp\<lparr>dp_table := t'\<rparr>) k pr" if k: "map_of (dp_pendingReply dp) k = Some pr" for k pr
  proof -
    note old = dpOk_reply [OF assms(1) k]
    obtain l where l: "seenAt (dp_table dp) (fst k) = Some l" "snd k \<le> l" using old by (auto simp: replyOk_def)
    have above: "s = Ok \<Longrightarrow> rq_channel q = fst k \<Longrightarrow> l < rq_requestId q"
      using assms(2) l(1) by (auto simp: rt_add_def seenAt_def split: if_splits option.splits)
    then have other: "s = Ok \<Longrightarrow> k \<noteq> keyOf q" using l(2) by auto
    have "\<exists>l. seenAt t' (fst k) = Some l \<and> snd k \<le> l"
      using assms(2) l above by (auto simp: rt_add_def seenAt_def update_conv' split: if_splits)
    moreover have "rt_get (fst k) (snd k) (dp_table dp) = Some p" if "rt_get (fst k) (snd k) t' = Some p" for p
      using rt_get_add_other [OF assms(2) that] other by auto
    ultimately show ?thesis using old by (simp add: replyOk_def)
  qed
  then show ?thesis using inv' by (simp add: dpOk_def)
qed

lemma dpOk_next: "\<lbrakk>dpOk dp; nextRequestId ch (dp_table dp) = (rid, t)\<rbrakk> \<Longrightarrow> dpOk (dp\<lparr>dp_table := t\<rparr>)"
  by (rule dpOk_mono)
     (auto simp: dpOk_def nextRequestId_def Let_def rtInv_def seenAt_def rt_get_def)

lemma submit_ok:
  assumes "dpOk dp" "submit io now ep xt dir len stp data tmo dp = (s, res, dp')"
  shows "dpOk dp'"
proof -
  define ch where "ch = channelFor (cfg_attachSlot (dp_cfg dp)) ep"
  obtain rid t where n: "nextRequestId ch (dp_table dp) = (rid, t)" by fastforce
  define q where "q = newRequest (dp_cfg dp) now ch rid ep xt dir len tmo"
  obtain st t' where a: "rt_add q t = (st, t')" by fastforce
  have ok: "dpOk (dp\<lparr>dp_table := t\<rparr>)" using dpOk_next [OF assms(1) n] .
  have ok': "dpOk (dp\<lparr>dp_table := t'\<rparr>)" using dpOk_add [OF ok] a by simp
  have ok'': "dpOk (dp\<lparr>dp_table := snd (rt_take ch rid t')\<rparr>)" using dpOk_take [OF ok', of ch rid] by simp
  have sw: "dpOk (dp\<lparr>dp_link := x, dp_table := y\<rparr>) = dpOk (dp\<lparr>dp_table := y\<rparr>)" for x y
    by (simp add: dpOk_def replyOk_def)
  show ?thesis
    using assms ok ok' ok'' n a
    by (auto simp: submit_def Let_def ch_def q_def sw split: option.splits if_splits prod.splits)
qed

lemma clearHalt_ok: "dpOk dp \<Longrightarrow> dpOk (snd (snd (clearHalt io now ep dp)))"
  by (auto simp: clearHalt_def Let_def split: option.split prod.split)

lemma dpStep_delivers:
  assumes "dpStep io op dp = Some (l, dp')" "dpOk dp"
  shows "delivers dp (lg_events l) dp'"
proof (cases op)
  case (DpSubmit now ep xt dir len stp data tmo)
  then show ?thesis using assms submit_ok [OF assms(2)]
    by (auto simp: Let_def noLog_def intro!: delivers_none split: prod.splits)
next
  case (DpClearHalt now ep)
  then show ?thesis using assms clearHalt_ok [OF assms(2), of io now ep]
    by (auto simp: Let_def noLog_def case_prod_unfold intro: delivers_none)
next
  case DpPump
  then show ?thesis using assms pump_delivers by (auto split: option.splits)
next
  case (DpSweep now)
  then show ?thesis using assms sweep_delivers [OF _ assms(2)] by (auto simp: Let_def case_prod_unfold)
next
  case (DpCancel ch i)
  then show ?thesis using assms cancel_ok [OF assms(2), of io ch i]
    by (auto simp: Let_def noLog_def case_prod_unfold intro: delivers_none)
next
  case (DpCompleteAll st)
  then show ?thesis using assms completeAll_delivers [OF _ assms(2)] by (auto simp: Let_def case_prod_unfold)
next
  case (DpPeer f)
  then show ?thesis using assms by (auto simp: noLog_def intro: delivers_none)
qed

text \<open>What is outstanding was accepted.\<close>

lemma dpStep_live:
  assumes "dpStep io op dp = Some (l, dp')" "rtInv (dp_table dp)"
  shows "set_mset (live (dp_table dp')) \<subseteq> set_mset (live (dp_table dp)) \<union> set (lg_accepted l)"
proof (cases op)
  case (DpSubmit now ep xt dir len stp data tmo)
  obtain s res d where sub: "submit io now ep xt dir len stp data tmo dp = (s, res, d)" by (metis prod_cases3)
  obtain a r where m: "moves (dp_table dp) a r (dp_table d)"
    "case res of None \<Rightarrow> a = r | Some k \<Rightarrow> r = [] \<and> (\<exists>q. a = [q] \<and> keyOf q = k
       \<and> rt_get (fst k) (snd k) (dp_table d) = Some q)"
    using submit_moves [OF sub] by blast
  have eq: "live (dp_table dp) + mset a = mset r + live (dp_table d)" using moves_live [OF m(1) assms(2)] .
  have "set_mset (live (dp_table d)) \<subseteq> set_mset (live (dp_table dp)) \<union> (if a = r then {} else set a)"
  proof (cases "a = r")
    case False
    have "set_mset (live (dp_table dp)) \<union> set a = set r \<union> set_mset (live (dp_table d))"
      using arg_cong [OF eq, of set_mset] by simp
    then show ?thesis using False by auto
  qed (use eq in simp)
  moreover have "d = dp'" "set (lg_accepted l) = (case res of None \<Rightarrow> {} | Some k \<Rightarrow>
      (case rt_get (fst k) (snd k) (dp_table d) of None \<Rightarrow> {} | Some q \<Rightarrow> {q}))"
    using assms(1) DpSubmit sub by (auto simp: noLog_def split: option.splits)
  ultimately show ?thesis using m(2) by (cases res) auto
next
  case DpPump
  then show ?thesis using assms accounted_live pump_accounted by (fastforce split: option.splits)
next
  case (DpSweep now)
  obtain evs d where c: "sweepDeadlines now dp = (evs, d)" by fastforce
  from accounted_live [OF sweep_accounted [OF c] assms(2)] show ?thesis using assms(1) DpSweep c by auto
next
  case (DpCompleteAll st)
  obtain evs d where c: "completeAll st dp = (evs, d)" by fastforce
  from accounted_live [OF completeAll_accounted [OF c] assms(2)] show ?thesis using assms(1) DpCompleteAll c by auto
next
  case (DpCancel ch i)
  have "set_mset (live (dp_table (dropTransfer ch i dp))) \<subseteq> set_mset (live (dp_table dp))"
    by (rule accounted_live [OF accounted_drop [OF refl] assms(2)])
  then show ?thesis using DpCancel assms(1)
    by (auto simp: cancel_def Let_def split: option.splits prod.splits)
qed (use assms in \<open>auto simp: Let_def split: prod.splits\<close>)

lemma dpRun_delivers:
  assumes "dpRun io ops dp = Some (l, dp')" "dpOk dp"
  shows "\<forall>c \<in> set (completions (lg_events l)).
    \<exists>q \<in> set_mset (live (dp_table dp)) \<union> set (lg_accepted l). answers q c"
  using assms
proof (induction ops arbitrary: dp l)
  case (Cons op ops)
  obtain l1 d1 m where s: "dpStep io op dp = Some (l1, d1)" "dpRun io ops d1 = Some (m, dp')" "l = logAppend l1 m"
    using Cons.prems(1) by (auto split: option.splits)
  note d = dpStep_delivers [OF s(1) Cons.prems(2)]
  have "rtInv (dp_table dp)" using Cons.prems(2) by (simp add: dpOk_def)
  note lv = dpStep_live [OF s(1) this]
  have "\<forall>c \<in> set (completions (lg_events m)). \<exists>q \<in> set_mset (live (dp_table d1)) \<union> set (lg_accepted m). answers q c"
    using Cons.IH [OF s(2)] d by (simp add: delivers_def)
  with d lv show ?case by (fastforce simp: delivers_def s(3) logAppend_def)
qed (simp add: noLog_def)

section \<open>Termination of the loop\<close>

text \<open>A loop whose every successful receive shrinks a measure returns.\<close>

lemma pumpLoop_returns:
  assumes shrinks: "\<And>l r rec l'. linkReceive io l = (r, rec, l') \<Longrightarrow> r = Ok \<Longrightarrow> rec \<noteq> [] \<Longrightarrow> f l' < (f l :: nat)"
  shows "\<exists>y. pumpLoop io link evs dp = Some y"
proof (induction "f link" arbitrary: link evs dp rule: less_induct)
  case less
  obtain r rec l where rec: "linkReceive io link = (r, rec, l)" by (metis prod_cases3)
  show ?case
  proof (cases "r = Ok \<and> rec \<noteq> []")
    case True
    then have "\<exists>y. pumpLoop io l e d = Some y" for e d using less shrinks [OF rec] by blast
    then show ?thesis by (subst pumpLoop.simps) (auto simp: rec split: prod.split)
  qed (subst pumpLoop.simps, auto simp: rec)
qed

section \<open>Properties\<close>

text \<open>A plane on the sink.\<close>

definition sinkPlane :: "(unit, nat) DataPlane" where
  "sinkPlane = DataPlane_new (Some (setHandshakeComplete 4096 (RecordLayer_new ()), 0)) DpConfig0"

definition sinkSubmit :: "nat DpOp" where
  "sinkSubmit = DpSubmit 0 0x81 (xferCode XBulk) (dirCode DirIn) 512 None [] 0"

definition sinkRequest :: OutstandingRequest where
  "sinkRequest = newRequest DpConfig0 0 0x81 1 0x81 (xferCode XBulk) (dirCode DirIn) 512 0"

lemma length_encodeSubmit: "wf_SubmitBody b \<Longrightarrow> length (encodeSubmit b out) = length out + 40"
  by (simp add: encodeSubmit_bytes wf_SubmitBody_def)

lemma sinkPlane_submit:
  "\<exists>dp. dpRun sinkIo [sinkSubmit] sinkPlane = Some (noLog\<lparr>lg_accepted := [sinkRequest]\<rparr>, dp)
     \<and> rt_byKey (dp_table dp) = [((0x81, 1), sinkRequest)] \<and> dp_cfg dp = DpConfig0 \<and> dp_verbs dp = []"
proof -
  let ?b = "submitBody 0x81 (xferCode XBulk) (dirCode DirIn) 512 None 0"
  have "wf_SubmitBody ?b" by (simp add: wf_SubmitBody_def submitBody_def)
  then have len: "length (encodeSubmit ?b []) = 40" by (simp add: length_encodeSubmit)
  have io: "io_cipher sinkIo = NullCipher" "ic_overhead NullCipher = 0" by (simp_all add: sinkIo_def NullCipher_def)
  show ?thesis
    by (simp add: sinkSubmit_def sinkPlane_def DataPlane_new_def submit_def Let_def rt_size_def RequestTable_new_def
      DpConfig0_def nextRequestId_def maxPlaintextBytes_def setHandshakeComplete_def RecordLayer_new_def
      channelFor_def rt_add_def newRequest_def emitTransfer_def planSegments_def sinkSend io segRecord_def
      length_encodeHeader len [simplified] rt_get_def sinkRequest_def logAppend_def noLog_def)
qed

text \<open>
  C4. Exactly one outcome per transfer (invariant I1 of the data plane).  Over every sequence of
  submits, clear-halts, pumps, deadline sweeps, cancels and teardowns, with the peer sending
  anything in between: the requests accepted have distinct channel and identifier; no request is
  completed or cancelled twice, and none that was not accepted; as long as no \<open>pump\<close> has failed,
  each accepted request has been completed or cancelled exactly once or is still outstanding; and
  \<open>completeAll\<close> then completes every outstanding request and leaves none.
\<close>

theorem transfer_outcomes:
  assumes "dpRun io ops (DataPlane_new link cfg) = Some (l, dp)"
    and "completeAll status dp = (evs, dp')"
  shows "distinct (map keyOf (lg_accepted l))
    \<and> closedKeys l + liveKeys (dp_table dp) \<subseteq># mset (map keyOf (lg_accepted l))
    \<and> (\<not> lg_failed l \<longrightarrow> closedKeys l + liveKeys (dp_table dp) = mset (map keyOf (lg_accepted l)))
    \<and> mset (map doneKey (completions evs)) = liveKeys (dp_table dp) \<and> live (dp_table dp') = {#}"
proof -
  have "balanced (cfg_attachId cfg) l RequestTable_new (dp_table dp)" "dp_cfg dp = cfg"
    using dpRun_balanced [OF assms(1)] by (simp_all add: DataPlane_new_def rtInv_new)
  with balanced_keys completeAll_drains [OF assms(2)] show ?thesis by blast
qed

theorem transfer_outcomes_witness:
  "\<exists>l dp. dpRun sinkIo [sinkSubmit] sinkPlane = Some (l, dp) \<and> map keyOf (lg_accepted l) = [(0x81, 1)]
    \<and> closedKeys l + liveKeys (dp_table dp) = {#(0x81, 1)#}"
proof -
  obtain l dp where run: "dpRun sinkIo [sinkSubmit] sinkPlane = Some (l, dp)"
    and l: "map keyOf (lg_accepted l) = [(0x81, 1)]" "\<not> lg_failed l"
    using sinkPlane_submit by (auto simp: noLog_def sinkRequest_def newRequest_def)
  obtain evs dp' where "completeAll DeviceGone dp = (evs, dp')" by fastforce
  from transfer_outcomes [OF run [unfolded sinkPlane_def] this] run l show ?thesis by auto
qed

text \<open>
  C5. A completion carries exactly what it claims.  Over every run of the data plane, whatever the
  peer sends, each completion delivered answers an accepted request: same channel, identifier,
  endpoint, direction and requested length; it never reports more bytes than were requested; and
  unless the transfer is isochronous, the data handed over for an IN transfer has exactly the
  reported length and that of an OUT transfer is empty, for replies in one record and for
  segmented replies alike.
\<close>

theorem delivered_data:
  assumes "dpRun io ops (DataPlane_new link cfg) = Some (l, dp)" "c \<in> set (completions (lg_events l))"
  shows "\<exists>q \<in> set (lg_accepted l). answers q c"
proof -
  have "dpOk (DataPlane_new link cfg)" by (simp add: dpOk_def DataPlane_new_def rtInv_new)
  from dpRun_delivers [OF assms(1) this] assms(2) show ?thesis
    by (simp add: DataPlane_new_def live_def RequestTable_new_def)
qed

theorem delivered_data_witness:
  "\<exists>l dp c. dpRun sinkIo [sinkSubmit, DpCompleteAll DeviceGone] sinkPlane = Some (l, dp)
    \<and> completions (lg_events l) = [c] \<and> dc_status c = statusCode DeviceGone \<and> answers sinkRequest c"
proof -
  obtain dp where run: "dpStep sinkIo sinkSubmit sinkPlane = Some (noLog\<lparr>lg_accepted := [sinkRequest]\<rparr>, dp)"
    and dp: "rt_byKey (dp_table dp) = [((0x81, 1), sinkRequest)]" "dp_cfg dp = DpConfig0" "dp_verbs dp = []"
    using sinkPlane_submit by (auto simp: logAppend_def noLog_def split: option.splits)
  have att: "rq_attachId sinkRequest = 0" by (simp add: sinkRequest_def newRequest_def DpConfig0_def)
  obtain evs dp' where c: "completeAll DeviceGone dp = (evs, dp')" by fastforce
  obtain c where evs: "evs = [Done c]" "dc_status c = statusCode DeviceGone"
    using c dp att by (auto simp: completeAll_def takeAttach_def drain_filter DpConfig0_def deliver_def)
  have both: "dpRun sinkIo [sinkSubmit, DpCompleteAll DeviceGone] sinkPlane
      = Some (noLog\<lparr>lg_accepted := [sinkRequest], lg_events := evs\<rparr>, dp')"
    using run c by (simp add: logAppend_def noLog_def)
  have "\<exists>q \<in> set [sinkRequest]. answers q c"
    using delivered_data [OF both [unfolded sinkPlane_def]] evs(1) by (simp add: noLog_def)
  then show ?thesis using both evs by (simp add: noLog_def)
qed

text \<open>
  C38. \<open>pump\<close> returns: over the in-memory pipe, with any cipher, any buffered input and any state of the
  plane, the receive loop ends after finitely many records.
\<close>

theorem pump_returns:
  "\<exists>result. pump \<lparr>io_cipher = ci, io_write = writeA, io_read = readA\<rparr> dp = Some result"
proof (cases "dp_link dp")
  case (Some link)
  let ?io = "\<lparr>io_cipher = ci, io_write = writeA, io_read = readA\<rparr>"
  have "bToA.ahead l' < bToA.ahead l" if "linkReceive ?io l = (Ok, rec, l')" "rec \<noteq> []" for l rec l'
    using that bToA.receiveLoop_shrinks [of ci "fst l" "snd l" Ok rec "fst l'" "snd l'"]
    by (auto simp: linkReceive_def receiveRecord_def split: if_splits)
  then obtain y where "pumpLoop ?io (snd (linkFlush ?io link)) [] dp = Some y"
    using pumpLoop_returns [of ?io bToA.ahead] by blast
  then show ?thesis using Some by (cases y) (simp add: pump_def)
qed (simp add: pump_def)


definition halfReply :: "(unit, nat) DataPlane" where
  "halfReply = sinkPlane\<lparr>
     dp_table := \<lparr>rt_byKey = [((0x81, 1), sinkRequest)], rt_lastSeen = [(0x81, 1)], rt_nextId = [(0x81, 2)]\<rparr>,
     dp_pendingReply := [((0x81, 1), \<lparr>pr_status = 0, pr_actualLen = 4, pr_shortXfer = False\<rparr>)],
     dp_reasm := (Reassembler_new (dpLimits DpConfig0))\<lparr>rs_partial := [((0x81, 1), \<lparr>pt_totalLen = 4, pt_bytes = [1, 2]\<rparr>)],
        rs_held := 2\<rparr>\<rparr>"


end
