(* ===== verification/AsyncPort.thy ===== *)
theory AsyncPort
  imports Manifest "HOL-Library.Multiset"
begin

text \<open>
  The exporter's device seam: the interface \<open>IAsyncUsbDevicePort\<close> (\<open>core/IAsyncUsbDevicePort.h\<close>)
  with the contract its header states, and \<open>InlineAsyncPort\<close> (\<open>session/InlineAsyncPort.h\<close>,
  \<open>session/InlineAsyncPort.cpp\<close>), which keeps that contract over a synchronous \<open>IUsbDevicePort\<close>
  (\<open>core/IUsbDevicePort.h\<close>).

  An interface is a record of functions.  A port is addressed by a handle of type \<open>'p\<close>, its pointer,
  and works on the state \<open>'d\<close> of the devices of the machine.  \<open>poll\<close> and \<open>abortAll\<close> return the
  outcomes in the order of the calls of \<open>onOutcome\<close>: the callbacks of the exporter do not call the
  port.  Enumerations a peer chooses keep the value of their underlying type.
\<close>

section \<open>The interfaces\<close>

record AsyncTransfer =
  tf_epAddr :: u8
  tf_xferType :: u8
  tf_dir :: u8
  tf_bufferLen :: u32
  tf_setup :: SetupPacket
  tf_dataOut :: bytes
  tf_timeoutMs :: u32
  tf_zeroPacket :: bool
  tf_shortNotOk :: bool

record AsyncOutcome =
  oc_token :: u64
  oc_status :: Status
  oc_actualLen :: u32
  oc_cancelled :: bool
  oc_zlpSent :: bool
  oc_dataIn :: bytes

record ('p, 'd) IAsyncUsbDevicePort =
  ap_submit :: "'p \<Rightarrow> u64 \<Rightarrow> AsyncTransfer \<Rightarrow> 'd \<Rightarrow> Status \<times> 'd"
  ap_cancel :: "'p \<Rightarrow> u64 \<Rightarrow> 'd \<Rightarrow> bool \<times> 'd"
  ap_clearHalt :: "'p \<Rightarrow> u64 \<Rightarrow> u8 \<Rightarrow> 'd \<Rightarrow> Status \<times> 'd"
  ap_poll :: "'p \<Rightarrow> 'd \<Rightarrow> AsyncOutcome list \<times> 'd"
  ap_abortAll :: "'p \<Rightarrow> Status \<Rightarrow> 'd \<Rightarrow> AsyncOutcome list \<times> 'd"
  ap_canIdle :: "'p \<Rightarrow> bool"

record 'u IUsbDevicePort =
  up_manifest :: DeviceManifest
  up_controlTransfer :: "SetupPacket \<Rightarrow> bytes \<Rightarrow> 'u \<Rightarrow> Status \<times> bytes \<times> 'u"
  up_bulkOut :: "u8 \<Rightarrow> bytes \<Rightarrow> 'u \<Rightarrow> Status \<times> u32 \<times> 'u"
  up_bulkIn :: "u8 \<Rightarrow> u32 \<Rightarrow> 'u \<Rightarrow> Status \<times> bytes \<times> 'u"
  up_clearHalt :: "u8 \<Rightarrow> 'u \<Rightarrow> Status \<times> 'u"

section \<open>InlineAsyncPort\<close>

record Finished =
  fi_token :: u64
  fi_status :: Status
  fi_actualLen :: u32
  fi_cancelled :: bool
  fi_zlpSent :: bool
  fi_data :: bytes

definition Finished0 :: Finished where
  "Finished0 = \<lparr>fi_token = 0, fi_status = Ok, fi_actualLen = 0, fi_cancelled = False, fi_zlpSent = False,
     fi_data = []\<rparr>"

text \<open>The outcomes held for the next \<open>poll\<close>, and the synchronous port.\<close>

type_synonym 'u InlineState = "Finished list \<times> 'u"

definition maxPacketFor :: "DeviceManifest \<Rightarrow> u8 \<Rightarrow> u32" where
  "maxPacketFor m epAddr =
     (let found = List.map_filter (\<lambda>i.
            let blob = configurationByIndex m (of_nat i)
            in if length blob < 6 then None else findEndpoint m (blob ! 5) epAddr (\<lambda>_. 0))
          [0 ..< length (dm_configs m)]
      in case found of [] \<Rightarrow> 0 | ep # _ \<Rightarrow> ucast (ep_maxPacketSize ep))"

definition inlineControl :: "'u IUsbDevicePort \<Rightarrow> AsyncTransfer \<Rightarrow> Finished \<Rightarrow> 'u \<Rightarrow> Finished \<times> 'u" where
  "inlineControl dev t f u =
     (let (s, data, u) = up_controlTransfer dev (tf_setup t) (tf_dataOut t) u;
          f = f\<lparr>fi_status := s, fi_data := data\<rparr>
      in if tf_dir t = dirCode DirOut
         then (if s = Ok then f\<lparr>fi_actualLen := of_nat (length (tf_dataOut t))\<rparr> else f, u)
         else (f\<lparr>fi_actualLen := of_nat (length data)\<rparr>, u))"

definition inlineOut :: "'u IUsbDevicePort \<Rightarrow> AsyncTransfer \<Rightarrow> Finished \<Rightarrow> 'u \<Rightarrow> Finished \<times> 'u" where
  "inlineOut dev t f u =
     (let (s, moved, u) = up_bulkOut dev (tf_epAddr t) (tf_dataOut t) u;
          f = f\<lparr>fi_status := s, fi_actualLen := moved, fi_data := []\<rparr>;
          mps = maxPacketFor (up_manifest dev) (tf_epAddr t)
      in if tf_zeroPacket t \<and> s = Ok \<and> moved \<noteq> 0 \<and> mps \<noteq> 0 \<and> moved mod mps = 0 then
           let (z, zeroMoved, u) = up_bulkOut dev (tf_epAddr t) [] u
           in (if z = Ok then f\<lparr>fi_zlpSent := True\<rparr> else f\<lparr>fi_status := z\<rparr>, u)
         else (f, u))"

definition inlineTransfer :: "'u IUsbDevicePort \<Rightarrow> AsyncTransfer \<Rightarrow> Finished \<Rightarrow> 'u \<Rightarrow> Finished \<times> 'u" where
  "inlineTransfer dev t f u =
     (if tf_xferType t = xferCode XControl then inlineControl dev t f u
      else if tf_dir t = dirCode DirIn then
        (let (s, data, u) = up_bulkIn dev (tf_epAddr t) (tf_bufferLen t) u
         in (f\<lparr>fi_status := s, fi_data := data, fi_actualLen := of_nat (length data)\<rparr>, u))
      else inlineOut dev t f u)"

definition inlineSubmit ::
    "'u IUsbDevicePort \<Rightarrow> u64 \<Rightarrow> AsyncTransfer \<Rightarrow> 'u InlineState \<Rightarrow> Status \<times> 'u InlineState" where
  "inlineSubmit dev token t st =
     (let (f, u) = inlineTransfer dev t (Finished0\<lparr>fi_token := token\<rparr>) (snd st);
          f = (if tf_shortNotOk t \<and> fi_status f = Ok \<and> tf_dir t = dirCode DirIn
                  \<and> fi_actualLen f < tf_bufferLen t
               then f\<lparr>fi_status := XferShort\<rparr> else f)
      in (Ok, fst st @ [f], u))"

definition inlineCancel :: "u64 \<Rightarrow> 'u InlineState \<Rightarrow> bool \<times> 'u InlineState" where
  "inlineCancel token st = (False, st)"

definition inlineClearHalt ::
    "'u IUsbDevicePort \<Rightarrow> u64 \<Rightarrow> u8 \<Rightarrow> 'u InlineState \<Rightarrow> Status \<times> 'u InlineState" where
  "inlineClearHalt dev token epAddr st =
     (let (s, u) = up_clearHalt dev epAddr (snd st)
      in (Ok, fst st @ [Finished0\<lparr>fi_token := token, fi_status := s\<rparr>], u))"

definition pollOutcome :: "Finished \<Rightarrow> AsyncOutcome" where
  "pollOutcome f =
     \<lparr>oc_token = fi_token f, oc_status = fi_status f, oc_actualLen = fi_actualLen f,
      oc_cancelled = fi_cancelled f, oc_zlpSent = fi_zlpSent f, oc_dataIn = fi_data f\<rparr>"

definition inlinePoll :: "'u InlineState \<Rightarrow> AsyncOutcome list \<times> 'u InlineState" where
  "inlinePoll st = (map pollOutcome (fst st), [], snd st)"

definition abortOutcome :: "Status \<Rightarrow> Finished \<Rightarrow> AsyncOutcome" where
  "abortOutcome wth f =
     \<lparr>oc_token = fi_token f, oc_status = (if fi_status f = Ok then Ok else wth),
      oc_actualLen = fi_actualLen f, oc_cancelled = False, oc_zlpSent = fi_zlpSent f,
      oc_dataIn = fi_data f\<rparr>"

definition inlineAbortAll :: "Status \<Rightarrow> 'u InlineState \<Rightarrow> AsyncOutcome list \<times> 'u InlineState" where
  "inlineAbortAll wth st = (map (abortOutcome wth) (fst st), [], snd st)"

definition InlineAsyncPort :: "'u IUsbDevicePort \<Rightarrow> ('p, 'u InlineState) IAsyncUsbDevicePort" where
  "InlineAsyncPort dev =
     \<lparr>ap_submit = (\<lambda>_. inlineSubmit dev), ap_cancel = (\<lambda>_. inlineCancel),
      ap_clearHalt = (\<lambda>_. inlineClearHalt dev), ap_poll = (\<lambda>_. inlinePoll),
      ap_abortAll = (\<lambda>_. inlineAbortAll), ap_canIdle = (\<lambda>_. False)\<rparr>"

section \<open>The contract: one outcome per accepted token\<close>

datatype PortOp =
    PoSubmit u64 AsyncTransfer
  | PoCancel u64
  | PoClearHalt u64 u8
  | PoPoll
  | PoAbortAll Status

text \<open>One call: the tokens the port took responsibility for, the outcomes it reported.\<close>

fun portStep ::
    "('p, 'd) IAsyncUsbDevicePort \<Rightarrow> 'p \<Rightarrow> PortOp \<Rightarrow> 'd \<Rightarrow> u64 list \<times> AsyncOutcome list \<times> 'd" where
  "portStep P p (PoSubmit k t) d = (let (s, d') = ap_submit P p k t d in (if s = Ok then [k] else [], [], d'))"
| "portStep P p (PoCancel k) d = ([], [], snd (ap_cancel P p k d))"
| "portStep P p (PoClearHalt k ep) d = (let (s, d') = ap_clearHalt P p k ep d in (if s = Ok then [k] else [], [], d'))"
| "portStep P p PoPoll d = ([], ap_poll P p d)"
| "portStep P p (PoAbortAll st) d = ([], ap_abortAll P p st d)"

fun portRun ::
    "('p, 'd) IAsyncUsbDevicePort \<Rightarrow> 'p \<Rightarrow> PortOp list \<Rightarrow> 'd \<Rightarrow> u64 list \<times> AsyncOutcome list \<times> 'd" where
  "portRun P p [] d = ([], [], d)"
| "portRun P p (op # ops) d =
     (let (a, o1, d1) = portStep P p op d; (a', o2, d2) = portRun P p ops d1 in (a @ a', o1 @ o2, d2))"

text \<open>\<open>owed p d\<close> are the tokens the port will still report.\<close>

locale async_port =
  fixes P :: "('p, 'd) IAsyncUsbDevicePort" and owed :: "'p \<Rightarrow> 'd \<Rightarrow> u64 multiset"
  assumes submit_owes: "ap_submit P p k t d = (s, d') \<Longrightarrow>
      owed p d' = (if s = Ok then add_mset k (owed p d) else owed p d)"
    and clearHalt_owes: "ap_clearHalt P p k ep d = (s, d') \<Longrightarrow>
      owed p d' = (if s = Ok then add_mset k (owed p d) else owed p d)"
    and cancel_owes: "ap_cancel P p k d = (b, d') \<Longrightarrow> owed p d' = owed p d"
    and poll_owes: "ap_poll P p d = (os, d') \<Longrightarrow> owed p d = mset (map oc_token os) + owed p d'"
    and abortAll_owes: "ap_abortAll P p st d = (os, d') \<Longrightarrow>
      owed p d = mset (map oc_token os) \<and> owed p d' = {#}"
begin

lemma step_owes:
  "portStep P p op d = (a, os, d') \<Longrightarrow> owed p d + mset a = mset (map oc_token os) + owed p d'"
  by (cases op)
     (auto dest: submit_owes clearHalt_owes poll_owes abortAll_owes
       simp: cancel_owes [OF surjective_pairing] split: prod.splits if_splits)

lemma run_owes:
  "portRun P p ops d = (a, os, d') \<Longrightarrow> owed p d + mset a = mset (map oc_token os) + owed p d'"
proof (induction ops arbitrary: d a os)
  case (Cons op ops)
  obtain a1 o1 d1 where s: "portStep P p op d = (a1, o1, d1)" by (metis prod_cases3)
  obtain a2 o2 d2 where r: "portRun P p ops d1 = (a2, o2, d2)" by (metis prod_cases3)
  have "a = a1 @ a2" "os = o1 @ o2" "d' = d2" using Cons.prems s r by simp_all
  then show ?case using step_owes [OF s] Cons.IH [of d1 a2 o2] r
    by (simp add: union_assoc [symmetric])
qed simp

end

text \<open>What \<open>InlineAsyncPort\<close> owes are the outcomes in \<open>_done\<close>.\<close>

definition inlineOwed :: "'p \<Rightarrow> 'u InlineState \<Rightarrow> u64 multiset" where
  "inlineOwed p st = mset (map fi_token (fst st))"

lemma inlineTransfer_token: "fi_token (fst (inlineTransfer dev t f u)) = fi_token f"
  by (simp add: inlineTransfer_def inlineControl_def inlineOut_def Let_def split: prod.split)

lemma inlineSubmit_owes:
  "inlineSubmit dev k t st = (s, st') \<Longrightarrow> s = Ok \<and> inlineOwed p st' = add_mset k (inlineOwed p st)"
  using inlineTransfer_token [of dev t "Finished0\<lparr>fi_token := k\<rparr>" "snd st"]
  by (auto simp: inlineSubmit_def inlineOwed_def Let_def split: prod.splits if_splits)

interpretation inlinePort: async_port "InlineAsyncPort dev" inlineOwed for dev
proof (unfold_locales, goal_cases)
  case (1 p k t d s d')
  then show ?case using inlineSubmit_owes [of dev k t d s d' p] by (simp add: InlineAsyncPort_def)
next
  case (2 p k ep d s d')
  then show ?case by (auto simp: InlineAsyncPort_def inlineClearHalt_def inlineOwed_def split: prod.splits)
qed (auto simp: InlineAsyncPort_def inlineCancel_def inlinePoll_def inlineAbortAll_def inlineOwed_def
      pollOutcome_def abortOutcome_def multiset.map_comp comp_def)

text \<open>
  C40. InlineAsyncPort reports exactly one outcome for each transfer and each halt clearance it
  accepts: after any sequence of submits, cancels, halt clearances, polls and aborts on a new
  adapter, the tokens accepted are, with multiplicity, those of the outcomes reported together with
  those of the outcomes it still holds; a final abort leaves none held.
\<close>

theorem inline_port_exactly_once:
  assumes "portRun (InlineAsyncPort dev) p ops ([], u) = (accepted, outcomes, d)"
  shows "mset accepted = mset (map oc_token outcomes) + mset (map fi_token (fst d))
    \<and> fst (snd (inlineAbortAll st d)) = []
    \<and> map oc_token (fst (inlineAbortAll st d)) = map fi_token (fst d)"
  using inlinePort.run_owes [OF assms]
  by (simp add: inlineOwed_def inlineAbortAll_def abortOutcome_def)

text \<open>A port that answers every read with the bytes asked for, all zero.\<close>

definition zeroDevice :: "nat IUsbDevicePort" where
  "zeroDevice =
     \<lparr>up_manifest = DeviceManifest0, up_controlTransfer = (\<lambda>s out n. (Ok, [], n + 1)),
      up_bulkOut = (\<lambda>ep out n. (Ok, of_nat (length out), n + 1)),
      up_bulkIn = (\<lambda>ep len n. (Ok, replicate (unat len) 0, n + 1)), up_clearHalt = (\<lambda>ep n. (XferStall, n + 1))\<rparr>"

definition sampleRead :: AsyncTransfer where
  "sampleRead =
     \<lparr>tf_epAddr = 0x81, tf_xferType = xferCode XBulk, tf_dir = dirCode DirIn, tf_bufferLen = 3,
      tf_setup = \<lparr>bmRequestType = 0, bRequest = 0, wValue = 0, wIndex = 0, wLength = 0\<rparr>, tf_dataOut = [],
      tf_timeoutMs = 0, tf_zeroPacket = False, tf_shortNotOk = True\<rparr>"

theorem inline_port_exactly_once_witness:
  "\<exists>outcomes d. portRun (InlineAsyncPort zeroDevice) () [PoSubmit 7 sampleRead, PoPoll, PoClearHalt 9 0x81, PoCancel 9]
      ([], 0) = ([7, 9], outcomes, d) \<and> map oc_dataIn outcomes = [[0, 0, 0]]
    \<and> mset [7, 9] = mset (map oc_token outcomes) + mset (map fi_token (fst d))"
proof -
  let ?ops = "[PoSubmit 7 sampleRead, PoPoll, PoClearHalt 9 0x81, PoCancel 9]"
  have run: "portRun (InlineAsyncPort zeroDevice) () ?ops ([], 0)
      = ([7, 9], [\<lparr>oc_token = 7, oc_status = Ok, oc_actualLen = 3, oc_cancelled = False, oc_zlpSent = False,
           oc_dataIn = [0, 0, 0]\<rparr>],
         [\<lparr>fi_token = 9, fi_status = XferStall, fi_actualLen = 0, fi_cancelled = False, fi_zlpSent = False,
           fi_data = []\<rparr>], 2)"
    by code_simp
  then show ?thesis using inline_port_exactly_once [OF run] by auto
qed

end
