(* ===== verification/Trust.thy ===== *)
theory Trust
  imports PeerStore Lease
begin

text \<open>
  What an established secure session tells the layer above about the peer (\<open>trust\<close>, \<open>grants\<close>,
  \<open>peerIdentity\<close>, \<open>mayList\<close> and \<open>mayAttach\<close> of \<open>session/SecureSession.h\<close> and \<open>session/SecureSession.cpp\<close>).
\<close>

datatype Trust = Unknown | Unpaired | Paired

record SecurePeer =
  sp_trust :: Trust
  sp_grants :: u32
  sp_identityKey :: PublicKey

definition mayList :: "SecurePeer \<Rightarrow> bool" where
  "mayList sp \<longleftrightarrow> sp_trust sp = Paired \<and> sp_grants sp AND kMayList \<noteq> 0"

definition mayAttach :: "SecurePeer \<Rightarrow> bool" where
  "mayAttach sp \<longleftrightarrow> sp_trust sp = Paired \<and> sp_grants sp AND kMayAttach \<noteq> 0"

end
