(* ===== verification/ExporterQueue.thy ===== *)
theory ExporterQueue
  imports AsyncPort Trust Segmentation Link ManifestCodec
begin

text \<open>
  The exporter's session (\<open>session/ExporterSession.h\<close>, \<open>session/ExporterSession.cpp\<close>), first part:
  its state, the queues of transfers per endpoint, their admission to the device port, the answers,
  the deadlines and the teardown.  The messages of the peer are in \<open>Exporter\<close>.

  The device source, the port and the record link are parameters, in the record \<open>Env\<close>; the state
  of the devices, of the link and of the lease authority travels in the session.  \<open>en_now\<close> is the
  value the clock has during one call, \<open>en_rnd\<close> the random bytes a granted lease draws.  The session
  is one on which \<open>begin\<close> has succeeded, so the pointers it tests are not null; \<open>transport()\<close> of an
  established \<open>SecureSession\<close> is not null either.  Three fields record history and are read by no
  operation: \<open>ex_sent\<close>, the records handed to the record layer, \<open>ex_taken\<close>, the requests that
  reached \<open>enqueueTransfer\<close>, and \<open>ex_issued\<close>, the number of tokens drawn.
\<close>

section \<open>State\<close>

record ('p, 'd) IDeviceSource =
  ds_list :: "'d \<Rightarrow> DeviceRecord list \<times> 'd"
  ds_claim :: "DeviceUid \<Rightarrow> 'd \<Rightarrow> Status \<times> 'p option \<times> DeviceManifest \<times> u8 \<times> string \<times> 'd"
  ds_release :: "DeviceUid \<Rightarrow> 'd \<Rightarrow> 'd"

record ('c, 's, 'p, 'd) Env =
  en_io :: "('c, 's) LinkIo"
  en_port :: "('p, 'd) IAsyncUsbDevicePort"
  en_source :: "('p, 'd) IDeviceSource"
  en_blake2s :: "bytes \<Rightarrow> bytes"
  en_now :: u64
  en_rnd :: RecoveryToken

abbreviation (input) kCreditUrbs :: nat where "kCreditUrbs \<equiv> 64"
abbreviation (input) kCreditBytes :: nat where "kCreditBytes \<equiv> 4 * 1024 * 1024"

datatype State = Idle | Leased | Draining | Orphaned | Closed

record Pending =
  pe_channel :: u16
  pe_requestId :: u64
  pe_sb :: SubmitBody
  pe_dataOut :: bytes
  pe_deadline :: Deadline

record InFlight =
  fl_channel :: u16
  fl_requestId :: u64
  fl_epAddr :: u8
  fl_sb :: SubmitBody
  fl_deadline :: Deadline
  fl_cancelRequested :: bool

record PendingVerb =
  vb_requestId :: u64
  vb_epAddr :: u8
  vb_isReset :: bool

record ('c, 's, 'p, 'd) ExporterSession =
  ex_peer :: SecurePeer
  ex_link :: "('c, 's) Link"
  ex_devices :: 'd
  ex_leases :: LeaseAuthority
  ex_peerName :: string
  ex_state :: State
  ex_why :: string
  ex_port :: "'p option"
  ex_manifest :: DeviceManifest
  ex_configValue :: u8
  ex_uid :: DeviceUid
  ex_attachId :: u32
  ex_leaseEpoch :: u32
  ex_attachSlot :: u8
  ex_handled :: u64
  ex_transfers :: u64
  ex_cancelled :: u64
  ex_lastHeardNs :: u64
  ex_queues :: "(u8, Pending list) smap"
  ex_inFlight :: "(u64, InFlight) smap"
  ex_nextToken :: u64
  ex_busyEndpoint :: "(u8, u64) smap"
  ex_verbs :: "(u64, PendingVerb) smap"
  ex_resetWorst :: Status
  ex_resetPending :: nat
  ex_rxActive :: bool
  ex_rxChannel :: u16
  ex_rxRequestId :: u64
  ex_rxSb :: SubmitBody
  ex_rx :: Reassembler
  ex_sent :: "bytes list"
  ex_taken :: "Key list"
  ex_issued :: nat

definition SubmitBody0 :: SubmitBody where
  "SubmitBody0 =
     \<lparr>sb_epAddr = 0, sb_xferType = 0, sb_dir = 0, sb_xflags = 0, sb_bufferLen = 0, sb_timeoutMs = 0,
      sb_isoPktCount = 0, sb_interval = 0, sb_streamId = 0, sb_setup = replicate 8 0, sb_submitTsNs = 0\<rparr>"

text \<open>\<open>begin\<close> on a new session, with an established peer and a lease authority.\<close>

definition ex_begin ::
    "u64 \<Rightarrow> SecurePeer \<Rightarrow> ('c, 's) Link \<Rightarrow> 'd \<Rightarrow> LeaseAuthority \<Rightarrow> string \<Rightarrow> ('c, 's, 'p, 'd) ExporterSession" where
  "ex_begin now peer link devices leases peerName =
     \<lparr>ex_peer = peer, ex_link = link, ex_devices = devices, ex_leases = leases, ex_peerName = peerName,
      ex_state = Idle, ex_why = [], ex_port = None, ex_manifest = DeviceManifest0, ex_configValue = 0,
      ex_uid = replicate 16 0, ex_attachId = 0, ex_leaseEpoch = 0, ex_attachSlot = 0, ex_handled = 0,
      ex_transfers = 0, ex_cancelled = 0, ex_lastHeardNs = now, ex_queues = [], ex_inFlight = [],
      ex_nextToken = 1, ex_busyEndpoint = [], ex_verbs = [], ex_resetWorst = Ok, ex_resetPending = 0,
      ex_rxActive = False, ex_rxChannel = 0, ex_rxRequestId = 0, ex_rxSb = SubmitBody0,
      ex_rx = Reassembler_new RsLimits0, ex_sent = [], ex_taken = [], ex_issued = 0\<rparr>"

section \<open>Helpers\<close>

definition isPreTrustMessage :: "u8 \<Rightarrow> bool" where
  "isPreTrustMessage t \<longleftrightarrow>
     t \<in> {typeCode T_Ping, typeCode T_Pong, typeCode T_Goodbye, typeCode T_PairRequest,
          typeCode T_PairConfirm, typeCode T_PairResult}"

definition isEp0 :: "u8 \<Rightarrow> bool" where
  "isEp0 epAddr \<longleftrightarrow> epAddr AND 0x7F = 0"

definition deadlineMsFor :: "u8 \<Rightarrow> u32" where
  "deadlineMsFor xferType =
     ucast (if xferType = xferCode XInterrupt then kUrbDeadlineIntr
            else if xferType = xferCode XControl then kNetCtrl
            else if xferType = xferCode XIsochronous then kNetCtrl
            else kUrbCeilingBulk)"

definition permitted :: "u8 \<Rightarrow> ('c, 's, 'p, 'd) ExporterSession \<Rightarrow> bool" where
  "permitted t x \<longleftrightarrow> isPreTrustMessage t \<or> sp_trust (ex_peer x) = Paired"

definition queuedTransfers :: "('c, 's, 'p, 'd) ExporterSession \<Rightarrow> nat" where
  "queuedTransfers x = asum length (ex_queues x)"

definition textBytes :: "string \<Rightarrow> bytes" where
  "textBytes s = map of_char s"

abbreviation (input) peerKey :: "('c, 's, 'p, 'd) ExporterSession \<Rightarrow> PublicKey" where
  "peerKey x \<equiv> sp_identityKey (ex_peer x)"

section \<open>Sending\<close>

definition sendRecord ::
    "('c, 's, 'p, 'd) Env \<Rightarrow> bytes \<Rightarrow> ('c, 's, 'p, 'd) ExporterSession \<Rightarrow>
      Status \<times> ('c, 's, 'p, 'd) ExporterSession" where
  "sendRecord en rec x =
     (let (s, l) = linkSend (en_io en) rec (ex_link x);
          x = x\<lparr>ex_link := l, ex_sent := ex_sent x @ [rec]\<rparr>
      in if s \<noteq> Ok then (s, x)
         else let (s, l) = linkFlush (en_io en) (ex_link x) in (s, x\<lparr>ex_link := l\<rparr>))"

definition simpleRecord :: "u32 \<Rightarrow> Type \<Rightarrow> Status \<Rightarrow> u64 \<Rightarrow> bytes \<Rightarrow> bytes" where
  "simpleRecord attachId type status requestId body =
     encodeHeader (Header0\<lparr>h_type := typeCode type, h_flags := kFlagSegFirst, h_channel := 0,
       h_attachId := attachId, h_requestId := requestId, h_status := statusCode status,
       h_bodyLen := of_nat (length body), h_totalLen := 0\<rparr>) [] @ body"

definition sendSimple ::
    "('c, 's, 'p, 'd) Env \<Rightarrow> Type \<Rightarrow> Status \<Rightarrow> u64 \<Rightarrow> bytes \<Rightarrow> ('c, 's, 'p, 'd) ExporterSession \<Rightarrow>
      Status \<times> ('c, 's, 'p, 'd) ExporterSession" where
  "sendSimple en type status requestId body x =
     sendRecord en (simpleRecord (ex_attachId x) type status requestId body) x"

definition refuse ::
    "('c, 's, 'p, 'd) Env \<Rightarrow> Header \<Rightarrow> Status \<Rightarrow> string \<Rightarrow> ('c, 's, 'p, 'd) ExporterSession \<Rightarrow>
      Status \<times> ('c, 's, 'p, 'd) ExporterSession" where
  "refuse en h status why x =
     (let x = x\<lparr>ex_why := why\<rparr>;
          rec = buildError (ucast (h_type h)) status (textBytes why) [];
          x = snd (sendRecord en rec x)
      in (if isFatal status then status else Ok, x))"

text \<open>
  A loop that runs a step for each element and keeps the last fatal status, and one whose steps
  have their status ignored.
\<close>

fun eachWorst :: "('a \<Rightarrow> 'x \<Rightarrow> Status \<times> 'x) \<Rightarrow> 'a list \<Rightarrow> Status \<Rightarrow> 'x \<Rightarrow> Status \<times> 'x" where
  "eachWorst f [] worst x = (worst, x)"
| "eachWorst f (a # as) worst x =
     (let (s, x') = f a x in eachWorst f as (if isFatal s then s else worst) x')"

definition eachDo :: "('a \<Rightarrow> 'x \<Rightarrow> Status \<times> 'x) \<Rightarrow> 'a list \<Rightarrow> 'x \<Rightarrow> 'x" where
  "eachDo f as x = fold (\<lambda>a x. snd (f a x)) as x"

section \<open>Answering a transfer\<close>

definition CompleteBody0 :: CompleteBody where
  "CompleteBody0 =
     \<lparr>cb_epAddr = 0, cb_xferType = 0, cb_dir = 0, cb_cflags = 0, cb_requestedLen = 0, cb_actualLen = 0,
      cb_payloadLen = 0, cb_isoPktCount = 0, cb_errorCount = 0, cb_startFrame = 0, cb_reserved = 0,
      cb_submitTsNs = 0\<rparr>"

definition completeBodyFor :: "SubmitBody \<Rightarrow> Status \<Rightarrow> u32 \<Rightarrow> bool \<Rightarrow> bool \<Rightarrow> bytes \<Rightarrow> CompleteBody" where
  "completeBodyFor sb st actualLen cancelled zlpSent payload =
     (let isIn = sb_dir sb = dirCode DirIn;
          actual = (if isIn then of_nat (length payload) else actualLen)
      in CompleteBody0\<lparr>cb_epAddr := sb_epAddr sb, cb_xferType := sb_xferType sb, cb_dir := sb_dir sb,
           cb_requestedLen := sb_bufferLen sb, cb_submitTsNs := sb_submitTsNs sb, cb_actualLen := actual,
           cb_payloadLen := (if isIn then of_nat (length payload) else 0),
           cb_cflags := (if st = Ok \<and> actual < sb_bufferLen sb then kCfShort else 0)
             OR (if cancelled then kCfWasCancelled else 0) OR (if zlpSent then kCfZlpSent else 0)\<rparr>)"

definition emitComplete ::
    "('c, 's, 'p, 'd) Env \<Rightarrow> InFlight \<Rightarrow> Status \<Rightarrow> u32 \<Rightarrow> bool \<Rightarrow> bool \<Rightarrow> bytes \<Rightarrow>
      ('c, 's, 'p, 'd) ExporterSession \<Rightarrow> Status \<times> ('c, 's, 'p, 'd) ExporterSession" where
  "emitComplete en f st actualLen cancelled zlpSent payload x =
     (let cb = completeBodyFor (fl_sb f) st actualLen cancelled zlpSent payload;
          isIn = sb_dir (fl_sb f) = dirCode DirIn
      in if cb_actualLen cb > cb_requestedLen cb then
           refuse en (Header0\<lparr>h_type := typeCode T_Submit, h_channel := fl_channel f,
             h_requestId := fl_requestId f\<rparr>) Internal ''device reported more than was requested'' x
         else
           let base = Header0\<lparr>h_type := typeCode T_Complete, h_channel := fl_channel f,
                 h_attachId := ex_attachId x, h_requestId := fl_requestId f, h_status := statusCode st\<rparr>;
               cbody = encodeComplete cb [];
               maxPlain = maxPlaintextBytes (io_cipher (en_io en)) (fst (ex_link x))
           in if unat maxPlain \<le> kHeaderSize + kBodyComplete then (Internal, x)
              else emitTransfer base cbody (if isIn then payload else [])
                     (maxPlain - of_nat kHeaderSize - of_nat kBodyComplete) (sendRecord en)
                     (x\<lparr>ex_transfers := ex_transfers x + 1\<rparr>))"

text \<open>The record of a transfer the device never saw, or no longer has.\<close>

definition inFlightOf :: "Pending \<Rightarrow> InFlight" where
  "inFlightOf p =
     \<lparr>fl_channel = pe_channel p, fl_requestId = pe_requestId p, fl_epAddr = sb_epAddr (pe_sb p),
      fl_sb = pe_sb p, fl_deadline = never, fl_cancelRequested = False\<rparr>"

definition answerPending ::
    "('c, 's, 'p, 'd) Env \<Rightarrow> Status \<Rightarrow> bool \<Rightarrow> Pending \<Rightarrow> ('c, 's, 'p, 'd) ExporterSession \<Rightarrow>
      Status \<times> ('c, 's, 'p, 'd) ExporterSession" where
  "answerPending en st cancelled p x = emitComplete en (inFlightOf p) st 0 cancelled False [] x"

section \<open>Queue, admit, collect\<close>

definition enqueueTransfer ::
    "('c, 's, 'p, 'd) Env \<Rightarrow> u16 \<Rightarrow> u64 \<Rightarrow> SubmitBody \<Rightarrow> bytes \<Rightarrow> ('c, 's, 'p, 'd) ExporterSession \<Rightarrow>
      Status \<times> ('c, 's, 'p, 'd) ExporterSession" where
  "enqueueTransfer en channel requestId sb dataOut x =
     (let x = x\<lparr>ex_taken := ex_taken x @ [(channel, requestId)]\<rparr>;
          queued = queuedTransfers x;
          queuedBytes = asum (\<lambda>q. sum_list (map (length \<circ> pe_dataOut) q)) (ex_queues x);
          p = \<lparr>pe_channel = channel, pe_requestId = requestId, pe_sb = sb, pe_dataOut = dataOut,
               pe_deadline = afterMs (en_now en) (ucast (deadlineMsFor (sb_xferType sb)))\<rparr>
      in if queued + length (ex_inFlight x) \<ge> kCreditUrbs \<or> queuedBytes + length dataOut > kCreditBytes
         then answerPending en NoResources False p x
         else
           let q = (case map_of (ex_queues x) (sb_epAddr sb) of None \<Rightarrow> [] | Some q \<Rightarrow> q)
           in (Ok, x\<lparr>ex_queues := mapPut (sb_epAddr sb) (q @ [p]) (ex_queues x)\<rparr>))"

definition mayAdmit :: "u8 \<Rightarrow> ('c, 's, 'p, 'd) ExporterSession \<Rightarrow> bool" where
  "mayAdmit epAddr x \<longleftrightarrow>
     (if isEp0 epAddr then ex_inFlight x = []
      else \<not> list_ex (\<lambda>(token, f). isEp0 (fl_epAddr f)) (ex_inFlight x)
           \<and> map_of (ex_busyEndpoint x) epAddr = None)"

definition setupOf :: "bytes \<Rightarrow> SetupPacket" where
  "setupOf s =
     \<lparr>bmRequestType = s ! 0, bRequest = s ! 1,
      wValue = ucast (s ! 2) OR push_bit 8 (ucast (s ! 3)),
      wIndex = ucast (s ! 4) OR push_bit 8 (ucast (s ! 5)),
      wLength = ucast (s ! 6) OR push_bit 8 (ucast (s ! 7))\<rparr>"

definition asyncTransferOf :: "Pending \<Rightarrow> AsyncTransfer" where
  "asyncTransferOf p =
     \<lparr>tf_epAddr = sb_epAddr (pe_sb p), tf_xferType = sb_xferType (pe_sb p), tf_dir = sb_dir (pe_sb p),
      tf_bufferLen = sb_bufferLen (pe_sb p),
      tf_setup = (if sb_xferType (pe_sb p) = xferCode XControl then setupOf (sb_setup (pe_sb p))
                  else \<lparr>bmRequestType = 0, bRequest = 0, wValue = 0, wIndex = 0, wLength = 0\<rparr>),
      tf_dataOut = pe_dataOut p, tf_timeoutMs = deadlineMsFor (sb_xferType (pe_sb p)),
      tf_zeroPacket = (sb_xflags (pe_sb p) AND kXfZeroPacket \<noteq> 0),
      tf_shortNotOk = (sb_xflags (pe_sb p) AND kXfShortNotOk \<noteq> 0)\<rparr>"

text \<open>The body of the loop of \<open>admit\<close>, for the queue of one endpoint.\<close>

definition admitEndpoint ::
    "('c, 's, 'p, 'd) Env \<Rightarrow> 'p \<Rightarrow> u8 \<Rightarrow> ('c, 's, 'p, 'd) ExporterSession \<Rightarrow>
      ('c, 's, 'p, 'd) ExporterSession" where
  "admitEndpoint en port epAddr x =
     (case map_of (ex_queues x) epAddr of
        None \<Rightarrow> x
      | Some [] \<Rightarrow> x
      | Some (p # q) \<Rightarrow>
          if \<not> mayAdmit epAddr x then x
          else
            let token = ex_nextToken x;
                (s, d) = ap_submit (en_port en) port token (asyncTransferOf p) (ex_devices x);
                x = x\<lparr>ex_nextToken := token + 1, ex_issued := ex_issued x + 1, ex_devices := d\<rparr>
            in if s = Busy then x
               else
                 let x = x\<lparr>ex_queues := AList.update epAddr q (ex_queues x)\<rparr>;
                     f = (inFlightOf p)\<lparr>fl_deadline := pe_deadline p\<rparr>
                 in if s \<noteq> Ok then snd (emitComplete en f s 0 False False [] x)
                    else x\<lparr>ex_inFlight := mapPut token f (ex_inFlight x),
                           ex_busyEndpoint := mapPut epAddr token (ex_busyEndpoint x)\<rparr>)"

definition admit ::
    "('c, 's, 'p, 'd) Env \<Rightarrow> ('c, 's, 'p, 'd) ExporterSession \<Rightarrow> ('c, 's, 'p, 'd) ExporterSession" where
  "admit en x =
     (case ex_port x of
        None \<Rightarrow> x
      | Some port \<Rightarrow>
          if ex_state x \<noteq> Leased then x
          else fold (admitEndpoint en port) (keys (ex_queues x)) x)"

definition verbOutcome ::
    "('c, 's, 'p, 'd) Env \<Rightarrow> PendingVerb \<Rightarrow> AsyncOutcome \<Rightarrow> ('c, 's, 'p, 'd) ExporterSession \<Rightarrow>
      ('c, 's, 'p, 'd) ExporterSession" where
  "verbOutcome en pv o1 x =
     (let x = x\<lparr>ex_verbs := AList.delete (oc_token o1) (ex_verbs x)\<rparr>
      in if vb_isReset pv then
           let x = x\<lparr>ex_resetPending := ex_resetPending x - 1,
                     ex_resetWorst := (if oc_status o1 \<noteq> Ok \<and> ex_resetWorst x = Ok then oc_status o1
                                       else ex_resetWorst x)\<rparr>
           in if vb_requestId pv \<noteq> 0
              then snd (sendSimple en T_CtrlAck (ex_resetWorst x) (vb_requestId pv) [] x) else x
         else if vb_requestId pv \<noteq> 0
         then snd (sendSimple en T_CtrlAck (oc_status o1) (vb_requestId pv) [] x) else x)"

text \<open>Erasing the endpoint whose token is the given one.\<close>

fun freeEndpoint :: "u64 \<Rightarrow> (u8, u64) smap \<Rightarrow> (u8, u64) smap" where
  "freeEndpoint token [] = []"
| "freeEndpoint token ((ep, t) # m) = (if t = token then m else (ep, t) # freeEndpoint token m)"

text \<open>The callback of \<open>collect\<close>.\<close>

definition collectOutcome ::
    "('c, 's, 'p, 'd) Env \<Rightarrow> AsyncOutcome \<Rightarrow> ('c, 's, 'p, 'd) ExporterSession \<Rightarrow>
      Status \<times> ('c, 's, 'p, 'd) ExporterSession" where
  "collectOutcome en o1 x =
     (case map_of (ex_verbs x) (oc_token o1) of
        Some pv \<Rightarrow> (Ok, verbOutcome en pv o1 x)
      | None \<Rightarrow>
          let x = x\<lparr>ex_busyEndpoint := freeEndpoint (oc_token o1) (ex_busyEndpoint x)\<rparr>
          in case map_of (ex_inFlight x) (oc_token o1) of
               None \<Rightarrow> (Ok, x)
             | Some f \<Rightarrow>
                 emitComplete en f (oc_status o1) (oc_actualLen o1) (oc_cancelled o1) (oc_zlpSent o1)
                   (oc_dataIn o1) (x\<lparr>ex_inFlight := AList.delete (oc_token o1) (ex_inFlight x)\<rparr>))"

definition collect ::
    "('c, 's, 'p, 'd) Env \<Rightarrow> ('c, 's, 'p, 'd) ExporterSession \<Rightarrow>
      Status \<times> ('c, 's, 'p, 'd) ExporterSession" where
  "collect en x =
     (case ex_port x of
        None \<Rightarrow> (Ok, x)
      | Some port \<Rightarrow>
          let (os, d) = ap_poll (en_port en) port (ex_devices x)
          in eachWorst (collectOutcome en) os Ok (x\<lparr>ex_devices := d\<rparr>))"

text \<open>A transfer in flight whose deadline has passed.\<close>

definition sweepToken ::
    "('c, 's, 'p, 'd) Env \<Rightarrow> u64 \<Rightarrow> ('c, 's, 'p, 'd) ExporterSession \<Rightarrow>
      Status \<times> ('c, 's, 'p, 'd) ExporterSession" where
  "sweepToken en token x =
     (case map_of (ex_inFlight x) token of
        None \<Rightarrow> (Ok, x)
      | Some f \<Rightarrow>
          let f = f\<lparr>fl_cancelRequested := True\<rparr>;
              x = x\<lparr>ex_inFlight := AList.update token f (ex_inFlight x)\<rparr>;
              (stopped, d) = (case ex_port x of
                                None \<Rightarrow> (False, ex_devices x)
                              | Some port \<Rightarrow> ap_cancel (en_port en) port token (ex_devices x));
              x = x\<lparr>ex_devices := d\<rparr>
          in if stopped then (Ok, x)
             else emitComplete en f XferTimeout 0 False False []
                    (x\<lparr>ex_inFlight := AList.delete token (ex_inFlight x)\<rparr>))"

definition sweepDeadlines ::
    "('c, 's, 'p, 'd) Env \<Rightarrow> ('c, 's, 'p, 'd) ExporterSession \<Rightarrow>
      Status \<times> ('c, 's, 'p, 'd) ExporterSession" where
  "sweepDeadlines en x =
     (let late = (\<lambda>p. expired (en_now en) (pe_deadline p));
          overdue = concat (map (filter late \<circ> snd) (ex_queues x));
          x = x\<lparr>ex_queues := map (\<lambda>(ep, q). (ep, filter (Not \<circ> late) q)) (ex_queues x)\<rparr>;
          (worst, x) = eachWorst (answerPending en XferTimeout False) overdue Ok x;
          tokens = map fst (filter (\<lambda>(token, f). expired (en_now en) (fl_deadline f)
                                      \<and> \<not> fl_cancelRequested f) (ex_inFlight x))
      in eachWorst (sweepToken en) tokens worst x)"

section \<open>Teardown\<close>

definition abortedOutcome ::
    "('c, 's, 'p, 'd) Env \<Rightarrow> Status \<Rightarrow> AsyncOutcome \<Rightarrow> ('c, 's, 'p, 'd) ExporterSession \<Rightarrow>
      Status \<times> ('c, 's, 'p, 'd) ExporterSession" where
  "abortedOutcome en st o1 x =
     (case map_of (ex_verbs x) (oc_token o1) of
        Some pv \<Rightarrow>
          let x = x\<lparr>ex_verbs := AList.delete (oc_token o1) (ex_verbs x)\<rparr>
          in if vb_requestId pv \<noteq> 0
             then sendSimple en T_CtrlAck (oc_status o1) (vb_requestId pv) [] x else (Ok, x)
      | None \<Rightarrow>
          (case map_of (ex_inFlight x) (oc_token o1) of
             None \<Rightarrow> (Ok, x)
           | Some f \<Rightarrow>
               emitComplete en f (if oc_status o1 = Ok then st else oc_status o1) (oc_actualLen o1) True
                 (oc_zlpSent o1) (oc_dataIn o1)
                 (x\<lparr>ex_inFlight := AList.delete (oc_token o1) (ex_inFlight x)\<rparr>)))"

definition failAllTransfers ::
    "('c, 's, 'p, 'd) Env \<Rightarrow> Status \<Rightarrow> ('c, 's, 'p, 'd) ExporterSession \<Rightarrow>
      ('c, 's, 'p, 'd) ExporterSession" where
  "failAllTransfers en st x =
     (let x = (case ex_port x of
                 None \<Rightarrow> x
               | Some port \<Rightarrow>
                   let (os, d) = ap_abortAll (en_port en) port st (ex_devices x)
                   in eachDo (abortedOutcome en st) os (x\<lparr>ex_devices := d\<rparr>));
          rest = map snd (ex_inFlight x);
          x = eachDo (\<lambda>f. emitComplete en f st 0 True False []) rest (x\<lparr>ex_inFlight := []\<rparr>);
          x = x\<lparr>ex_busyEndpoint := []\<rparr>;
          queued = concat (map snd (ex_queues x));
          x = eachDo (answerPending en st True) queued (x\<lparr>ex_queues := []\<rparr>);
          verbs = filter (\<lambda>v. vb_requestId v \<noteq> 0) (map snd (ex_verbs x))
      in eachDo (\<lambda>v. sendSimple en T_CtrlAck st (vb_requestId v) []) verbs (x\<lparr>ex_verbs := []\<rparr>))"

definition resetReassembly :: "('c, 's, 'p, 'd) ExporterSession \<Rightarrow> ('c, 's, 'p, 'd) ExporterSession" where
  "resetReassembly x =
     x\<lparr>ex_rxActive := False, ex_rxChannel := 0, ex_rxRequestId := 0, ex_rx := clear (ex_rx x)\<rparr>"

definition releaseDevice ::
    "('c, 's, 'p, 'd) Env \<Rightarrow> DeviceUid \<Rightarrow> ('c, 's, 'p, 'd) ExporterSession \<Rightarrow>
      ('c, 's, 'p, 'd) ExporterSession" where
  "releaseDevice en uid x = x\<lparr>ex_devices := ds_release (en_source en) uid (ex_devices x)\<rparr>"

definition ex_close ::
    "('c, 's, 'p, 'd) Env \<Rightarrow> ('c, 's, 'p, 'd) ExporterSession \<Rightarrow> ('c, 's, 'p, 'd) ExporterSession" where
  "ex_close en x =
     (let x = resetReassembly x;
          x = (case ex_port x of
                 None \<Rightarrow> x
               | Some port \<Rightarrow>
                   let x = failAllTransfers en Detaching x;
                       stillOwned = sn_state (la_s (ex_leases x)) \<noteq> Free;
                       x = (if stillOwned then x else releaseDevice en (ex_uid x) x)
                   in x\<lparr>ex_port := None\<rparr>)
      in x\<lparr>ex_attachId := 0, ex_state := (if ex_state x \<noteq> Closed then Idle else ex_state x)\<rparr>)"

end
