(* ===== verification/Exporter.thy ===== *)
theory Exporter
  imports ExporterQueue
begin

text \<open>
  The exporter's session, second part (\<open>session/ExporterSession.cpp\<close>): one handler for each message
  of the peer, the trust gate in front of them and the event loop \<open>pump\<close>.
\<close>

section \<open>Control messages\<close>

definition handlePing ::
    "('c, 's, 'p, 'd) Env \<Rightarrow> Header \<Rightarrow> bytes \<Rightarrow> ('c, 's, 'p, 'd) ExporterSession \<Rightarrow>
      Status \<times> ('c, 's, 'p, 'd) ExporterSession" where
  "handlePing en h body x =
     (case decodePing body of
        None \<Rightarrow> refuse en h MalformedFrame ''bad PING'' x
      | Some p \<Rightarrow>
          sendSimple en T_Pong Ok (h_requestId h)
            (encodePing \<lparr>pi_pingTsNs = pi_pingTsNs p, pi_echoTsNs = en_now en, pi_creditUrbsView = 0,
               pi_creditBytesView = 0\<rparr> []) x)"

definition handleListDevices ::
    "('c, 's, 'p, 'd) Env \<Rightarrow> Header \<Rightarrow> ('c, 's, 'p, 'd) ExporterSession \<Rightarrow>
      Status \<times> ('c, 's, 'p, 'd) ExporterSession" where
  "handleListDevices en h x =
     (if \<not> mayList (ex_peer x)
      then refuse en h NotPermitted ''This Mac is not allowed to see your devices.'' x
      else
        let (devices, d) = ds_list (en_source en) (ex_devices x)
        in sendSimple en T_DeviceList Ok (h_requestId h) (encodeDeviceList devices []) (x\<lparr>ex_devices := d\<rparr>))"

definition AttachOkBody0 :: AttachOkBody where
  "AttachOkBody0 =
     \<lparr>ao_attachId = 0, ao_creditUrbs = 64, ao_creditBytes = 4 * 1024 * 1024, ao_speed = 0,
      ao_cancelGranularity = 0, ao_exporterFlags = 0, ao_deviceLatencyUs = 0, ao_manifestLen = 0,
      ao_leaseEpoch = 0, ao_urbCeilingMs = 0\<rparr>"

text \<open>The ATTACH_OK that carries a refusal and its reason.\<close>

definition rejectAttach ::
    "('c, 's, 'p, 'd) Env \<Rightarrow> Header \<Rightarrow> Status \<Rightarrow> string \<Rightarrow> ('c, 's, 'p, 'd) ExporterSession \<Rightarrow>
      Status \<times> ('c, 's, 'p, 'd) ExporterSession" where
  "rejectAttach en h s why x =
     sendSimple en T_AttachOk s (h_requestId h)
       (appendTlv (tlvCode TlvRejectReason) (textBytes why) (encodeAttachOk AttachOkBody0 []))
       (x\<lparr>ex_why := why\<rparr>)"

definition hasIdlingEndpoint :: "DeviceManifest \<Rightarrow> bool" where
  "hasIdlingEndpoint m \<longleftrightarrow>
     list_ex (\<lambda>i.
       let blob = configurationByIndex m (of_nat i)
       in length blob \<ge> 6
          \<and> list_ex (\<lambda>iface.
              list_ex (\<lambda>e. ep_type e = XInterrupt \<or> ep_type e = XIsochronous)
                (endpointsFor m (blob ! 5) (of_nat iface) 0)) [0 ..< 256])
       [0 ..< length (dm_configs m)]"

definition kWhyIdling :: string where
  "kWhyIdling = ''This machine cannot share a device with an interrupt or isochronous endpoint yet: its USB backend cannot report a transfer that has not finished, and such an endpoint may legitimately never finish.''"

definition attachOkFor :: "u32 \<Rightarrow> u32 \<Rightarrow> DeviceManifest \<Rightarrow> nat \<Rightarrow> AttachOkBody" where
  "attachOkFor attachId leaseEpoch m manifestLen =
     AttachOkBody0\<lparr>ao_attachId := attachId, ao_creditUrbs := of_nat kCreditUrbs,
       ao_creditBytes := of_nat kCreditBytes, ao_speed := ucast (speedCode (dm_speed m)),
       ao_cancelGranularity := 0, ao_exporterFlags := kExpSupportsDeviceReset,
       ao_manifestLen := of_nat manifestLen, ao_leaseEpoch := leaseEpoch,
       ao_urbCeilingMs := ucast kUrbCeilingBulk\<rparr>"

text \<open>Giving the lease and the device back when the device could not be described.\<close>

definition undoAttach ::
    "('c, 's, 'p, 'd) Env \<Rightarrow> ('c, 's, 'p, 'd) ExporterSession \<Rightarrow> ('c, 's, 'p, 'd) ExporterSession" where
  "undoAttach en x =
     (let x = x\<lparr>ex_leases := release_lease (en_now en) (peerKey x) (ex_leases x)\<rparr>;
          x = releaseDevice en (ex_uid x) x
      in x\<lparr>ex_port := None, ex_attachId := 0\<rparr>)"

text \<open>The part of \<open>handleAttach\<close> after the device has been claimed and found shareable.\<close>

definition finishAttach ::
    "('c, 's, 'p, 'd) Env \<Rightarrow> Header \<Rightarrow> AttachBody \<Rightarrow> 'p \<Rightarrow> DeviceManifest \<Rightarrow> u8 \<Rightarrow>
      ('c, 's, 'p, 'd) ExporterSession \<Rightarrow> Status \<times> ('c, 's, 'p, 'd) ExporterSession" where
  "finishAttach en h a port m configValue x =
     (let x = x\<lparr>ex_port := Some port, ex_manifest := m, ex_configValue := configValue, ex_uid := at_uid a,
               ex_attachSlot := at_attachSlot a\<rparr>;
          (attachId, leases) = grant (en_now en) (en_rnd en) (peerKey x) (ex_uid x) (ex_leases x);
          x = x\<lparr>ex_leases := leases, ex_attachId := attachId, ex_leaseEpoch := sn_leaseEpoch (la_s leases)\<rparr>;
          (s, manifestBody) = encodeManifest (en_blake2s en) m configValue []
      in if s \<noteq> Ok
         then refuse en h ManifestInvalid ''This device's descriptors could not be read.'' (undoAttach en x)
         else
           let (s, x) = sendSimple en T_AttachOk Ok (h_requestId h)
                 (encodeAttachOk (attachOkFor attachId (ex_leaseEpoch x) m (length manifestBody)) []) x
           in if s \<noteq> Ok then (s, x)
              else
                let base = Header0\<lparr>h_type := typeCode T_DeviceManifest, h_channel := 0,
                      h_attachId := ex_attachId x, h_requestId := h_requestId h, h_status := 0\<rparr>;
                    maxPlain = maxPlaintextBytes (io_cipher (en_io en)) (fst (ex_link x))
                in if unat maxPlain \<le> kHeaderSize then (Internal, x)
                   else
                     let (s, x) = emitTransfer base [] manifestBody (maxPlain - of_nat kHeaderSize)
                           (sendRecord en) x
                     in if s \<noteq> Ok
                        then refuse en h s ''This device's descriptor set could not be sent.''
                               ((undoAttach en x)\<lparr>ex_state := Idle\<rparr>)
                        else (Ok, x\<lparr>ex_state := Leased\<rparr>))"

definition handleAttach ::
    "('c, 's, 'p, 'd) Env \<Rightarrow> Header \<Rightarrow> bytes \<Rightarrow> ('c, 's, 'p, 'd) ExporterSession \<Rightarrow>
      Status \<times> ('c, 's, 'p, 'd) ExporterSession" where
  "handleAttach en h body x =
     (if \<not> mayAttach (ex_peer x)
      then refuse en h NotPermitted ''This Mac is not allowed to use your devices.'' x
      else case decodeAttach body of
        None \<Rightarrow> refuse en h MalformedFrame ''bad ATTACH'' x
      | Some a \<Rightarrow>
          if ex_state x \<noteq> Idle then refuse en h Busy ''That device is already in use.'' x
          else case mayClaim (ex_leases x) (peerKey x) (at_uid a) of
            (s, refusal) \<Rightarrow>
              if s \<noteq> Ok
              then rejectAttach en h s (case refusal of None \<Rightarrow> [] | Some r \<Rightarrow> claimRefusalText r) x
              else case ds_claim (en_source en) (at_uid a) (ex_devices x) of
                (s, port, m, configValue, why, d) \<Rightarrow>
                  let x = x\<lparr>ex_devices := d\<rparr>
                  in if s \<noteq> Ok then rejectAttach en h s why x
                     else case port of
                       None \<Rightarrow>
                         refuse en h Internal ''the device source returned no port''
                           (releaseDevice en (at_uid a) x)
                     | Some port \<Rightarrow>
                         if \<not> ap_canIdle (en_port en) port \<and> hasIdlingEndpoint m
                         then rejectAttach en h UnsupportedMessage kWhyIdling (releaseDevice en (at_uid a) x)
                         else finishAttach en h a port m configValue x)"

text \<open>A 64-bit count in a 32-bit field.\<close>

definition saturate32 :: "nat \<Rightarrow> u32" where
  "saturate32 n = (if n > 0xFFFFFFFF then 0xFFFFFFFF else of_nat n)"

definition handleDetach ::
    "('c, 's, 'p, 'd) Env \<Rightarrow> Header \<Rightarrow> bytes \<Rightarrow> ('c, 's, 'p, 'd) ExporterSession \<Rightarrow>
      Status \<times> ('c, 's, 'p, 'd) ExporterSession" where
  "handleDetach en h body x =
     (case decodeDetach body of
        None \<Rightarrow> refuse en h MalformedFrame ''bad DETACH'' x
      | Some d \<Rightarrow>
          if ex_state x \<noteq> Leased \<and> ex_state x \<noteq> Orphaned then refuse en h NotFound ''Nothing is attached.'' x
          else
            let x = (resetReassembly x)\<lparr>ex_state := Draining\<rparr>;
                outstanding = length (ex_inFlight x) + queuedTransfers x;
                x = failAllTransfers en XferCancelled x;
                (s, x) = sendSimple en T_DetachOk Ok (h_requestId h)
                  (encodeDetachOk \<lparr>dok_urbsCompleted = saturate32 (unat (ex_transfers x)),
                     dok_urbsCancelled = saturate32 outstanding, dok_bytesDropped = 0\<rparr> []) x;
                x = undoAttach en x
            in (s, x\<lparr>ex_state := Idle\<rparr>))"

section \<open>Verbs and cancellation\<close>

definition handleClearHalt ::
    "('c, 's, 'p, 'd) Env \<Rightarrow> Header \<Rightarrow> ('c, 's, 'p, 'd) ExporterSession \<Rightarrow>
      Status \<times> ('c, 's, 'p, 'd) ExporterSession" where
  "handleClearHalt en h x =
     (case ex_port x of
        Some port \<Rightarrow>
          if ex_state x \<noteq> Leased then refuse en h Detaching ''That device is no longer attached.'' x
          else if h_attachId h \<noteq> ex_attachId x then (Ok, x)
          else
            let epAddr = ucast (h_channel h AND 0xFF);
                token = ex_nextToken x;
                v = \<lparr>vb_requestId = h_requestId h, vb_epAddr = epAddr, vb_isReset = False\<rparr>;
                (s, d) = ap_clearHalt (en_port en) port token epAddr (ex_devices x);
                x = x\<lparr>ex_nextToken := token + 1, ex_issued := ex_issued x + 1,
                      ex_verbs := mapPut token v (ex_verbs x), ex_devices := d\<rparr>
            in if s \<noteq> Ok
               then sendSimple en T_CtrlAck s (h_requestId h) []
                      (x\<lparr>ex_verbs := AList.delete token (ex_verbs x)\<rparr>)
               else (Ok, x)
      | None \<Rightarrow> refuse en h Detaching ''That device is no longer attached.'' x)"

text \<open>The legs of a DEVICE_RESET, one per bulk endpoint; only the last has a request identifier.\<close>

fun resetLegs ::
    "('c, 's, 'p, 'd) Env \<Rightarrow> 'p \<Rightarrow> u64 \<Rightarrow> u8 list \<Rightarrow> ('c, 's, 'p, 'd) ExporterSession \<Rightarrow>
      Status \<times> ('c, 's, 'p, 'd) ExporterSession" where
  "resetLegs en port requestId [] x = (Ok, x)"
| "resetLegs en port requestId (ep # eps) x =
     (let token = ex_nextToken x;
          v = \<lparr>vb_requestId = (if eps = [] then requestId else 0), vb_epAddr = ep, vb_isReset = True\<rparr>;
          (s, d) = ap_clearHalt (en_port en) port token ep (ex_devices x);
          x = x\<lparr>ex_nextToken := token + 1, ex_issued := ex_issued x + 1,
                      ex_verbs := mapPut token v (ex_verbs x), ex_devices := d\<rparr>
      in if s \<noteq> Ok then
           let x = x\<lparr>ex_verbs := AList.delete token (ex_verbs x),
                     ex_resetWorst := (if ex_resetWorst x = Ok then s else ex_resetWorst x)\<rparr>
           in if vb_requestId v \<noteq> 0
              then sendSimple en T_CtrlAck (ex_resetWorst x) requestId [] x
              else resetLegs en port requestId eps x
         else resetLegs en port requestId eps (x\<lparr>ex_resetPending := ex_resetPending x + 1\<rparr>))"

definition bulkEndpoints :: "DeviceManifest \<Rightarrow> u8 \<Rightarrow> u8 list" where
  "bulkEndpoints m configValue =
     concat (map (\<lambda>iface. map ep_address (filter (\<lambda>e. ep_type e = XBulk)
       (endpointsFor m configValue (of_nat iface) 0))) [0 ..< 256])"

definition handleDeviceReset ::
    "('c, 's, 'p, 'd) Env \<Rightarrow> Header \<Rightarrow> ('c, 's, 'p, 'd) ExporterSession \<Rightarrow>
      Status \<times> ('c, 's, 'p, 'd) ExporterSession" where
  "handleDeviceReset en h x =
     (case ex_port x of
        Some port \<Rightarrow>
          if ex_state x \<noteq> Leased then refuse en h Detaching ''That device is no longer attached.'' x
          else if h_attachId h \<noteq> ex_attachId x then (Ok, x)
          else
            let endpoints = bulkEndpoints (ex_manifest x) (ex_configValue x)
            in if endpoints = [] then sendSimple en T_CtrlAck Ok (h_requestId h) [] x
               else resetLegs en port (h_requestId h) endpoints
                      (x\<lparr>ex_resetWorst := Ok, ex_resetPending := 0\<rparr>)
      | None \<Rightarrow> refuse en h Detaching ''That device is no longer attached.'' x)"

definition cancelMatches :: "CancelBody \<Rightarrow> u8 \<Rightarrow> u64 \<Rightarrow> bool" where
  "cancelMatches cb ep rid \<longleftrightarrow>
     (if can_scope cb = scopeCode ScopeEndpoint then ep = can_epAddr cb
      else rid = can_targetRequestId cb \<and> ep = can_epAddr cb)"

text \<open>Asking the port to stop one transfer; whether it agreed.\<close>

definition cancelToken ::
    "('c, 's, 'p, 'd) Env \<Rightarrow> u64 \<Rightarrow> ('c, 's, 'p, 'd) ExporterSession \<Rightarrow>
      bool \<times> ('c, 's, 'p, 'd) ExporterSession" where
  "cancelToken en token x =
     (case map_of (ex_inFlight x) token of
        None \<Rightarrow> (False, x)
      | Some f \<Rightarrow>
          let (stopped, d) = (case ex_port x of
                                None \<Rightarrow> (False, ex_devices x)
                              | Some port \<Rightarrow> ap_cancel (en_port en) port token (ex_devices x));
              x = x\<lparr>ex_devices := d\<rparr>
          in if stopped
             then (True, x\<lparr>ex_inFlight := AList.update token (f\<lparr>fl_cancelRequested := True\<rparr>) (ex_inFlight x)\<rparr>)
             else (False, x))"

fun cancelTokens ::
    "('c, 's, 'p, 'd) Env \<Rightarrow> u64 list \<Rightarrow> u32 \<Rightarrow> ('c, 's, 'p, 'd) ExporterSession \<Rightarrow>
      u32 \<times> ('c, 's, 'p, 'd) ExporterSession" where
  "cancelTokens en [] n x = (n, x)"
| "cancelTokens en (token # ts) n x =
     (let (stopped, x) = cancelToken en token x in cancelTokens en ts (if stopped then n + 1 else n) x)"

definition handleCancel ::
    "('c, 's, 'p, 'd) Env \<Rightarrow> Header \<Rightarrow> bytes \<Rightarrow> ('c, 's, 'p, 'd) ExporterSession \<Rightarrow>
      Status \<times> ('c, 's, 'p, 'd) ExporterSession" where
  "handleCancel en h body x =
     (if ex_state x \<noteq> Leased then refuse en h Detaching ''That device is no longer attached.'' x
      else if h_attachId h \<noteq> ex_attachId x then (Ok, x)
      else case decodeCancel body of
        None \<Rightarrow> refuse en h MalformedFrame ''bad CANCEL'' x
      | Some cb \<Rightarrow>
          if can_scope cb \<noteq> scopeCode ScopeRequest \<and> can_scope cb \<noteq> scopeCode ScopeEndpoint
          then refuse en h BadArgument ''unknown cancellation scope'' x
          else if can_epAddr cb \<noteq> ucast (h_channel h AND 0xFF)
          then refuse en h BadArgument
                 ''the cancel names one endpoint in its channel and another in its body'' x
          else
            let hit = (\<lambda>p. cancelMatches cb (sb_epAddr (pe_sb p)) (pe_requestId p));
                queue = (case map_of (ex_queues x) (can_epAddr cb) of None \<Rightarrow> [] | Some q \<Rightarrow> q);
                retired = filter hit queue;
                x = x\<lparr>ex_queues := map (\<lambda>(ep, q). (ep, if ep = can_epAddr cb then filter (Not \<circ> hit) q else q))
                                    (ex_queues x)\<rparr>;
                x = eachDo (answerPending en XferCancelled True) retired x;
                x = x\<lparr>ex_cancelled := ex_cancelled x + of_nat (length retired)\<rparr>;
                tokens = map fst (filter (\<lambda>(token, f). cancelMatches cb (fl_epAddr f) (fl_requestId f))
                                    (ex_inFlight x));
                (stopped, x) = cancelTokens en tokens (of_nat (length retired)) x
            in sendSimple en T_CancelAck Ok (h_requestId h)
                 (encodeCancelAck \<lparr>cak_cancelledCount = stopped, cak_granularity = can_scope cb,
                    cak_reserved = replicate 3 0\<rparr> []) x)"

section \<open>Transfers\<close>

definition exLimits :: "('c, 's, 'p, 'd) ExporterSession \<Rightarrow> Limits" where
  "exLimits x = Limits0\<lparr>lim_maxRecordBytes := rl_maxRecord (fst (ex_link x))\<rparr>"

definition handleSubmit ::
    "('c, 's, 'p, 'd) Env \<Rightarrow> Header \<Rightarrow> bytes \<Rightarrow> ('c, 's, 'p, 'd) ExporterSession \<Rightarrow>
      Status \<times> ('c, 's, 'p, 'd) ExporterSession" where
  "handleSubmit en h body x =
     (if ex_state x \<noteq> Leased then refuse en h Detaching ''That device is no longer attached.'' x
      else if ex_port x = None then refuse en h DeviceGone ''That device is gone.'' x
      else if h_attachId h \<noteq> ex_attachId x then (Ok, x)
      else case decodeSubmit body of
        None \<Rightarrow> refuse en h MalformedFrame ''bad SUBMIT'' x
      | Some sb \<Rightarrow>
          let dataSection = drop kBodySubmit body;
              v = validateSubmit h sb dataSection (exLimits x)
          in if \<not> v_ok v then refuse en h (v_status v) ''SUBMIT failed validation'' x
             else if segMore h then
               (if sb_dir sb \<noteq> dirCode DirOut
                then refuse en h MalformedFrame ''a segmented IN SUBMIT is malformed'' x
                else if ex_rxActive x then refuse en h MalformedFrame ''overlapping segmented SUBMIT'' x
                else
                  let (out, e, rx) = accept h dataSection (clear (ex_rx x));
                      x = x\<lparr>ex_rxActive := True, ex_rxChannel := h_channel h, ex_rxRequestId := h_requestId h,
                            ex_rxSb := sb, ex_rx := rx\<rparr>
                  in if out = Rejected
                     then refuse en h e ''segmentation rejected the first segment'' (resetReassembly x)
                     else (Ok, x))
             else if ex_rxActive x
             then refuse en h MalformedFrame ''a SUBMIT arrived during reassembly'' x
             else enqueueTransfer en (h_channel h) (h_requestId h) sb dataSection x)"

definition handleData ::
    "('c, 's, 'p, 'd) Env \<Rightarrow> Header \<Rightarrow> bytes \<Rightarrow> ('c, 's, 'p, 'd) ExporterSession \<Rightarrow>
      Status \<times> ('c, 's, 'p, 'd) ExporterSession" where
  "handleData en h body x =
     (if ex_state x \<noteq> Leased \<or> ex_port x = None
      then refuse en h Detaching ''That device is no longer attached.'' x
      else if h_attachId h \<noteq> ex_attachId x then (Ok, x)
      else if \<not> ex_rxActive x \<or> h_channel h \<noteq> ex_rxChannel x \<or> h_requestId h \<noteq> ex_rxRequestId x
      then refuse en h MalformedFrame ''a DATA segment arrived with no transfer in progress'' x
      else
        let (out, e, rx) = accept h body (ex_rx x);
            x = x\<lparr>ex_rx := rx\<rparr>
        in case out of
             Rejected \<Rightarrow> refuse en h e ''segmentation rejected a continuation'' (resetReassembly x)
           | NeedMore \<Rightarrow> (Ok, x)
           | Complete \<Rightarrow>
               let (full, rx) = takeCompleted h (ex_rx x)
               in enqueueTransfer en (ex_rxChannel x) (ex_rxRequestId x) (ex_rxSb x) full
                    (resetReassembly (x\<lparr>ex_rx := rx\<rparr>)))"

section \<open>The event loop\<close>

definition handle ::
    "('c, 's, 'p, 'd) Env \<Rightarrow> Header \<Rightarrow> bytes \<Rightarrow> ('c, 's, 'p, 'd) ExporterSession \<Rightarrow>
      Status \<times> ('c, 's, 'p, 'd) ExporterSession" where
  "handle en h body x =
     (let x = x\<lparr>ex_handled := ex_handled x + 1\<rparr>
      in if \<not> permitted (h_type h) x
         then refuse en h NotPaired ''This Mac has not been paired with yours yet.'' x
         else case typeOf (h_type h) of
           Some T_Ping \<Rightarrow> handlePing en h body x
         | Some T_ListDevices \<Rightarrow> handleListDevices en h x
         | Some T_Attach \<Rightarrow> handleAttach en h body x
         | Some T_Detach \<Rightarrow> handleDetach en h body x
         | Some T_Submit \<Rightarrow> handleSubmit en h body x
         | Some T_Data \<Rightarrow> handleData en h body x
         | Some T_Cancel \<Rightarrow> handleCancel en h body x
         | Some T_EpClearHalt \<Rightarrow> handleClearHalt en h x
         | Some T_DeviceReset \<Rightarrow> handleDeviceReset en h x
         | Some T_Goodbye \<Rightarrow> (Ok, ex_close en (x\<lparr>ex_state := Closed\<rparr>))
         | _ \<Rightarrow> refuse en h UnsupportedMessage ''That request is not supported by this version.'' x)"

text \<open>
  The messages of one record, from position \<open>at\<close> on.  \<open>Some s\<close> is a return from \<open>pump\<close> with \<open>s\<close>,
  \<open>None\<close> means that the record was consumed.
\<close>

function messages ::
    "('c, 's, 'p, 'd) Env \<Rightarrow> bytes \<Rightarrow> nat \<Rightarrow> ('c, 's, 'p, 'd) ExporterSession \<Rightarrow>
      Status option \<times> ('c, 's, 'p, 'd) ExporterSession" where
  "messages en rec at x =
     (if at < length rec then
        let remaining = drop at rec
        in case decodeHeader remaining of
             None \<Rightarrow> map_prod Some id (refuse en Header0 MalformedFrame ''unparseable header'' x)
           | Some h \<Rightarrow>
               let avail = length remaining - kHeaderSize;
                   v = validateHeader h avail (exLimits x)
               in if \<not> v_ok v
                  then map_prod Some id (refuse en h (v_status v) ''header failed validation'' x)
                  else if avail < unat (h_bodyLen h)
                  then map_prod Some id (refuse en h MalformedFrame ''body shorter than declared'' x)
                  else
                    let (s, x) = handle en h (subspan remaining kHeaderSize (unat (h_bodyLen h))) x
                    in if isFatal s then (Some s, x)
                       else messages en rec (at + kHeaderSize + unat (h_bodyLen h)) x
      else if at \<noteq> length rec
      then map_prod Some id (refuse en Header0 MalformedFrame ''trailing bytes in record'' x)
      else (None, x))"
  by pat_completeness auto

termination messages
  by (relation "measure (\<lambda>(en, rec, at, x). length rec - at)") auto

declare messages.simps [simp del]

text \<open>How the reading loop of \<open>pump\<close> ends: a return, a transport that is gone, nothing more to read.\<close>

datatype ReadEnd = Return Status | Gone | Drained

definition heardPeer ::
    "('c, 's, 'p, 'd) Env \<Rightarrow> ('c, 's, 'p, 'd) ExporterSession \<Rightarrow> ('c, 's, 'p, 'd) ExporterSession" where
  "heardPeer en x = x\<lparr>ex_leases := heard (en_now en) (peerKey x) (ex_leases x)\<rparr>"

partial_function (option) readLoop ::
    "('c, 's, 'p, 'd) Env \<Rightarrow> ('c, 's, 'p, 'd) ExporterSession \<Rightarrow>
      (ReadEnd \<times> ('c, 's, 'p, 'd) ExporterSession) option" where
  "readLoop en x =
     (case linkReceive (en_io en) (ex_link x) of
        (r, rec, link) \<Rightarrow>
          if r = Busy then Some (Drained, x\<lparr>ex_link := link\<rparr>)
          else if r = TransportLost then Some (Gone, x\<lparr>ex_link := link\<rparr>)
          else if r \<noteq> Ok then Some (Return r, x\<lparr>ex_link := link\<rparr>)
          else if rec = [] then Some (Drained, x\<lparr>ex_link := link\<rparr>)
          else case messages en rec 0 (heardPeer en (x\<lparr>ex_link := link, ex_lastHeardNs := en_now en\<rparr>)) of
            (Some s, x') \<Rightarrow> Some (Return s, x')
          | (None, x') \<Rightarrow> readLoop en x')"

declare readLoop.simps [code]

definition owesAnswers :: "('c, 's, 'p, 'd) ExporterSession \<Rightarrow> bool" where
  "owesAnswers x \<longleftrightarrow> ex_inFlight x \<noteq> [] \<or> queuedTransfers x \<noteq> 0"

definition transportGone ::
    "('c, 's, 'p, 'd) Env \<Rightarrow> ('c, 's, 'p, 'd) ExporterSession \<Rightarrow> ('c, 's, 'p, 'd) ExporterSession" where
  "transportGone en x =
     (let x = (if ex_state x = Leased
               then x\<lparr>ex_state := Orphaned, ex_leases := quarantine (en_now en) (ex_leases x)\<rparr> else x)
      in resetReassembly (failAllTransfers en TransportLost x))"

text \<open>Steps 3 to 5 of the loop, the deadlines and the lease timer.\<close>

definition pumpDevice ::
    "('c, 's, 'p, 'd) Env \<Rightarrow> ('c, 's, 'p, 'd) ExporterSession \<Rightarrow>
      Status \<times> ('c, 's, 'p, 'd) ExporterSession" where
  "pumpDevice en x =
     (let (s, x) = collect en x
      in if isFatal s then (s, x)
         else
           let (s, x) = collect en (admit en x)
           in if isFatal s then (s, x)
              else
                let (s, x) = sweepDeadlines en (if owesAnswers x then heardPeer en x else x)
                in if isFatal s then (s, x)
                   else if \<not> owesAnswers x \<and> ex_state x = Leased \<and> silenceExpired (en_now en) (ex_leases x)
                   then (Ok, failAllTransfers en XferTimeout
                           (x\<lparr>ex_leases := quarantine (en_now en) (ex_leases x), ex_state := Orphaned,
                              ex_why := ''the importer stopped answering; the device is held for it''\<rparr>))
                   else (Ok, x))"

definition pump ::
    "('c, 's, 'p, 'd) Env \<Rightarrow> ('c, 's, 'p, 'd) ExporterSession \<Rightarrow>
      (Status \<times> ('c, 's, 'p, 'd) ExporterSession) option" where
  "pump en x =
     (let (s, l) = (if pendingTxBytes (fst (ex_link x)) \<noteq> 0 then linkFlush (en_io en) (ex_link x)
                    else (Ok, ex_link x));
          x = x\<lparr>ex_link := l\<rparr>
      in if s \<noteq> Ok then Some (s, x)
         else case readLoop en x of
           None \<Rightarrow> None
         | Some (Return s, x) \<Rightarrow> Some (s, x)
         | Some (Gone, x) \<Rightarrow> Some (TransportLost, transportGone en x)
         | Some (Drained, x) \<Rightarrow> Some (pumpDevice en x))"

end
