(* ===== verification/ExporterFrame.thy ===== *)
theory ExporterFrame
  imports Exporter
begin

text \<open>
  What sending does to the exporter's session and what it leaves alone: every answer, refusal and
  acknowledgement changes the link, the history of records sent, the count of answers and the last
  error text only.  The lemmas here are the frame the invariants of \<open>ExporterInv\<close> rest on.
\<close>

section \<open>Quiet steps\<close>

definition quiet :: "('c, 's, 'p, 'd) ExporterSession \<Rightarrow> ('c, 's, 'p, 'd) ExporterSession \<Rightarrow> bool" where
  "quiet x x' \<longleftrightarrow>
     (\<exists>l sent n why. x' = x\<lparr>ex_link := l, ex_sent := ex_sent x @ sent, ex_transfers := n, ex_why := why\<rparr>
        \<and> rl_maxRecord (fst l) = rl_maxRecord (fst (ex_link x)))"

lemma quietD:
  assumes "quiet x x'"
  shows "ex_peer x' = ex_peer x" "ex_devices x' = ex_devices x" "ex_leases x' = ex_leases x"
    "ex_state x' = ex_state x" "ex_port x' = ex_port x" "ex_manifest x' = ex_manifest x"
    "ex_configValue x' = ex_configValue x" "ex_uid x' = ex_uid x" "ex_attachId x' = ex_attachId x"
    "ex_leaseEpoch x' = ex_leaseEpoch x" "ex_queues x' = ex_queues x" "ex_inFlight x' = ex_inFlight x"
    "ex_nextToken x' = ex_nextToken x" "ex_busyEndpoint x' = ex_busyEndpoint x" "ex_verbs x' = ex_verbs x"
    "ex_rxActive x' = ex_rxActive x" "ex_rx x' = ex_rx x" "ex_rxSb x' = ex_rxSb x"
    "ex_rxChannel x' = ex_rxChannel x" "ex_rxRequestId x' = ex_rxRequestId x"
    "ex_taken x' = ex_taken x" "ex_issued x' = ex_issued x" "ex_attachSlot x' = ex_attachSlot x"
    "rl_maxRecord (fst (ex_link x')) = rl_maxRecord (fst (ex_link x))"
  using assms unfolding quiet_def by auto

lemma quiet_refl [simp, intro]: "quiet x x"
  unfolding quiet_def by (intro exI [of _ "ex_link x"] exI [of _ "[]"] exI [of _ "ex_transfers x"]
      exI [of _ "ex_why x"]) simp

lemma quiet_trans [trans]: "\<lbrakk>quiet x y; quiet y z\<rbrakk> \<Longrightarrow> quiet x z"
proof -
  assume "quiet x y" "quiet y z"
  then obtain l s n w l' s' n' w'
    where "y = x\<lparr>ex_link := l, ex_sent := ex_sent x @ s, ex_transfers := n, ex_why := w\<rparr>"
      "rl_maxRecord (fst l) = rl_maxRecord (fst (ex_link x))"
      "z = y\<lparr>ex_link := l', ex_sent := ex_sent y @ s', ex_transfers := n', ex_why := w'\<rparr>"
      "rl_maxRecord (fst l') = rl_maxRecord (fst (ex_link y))"
    unfolding quiet_def by blast
  then show "quiet x z"
    unfolding quiet_def
    by (intro exI [of _ l'] exI [of _ "s @ s'"] exI [of _ n'] exI [of _ w']) simp
qed

text \<open>What a quiet step appends to the history.\<close>

definition newlySent :: "('c, 's, 'p, 'd) ExporterSession \<Rightarrow> ('c, 's, 'p, 'd) ExporterSession \<Rightarrow> bytes list" where
  "newlySent x x' = drop (length (ex_sent x)) (ex_sent x')"

lemma sendRecord_sent:
  assumes "sendRecord en rec x = (s, x')"
  shows "quiet x x'" "ex_sent x' = ex_sent x @ [rec]"
proof -
  obtain s1 l1 where a: "linkSend (en_io en) rec (ex_link x) = (s1, l1)" by (rule prod.exhaust)
  obtain s2 l2 where b: "linkFlush (en_io en) l1 = (s2, l2)" by (rule prod.exhaust)
  define l where "l = (if s1 = Ok then l2 else l1)"
  have x': "x' = x\<lparr>ex_link := l, ex_sent := ex_sent x @ [rec]\<rparr>"
    using assms a b by (auto simp: sendRecord_def l_def)
  have "rl_maxRecord (fst l) = rl_maxRecord (fst (ex_link x))"
    using linkSend_maxRecord [of "en_io en" rec "ex_link x"] linkFlush_maxRecord [of "en_io en" l1] a b
    by (simp add: l_def)
  then show "quiet x x'" unfolding quiet_def using x'
    by (intro exI [of _ l] exI [of _ "[rec]"] exI [of _ "ex_transfers x"] exI [of _ "ex_why x"]) simp
  show "ex_sent x' = ex_sent x @ [rec]" by (simp add: x')
qed

lemma sendSimple_sent:
  assumes "sendSimple en ty st i body x = (s, x')"
  shows "quiet x x'" "ex_sent x' = ex_sent x @ [simpleRecord (ex_attachId x) ty st i body]"
  using sendRecord_sent assms by (auto simp: sendSimple_def)

definition errorRecord :: "Header \<Rightarrow> Status \<Rightarrow> string \<Rightarrow> bytes" where
  "errorRecord h st why = buildError (ucast (h_type h)) st (textBytes why) []"

lemma quiet_why: "quiet x (x\<lparr>ex_why := w\<rparr>)"
  unfolding quiet_def
  by (intro exI [of _ "ex_link x"] exI [of _ "[]"] exI [of _ "ex_transfers x"] exI [of _ w]) simp

lemma quiet_count: "quiet x (x\<lparr>ex_transfers := n\<rparr>)"
  unfolding quiet_def
  by (intro exI [of _ "ex_link x"] exI [of _ "[]"] exI [of _ n] exI [of _ "ex_why x"]) simp

lemma refuse_sent:
  assumes "refuse en h st why x = (s, x')"
  shows "quiet x x'" "ex_sent x' = ex_sent x @ [errorRecord h st why]" "s = (if isFatal st then st else Ok)"
proof -
  obtain s1 x1 where a: "sendRecord en (errorRecord h st why) (x\<lparr>ex_why := why\<rparr>) = (s1, x1)" by (rule prod.exhaust)
  then have x': "x' = x1" "s = (if isFatal st then st else Ok)"
    using assms by (auto simp: refuse_def errorRecord_def)
  show "quiet x x'" using quiet_trans [OF quiet_why] sendRecord_sent(1) [OF a] x' by blast
  show "ex_sent x' = ex_sent x @ [errorRecord h st why]" using sendRecord_sent(2) [OF a] x' by simp
  show "s = (if isFatal st then st else Ok)" by (rule x')
qed

section \<open>Emitting\<close>

text \<open>The records of an emission: the first, and then DATA records only.\<close>

definition isType :: "Type \<Rightarrow> bytes \<Rightarrow> bool" where
  "isType ty rec \<longleftrightarrow> (\<exists>h. decodeHeader rec = Some h \<and> h_type h = typeCode ty)"

lemma header_record: "decodeHeader (encodeHeader h [] @ rest) = Some h"
  by (rule header.dec_enc_append) simp

lemma emitLoop_sent:
  "emitLoop base fixed data (sendRecord en) i plan x = (s, x') \<Longrightarrow>
    quiet x x' \<and> (\<exists>n. ex_sent x' = ex_sent x
      @ map (\<lambda>(j, sp). segRecord base fixed data j sp) (zip [i ..< i + n] (take n plan))
      \<and> (plan \<noteq> [] \<longrightarrow> n \<noteq> 0) \<and> n \<le> length plan)"
proof (induction plan arbitrary: i x)
  case (Cons sp plan)
  obtain r y where r: "sendRecord en (segRecord base fixed data i sp) x = (r, y)" by (rule prod.exhaust)
  note sent = sendRecord_sent [OF r]
  show ?case
  proof (cases "r = Ok")
    case False
    then have "x' = y" using Cons.prems r by simp
    then show ?thesis using sent by (intro conjI exI [of _ 1]) auto
  next
    case True
    then have "emitLoop base fixed data (sendRecord en) (i + 1) plan y = (s, x')"
      using Cons.prems r by simp
    then obtain n where n: "quiet y x'"
      "ex_sent x' = ex_sent y @ map (\<lambda>(j, sp). segRecord base fixed data j sp) (zip [i + 1 ..< i + 1 + n] (take n plan))"
      "n \<le> length plan"
      using Cons.IH by blast
    have "[i ..< i + Suc n] = i # [i + 1 ..< i + 1 + n]" by (simp add: upt_conv_Cons)
    then show ?thesis using n sent quiet_trans [OF sent(1) n(1)]
      by (intro conjI exI [of _ "Suc n"]) (auto simp del: upt_Suc)
  qed
qed auto

lemma emitTransfer_quiet: "emitTransfer base fixed data m (sendRecord en) x = (s, x') \<Longrightarrow> quiet x x'"
  using emitLoop_sent by (fastforce simp: emitTransfer_def split: if_splits)

lemma planSegments_nonempty: "m \<noteq> 0 \<Longrightarrow> planSegments n m \<noteq> []"
  by (auto simp: planSegments_def planLoop.simps [of n m 0] Let_def word_gt_0 split: if_splits)

lemma segRecord_header:
  "decodeHeader (segRecord base fixed data j sp) = Some (segHeader base (of_nat (length data)) (length fixed) j sp)"
  by (simp add: segRecord_def header_record)

lemma segHeader_type: "h_type (segHeader base n m j sp) = (if j = 0 then h_type base else typeCode T_Data)"
  by (simp add: segHeader_def Let_def)

lemma segHeader_key [simp]:
  "h_channel (segHeader base n m j sp) = h_channel base" "h_requestId (segHeader base n m j sp) = h_requestId base"
  by (simp_all add: segHeader_def Let_def)

section \<open>Answers\<close>

text \<open>The requests a history of records answers: the COMPLETE records in it.\<close>

definition answerOf :: "bytes \<Rightarrow> Key list" where
  "answerOf rec =
     (case decodeHeader rec of
        None \<Rightarrow> []
      | Some h \<Rightarrow> if h_type h = typeCode T_Complete then [(h_channel h, h_requestId h)] else [])"

definition answered :: "bytes list \<Rightarrow> Key list" where
  "answered recs = concat (map answerOf recs)"

lemma answered_simps [simp]:
  "answered [] = []" "answered (r # rs) = answerOf r @ answered rs" "answered (rs @ rs') = answered rs @ answered rs'"
  by (simp_all add: answered_def)

lemma answerOf_simple [simp]: "ty \<noteq> T_Complete \<Longrightarrow> answerOf (simpleRecord a ty st i body) = []"
  by (cases ty) (simp_all add: answerOf_def simpleRecord_def header_record)

lemma answerOf_error [simp]: "answerOf (errorRecord h st why) = []"
  by (simp add: answerOf_def errorRecord_def buildError_def Let_def header_record)

text \<open>The ERROR that takes the place of an answer when the device reports too many bytes.\<close>

definition overrunRecord :: bytes where
  "overrunRecord = buildError (ucast (typeCode T_Submit)) Internal
     (textBytes ''device reported more than was requested'') []"

lemma answered_segments:
  assumes "n \<noteq> 0" "plan \<noteq> []"
  shows "answered (map (\<lambda>(j, sp). segRecord base fixed data j sp) (zip [0 ..< n] (take n plan)))
    = (if h_type base = typeCode T_Complete then [(h_channel base, h_requestId base)] else [])"
proof -
  have rest: "answered (map (\<lambda>(j, sp). segRecord base fixed data j sp) (zip [Suc i ..< k] sps)) = []" for i k sps
  proof (induction sps arbitrary: i)
    case (Cons sp sps)
    show ?case
    proof (cases "Suc i < k")
      case True
      then show ?thesis using Cons.IH [of "Suc i"]
        by (simp add: upt_conv_Cons answerOf_def segRecord_header segHeader_type)
    qed simp
  qed simp
  obtain m sp sps where "n = Suc m" "plan = sp # sps" using assms by (cases n; cases plan) auto
  then show ?thesis using rest [of 0 "Suc m" "take m sps"]
    by (simp add: upt_conv_Cons answerOf_def segRecord_header segHeader_type del: upt_Suc)
qed

definition roomy :: "('c, 's, 'p, 'd) Env \<Rightarrow> ('c, 's, 'p, 'd) ExporterSession \<Rightarrow> bool" where
  "roomy en x \<longleftrightarrow> unat (maxPlaintextBytes (io_cipher (en_io en)) (fst (ex_link x))) > kHeaderSize + kBodyComplete"

lemma quiet_roomy: "quiet x x' \<Longrightarrow> roomy en x' = roomy en x"
  by (simp add: roomy_def maxPlaintextBytes_def quietD(24))

lemma emitComplete_quiet: "emitComplete en f st n c z payload x = (s, x') \<Longrightarrow> quiet x x'"
  by (auto simp: emitComplete_def Let_def split: if_splits
      dest: refuse_sent(1) emitTransfer_quiet quiet_trans [OF quiet_count])

text \<open>An answer puts one COMPLETE with the key of the transfer on the wire, or the overrun error.\<close>

lemma emitComplete_answers:
  assumes "emitComplete en f st n c z payload x = (s, x')" "roomy en x"
  shows "\<exists>recs. ex_sent x' = ex_sent x @ recs
    \<and> (answered recs = [(fl_channel f, fl_requestId f)]
       \<or> recs = [overrunRecord])"
proof -
  define cb where "cb = completeBodyFor (fl_sb f) st n c z payload"
  show ?thesis
  proof (cases "cb_actualLen cb > cb_requestedLen cb")
    case True
    then show ?thesis using assms(1) refuse_sent(2)
      by (fastforce simp: emitComplete_def Let_def cb_def [symmetric] overrunRecord_def errorRecord_def)
  next
    case False
    define base where "base = Header0\<lparr>h_type := typeCode T_Complete, h_channel := fl_channel f,
      h_attachId := ex_attachId x, h_requestId := fl_requestId f, h_status := statusCode st\<rparr>"
    define maxPlain where "maxPlain = maxPlaintextBytes (io_cipher (en_io en)) (fst (ex_link x))"
    define m where "m = maxPlain - of_nat kHeaderSize - of_nat kBodyComplete"
    define data where "data = (if sb_dir (fl_sb f) = dirCode DirIn then payload else [])"
    define plan where "plan = planSegments (of_nat (length data)) m"
    have big: "unat maxPlain > 72" using assms(2) by (simp add: roomy_def maxPlain_def)
    then have "unat m = unat maxPlain - 72" unfolding m_def by (simp add: unat_sub word_le_nat_alt)
    then have m: "m \<noteq> 0" using big by auto
    have "emitLoop base (encodeComplete cb []) data (sendRecord en) 0 plan (x\<lparr>ex_transfers := ex_transfers x + 1\<rparr>) = (s, x')"
      using assms(1) False big m
      by (simp add: emitComplete_def Let_def cb_def [symmetric] base_def maxPlain_def m_def data_def plan_def emitTransfer_def)
    from emitLoop_sent [OF this] planSegments_nonempty [OF m] obtain k where k: "ex_sent x' = ex_sent x @
        map (\<lambda>(j, sp). segRecord base (encodeComplete cb []) data j sp) (zip [0 ..< k] (take k plan))" "k \<noteq> 0"
      unfolding plan_def by auto
    show ?thesis using k answered_segments [OF k(2) planSegments_nonempty [OF m]]
      by (auto simp: base_def plan_def)
  qed
qed

end
