(* ===== verification/ExporterInv.thy ===== *)
theory ExporterInv
  imports ExporterFrame
begin

text \<open>
  The invariant of the exporter's session and the accounting of its answers, carried through every
  operation: the credit bound, one transfer per endpoint with endpoint zero alone, and one answer for
  each request taken.
\<close>

section \<open>Accounting\<close>

definition pendingKey :: "Pending \<Rightarrow> Key" where
  "pendingKey p = (pe_channel p, pe_requestId p)"

definition flightKey :: "InFlight \<Rightarrow> Key" where
  "flightKey f = (fl_channel f, fl_requestId f)"

definition queuedKeys :: "(u8, Pending list) smap \<Rightarrow> Key multiset" where
  "queuedKeys m = mset (map pendingKey (concat (map snd m)))"

definition flightKeys :: "(u64, InFlight) smap \<Rightarrow> Key multiset" where
  "flightKeys m = mset (map (flightKey \<circ> snd) m)"

text \<open>The requests still owed an answer.\<close>

definition owedKeys :: "('c, 's, 'p, 'd) ExporterSession \<Rightarrow> Key multiset" where
  "owedKeys x = queuedKeys (ex_queues x) + flightKeys (ex_inFlight x)"

text \<open>From \<open>x\<close> to \<open>x'\<close> the keys \<open>K\<close> got their answer: a COMPLETE, or else an overrun error.\<close>

definition emits ::
    "('c, 's, 'p, 'd) ExporterSession \<Rightarrow> ('c, 's, 'p, 'd) ExporterSession \<Rightarrow> Key multiset \<Rightarrow> bool" where
  "emits x x' K \<longleftrightarrow> (\<exists>recs lost. ex_sent x' = ex_sent x @ recs \<and> K = mset (answered recs) + lost
     \<and> size lost \<le> count_list recs overrunRecord)"

lemma emits_refl: "ex_sent x' = ex_sent x \<Longrightarrow> emits x x' {#}"
  unfolding emits_def by (intro exI [of _ "[]"] exI [of _ "{#}"]) simp

lemma emits_quiet: "\<lbrakk>ex_sent x' = ex_sent x @ recs; answered recs = []\<rbrakk> \<Longrightarrow> emits x x' {#}"
  unfolding emits_def by (intro exI [of _ recs] exI [of _ "{#}"]) simp

lemma emits_trans: "\<lbrakk>emits x y K; emits y z L\<rbrakk> \<Longrightarrow> emits x z (K + L)"
proof -
  assume "emits x y K" "emits y z L"
  then obtain r l r' l' where "ex_sent y = ex_sent x @ r" "K = mset (answered r) + l"
    "size l \<le> count_list r overrunRecord" "ex_sent z = ex_sent y @ r'" "L = mset (answered r') + l'"
    "size l' \<le> count_list r' overrunRecord"
    unfolding emits_def by blast
  then show "emits x z (K + L)" unfolding emits_def
    by (intro exI [of _ "r @ r'"] exI [of _ "l + l'"]) (simp add: count_list_append)
qed

lemma emits_cong: "ex_sent y = ex_sent x \<Longrightarrow> emits y z K = emits x z K"
  by (simp add: emits_def)

lemma emitComplete_emits:
  assumes "emitComplete en f st n c z payload x = (s, x')" "roomy en x"
  shows "emits x x' {#flightKey f#}"
proof -
  obtain recs where "ex_sent x' = ex_sent x @ recs"
    "answered recs = [(fl_channel f, fl_requestId f)] \<or> recs = [overrunRecord]"
    using emitComplete_answers [OF assms] by blast
  then consider "ex_sent x' = ex_sent x @ recs" "answered recs = [flightKey f]"
    | "ex_sent x' = ex_sent x @ [overrunRecord]"
    by (auto simp: flightKey_def)
  then show ?thesis
  proof cases
    case 1
    then show ?thesis unfolding emits_def by (intro exI [of _ recs] exI [of _ "{#}"]) simp
  next
    case 2
    have "answered [overrunRecord] = []"
      using answerOf_error [of "Header0\<lparr>h_type := typeCode T_Submit\<rparr>" Internal "''device reported more than was requested''"]
      by (simp add: overrunRecord_def errorRecord_def del: answerOf_error)
    then show ?thesis unfolding emits_def using 2
      by (intro exI [of _ "[overrunRecord]"] exI [of _ "{#flightKey f#}"]) simp
  qed
qed

lemma inFlightOf_key [simp]: "flightKey (inFlightOf p) = pendingKey p"
  by (simp add: flightKey_def pendingKey_def inFlightOf_def)

lemma answerPending_emits:
  "\<lbrakk>answerPending en st c p x = (s, x'); roomy en x\<rbrakk> \<Longrightarrow> quiet x x' \<and> emits x x' {#pendingKey p#}"
  using emitComplete_emits emitComplete_quiet by (fastforce simp: answerPending_def)

text \<open>Loops of answers.\<close>

lemma eachWorst_emits:
  assumes "\<And>a x s x'. \<lbrakk>g a x = (s, x'); roomy en x\<rbrakk> \<Longrightarrow> quiet x x' \<and> emits x x' {#key a#}"
    and "eachWorst g as w x = (s, x')" "roomy en x"
  shows "quiet x x' \<and> emits x x' (mset (map key as))"
  using assms(2,3)
proof (induction as arbitrary: w x)
  case Nil
  then show ?case by (simp add: emits_refl)
next
  case (Cons a as)
  obtain s1 x1 where a: "g a x = (s1, x1)" by (rule prod.exhaust)
  note one = assms(1) [OF a Cons.prems(2)]
  have "roomy en x1" using one quiet_roomy Cons.prems(2) by blast
  then have "quiet x1 x' \<and> emits x1 x' (mset (map key as))"
    using Cons.IH Cons.prems(1) a by (auto split: if_splits)
  with one quiet_trans emits_trans [of x x1 "{#key a#}" x' "mset (map key as)"] show ?case by auto
qed

lemma eachWorst_quiet:
  assumes "\<And>a x s x'. g a x = (s, x') \<Longrightarrow> quiet x x'" "eachWorst g as w x = (s, x')"
  shows "quiet x x'"
  using assms(2)
proof (induction as arbitrary: w x)
  case (Cons a as)
  obtain s1 x1 where a: "g a x = (s1, x1)" by (rule prod.exhaust)
  have "quiet x1 x'" using Cons a by (auto split: if_splits)
  then show ?case using assms(1) [OF a] quiet_trans by blast
qed simp

lemma answerPending_quiet: "answerPending en st c p x = (s, x') \<Longrightarrow> quiet x x'"
  unfolding answerPending_def by (rule emitComplete_quiet)

lemma eachDo_Cons [simp]: "eachDo g (a # as) x = eachDo g as (snd (g a x))"
  by (simp add: eachDo_def)

lemma eachDo_Nil [simp]: "eachDo g [] x = x"
  by (simp add: eachDo_def)

lemma eachDo_emits:
  assumes "\<And>a x s x'. \<lbrakk>g a x = (s, x'); roomy en x\<rbrakk> \<Longrightarrow> quiet x x' \<and> emits x x' {#key a#}"
    and "roomy en x"
  shows "quiet x (eachDo g as x) \<and> emits x (eachDo g as x) (mset (map key as))"
  using assms(2)
proof (induction as arbitrary: x)
  case Nil
  then show ?case by (simp add: emits_refl)
next
  case (Cons a as)
  obtain s1 x1 where a: "g a x = (s1, x1)" by (rule prod.exhaust)
  note one = assms(1) [OF a Cons.prems]
  have "roomy en x1" using one quiet_roomy Cons.prems by blast
  with Cons.IH one quiet_trans emits_trans [of x x1 "{#key a#}" "eachDo g as x1" "mset (map key as)"] a
  show ?case by auto
qed

section \<open>The invariant\<close>

definition queuedBytes :: "('c, 's, 'p, 'd) ExporterSession \<Rightarrow> nat" where
  "queuedBytes x = asum (\<lambda>q. sum_list (map (length \<circ> pe_dataOut) q)) (ex_queues x)"

definition queuesOk :: "(u8, Pending list) smap \<Rightarrow> bool" where
  "queuesOk m \<longleftrightarrow> sorted (keys m) \<and> distinct (keys m)
     \<and> (\<forall>(ep, q) \<in> set m. \<forall>p \<in> set q. sb_epAddr (pe_sb p) = ep)"

definition creditOk :: "('c, 's, 'p, 'd) ExporterSession \<Rightarrow> bool" where
  "creditOk x \<longleftrightarrow> queuedTransfers x + length (ex_inFlight x) \<le> kCreditUrbs \<and> queuedBytes x \<le> kCreditBytes"

text \<open>Endpoint zero is alone, and each transfer holds the slot of its endpoint.\<close>

definition slotsOk :: "(u64, InFlight) smap \<Rightarrow> (u8, u64) smap \<Rightarrow> bool" where
  "slotsOk fl busy \<longleftrightarrow> sorted (keys fl) \<and> distinct (keys fl) \<and> sorted (keys busy) \<and> distinct (keys busy)
     \<and> distinct (map snd busy)
     \<and> (\<forall>(token, f) \<in> set fl. map_of busy (fl_epAddr f) = Some token)
     \<and> ((\<exists>(token, f) \<in> set fl. isEp0 (fl_epAddr f)) \<longrightarrow> length fl = 1)"

definition tokensOk :: "u64 \<Rightarrow> nat \<Rightarrow> (u64, InFlight) smap \<Rightarrow> (u8, u64) smap \<Rightarrow> bool" where
  "tokensOk nxt issued fl busy \<longleftrightarrow> unat nxt = issued + 1
     \<and> (\<forall>token \<in> set (keys fl) \<union> set (map snd busy). unat token \<le> issued)"

definition exInv :: "('c, 's, 'p, 'd) Env \<Rightarrow> ('c, 's, 'p, 'd) ExporterSession \<Rightarrow> bool" where
  "exInv en x \<longleftrightarrow> roomy en x \<and> queuesOk (ex_queues x) \<and> creditOk x
     \<and> slotsOk (ex_inFlight x) (ex_busyEndpoint x)
     \<and> tokensOk (ex_nextToken x) (ex_issued x) (ex_inFlight x) (ex_busyEndpoint x)"

abbreviation tokenLimit :: nat where "tokenLimit \<equiv> 2 ^ 64 - 1"

text \<open>
  A step of the session: as long as the tokens last, the invariant is kept and every request is
  accounted for.
\<close>

definition keeps ::
    "('c, 's, 'p, 'd) Env \<Rightarrow> ('c, 's, 'p, 'd) ExporterSession \<Rightarrow> ('c, 's, 'p, 'd) ExporterSession \<Rightarrow> bool" where
  "keeps en x x' \<longleftrightarrow> ex_issued x \<le> ex_issued x'
     \<and> (ex_issued x' < tokenLimit \<and> exInv en x \<longrightarrow> exInv en x'
        \<and> (\<exists>K new. emits x x' K \<and> ex_taken x' = ex_taken x @ new
             \<and> owedKeys x + mset new = owedKeys x' + K))"

lemma keeps_refl [simp, intro]: "keeps en x x"
  unfolding keeps_def using emits_refl by fastforce

lemma keeps_trans [trans]: "\<lbrakk>keeps en x y; keeps en y z\<rbrakk> \<Longrightarrow> keeps en x z"
proof -
  assume xy: "keeps en x y" and yz: "keeps en y z"
  have le: "ex_issued x \<le> ex_issued y" "ex_issued y \<le> ex_issued z"
    using xy yz unfolding keeps_def by blast+
  have "exInv en z \<and> (\<exists>K new. emits x z K \<and> ex_taken z = ex_taken x @ new
      \<and> owedKeys x + mset new = owedKeys z + K)" if lim: "ex_issued z < tokenLimit" and i: "exInv en x"
  proof -
    have "ex_issued y < tokenLimit" using le lim by simp
    then obtain K new K' new' where st: "exInv en y" "emits x y K" "ex_taken y = ex_taken x @ new"
      "owedKeys x + mset new = owedKeys y + K" and st': "exInv en z" "emits y z K'"
      "ex_taken z = ex_taken y @ new'" "owedKeys y + mset new' = owedKeys z + K'"
      using xy yz lim i unfolding keeps_def by blast
    have "owedKeys x + mset (new @ new') = owedKeys y + mset new' + K"
      using st(4) by (simp add: union_assoc [symmetric])
    also have "\<dots> = owedKeys z + K' + K" by (simp only: st'(4))
    also have "\<dots> = owedKeys z + (K + K')" by (simp only: union_assoc union_commute [of K K'])
    finally show ?thesis using emits_trans [OF st(2) st'(2)] st(3) st'(1,3)
      by (intro conjI exI [of _ "K + K'"] exI [of _ "new @ new'"]) auto
  qed
  then show "keeps en x z" using le unfolding keeps_def by auto
qed

text \<open>Steps that leave the transfers alone.\<close>

definition sameTransfers ::
    "('c, 's, 'p, 'd) ExporterSession \<Rightarrow> ('c, 's, 'p, 'd) ExporterSession \<Rightarrow> bool" where
  "sameTransfers x x' \<longleftrightarrow> ex_queues x' = ex_queues x \<and> ex_inFlight x' = ex_inFlight x
     \<and> ex_busyEndpoint x' = ex_busyEndpoint x \<and> ex_nextToken x' = ex_nextToken x
     \<and> ex_issued x' = ex_issued x \<and> rl_maxRecord (fst (ex_link x')) = rl_maxRecord (fst (ex_link x))"

lemma sameTransfers_inv: "sameTransfers x x' \<Longrightarrow> exInv en x' = exInv en x"
  by (simp add: sameTransfers_def exInv_def roomy_def maxPlaintextBytes_def creditOk_def
      queuedTransfers_def queuedBytes_def)

lemma quiet_same: "quiet x x' \<Longrightarrow> sameTransfers x x'"
  by (simp add: sameTransfers_def quietD)

lemma keeps_same:
  assumes "sameTransfers x x'" "emits x x' {#}" "ex_taken x' = ex_taken x"
  shows "keeps en x x'"
  using assms sameTransfers_inv [OF assms(1), of en] unfolding keeps_def
  by (auto simp: sameTransfers_def owedKeys_def intro!: exI [of _ "{#}"] exI [of _ "[]"])

lemma keeps_quiet: "\<lbrakk>quiet x x'; emits x x' {#}\<rbrakk> \<Longrightarrow> keeps en x x'"
  by (rule keeps_same) (simp_all add: quiet_same quietD)

lemma refuse_keeps: "keeps en x (snd (refuse en h st why x))"
  by (rule keeps_quiet [OF refuse_sent(1) emits_quiet [OF refuse_sent(2)]], (rule surjective_pairing)+) simp

lemma sendSimple_keeps: "ty \<noteq> T_Complete \<Longrightarrow> keeps en x (snd (sendSimple en ty st i body x))"
  by (rule keeps_quiet [OF sendSimple_sent(1) emits_quiet [OF sendSimple_sent(2)]], (rule surjective_pairing)+) simp

text \<open>Transfers \<open>K\<close> leave the tables, then each is answered.\<close>

lemma keeps_answer:
  assumes "exInv en x \<Longrightarrow> exInv en y" "exInv en x \<Longrightarrow> owedKeys x = owedKeys y + K"
    and "ex_sent y = ex_sent x" "ex_taken y = ex_taken x" "ex_issued y = ex_issued x"
    and "quiet y z" "roomy en y \<Longrightarrow> emits y z K"
  shows "keeps en x z"
proof -
  have same: "exInv en z = exInv en y" "owedKeys z = owedKeys y"
    using sameTransfers_inv [OF quiet_same [OF assms(6)]] quietD [OF assms(6)]
    by (simp_all add: owedKeys_def)
  have "emits x z K" if "exInv en x"
    using assms(7) assms(1) [OF that] assms(3) by (simp add: exInv_def emits_def)
  then show ?thesis using assms(1,2,4,5) same quietD [OF assms(6)] unfolding keeps_def
    by (auto intro!: exI [of _ K] exI [of _ "[]"])
qed


section \<open>Queueing\<close>

lemma keys_unique: "\<lbrakk>distinct (keys m); map_of m k = Some v; (k, w) \<in> set m\<rbrakk> \<Longrightarrow> w = v"
  by (metis map_of_mem option.inject)

lemma set_mapPut: "x \<in> set (mapPut k v m) \<Longrightarrow> x = (k, v) \<or> x \<in> set m \<and> (sorted (keys m) \<and> distinct (keys m) \<longrightarrow> fst x \<noteq> k)"
proof (induction k v m rule: mapPut.induct)
  case (2 k v k' v' m)
  then show ?case by (cases x) (force split: if_splits)
qed simp

lemma queuedKeys_simps [simp]:
  "queuedKeys [] = {#}" "queuedKeys ((k, q) # m) = mset (map pendingKey q) + queuedKeys m"
  by (simp_all add: queuedKeys_def)

lemma queuedKeys_put:
  "\<lbrakk>sorted (keys m); distinct (keys m)\<rbrakk> \<Longrightarrow>
    queuedKeys (mapPut k (q @ [p]) m) + (case map_of m k of None \<Rightarrow> {#} | Some w \<Rightarrow> mset (map pendingKey w))
      = queuedKeys m + mset (map pendingKey q) + {#pendingKey p#}"
proof (induction k "q @ [p]" m rule: mapPut.induct)
  case (2 k k' v' m)
  show ?case
  proof (cases "k = k'")
    case False
    then have "k < k' \<Longrightarrow> map_of m k = None" using 2(2) by (auto simp: map_of_eq_None_iff)
    then show ?thesis using 2 False by (auto simp: ac_simps)
  qed (simp add: ac_simps)
qed simp

lemma enqueueTransfer_keeps: "keeps en x (snd (enqueueTransfer en ch rid sb dataOut x))"
proof -
  define x1 where "x1 = x\<lparr>ex_taken := ex_taken x @ [(ch, rid)]\<rparr>"
  define p where "p = \<lparr>pe_channel = ch, pe_requestId = rid, pe_sb = sb, pe_dataOut = dataOut,
    pe_deadline = afterMs (en_now en) (ucast (deadlineMsFor (sb_xferType sb)))\<rparr>"
  define q where "q = (case map_of (ex_queues x) (sb_epAddr sb) of None \<Rightarrow> [] | Some q \<Rightarrow> q)"
  have key: "pendingKey p = (ch, rid)" by (simp add: p_def pendingKey_def)
  show ?thesis
  proof (cases "queuedTransfers x + length (ex_inFlight x) \<ge> kCreditUrbs \<or> queuedBytes x + length dataOut > kCreditBytes")
    case True
    obtain s x' where a: "answerPending en NoResources False p x1 = (s, x')" by (rule prod.exhaust)
    have res: "enqueueTransfer en ch rid sb dataOut x = (s, x')"
      using True a by (simp add: enqueueTransfer_def Let_def x1_def p_def queuedTransfers_def queuedBytes_def)
    have q: "quiet x1 x'" using a emitComplete_quiet by (fastforce simp: answerPending_def)
    have "roomy en x1 \<Longrightarrow> emits x1 x' {#(ch, rid)#}" using answerPending_emits [OF a] key by simp
    moreover have "sameTransfers x x1" by (simp add: sameTransfers_def x1_def)
    ultimately have "exInv en x \<Longrightarrow> exInv en x' \<and> emits x x' {#(ch, rid)#}"
      using sameTransfers_inv [OF \<open>sameTransfers x x1\<close>, of en] sameTransfers_inv [OF quiet_same [OF q], of en]
      by (simp add: exInv_def emits_def x1_def)
    then show ?thesis using quietD [OF q] res unfolding keeps_def
      by (auto simp: x1_def owedKeys_def intro!: exI [of _ "{#(ch, rid)#}"] exI [of _ "[(ch, rid)]"])
  next
    case False
    define x' where "x' = x1\<lparr>ex_queues := mapPut (sb_epAddr sb) (q @ [p]) (ex_queues x)\<rparr>"
    have res: "enqueueTransfer en ch rid sb dataOut x = (Ok, x')"
      using False by (simp add: enqueueTransfer_def Let_def x1_def p_def queuedTransfers_def queuedBytes_def q_def x'_def)
    have inv: "exInv en x'" "owedKeys x' = owedKeys x + {#(ch, rid)#}" if i: "exInv en x"
    proof -
      have m: "sorted (keys (ex_queues x))" "distinct (keys (ex_queues x))"
        and q': "\<And>p. p \<in> set q \<Longrightarrow> sb_epAddr (pe_sb p) = sb_epAddr sb"
        using i by (auto simp: exInv_def queuesOk_def q_def split: option.splits dest!: map_of_SomeD)
      have ok: "queuesOk (ex_queues x')"
        using m i q' by (auto simp: exInv_def queuesOk_def x'_def p_def dest!: set_mapPut)
      have "queuedTransfers x' = queuedTransfers x + 1" "queuedBytes x' = queuedBytes x + length dataOut"
        using asum_mapPut [OF m, of length "sb_epAddr sb" "q @ [p]"]
          asum_mapPut [OF m, of "\<lambda>q. sum_list (map (length \<circ> pe_dataOut) q)" "sb_epAddr sb" "q @ [p]"]
        by (auto simp: queuedTransfers_def queuedBytes_def x'_def q_def p_def split: option.splits)
      then have "creditOk x'" using i False by (simp add: exInv_def creditOk_def x'_def x1_def)
      then show "exInv en x'" using i ok by (simp add: exInv_def x'_def x1_def roomy_def)
      show "owedKeys x' = owedKeys x + {#(ch, rid)#}"
        using queuedKeys_put [OF m, of "sb_epAddr sb" q p] key
        by (auto simp: owedKeys_def x'_def x1_def q_def split: option.splits)
    qed
    have "keeps en x x'" unfolding keeps_def using inv emits_refl [of x' x]
      by (auto simp: x'_def x1_def intro!: exI [of _ "{#}"] exI [of _ "[(ch, rid)]"])
    then show ?thesis using res by simp
  qed
qed

section \<open>Admission\<close>

lemma flightKeys_simps [simp]:
  "flightKeys [] = {#}" "flightKeys ((t, f) # m) = add_mset (flightKey f) (flightKeys m)"
  by (simp_all add: flightKeys_def)

lemma flightKeys_put:
  "map_of m t = None \<Longrightarrow> flightKeys (mapPut t f m) = add_mset (flightKey f) (flightKeys m)"
  by (induction t f m rule: mapPut.induct) (auto split: if_splits)

lemma length_put: "map_of m t = None \<Longrightarrow> length (mapPut t f m) = Suc (length m)"
  by (induction t f m rule: mapPut.induct) (auto split: if_splits)

lemma flightKeys_delete:
  "\<lbrakk>distinct (keys m); map_of m t = Some f\<rbrakk> \<Longrightarrow>
    flightKeys m = add_mset (flightKey f) (flightKeys (AList.delete t m))"
  by (induction m) (auto split: if_splits simp: delete_notin)

lemma queuedKeys_update:
  "\<lbrakk>distinct (keys m); map_of m k = Some (p # q)\<rbrakk> \<Longrightarrow>
    queuedKeys m = add_mset (pendingKey p) (queuedKeys (AList.update k q m))"
  by (induction m) (auto split: if_splits)

lemma keys_update_old: "map_of m k = Some v \<Longrightarrow> keys (AList.update k w m) = keys m"
  by (induction m) (auto split: if_splits)

text \<open>Taking the first transfer out of the queue of an endpoint.\<close>

lemma dequeue_inv:
  assumes "exInv en x" "map_of (ex_queues x) ep = Some (p # q)"
  defines "m \<equiv> AList.update ep q (ex_queues x)"
  shows "queuesOk m" "asum length (ex_queues x) = Suc (asum length m)"
    "asum (\<lambda>q. sum_list (map (length \<circ> pe_dataOut) q)) m \<le> queuedBytes x"
    "queuedKeys (ex_queues x) = add_mset (pendingKey p) (queuedKeys m)" "sb_epAddr (pe_sb p) = ep"
proof -
  have ok: "sorted (keys (ex_queues x))" "distinct (keys (ex_queues x))"
    "\<And>e r b. (e, r) \<in> set (ex_queues x) \<Longrightarrow> b \<in> set r \<Longrightarrow> sb_epAddr (pe_sb b) = e"
    using assms(1) by (auto simp: exInv_def queuesOk_def)
  have mem: "(ep, p # q) \<in> set (ex_queues x)" using assms(2) by (rule map_of_SomeD)
  show "sb_epAddr (pe_sb p) = ep" using ok(3) [OF mem] by simp
  show "queuesOk m" using ok ok(3) [OF mem] mem_update [of _ _ ep q "ex_queues x"]
    by (fastforce simp: queuesOk_def m_def keys_update_old [OF assms(2)])
  show "asum length (ex_queues x) = Suc (asum length m)"
    using asum_update_old [OF ok(2) assms(2), of length q] by (simp add: m_def)
  show "asum (\<lambda>q. sum_list (map (length \<circ> pe_dataOut) q)) m \<le> queuedBytes x"
    using asum_update_old [OF ok(2) assms(2), of "\<lambda>q. sum_list (map (length \<circ> pe_dataOut) q)" q]
    by (simp add: m_def queuedBytes_def)
  show "queuedKeys (ex_queues x) = add_mset (pendingKey p) (queuedKeys m)"
    using queuedKeys_update [OF ok(2) assms(2)] by (simp add: m_def)
qed

lemma unat_next: "\<lbrakk>unat (t :: u64) = n + 1; n + 1 < tokenLimit\<rbrakk> \<Longrightarrow> unat (t + 1) = n + 2"
  by (simp add: unat_word_ariths)

text \<open>A new token is on no list.\<close>

lemma token_fresh:
  assumes "tokensOk t n fl busy"
  shows "map_of fl t = None" "t \<notin> set (map snd busy)"
  using assms by (force simp: tokensOk_def map_of_eq_None_iff)+

lemma tokensOk_draw:
  "\<lbrakk>tokensOk t n fl busy; n + 1 < tokenLimit\<rbrakk> \<Longrightarrow> tokensOk (t + 1) (n + 1) fl busy"
proof -
  assume t: "tokensOk t n fl busy" "n + 1 < tokenLimit"
  have "unat token \<le> n + 1" if "token \<in> set (keys fl) \<union> set (map snd busy)" for token
    using t(1) that unfolding tokensOk_def by (meson le_add1 le_trans)
  then show "tokensOk (t + 1) (n + 1) fl busy"
    using t unat_next [of t n] unfolding tokensOk_def by simp
qed

lemma tokensOk_put:
  assumes "tokensOk t n fl busy" "n + 1 < tokenLimit"
  shows "tokensOk (t + 1) (n + 1) (mapPut t f fl) (mapPut ep t busy)"
proof -
  have "set (map snd (mapPut ep t busy)) \<subseteq> insert t (set (map snd busy))"
    using set_mapPut by fastforce
  then have sub: "set (keys (mapPut t f fl)) \<union> set (map snd (mapPut ep t busy))
      \<subseteq> insert t (set (keys fl) \<union> set (map snd busy))"
    unfolding keys_mapPut by blast
  have "unat t \<le> n + 1" using assms(1) by (simp add: tokensOk_def)
  then have "\<forall>token \<in> insert t (set (keys fl) \<union> set (map snd busy)). unat token \<le> n + 1"
    using tokensOk_draw [OF assms] unfolding tokensOk_def by blast
  then show ?thesis using sub tokensOk_draw [OF assms] unfolding tokensOk_def by blast
qed

lemma mayAdmit_slots:
  assumes "mayAdmit ep x" "slotsOk (ex_inFlight x) (ex_busyEndpoint x)" "fl_epAddr f = ep"
    and "tokensOk t n (ex_inFlight x) (ex_busyEndpoint x)"
  shows "slotsOk (mapPut t f (ex_inFlight x)) (mapPut ep t (ex_busyEndpoint x))"
proof -
  note fresh = token_fresh [OF assms(4)]
  have vals: "distinct (map snd (mapPut ep t m))" if "distinct (map snd m)" "t \<notin> set (map snd m)" for m
    using that
  proof (induction ep t m rule: mapPut.induct)
    case (2 k v k' v' m)
    then show ?case by (auto dest!: set_mapPut)
  qed simp
  have old: "map_of (mapPut ep t (ex_busyEndpoint x)) (fl_epAddr g) = Some u"
    if "(u, g) \<in> set (ex_inFlight x)" for u g
  proof -
    have "map_of (ex_busyEndpoint x) (fl_epAddr g) = Some u" using that assms(2) by (auto simp: slotsOk_def)
    moreover have "fl_epAddr g \<noteq> ep"
      using assms(1) that calculation by (auto simp: mayAdmit_def split: if_splits)
    ultimately show ?thesis by (simp add: map_of_mapPut)
  qed
  have ep0: "length (mapPut t f (ex_inFlight x)) = 1"
    if "(u, g) \<in> set (mapPut t f (ex_inFlight x))" "isEp0 (fl_epAddr g)" for u g
    using that assms(1,3) length_put [OF fresh(1)]
    by (auto simp: mayAdmit_def list_ex_iff split: if_splits dest!: set_mapPut)
  have held: "\<forall>(u, g) \<in> set (mapPut t f (ex_inFlight x)). map_of (mapPut ep t (ex_busyEndpoint x)) (fl_epAddr g) = Some u"
  proof safe
    fix u g assume "(u, g) \<in> set (mapPut t f (ex_inFlight x))"
    then consider "u = t" "g = f" | "(u, g) \<in> set (ex_inFlight x)" using set_mapPut [of "(u, g)" t f "ex_inFlight x"] by auto
    then show "map_of (mapPut ep t (ex_busyEndpoint x)) (fl_epAddr g) = Some u"
    proof cases
      case 1
      then show ?thesis using assms(3) by (simp add: map_of_mapPut)
    qed (rule old)
  qed
  have alone: "(\<exists>(u, g) \<in> set (mapPut t f (ex_inFlight x)). isEp0 (fl_epAddr g)) \<longrightarrow> length (mapPut t f (ex_inFlight x)) = 1"
    using ep0 by blast
  show ?thesis
    using assms(2) vals [OF _ fresh(2)] unfolding slotsOk_def by (intro conjI held alone) simp_all
qed

lemma admitEndpoint_keeps: "keeps en x (admitEndpoint en port ep x)"
proof (cases "map_of (ex_queues x) ep")
  case None
  then show ?thesis by (simp add: admitEndpoint_def)
next
  case (Some r)
  show ?thesis
  proof (cases "r = [] \<or> \<not> mayAdmit ep x")
    case True
    then show ?thesis using Some by (cases r) (auto simp: admitEndpoint_def)
  next
    case False
    then obtain p q where r: "r = p # q" and may: "mayAdmit ep x" by (cases r) auto
    note queue = Some [unfolded r]
    obtain s d where sub: "ap_submit (en_port en) port (ex_nextToken x) (asyncTransferOf p) (ex_devices x) = (s, d)"
      by (rule prod.exhaust)
    define x1 where "x1 = x\<lparr>ex_nextToken := ex_nextToken x + 1, ex_issued := ex_issued x + 1, ex_devices := d\<rparr>"
    define x2 where "x2 = x1\<lparr>ex_queues := AList.update ep q (ex_queues x)\<rparr>"
    define f where "f = (inFlightOf p)\<lparr>fl_deadline := pe_deadline p\<rparr>"
    define x3 where "x3 = x2\<lparr>ex_inFlight := mapPut (ex_nextToken x) f (ex_inFlight x),
      ex_busyEndpoint := mapPut ep (ex_nextToken x) (ex_busyEndpoint x)\<rparr>"
    have key: "flightKey f = pendingKey p" by (simp add: f_def flightKey_def inFlightOf_def pendingKey_def)
    have res: "admitEndpoint en port ep x = (if s = Busy then x1
        else if s \<noteq> Ok then snd (emitComplete en f s 0 False False [] x2) else x3)"
      using queue may sub
      by (simp add: admitEndpoint_def Let_def x1_def x2_def x3_def f_def)
    have inv1: "exInv en x1" if "exInv en x" "ex_issued x + 1 < tokenLimit"
      using that tokensOk_draw by (auto simp: exInv_def x1_def roomy_def creditOk_def queuedTransfers_def queuedBytes_def)
    have keep1: "keeps en x x1" unfolding keeps_def using inv1 emits_refl [of x1 x]
      by (auto simp: x1_def owedKeys_def intro!: exI [of _ "{#}"] exI [of _ "[]"])
    note deq = dequeue_inv [OF _ queue]
    have inv2: "exInv en x2" if "exInv en x" "ex_issued x + 1 < tokenLimit"
      using inv1 [OF that] deq [OF that(1)]
      by (auto simp: exInv_def x2_def x1_def roomy_def creditOk_def queuedTransfers_def queuedBytes_def)
    have owed2: "owedKeys x = owedKeys x2 + {#pendingKey p#}" if "exInv en x"
      using deq(4) [OF that] by (simp add: owedKeys_def x2_def x1_def)
    have inv3: "exInv en x3" "owedKeys x3 = owedKeys x" if i: "exInv en x" "ex_issued x + 1 < tokenLimit"
    proof -
      have t: "tokensOk (ex_nextToken x) (ex_issued x) (ex_inFlight x) (ex_busyEndpoint x)"
        and sl: "slotsOk (ex_inFlight x) (ex_busyEndpoint x)" using i by (simp_all add: exInv_def)
      note fresh = token_fresh [OF t]
      have epf: "fl_epAddr f = ep" using deq(5) [OF i(1)] by (simp add: f_def inFlightOf_def)
      have "tokensOk (ex_nextToken x + 1) (ex_issued x + 1) (mapPut (ex_nextToken x) f (ex_inFlight x))
          (mapPut ep (ex_nextToken x) (ex_busyEndpoint x))"
        using t i(2) by (rule tokensOk_put)
      then show "exInv en x3"
        using inv2 [OF i] mayAdmit_slots [OF may sl epf t] length_put [OF fresh(1)] deq [OF i(1)] i(1)
        by (auto simp: exInv_def x3_def x2_def x1_def roomy_def creditOk_def queuedTransfers_def queuedBytes_def)
      show "owedKeys x3 = owedKeys x"
        using flightKeys_put [OF fresh(1), of f] owed2 [OF i(1)] key
        by (simp add: owedKeys_def x3_def x2_def x1_def)
    qed
    have keep3: "keeps en x x3" unfolding keeps_def using inv3 emits_refl [of x3 x]
      by (auto simp: x3_def x2_def x1_def intro!: exI [of _ "{#}"] exI [of _ "[]"])
    obtain s4 x4 where e: "emitComplete en f s 0 False False [] x2 = (s4, x4)" by (rule prod.exhaust)
    have keep4: "keeps en x x4"
    proof -
      have q: "quiet x2 x4" using emitComplete_quiet [OF e] .
      have "exInv en x4 \<and> emits x x4 {#pendingKey p#}" if "exInv en x" "ex_issued x + 1 < tokenLimit"
        using inv2 [OF that] emitComplete_emits [OF e] key sameTransfers_inv [OF quiet_same [OF q], of en]
        by (simp add: exInv_def emits_def x2_def x1_def)
      then show ?thesis using quietD [OF q] owed2 unfolding keeps_def
        by (auto simp: x2_def x1_def owedKeys_def intro!: exI [of _ "{#pendingKey p#}"] exI [of _ "[]"])
    qed
    show ?thesis using res keep1 keep3 keep4 e by simp
  qed
qed

lemma fold_keeps: "(\<And>a x. keeps en x (g a x)) \<Longrightarrow> keeps en x (fold g as x)"
proof (induction as arbitrary: x)
  case (Cons a as)
  then show ?case using keeps_trans [of en x "g a x" "fold g as (g a x)"] by simp
qed simp

lemma admit_keeps: "keeps en x (admit en x)"
  by (auto simp: admit_def intro: fold_keeps admitEndpoint_keeps split: option.split)

section \<open>Outcomes of the port\<close>

lemma keeps_inert:
  "\<lbrakk>sameTransfers x x'; ex_sent x' = ex_sent x; ex_taken x' = ex_taken x\<rbrakk> \<Longrightarrow> keeps en x x'"
  by (rule keeps_same) (simp_all add: emits_refl)

lemma eachDo_keeps: "(\<And>a x. keeps en x (snd (g a x))) \<Longrightarrow> keeps en x (eachDo g as x)"
  unfolding eachDo_def by (rule fold_keeps)

lemma eachWorst_keeps: "(\<And>a x. keeps en x (snd (g a x))) \<Longrightarrow> keeps en x (snd (eachWorst g as w x))"
proof (induction as arbitrary: w x)
  case (Cons a as)
  obtain s y where y: "g a x = (s, y)" by (rule prod.exhaust)
  have "keeps en x y" using Cons.prems [of x a] y by simp
  from keeps_trans [OF this Cons.IH [OF Cons.prems]] show ?case using y by simp
qed simp

lemma verbOutcome_keeps: "keeps en x (verbOutcome en pv o1 x)"
proof -
  define y where "y = x\<lparr>ex_verbs := AList.delete (oc_token o1) (ex_verbs x)\<rparr>"
  define z where "z = y\<lparr>ex_resetPending := ex_resetPending y - 1,
    ex_resetWorst := (if oc_status o1 \<noteq> Ok \<and> ex_resetWorst y = Ok then oc_status o1 else ex_resetWorst y)\<rparr>"
  have y: "keeps en x y" and z: "keeps en x z"
    by (rule keeps_inert; simp add: sameTransfers_def y_def z_def)+
  have "keeps en x (snd (sendSimple en T_CtrlAck st i [] y))" "keeps en x (snd (sendSimple en T_CtrlAck st i [] z))" for st i
    by (rule keeps_trans [OF y sendSimple_keeps] keeps_trans [OF z sendSimple_keeps]; simp)+
  moreover have "verbOutcome en pv o1 x = (if vb_isReset pv
      then if vb_requestId pv \<noteq> 0 then snd (sendSimple en T_CtrlAck (ex_resetWorst z) (vb_requestId pv) [] z) else z
      else if vb_requestId pv \<noteq> 0 then snd (sendSimple en T_CtrlAck (oc_status o1) (vb_requestId pv) [] y) else y)"
    by (simp only: verbOutcome_def Let_def y_def z_def)
  ultimately show ?thesis using y z by simp
qed

lemma freeEndpoint_mem: "x \<in> set (freeEndpoint t m) \<Longrightarrow> x \<in> set m"
  by (induction t m rule: freeEndpoint.induct) (auto split: if_splits)

lemma freeEndpoint_sub:
  "set (freeEndpoint t m) \<subseteq> set m"
  "sorted (keys m) \<Longrightarrow> sorted (keys (freeEndpoint t m))"
  "distinct (keys m) \<Longrightarrow> distinct (keys (freeEndpoint t m))"
  "distinct (map snd m) \<Longrightarrow> distinct (map snd (freeEndpoint t m))"
proof -
  show "set (freeEndpoint t m) \<subseteq> set m" using freeEndpoint_mem by blast
  show "sorted (keys m) \<Longrightarrow> sorted (keys (freeEndpoint t m))"
    by (induction t m rule: freeEndpoint.induct) (auto dest: freeEndpoint_mem)
  show "distinct (keys m) \<Longrightarrow> distinct (keys (freeEndpoint t m))"
    by (induction t m rule: freeEndpoint.induct) (force dest: freeEndpoint_mem)+
  show "distinct (map snd m) \<Longrightarrow> distinct (map snd (freeEndpoint t m))"
    by (induction t m rule: freeEndpoint.induct) (force dest: freeEndpoint_mem)+
qed

lemma map_of_free:
  "\<lbrakk>map_of m ep = Some u; u \<noteq> t; distinct (keys m)\<rbrakk> \<Longrightarrow> map_of (freeEndpoint t m) ep = Some u"
  by (induction t m rule: freeEndpoint.induct) (auto split: if_splits)

text \<open>Fewer transfers, and perhaps one slot less.\<close>

lemma slotsOk_sub:
  assumes "slotsOk fl busy" "set fl' \<subseteq> set fl" "sorted (keys fl')" "distinct (keys fl')" "length fl' \<le> length fl"
  shows "slotsOk fl' busy" "t \<notin> set (keys fl') \<Longrightarrow> slotsOk fl' (freeEndpoint t busy)"
proof -
  have alone: "(\<exists>(token, f) \<in> set fl'. isEp0 (fl_epAddr f)) \<longrightarrow> length fl' = 1"
  proof
    assume ex: "\<exists>(token, f) \<in> set fl'. isEp0 (fl_epAddr f)"
    then have "length fl = 1" using assms(1,2) unfolding slotsOk_def by blast
    moreover have "fl' \<noteq> []" using ex by auto
    ultimately show "length fl' = 1" using assms(5) by (cases fl') auto
  qed
  have held: "\<forall>(token, f) \<in> set fl'. map_of busy (fl_epAddr f) = Some token"
    using assms(1,2) unfolding slotsOk_def by blast
  show "slotsOk fl' busy" using assms(1,3,4) alone held unfolding slotsOk_def by blast
  assume t: "t \<notin> set (keys fl')"
  have "map_of (freeEndpoint t busy) (fl_epAddr f) = Some token" if m: "(token, f) \<in> set fl'" for token f
  proof (rule map_of_free)
    show "map_of busy (fl_epAddr f) = Some token" using held m by auto
    show "token \<noteq> t" using t m by force
  qed (use assms(1) in \<open>simp add: slotsOk_def\<close>)
  then show "slotsOk fl' (freeEndpoint t busy)"
    using assms(1,3,4) alone freeEndpoint_sub unfolding slotsOk_def by blast
qed

lemma tokensOk_sub:
  assumes "tokensOk nxt n fl busy" "set fl' \<subseteq> set fl" "set busy' \<subseteq> set busy"
  shows "tokensOk nxt n fl' busy'"
proof -
  have "set (keys fl') \<union> set (map snd busy') \<subseteq> set (keys fl) \<union> set (map snd busy)"
    using assms(2,3) by auto
  then show ?thesis using assms(1) unfolding tokensOk_def by blast
qed

lemma delete_sub: "set (AList.delete t m) \<subseteq> set m" "length (AList.delete t m) \<le> length m"
  by (auto simp: AList.delete_eq)

text \<open>Taking a transfer out of flight, with or without freeing its slot.\<close>

lemma retire_inv:
  assumes "exInv en x" "busy = ex_busyEndpoint x \<or> busy = freeEndpoint t (ex_busyEndpoint x)"
  shows "exInv en (x\<lparr>ex_busyEndpoint := busy, ex_inFlight := AList.delete t (ex_inFlight x)\<rparr>)"
proof -
  note sub = delete_sub [of t "ex_inFlight x"]
  have sl: "slotsOk (ex_inFlight x) (ex_busyEndpoint x)" using assms(1) by (simp add: exInv_def)
  have d: "sorted (keys (AList.delete t (ex_inFlight x)))" "distinct (keys (AList.delete t (ex_inFlight x)))"
    using sl by (simp_all add: slotsOk_def)
  have "t \<notin> set (keys (AList.delete t (ex_inFlight x)))" by (simp add: keys_delete)
  then have "slotsOk (AList.delete t (ex_inFlight x)) busy"
    using slotsOk_sub [OF sl sub(1) d sub(2)] assms(2) by blast
  moreover have "tokensOk (ex_nextToken x) (ex_issued x) (AList.delete t (ex_inFlight x)) busy"
    by (rule tokensOk_sub [OF _ sub(1)]) (use assms freeEndpoint_sub(1) in \<open>auto simp: exInv_def\<close>)
  ultimately show ?thesis using assms(1) sub(2)
    by (simp add: exInv_def roomy_def creditOk_def queuedTransfers_def queuedBytes_def)
qed

lemma retire_owed:
  assumes "exInv en x" "map_of (ex_inFlight x) t = Some f"
  shows "owedKeys x = owedKeys (x\<lparr>ex_busyEndpoint := busy, ex_inFlight := AList.delete t (ex_inFlight x)\<rparr>) + {#flightKey f#}"
  using flightKeys_delete [OF _ assms(2)] assms(1) by (simp add: owedKeys_def exInv_def slotsOk_def)

lemma retire_keeps:
  assumes "map_of (ex_inFlight x) t = Some f" "flightKey g = flightKey f"
    and "busy = ex_busyEndpoint x \<or> busy = freeEndpoint t (ex_busyEndpoint x)"
  shows "keeps en x (snd (emitComplete en g st n c z payload
    (x\<lparr>ex_busyEndpoint := busy, ex_inFlight := AList.delete t (ex_inFlight x)\<rparr>)))"
proof -
  let ?y = "x\<lparr>ex_busyEndpoint := busy, ex_inFlight := AList.delete t (ex_inFlight x)\<rparr>"
  obtain s w where e: "emitComplete en g st n c z payload ?y = (s, w)" by (rule prod.exhaust)
  have "keeps en x w"
    by (rule keeps_answer [of en x ?y "{#flightKey f#}"])
       (use retire_inv [OF _ assms(3)] retire_owed [OF _ assms(1)] emitComplete_quiet [OF e]
         emitComplete_emits [OF e] assms(2) in \<open>simp_all\<close>)
  then show ?thesis using e by simp
qed

lemma collectOutcome_keeps: "keeps en x (snd (collectOutcome en o1 x))"
proof (cases "map_of (ex_verbs x) (oc_token o1)")
  case None
  let ?busy = "freeEndpoint (oc_token o1) (ex_busyEndpoint x)"
  show ?thesis
  proof (cases "map_of (ex_inFlight x) (oc_token o1)")
    case none: None
    then have del: "AList.delete (oc_token o1) (ex_inFlight x) = ex_inFlight x"
      by (simp add: delete_notin map_of_notin_keys)
    have "exInv en (x\<lparr>ex_busyEndpoint := ?busy\<rparr>)" if "exInv en x"
      using retire_inv [OF that, of ?busy "oc_token o1"] del by simp
    then have "keeps en x (x\<lparr>ex_busyEndpoint := ?busy\<rparr>)"
      by (intro keeps_answer [where K = "{#}" and y = "x\<lparr>ex_busyEndpoint := ?busy\<rparr>"])
         (auto simp: owedKeys_def emits_refl)
    then show ?thesis using None none by (simp add: collectOutcome_def Let_def)
  next
    case (Some f)
    then show ?thesis using None retire_keeps [OF Some refl, of ?busy] by (simp add: collectOutcome_def Let_def)
  qed
next
  case (Some pv)
  then show ?thesis using verbOutcome_keeps by (simp add: collectOutcome_def)
qed

lemma collect_keeps: "keeps en x (snd (collect en x))"
proof (cases "ex_port x")
  case (Some port)
  obtain os d where p: "ap_poll (en_port en) port (ex_devices x) = (os, d)" by (rule prod.exhaust)
  have "keeps en x (x\<lparr>ex_devices := d\<rparr>)" by (rule keeps_inert) (simp_all add: sameTransfers_def)
  also have "keeps en (x\<lparr>ex_devices := d\<rparr>) (snd (eachWorst (collectOutcome en) os Ok (x\<lparr>ex_devices := d\<rparr>)))"
    by (rule eachWorst_keeps collectOutcome_keeps)+
  finally show ?thesis using Some p by (simp add: collect_def)
qed (simp add: collect_def)

section \<open>Deadlines and cancellation\<close>

text \<open>Dropping transfers from the queues: \<open>keep\<close> says which stay.\<close>

definition pruned :: "(u8 \<Rightarrow> Pending \<Rightarrow> bool) \<Rightarrow> (u8, Pending list) smap \<Rightarrow> (u8, Pending list) smap" where
  "pruned keep m = map (\<lambda>(ep, q). (ep, filter (keep ep) q)) m"

definition dropped :: "(u8 \<Rightarrow> Pending \<Rightarrow> bool) \<Rightarrow> (u8, Pending list) smap \<Rightarrow> Pending list" where
  "dropped keep m = concat (map (\<lambda>(ep, q). filter (Not \<circ> keep ep) q) m)"

lemma pruned_keys [simp]: "keys (pruned keep m) = keys m"
  by (induction m) (auto simp: pruned_def)

lemma pruned_sums: "asum length (pruned keep m) \<le> asum length m"
  "asum (\<lambda>q. sum_list (map (length \<circ> pe_dataOut) q)) (pruned keep m)
     \<le> asum (\<lambda>q. sum_list (map (length \<circ> pe_dataOut) q)) m"
proof -
  have bytes: "sum_list (map (length \<circ> pe_dataOut) (filter P q)) \<le> sum_list (map (length \<circ> pe_dataOut) q)" for P q
    by (induction q) auto
  show "asum length (pruned keep m) \<le> asum length m"
    by (induction m) (auto simp: pruned_def intro!: add_mono)
  show "asum (\<lambda>q. sum_list (map (length \<circ> pe_dataOut) q)) (pruned keep m)
     \<le> asum (\<lambda>q. sum_list (map (length \<circ> pe_dataOut) q)) m"
  proof (induction m)
    case (Cons a m)
    then show ?case using bytes [of "keep (fst a)" "snd a"]
      by (cases a) (simp add: pruned_def comp_def)
  qed (simp add: pruned_def)
qed

lemma pruned_keysets: "queuedKeys m = queuedKeys (pruned keep m) + mset (map pendingKey (dropped keep m))"
proof (induction m)
  case (Cons a m)
  obtain ep q where a: "a = (ep, q)" by (rule prod.exhaust)
  have "mset (map pendingKey q) = mset (map pendingKey (filter (keep ep) q)) + mset (map pendingKey (filter (Not \<circ> keep ep) q))"
    by (induction q) auto
  then show ?case using Cons a by (simp add: pruned_def dropped_def)
qed (simp add: pruned_def dropped_def)

lemma pruned_inv:
  assumes "exInv en x"
  shows "exInv en (x\<lparr>ex_queues := pruned keep (ex_queues x)\<rparr>)"
proof -
  have "queuesOk (pruned keep (ex_queues x))"
    using assms unfolding exInv_def queuesOk_def pruned_keys by (fastforce simp: pruned_def)
  then show ?thesis using assms pruned_sums [of keep "ex_queues x"]
    by (auto simp: exInv_def roomy_def creditOk_def queuedTransfers_def queuedBytes_def)
qed

lemma prune_keeps:
  assumes "y = x\<lparr>ex_queues := pruned keep (ex_queues x)\<rparr>" "quiet y z"
    and "roomy en y \<Longrightarrow> emits y z (mset (map pendingKey (dropped keep (ex_queues x))))"
  shows "keeps en x z"
  by (rule keeps_answer [OF _ _ _ _ _ assms(2,3)])
     (use assms(1) pruned_inv [of en x keep] pruned_keysets [of "ex_queues x" keep] in \<open>auto simp: owedKeys_def\<close>)

lemma flightKeys_update:
  "\<lbrakk>distinct (keys m); map_of m t = Some f; flightKey g = flightKey f\<rbrakk> \<Longrightarrow>
    flightKeys (AList.update t g m) = flightKeys m"
  by (induction m) (auto split: if_splits)

lemma flag_inv:
  assumes "map_of (ex_inFlight x) t = Some f" "fl_epAddr g = fl_epAddr f" "flightKey g = flightKey f"
  shows "keeps en x (x\<lparr>ex_inFlight := AList.update t g (ex_inFlight x)\<rparr>)"
proof -
  let ?m = "AList.update t g (ex_inFlight x)"
  let ?y = "x\<lparr>ex_inFlight := ?m\<rparr>"
  have keys: "keys ?m = keys (ex_inFlight x)" by (rule keys_update_old [OF assms(1)])
  have len: "length ?m = length (ex_inFlight x)" by (rule length_update_old [OF assms(1)])
  have mem: "\<exists>e. (u, e) \<in> set (ex_inFlight x) \<and> fl_epAddr e = fl_epAddr h" if "(u, h) \<in> set ?m" for u h
    using mem_update [OF that] assms(2) map_of_SomeD [OF assms(1)] by auto
  have owed: "owedKeys ?y = owedKeys x" if "exInv en x"
    using flightKeys_update [OF _ assms(1,3)] that by (simp add: owedKeys_def exInv_def slotsOk_def)
  have "exInv en ?y" if i: "exInv en x"
  proof -
    have sl: "slotsOk (ex_inFlight x) (ex_busyEndpoint x)" using i by (simp add: exInv_def)
    have "map_of (ex_busyEndpoint x) (fl_epAddr h) = Some u" if m: "(u, h) \<in> set ?m" for u h
      using mem [OF m] sl unfolding slotsOk_def by fastforce
    moreover have "length ?m = 1" if m: "(u, h) \<in> set ?m" "isEp0 (fl_epAddr h)" for u h
      using mem [OF m(1)] m(2) sl len unfolding slotsOk_def by fastforce
    ultimately have "slotsOk ?m (ex_busyEndpoint x)" using sl unfolding slotsOk_def keys by blast
    then show ?thesis using i len keys
      by (simp add: exInv_def roomy_def creditOk_def queuedTransfers_def queuedBytes_def tokensOk_def del: set_map)
  qed
  then show ?thesis using owed
    by (intro keeps_answer [where K = "{#}" and y = ?y]) (auto simp: emits_refl)
qed

lemma delete_update_same: "AList.delete k (AList.update k v m) = AList.delete k m"
  by (induction m) auto

lemma devices_keeps: "keeps en x (x\<lparr>ex_devices := d\<rparr>)"
  by (rule keeps_inert) (simp_all add: sameTransfers_def)

lemma sweepToken_keeps: "keeps en x (snd (sweepToken en t x))"
proof (cases "map_of (ex_inFlight x) t")
  case (Some f)
  define g where "g = f\<lparr>fl_cancelRequested := True\<rparr>"
  define y where "y = x\<lparr>ex_inFlight := AList.update t g (ex_inFlight x)\<rparr>"
  obtain b d where c: "(case ex_port y of None \<Rightarrow> (False, ex_devices y)
      | Some port \<Rightarrow> ap_cancel (en_port en) port t (ex_devices y)) = (b, d)" by (rule prod.exhaust)
  define w where "w = y\<lparr>ex_devices := d\<rparr>"
  have same: "fl_epAddr g = fl_epAddr f" "flightKey g = flightKey f" by (simp_all add: g_def flightKey_def)
  have y: "keeps en x y" unfolding y_def by (rule flag_inv [OF Some same])
  have w: "keeps en x w" using keeps_trans [OF y devices_keeps] by (simp add: w_def)
  have at: "map_of (ex_inFlight w) t = Some g" by (simp add: w_def y_def update_conv')
  have "keeps en w (snd (emitComplete en g XferTimeout 0 False False []
      (w\<lparr>ex_busyEndpoint := ex_busyEndpoint w, ex_inFlight := AList.delete t (ex_inFlight w)\<rparr>)))"
    by (rule retire_keeps [OF at refl]) simp
  then have "keeps en x (snd (emitComplete en g XferTimeout 0 False False [] (w\<lparr>ex_inFlight := AList.delete t (ex_inFlight w)\<rparr>)))"
    using keeps_trans [OF w] by simp
  moreover have "sweepToken en t x = (if b then (Ok, w)
      else emitComplete en g XferTimeout 0 False False [] (w\<lparr>ex_inFlight := AList.delete t (ex_inFlight w)\<rparr>))"
    by (simp only: sweepToken_def Let_def Some option.case g_def [symmetric] y_def [symmetric] c prod.case w_def)
  ultimately show ?thesis using w by simp
qed (simp add: sweepToken_def)

lemma sweepDeadlines_keeps: "keeps en x (snd (sweepDeadlines en x))"
proof -
  define late where "late p \<longleftrightarrow> expired (en_now en) (pe_deadline p)" for p :: Pending
  define y where "y = x\<lparr>ex_queues := pruned (\<lambda>_. Not \<circ> late) (ex_queues x)\<rparr>"
  define overdue where "overdue = dropped (\<lambda>_. Not \<circ> late) (ex_queues x)"
  obtain w1 z where z: "eachWorst (answerPending en XferTimeout False) overdue Ok y = (w1, z)" by (rule prod.exhaust)
  define tokens where "tokens = map fst (filter (\<lambda>(token, f). expired (en_now en) (fl_deadline f)
    \<and> \<not> fl_cancelRequested f) (ex_inFlight z))"
  have eqs: "concat (map (filter late \<circ> snd) (ex_queues x)) = overdue"
    by (simp add: overdue_def dropped_def comp_def case_prod_unfold)
  have res: "sweepDeadlines en x = eachWorst (sweepToken en) tokens w1 z"
    using z unfolding sweepDeadlines_def Let_def late_def [symmetric] tokens_def
    by (simp add: eqs y_def pruned_def)
  have q: "quiet y z" by (rule eachWorst_quiet [OF answerPending_quiet z])
  have "keeps en x z"
    by (rule prune_keeps [OF y_def q]) (use eachWorst_emits [OF answerPending_emits z] in \<open>simp add: overdue_def\<close>)
  also have "keeps en z (snd (eachWorst (sweepToken en) tokens w1 z))"
    by (rule eachWorst_keeps sweepToken_keeps)+
  finally show ?thesis using res by simp
qed

section \<open>Teardown\<close>

lemma abortedOutcome_keeps: "keeps en x (snd (abortedOutcome en st o1 x))"
proof (cases "map_of (ex_verbs x) (oc_token o1)")
  case None
  have "keeps en x (snd (emitComplete en f s n c z payload
      (x\<lparr>ex_inFlight := AList.delete (oc_token o1) (ex_inFlight x)\<rparr>)))"
    if "map_of (ex_inFlight x) (oc_token o1) = Some f" for f s n c z payload
    using retire_keeps [OF that refl, of "ex_busyEndpoint x"] by simp
  then show ?thesis using None by (auto simp: abortedOutcome_def split: option.split)
next
  case (Some pv)
  let ?y = "x\<lparr>ex_verbs := AList.delete (oc_token o1) (ex_verbs x)\<rparr>"
  have "keeps en x ?y" by (rule keeps_inert) (simp_all add: sameTransfers_def)
  with keeps_trans [OF this sendSimple_keeps] show ?thesis using Some by (simp add: abortedOutcome_def Let_def)
qed

lemma eachDo_quiet: "(\<And>a x. quiet x (snd (g a x))) \<Longrightarrow> quiet x (eachDo g as x)"
proof (induction as arbitrary: x)
  case (Cons a as)
  from quiet_trans [OF Cons.prems Cons.IH [OF Cons.prems]] show ?case by simp
qed simp

lemma answerAll_keeps:
  assumes "\<And>a x s x'. g a x = (s, x') \<Longrightarrow> quiet x x'"
    and "\<And>a x s x'. \<lbrakk>g a x = (s, x'); roomy en x\<rbrakk> \<Longrightarrow> quiet x x' \<and> emits x x' {#key a#}"
    and "exInv en x \<Longrightarrow> exInv en y" "exInv en x \<Longrightarrow> owedKeys x = owedKeys y + mset (map key as)"
    and "ex_sent y = ex_sent x" "ex_taken y = ex_taken x" "ex_issued y = ex_issued x"
  shows "keeps en x (eachDo g as y) \<and> quiet y (eachDo g as y)"
proof -
  have q: "quiet y (eachDo g as y)" by (rule eachDo_quiet, rule assms(1), rule surjective_pairing)
  have "keeps en x (eachDo g as y)"
    by (rule keeps_answer [OF assms(3-7) q]) (assumption | rule conjunct2 [OF eachDo_emits [OF assms(2)]])+
  with q show ?thesis by blast
qed

lemma failAllTransfers_keeps: "keeps en x (failAllTransfers en st x)"
  and failAllTransfers_empty: "ex_inFlight (failAllTransfers en st x) = []" "ex_queues (failAllTransfers en st x) = []"
    "ex_busyEndpoint (failAllTransfers en st x) = []" "ex_verbs (failAllTransfers en st x) = []"
proof -
  define a where "a = (case ex_port x of None \<Rightarrow> x
    | Some port \<Rightarrow> let (os, d) = ap_abortAll (en_port en) port st (ex_devices x)
        in eachDo (abortedOutcome en st) os (x\<lparr>ex_devices := d\<rparr>))"
  define b where "b = eachDo (\<lambda>f. emitComplete en f st 0 True False []) (map snd (ex_inFlight a)) (a\<lparr>ex_inFlight := []\<rparr>)"
  define c where "c = b\<lparr>ex_busyEndpoint := []\<rparr>"
  define e where "e = eachDo (answerPending en st True) (concat (map snd (ex_queues c))) (c\<lparr>ex_queues := []\<rparr>)"
  define r where "r = eachDo (\<lambda>v. sendSimple en T_CtrlAck st (vb_requestId v) [])
    (filter (\<lambda>v. vb_requestId v \<noteq> 0) (map snd (ex_verbs e))) (e\<lparr>ex_verbs := []\<rparr>)"
  have res: "failAllTransfers en st x = r"
    by (simp only: failAllTransfers_def Let_def a_def b_def c_def e_def r_def)
  have ka: "keeps en x a"
  proof (cases "ex_port x")
    case (Some port)
    obtain os d where p: "ap_abortAll (en_port en) port st (ex_devices x) = (os, d)" by (rule prod.exhaust)
    have "keeps en (x\<lparr>ex_devices := d\<rparr>) (eachDo (abortedOutcome en st) os (x\<lparr>ex_devices := d\<rparr>))"
      by (rule eachDo_keeps abortedOutcome_keeps)+
    with keeps_trans [OF devices_keeps this] show ?thesis using Some p by (simp add: a_def)
  qed (simp add: a_def)
  have empty: "exInv en (a\<lparr>ex_inFlight := []\<rparr>)" if "exInv en a"
    using that by (auto simp: exInv_def roomy_def creditOk_def queuedTransfers_def queuedBytes_def slotsOk_def tokensOk_def)
  have "keeps en a b \<and> quiet (a\<lparr>ex_inFlight := []\<rparr>) b"
    unfolding b_def
    by (rule answerAll_keeps [of "\<lambda>f. emitComplete en f st 0 True False []" en flightKey])
       (use empty emitComplete_quiet emitComplete_emits in \<open>auto simp: owedKeys_def flightKeys_def\<close>)
  then have kb: "keeps en a b" "quiet (a\<lparr>ex_inFlight := []\<rparr>) b" by blast+
  have bf: "ex_inFlight b = []" using quietD(12) [OF kb(2)] by simp
  have "exInv en c" if "exInv en b"
    using that bf by (auto simp: c_def exInv_def roomy_def creditOk_def queuedTransfers_def queuedBytes_def slotsOk_def tokensOk_def)
  then have kc: "keeps en b c"
    by (intro keeps_answer [where K = "{#}" and y = c]) (auto simp: owedKeys_def emits_refl c_def)
  have "exInv en (c\<lparr>ex_queues := []\<rparr>)" if "exInv en c"
    using that by (auto simp: exInv_def roomy_def creditOk_def queuedTransfers_def queuedBytes_def queuesOk_def)
  then have "keeps en c e \<and> quiet (c\<lparr>ex_queues := []\<rparr>) e"
    unfolding e_def
    by (intro answerAll_keeps [of "answerPending en st True" en pendingKey] answerPending_quiet answerPending_emits)
       (auto simp: owedKeys_def queuedKeys_def)
  then have ke: "keeps en c e" "quiet (c\<lparr>ex_queues := []\<rparr>) e" by blast+
  have v: "keeps en e (e\<lparr>ex_verbs := []\<rparr>)" by (rule keeps_inert) (simp_all add: sameTransfers_def)
  have kr: "keeps en (e\<lparr>ex_verbs := []\<rparr>) r" unfolding r_def by (rule eachDo_keeps sendSimple_keeps)+ simp
  have qr: "quiet (e\<lparr>ex_verbs := []\<rparr>) r"
    unfolding r_def by (rule eachDo_quiet, rule sendSimple_sent(1), rule surjective_pairing)
  show "keeps en x (failAllTransfers en st x)" unfolding res
    by (rule keeps_trans [OF keeps_trans [OF keeps_trans [OF ka kb(1)] keeps_trans [OF kc ke(1)]] keeps_trans [OF v kr]])
  show "ex_inFlight (failAllTransfers en st x) = []" "ex_queues (failAllTransfers en st x) = []"
    "ex_busyEndpoint (failAllTransfers en st x) = []" "ex_verbs (failAllTransfers en st x) = []"
    using quietD [OF qr] quietD [OF ke(2)] bf by (simp_all add: res c_def)
qed

end
