(* ===== verification/ExporterSteps.thy ===== *)
theory ExporterSteps
  imports ExporterInv
begin

text \<open>
  Every message handler of the exporter, and \<open>pump\<close> as a whole, keeps the invariant of \<open>ExporterInv\<close> and
  accounts for the requests; with it the properties of the session over all its histories.
\<close>

section \<open>Handlers\<close>

lemma sendSimple_keepsD: "\<lbrakk>sendSimple en ty st i body x = (s, x'); ty \<noteq> T_Complete\<rbrakk> \<Longrightarrow> keeps en x x'"
  using sendSimple_keeps [of ty en x st i body] by simp

text \<open>Updates of fields the invariant does not read.\<close>

lemma inert_keeps:
  "keeps en x (x\<lparr>ex_port := a\<rparr>)" "keeps en x (x\<lparr>ex_state := b\<rparr>)" "keeps en x (x\<lparr>ex_leases := c\<rparr>)"
  "keeps en x (x\<lparr>ex_handled := n\<rparr>)" "keeps en x (x\<lparr>ex_cancelled := n\<rparr>)" "keeps en x (x\<lparr>ex_why := w\<rparr>)"
  "keeps en x (x\<lparr>ex_attachId := i\<rparr>)" "keeps en x (resetReassembly x)" "keeps en x (releaseDevice en uid x)"
  "keeps en x (undoAttach en x)" "keeps en x (heardPeer en x)"
  "keeps en x (x\<lparr>ex_rxActive := r1, ex_rxChannel := r2, ex_rxRequestId := r3, ex_rxSb := r4, ex_rx := r5\<rparr>)"
  "keeps en x (x\<lparr>ex_rx := r5\<rparr>)" "keeps en x (x\<lparr>ex_resetWorst := rw, ex_resetPending := rp\<rparr>)"
  "keeps en x (x\<lparr>ex_leases := c, ex_state := b, ex_why := w\<rparr>)" "keeps en x (x\<lparr>ex_state := b, ex_leases := c\<rparr>)"
  "keeps en x (x\<lparr>ex_attachId := i, ex_state := b\<rparr>)"
  by (rule keeps_inert; simp add: sameTransfers_def resetReassembly_def releaseDevice_def undoAttach_def heardPeer_def Let_def)+

lemma close_keeps: "keeps en x (ex_close en x)"
proof -
  define y where "y = resetReassembly x"
  define z where "z = (case ex_port y of None \<Rightarrow> y
    | Some port \<Rightarrow> (let w = failAllTransfers en Detaching y;
          w = (if sn_state (la_s (ex_leases w)) \<noteq> Free then w else releaseDevice en (ex_uid w) w)
        in w\<lparr>ex_port := None\<rparr>))"
  have "keeps en x y" unfolding y_def by (rule inert_keeps)
  moreover have "keeps en y z"
  proof (cases "ex_port y")
    case (Some port)
    let ?w = "failAllTransfers en Detaching y"
    have "keeps en y (if sn_state (la_s (ex_leases ?w)) \<noteq> Free then ?w else releaseDevice en (ex_uid ?w) ?w)"
      using failAllTransfers_keeps [of en y Detaching] keeps_trans [OF _ inert_keeps(9)] by auto
    from keeps_trans [OF this inert_keeps(1)] show ?thesis using Some by (simp add: z_def Let_def)
  qed (simp add: z_def)
  ultimately have "keeps en x z" by (rule keeps_trans)
  from keeps_trans [OF this inert_keeps(17)] show ?thesis
    by (simp only: ex_close_def Let_def y_def z_def)
qed

lemma handlePing_keeps: "keeps en x (snd (handlePing en h body x))"
  by (auto simp: handlePing_def intro: refuse_keeps sendSimple_keeps split: option.split)

lemma handleListDevices_keeps: "keeps en x (snd (handleListDevices en h x))"
  by (auto simp: handleListDevices_def intro: refuse_keeps sendSimple_keeps keeps_trans [OF devices_keeps] split: prod.split)

lemma rejectAttach_keeps: "keeps en x (snd (rejectAttach en h s why x))"
  unfolding rejectAttach_def by (rule keeps_trans [OF inert_keeps(6) sendSimple_keeps]) simp

lemma emitTransfer_keeps:
  assumes "h_type base \<noteq> typeCode T_Complete"
  shows "keeps en x (snd (emitTransfer base fixed data m (sendRecord en) x))"
proof (cases "m = 0")
  case False
  let ?plan = "planSegments (of_nat (length data)) m"
  obtain s x' where e: "emitLoop base fixed data (sendRecord en) 0 ?plan x = (s, x')" by (rule prod.exhaust)
  from emitLoop_sent [OF e] planSegments_nonempty [OF False] obtain n where n: "quiet x x'"
    "ex_sent x' = ex_sent x @ map (\<lambda>(j, sp). segRecord base fixed data j sp) (zip [0 ..< n] (take n ?plan))" "n \<noteq> 0"
    by auto
  have "emits x x' {#}"
    using answered_segments [OF n(3) planSegments_nonempty [OF False]] assms by (intro emits_quiet [OF n(2)]) simp
  then show ?thesis using keeps_quiet [OF n(1)] e False by (simp add: emitTransfer_def)
qed (simp add: emitTransfer_def)

lemma finishAttach_keeps: "keeps en x (snd (finishAttach en h a port m cv x))"
proof -
  define y where "y = x\<lparr>ex_port := Some port, ex_manifest := m, ex_configValue := cv, ex_uid := at_uid a,
    ex_attachSlot := at_attachSlot a\<rparr>"
  obtain i leases where g: "grant (en_now en) (en_rnd en) (sp_identityKey (ex_peer y)) (ex_uid y) (ex_leases y) = (i, leases)"
    by (rule prod.exhaust)
  define z where "z = y\<lparr>ex_leases := leases, ex_attachId := i, ex_leaseEpoch := sn_leaseEpoch (la_s leases)\<rparr>"
  obtain s mb where em: "encodeManifest (en_blake2s en) m cv [] = (s, mb)" by (rule prod.exhaust)
  have z: "keeps en x z" by (rule keeps_inert) (simp_all add: sameTransfers_def z_def y_def)
  have undo: "keeps en w (snd (refuse en h st why (undoAttach en w)))"
    "keeps en w (snd (refuse en h st why ((undoAttach en w)\<lparr>ex_state := Idle\<rparr>)))" for w st why
    by (rule keeps_trans [OF inert_keeps(10) refuse_keeps])
       (rule keeps_trans [OF keeps_trans [OF inert_keeps(10) inert_keeps(2)] refuse_keeps])
  obtain s1 w where w: "sendSimple en T_AttachOk Ok (h_requestId h)
      (encodeAttachOk (attachOkFor i (ex_leaseEpoch z) m (length mb)) []) z = (s1, w)" by (rule prod.exhaust)
  have kw: "keeps en z w" by (rule sendSimple_keepsD [OF w]) simp
  define base where "base = Header0\<lparr>h_type := typeCode T_DeviceManifest, h_channel := 0,
    h_attachId := ex_attachId w, h_requestId := h_requestId h, h_status := 0\<rparr>"
  define maxPlain where "maxPlain = maxPlaintextBytes (io_cipher (en_io en)) (fst (ex_link w))"
  obtain s2 v where v: "emitTransfer base [] mb (maxPlain - of_nat kHeaderSize) (sendRecord en) w = (s2, v)"
    by (rule prod.exhaust)
  have "keeps en w (snd (emitTransfer base [] mb (maxPlain - of_nat kHeaderSize) (sendRecord en) w))"
    by (rule emitTransfer_keeps) (simp add: base_def)
  then have kv: "keeps en w v" using v by simp
  have "finishAttach en h a port m cv x =
    (if s \<noteq> Ok then refuse en h ManifestInvalid ''This device's descriptors could not be read.'' (undoAttach en z)
     else if s1 \<noteq> Ok then (s1, w)
     else if unat maxPlain \<le> kHeaderSize then (Internal, w)
     else if s2 \<noteq> Ok then refuse en h s2 ''This device's descriptor set could not be sent.'' ((undoAttach en v)\<lparr>ex_state := Idle\<rparr>)
     else (Ok, v\<lparr>ex_state := Leased\<rparr>))"
    unfolding finishAttach_def Let_def y_def [symmetric] g prod.case em z_def [symmetric] w
      base_def [symmetric] maxPlain_def [symmetric] v ..
  then show ?thesis
    using keeps_trans [OF z undo(1)] keeps_trans [OF z kw] keeps_trans [OF keeps_trans [OF keeps_trans [OF z kw] kv] undo(2)]
      keeps_trans [OF keeps_trans [OF keeps_trans [OF z kw] kv] inert_keeps(2)]
    by simp
qed

lemma handleAttach_keeps: "keeps en x (snd (handleAttach en h body x))"
proof (cases "decodeAttach body")
  case (Some a)
  obtain s r where c: "mayClaim (ex_leases x) (sp_identityKey (ex_peer x)) (at_uid a) = (s, r)" by (rule prod.exhaust)
  obtain s1 port m cv why d where cl: "ds_claim (en_source en) (at_uid a) (ex_devices x) = (s1, port, m, cv, why, d)"
    by (metis prod_cases6)
  let ?y = "x\<lparr>ex_devices := d\<rparr>"
  have y: "keeps en x ?y" by (rule devices_keeps)
  have rel: "keeps en x (releaseDevice en (at_uid a) ?y)" by (rule keeps_trans [OF y inert_keeps(9)])
  have fin: "keeps en x (snd (finishAttach en h a p m cv ?y))" for p by (rule keeps_trans [OF y finishAttach_keeps])
  show ?thesis
    using Some c cl keeps_trans [OF y rejectAttach_keeps] keeps_trans [OF rel rejectAttach_keeps]
      keeps_trans [OF rel refuse_keeps] fin rejectAttach_keeps refuse_keeps
    by (auto simp: handleAttach_def Let_def split: option.split)
qed (auto simp: handleAttach_def intro: refuse_keeps)

lemma handleDetach_keeps: "keeps en x (snd (handleDetach en h body x))"
proof -
  let ?y = "(resetReassembly x)\<lparr>ex_state := Draining\<rparr>"
  let ?z = "failAllTransfers en XferCancelled ?y"
  have z: "keeps en x ?z"
    by (rule keeps_trans [OF keeps_trans [OF inert_keeps(8) inert_keeps(2)] failAllTransfers_keeps])
  have "keeps en x ((undoAttach en w)\<lparr>ex_state := Idle\<rparr>)"
    if "sendSimple en T_DetachOk Ok i b ?z = (s, w)" for i b s w
    by (rule keeps_trans [OF keeps_trans [OF keeps_trans [OF z sendSimple_keepsD [OF that]] inert_keeps(10)] inert_keeps(2)]) simp
  then show ?thesis
    by (auto simp: handleDetach_def Let_def intro: refuse_keeps split: option.split prod.split)
qed

lemma draw_keeps: "keeps en x (x\<lparr>ex_nextToken := ex_nextToken x + 1, ex_issued := ex_issued x + 1,
    ex_verbs := v, ex_devices := d\<rparr>)" (is "keeps en x ?y")
proof -
  have "exInv en ?y" if "exInv en x" "ex_issued x + 1 < tokenLimit"
    using that tokensOk_draw by (auto simp: exInv_def roomy_def creditOk_def queuedTransfers_def queuedBytes_def)
  then show ?thesis unfolding keeps_def using emits_refl [of ?y x]
    by (auto simp: owedKeys_def intro!: exI [of _ "{#}"] exI [of _ "[]"])
qed

lemma verbs_keeps: "keeps en x (x\<lparr>ex_verbs := v\<rparr>)" "keeps en x (x\<lparr>ex_verbs := v, ex_resetWorst := w\<rparr>)"
  "keeps en x (x\<lparr>ex_resetPending := n\<rparr>)"
  by (rule keeps_inert; simp add: sameTransfers_def)+

lemma handleClearHalt_keeps: "keeps en x (snd (handleClearHalt en h x))"
proof (cases "ex_port x")
  case (Some port)
  define ep where "ep = (ucast (h_channel h AND 0xFF) :: u8)"
  define v where "v = \<lparr>vb_requestId = h_requestId h, vb_epAddr = ep, vb_isReset = False\<rparr>"
  obtain s d where c: "ap_clearHalt (en_port en) port (ex_nextToken x) ep (ex_devices x) = (s, d)" by (rule prod.exhaust)
  define y where "y = x\<lparr>ex_nextToken := ex_nextToken x + 1, ex_issued := ex_issued x + 1,
    ex_verbs := mapPut (ex_nextToken x) v (ex_verbs x), ex_devices := d\<rparr>"
  have y: "keeps en x y" unfolding y_def by (rule draw_keeps)
  have ack: "keeps en x (snd (sendSimple en T_CtrlAck s (h_requestId h) [] (y\<lparr>ex_verbs := u\<rparr>)))" for u
    by (rule keeps_trans [OF keeps_trans [OF y verbs_keeps(1)] sendSimple_keeps]) simp
  have "handleClearHalt en h x = (if ex_state x \<noteq> Leased then refuse en h Detaching ''That device is no longer attached.'' x
      else if h_attachId h \<noteq> ex_attachId x then (Ok, x)
      else if s \<noteq> Ok then sendSimple en T_CtrlAck s (h_requestId h) [] (y\<lparr>ex_verbs := AList.delete (ex_nextToken x) (ex_verbs y)\<rparr>)
      else (Ok, y))"
    unfolding handleClearHalt_def Let_def Some option.case ep_def [symmetric] v_def [symmetric] c prod.case y_def ..
  then show ?thesis using y ack by (simp add: refuse_keeps)
qed (simp add: handleClearHalt_def refuse_keeps)

lemma resetLegs_keeps: "keeps en x (snd (resetLegs en port i eps x))"
proof (induction eps arbitrary: x)
  case (Cons ep eps)
  define v where "v = \<lparr>vb_requestId = (if eps = [] then i else 0), vb_epAddr = ep, vb_isReset = True\<rparr>"
  obtain s d where c: "ap_clearHalt (en_port en) port (ex_nextToken x) ep (ex_devices x) = (s, d)" by (rule prod.exhaust)
  define y where "y = x\<lparr>ex_nextToken := ex_nextToken x + 1, ex_issued := ex_issued x + 1,
    ex_verbs := mapPut (ex_nextToken x) v (ex_verbs x), ex_devices := d\<rparr>"
  define z where "z = y\<lparr>ex_verbs := AList.delete (ex_nextToken x) (ex_verbs y),
    ex_resetWorst := (if ex_resetWorst y = Ok then s else ex_resetWorst y)\<rparr>"
  have y: "keeps en x y" unfolding y_def by (rule draw_keeps)
  have z: "keeps en x z" unfolding z_def by (rule keeps_trans [OF y verbs_keeps(2)])
  have eq: "resetLegs en port i (ep # eps) x = (if s \<noteq> Ok
      then if vb_requestId v \<noteq> 0 then sendSimple en T_CtrlAck (ex_resetWorst z) i [] z else resetLegs en port i eps z
      else resetLegs en port i eps (y\<lparr>ex_resetPending := ex_resetPending y + 1\<rparr>))"
    unfolding resetLegs.simps Let_def v_def [symmetric] c prod.case y_def [symmetric] z_def [symmetric] ..
  have "keeps en x (snd (sendSimple en T_CtrlAck w i [] z))" for w
    by (rule keeps_trans [OF z sendSimple_keeps]) simp
  then show ?case
    unfolding eq using keeps_trans [OF z Cons.IH] keeps_trans [OF keeps_trans [OF y verbs_keeps(3)] Cons.IH] by simp
qed simp

lemma handleDeviceReset_keeps: "keeps en x (snd (handleDeviceReset en h x))"
  using keeps_trans [OF inert_keeps(14) resetLegs_keeps]
  by (auto simp: handleDeviceReset_def Let_def intro: refuse_keeps sendSimple_keeps split: option.split)

lemma cancelToken_keeps: "keeps en x (snd (cancelToken en t x))"
proof (cases "map_of (ex_inFlight x) t")
  case (Some f)
  obtain b d where c: "(case ex_port x of None \<Rightarrow> (False, ex_devices x)
      | Some port \<Rightarrow> ap_cancel (en_port en) port t (ex_devices x)) = (b, d)" by (rule prod.exhaust)
  define y where "y = x\<lparr>ex_devices := d\<rparr>"
  have y: "keeps en x y" unfolding y_def by (rule devices_keeps)
  have "map_of (ex_inFlight y) t = Some f" using Some by (simp add: y_def)
  then have "keeps en x (y\<lparr>ex_inFlight := AList.update t (f\<lparr>fl_cancelRequested := True\<rparr>) (ex_inFlight y)\<rparr>)"
    by (rule keeps_trans [OF y flag_inv]) (simp_all add: flightKey_def)
  moreover have "cancelToken en t x = (if b
      then (True, y\<lparr>ex_inFlight := AList.update t (f\<lparr>fl_cancelRequested := True\<rparr>) (ex_inFlight y)\<rparr>) else (False, y))"
    unfolding cancelToken_def Some option.case Let_def c prod.case y_def [symmetric] ..
  ultimately show ?thesis using y by simp
qed (simp add: cancelToken_def)

lemma cancelTokens_keeps: "keeps en x (snd (cancelTokens en ts n x))"
proof (induction ts arbitrary: n x)
  case (Cons t ts)
  obtain b y where y: "cancelToken en t x = (b, y)" by (rule prod.exhaust)
  have "keeps en x y" using cancelToken_keeps [of en x t] y by simp
  from keeps_trans [OF this Cons.IH] show ?case using y by simp
qed simp

text \<open>The queue part of a cancellation is a pruning of the queues.\<close>

lemma dropped_one:
  "distinct (keys m) \<Longrightarrow> dropped (\<lambda>ep p. ep = e \<longrightarrow> \<not> hit p) m
    = filter hit (case map_of m e of None \<Rightarrow> [] | Some q \<Rightarrow> q)"
proof (induction m)
  case (Cons a m)
  obtain k q where a: "a = (k, q)" by (rule prod.exhaust)
  have none: "dropped (\<lambda>ep p. ep = e \<longrightarrow> \<not> hit p) m = []" if "e \<notin> set (keys m)" for m :: "(u8, Pending list) smap"
    using that by (induction m) (auto simp: dropped_def)
  show ?case
  proof (cases "k = e")
    case True
    then show ?thesis using none [of m] Cons.prems a by (simp add: dropped_def comp_def)
  next
    case False
    then show ?thesis using Cons a by (simp add: dropped_def comp_def)
  qed
qed (simp add: dropped_def)

lemma cancelQueue_keeps:
  fixes hit :: "Pending \<Rightarrow> bool"
  assumes "queue = (case map_of (ex_queues x) e of None \<Rightarrow> [] | Some q \<Rightarrow> q)"
    and "y = x\<lparr>ex_queues := map (\<lambda>(ep, q). (ep, if ep = e then filter (Not \<circ> hit) q else q)) (ex_queues x)\<rparr>"
  shows "keeps en x (eachDo (answerPending en XferCancelled True) (filter hit queue) y)"
proof -
  let ?keep = "\<lambda>ep p. ep = e \<longrightarrow> \<not> hit p"
  have "(if ep = e then filter (Not \<circ> hit) q else q) = filter (?keep ep) q" for ep and q :: "Pending list"
    by (simp add: comp_def)
  then have y: "y = x\<lparr>ex_queues := pruned ?keep (ex_queues x)\<rparr>" by (simp add: assms(2) pruned_def)
  have "keeps en x (eachDo (answerPending en XferCancelled True) (filter hit queue) y)
      \<and> quiet y (eachDo (answerPending en XferCancelled True) (filter hit queue) y)"
  proof (rule answerAll_keeps [of "answerPending en XferCancelled True" en pendingKey, OF answerPending_quiet answerPending_emits])
    assume i: "exInv en x"
    show "exInv en y" unfolding y by (rule pruned_inv [OF i])
    have "distinct (keys (ex_queues x))" using i by (simp add: exInv_def queuesOk_def)
    then show "owedKeys x = owedKeys y + mset (map pendingKey (filter hit queue))"
      using pruned_keysets [of "ex_queues x" ?keep] dropped_one [of "ex_queues x" e hit]
      by (simp add: y owedKeys_def assms(1))
  qed (simp_all add: y)
  then show ?thesis by blast
qed

lemma handleCancel_keeps: "keeps en x (snd (handleCancel en h body x))"
proof (cases "decodeCancel body")
  case (Some cb)
  define hit where "hit p \<longleftrightarrow> cancelMatches cb (sb_epAddr (pe_sb p)) (pe_requestId p)" for p :: Pending
  define queue where "queue = (case map_of (ex_queues x) (can_epAddr cb) of None \<Rightarrow> [] | Some q \<Rightarrow> q)"
  define y where "y = x\<lparr>ex_queues := map (\<lambda>(ep, q). (ep, if ep = can_epAddr cb then filter (Not \<circ> hit) q else q)) (ex_queues x)\<rparr>"
  define z where "z = eachDo (answerPending en XferCancelled True) (filter hit queue) y"
  define w where "w = z\<lparr>ex_cancelled := ex_cancelled z + of_nat (length (filter hit queue))\<rparr>"
  define tokens where "tokens = map fst (filter (\<lambda>(token, f). cancelMatches cb (fl_epAddr f) (fl_requestId f)) (ex_inFlight w))"
  obtain n v where v: "cancelTokens en tokens (of_nat (length (filter hit queue))) w = (n, v)" by (rule prod.exhaust)
  have z: "keeps en x z" unfolding z_def by (rule cancelQueue_keeps [OF queue_def y_def])
  have "keeps en w v" using cancelTokens_keeps [of en w tokens] v by (metis snd_conv)
  then have v': "keeps en x v" using keeps_trans [OF keeps_trans [OF z inert_keeps(5)]] by (simp add: w_def)
  define ack where "ack = encodeCancelAck \<lparr>cak_cancelledCount = n, cak_granularity = can_scope cb, cak_reserved = replicate 3 0\<rparr> []"
  have hit: "(\<lambda>p. cancelMatches cb (sb_epAddr (pe_sb p)) (pe_requestId p)) = hit" by (simp add: hit_def fun_eq_iff)
  have "handleCancel en h body x = (if ex_state x \<noteq> Leased then refuse en h Detaching ''That device is no longer attached.'' x
      else if h_attachId h \<noteq> ex_attachId x then (Ok, x)
      else if can_scope cb \<noteq> scopeCode ScopeRequest \<and> can_scope cb \<noteq> scopeCode ScopeEndpoint
      then refuse en h BadArgument ''unknown cancellation scope'' x
      else if can_epAddr cb \<noteq> ucast (h_channel h AND 0xFF)
      then refuse en h BadArgument ''the cancel names one endpoint in its channel and another in its body'' x
      else sendSimple en T_CancelAck Ok (h_requestId h) ack v)"
    unfolding handleCancel_def Some option.case Let_def hit queue_def [symmetric] y_def [symmetric] z_def [symmetric]
      w_def [symmetric] tokens_def [symmetric] v prod.case ack_def ..
  moreover have "keeps en x (snd (sendSimple en T_CancelAck Ok (h_requestId h) ack v))"
    by (rule keeps_trans [OF v' sendSimple_keeps]) simp
  ultimately show ?thesis by (simp add: refuse_keeps)
qed (auto simp: handleCancel_def intro: refuse_keeps)

lemma handleSubmit_keeps: "keeps en x (snd (handleSubmit en h body x))"
proof -
  have "keeps en x (snd (refuse en h e why (resetReassembly (x\<lparr>ex_rxActive := r1, ex_rxChannel := r2,
      ex_rxRequestId := r3, ex_rxSb := r4, ex_rx := r5\<rparr>))))" for e why r1 r2 r3 r4 r5
    by (rule keeps_trans [OF inert_keeps(12) keeps_trans [OF inert_keeps(8) refuse_keeps]])
  then show ?thesis
    by (auto simp: handleSubmit_def Let_def intro: refuse_keeps enqueueTransfer_keeps inert_keeps(12)
        split: option.split prod.split)
qed

lemma handleData_keeps: "keeps en x (snd (handleData en h body x))"
proof -
  have "keeps en x (snd (refuse en h e why (resetReassembly (x\<lparr>ex_rx := r\<rparr>))))" for e why r
    by (rule keeps_trans [OF inert_keeps(13) keeps_trans [OF inert_keeps(8) refuse_keeps]])
  moreover have "keeps en x (snd (enqueueTransfer en a b c full (resetReassembly (x\<lparr>ex_rx := r\<rparr>))))" for a b c full r
    by (rule keeps_trans [OF inert_keeps(13) keeps_trans [OF inert_keeps(8) enqueueTransfer_keeps]])
  ultimately show ?thesis
    by (auto simp: handleData_def Let_def intro: refuse_keeps inert_keeps(13) split: option.split prod.split Outcome.split)
qed

lemmas handler_keeps = handlePing_keeps handleListDevices_keeps handleAttach_keeps handleDetach_keeps
  handleSubmit_keeps handleData_keeps handleCancel_keeps handleClearHalt_keeps handleDeviceReset_keeps refuse_keeps

lemma handle_keeps: "keeps en x (snd (handle en h body x))"
proof -
  let ?y = "x\<lparr>ex_handled := ex_handled x + 1\<rparr>"
  have close: "keeps en ?y (ex_close en (?y\<lparr>ex_state := Closed\<rparr>))"
    by (rule keeps_trans [OF inert_keeps(2) close_keeps])
  have "keeps en ?y (snd (handle en h body x))"
    using close by (auto simp: handle_def Let_def intro: handler_keeps split: option.split Type.split)
  then show ?thesis by (rule keeps_trans [OF inert_keeps(4)])
qed

section \<open>The event loop\<close>

lemma messages_keeps: "keeps en x (snd (messages en rec at x))"
proof (induction en rec at x rule: messages.induct)
  case (1 en rec at x)
  show ?case
  proof (cases "at < length rec")
    case False
    then show ?thesis by (simp add: messages.simps [of en rec at x] refuse_keeps)
  next
    case True
    show ?thesis
    proof (cases "decodeHeader (drop at rec)")
      case None
      then show ?thesis using True by (simp add: messages.simps [of en rec at x] refuse_keeps)
    next
      case (Some h)
      let ?avail = "length (drop at rec) - kHeaderSize"
      let ?v = "validateHeader h ?avail (exLimits x)"
      obtain s y where y: "handle en h (subspan (drop at rec) kHeaderSize (unat (h_bodyLen h))) x = (s, y)"
        by (rule prod.exhaust)
      have k: "keeps en x y" using handle_keeps [of en x h "subspan (drop at rec) kHeaderSize (unat (h_bodyLen h))"] y by simp
      have IH: "keeps en y (snd (messages en rec (at + kHeaderSize + unat (h_bodyLen h)) y))"
        if "v_ok ?v" "\<not> ?avail < unat (h_bodyLen h)" "\<not> isFatal s"
        by (rule 1 [OF True refl Some refl refl _ _ y [symmetric] refl]) (use that in auto)
      have "messages en rec at x = (if \<not> v_ok ?v then map_prod Some id (refuse en h (v_status ?v) ''header failed validation'' x)
          else if ?avail < unat (h_bodyLen h) then map_prod Some id (refuse en h MalformedFrame ''body shorter than declared'' x)
          else if isFatal s then (Some s, y) else messages en rec (at + kHeaderSize + unat (h_bodyLen h)) y)"
        by (subst messages.simps) (simp only: True if_True Let_def Some option.case y prod.case)
      then show ?thesis using k keeps_trans [OF k IH] by (simp add: refuse_keeps)
    qed
  qed
qed

lemma link_keeps: "rl_maxRecord (fst l) = rl_maxRecord (fst (ex_link x)) \<Longrightarrow> keeps en x (x\<lparr>ex_link := l\<rparr>)"
  by (rule keeps_inert) (simp_all add: sameTransfers_def)

lemmas readLoop_induct =
  readLoop.raw_induct [where xa = "(en, x)" for en x, unfolded prod.case, rotated, consumes 1, case_names step]

lemma readLoop_keeps:
  assumes "readLoop en x = Some y"
  shows "keeps en x (snd y)"
  using assms
proof (induction rule: readLoop_induct)
  case (step loop en x y)
  obtain r rec l where rec: "linkReceive (en_io en) (ex_link x) = (r, rec, l)" by (metis prod_cases3)
  define z where "z = heardPeer en (x\<lparr>ex_link := l, ex_lastHeardNs := en_now en\<rparr>)"
  have l: "keeps en x (x\<lparr>ex_link := l\<rparr>)" by (rule link_keeps [OF linkReceive_maxRecord [OF rec]])
  have "keeps en x (x\<lparr>ex_link := l, ex_lastHeardNs := en_now en\<rparr>)"
    using linkReceive_maxRecord [OF rec] by (intro keeps_inert) (simp_all add: sameTransfers_def)
  then have z: "keeps en x z" unfolding z_def by (rule keeps_trans [OF _ inert_keeps(11)])
  obtain m w where m: "messages en rec 0 z = (m, w)" by (rule prod.exhaust)
  have w: "keeps en x w" using keeps_trans [OF z messages_keeps [of en z rec 0]] m by simp
  show ?case
  proof (cases "r = Ok \<and> rec \<noteq> []")
    case False
    then show ?thesis using step(2) rec l by (auto split: if_splits)
  next
    case True
    then have "(case m of None \<Rightarrow> loop en w | Some s \<Rightarrow> Some (Return s, w)) = Some y"
      using step(2) rec m by (simp add: z_def)
    then show ?thesis using w keeps_trans [OF w step(1)] by (cases m) auto
  qed
qed

lemma transportGone_keeps: "keeps en x (transportGone en x)"
proof -
  have "keeps en x (if ex_state x = Leased
      then x\<lparr>ex_state := Orphaned, ex_leases := quarantine (en_now en) (ex_leases x)\<rparr> else x)"
    by (auto intro: inert_keeps)
  from keeps_trans [OF keeps_trans [OF this failAllTransfers_keeps] inert_keeps(8)] show ?thesis
    by (simp add: transportGone_def Let_def)
qed

lemma pumpDevice_keeps: "keeps en x (snd (pumpDevice en x))"
proof -
  obtain s1 x1 where c1: "collect en x = (s1, x1)" by (rule prod.exhaust)
  obtain s2 x2 where c2: "collect en (admit en x1) = (s2, x2)" by (rule prod.exhaust)
  define x3 where "x3 = (if owesAnswers x2 then heardPeer en x2 else x2)"
  obtain s4 x4 where c4: "sweepDeadlines en x3 = (s4, x4)" by (rule prod.exhaust)
  define x5 where "x5 = x4\<lparr>ex_leases := quarantine (en_now en) (ex_leases x4), ex_state := Orphaned,
    ex_why := ''the importer stopped answering; the device is held for it''\<rparr>"
  have k1: "keeps en x x1" using collect_keeps [of en x] c1 by simp
  have k2: "keeps en x x2"
    using keeps_trans [OF keeps_trans [OF k1 admit_keeps] collect_keeps] c2 by (metis snd_conv)
  have "keeps en x2 x3" by (simp add: x3_def inert_keeps)
  then have k4: "keeps en x x4" using keeps_trans [OF keeps_trans [OF k2] sweepDeadlines_keeps, of x3] c4 by simp
  have k5: "keeps en x (failAllTransfers en XferTimeout x5)"
    unfolding x5_def by (rule keeps_trans [OF keeps_trans [OF k4 inert_keeps(15)] failAllTransfers_keeps])
  have "pumpDevice en x = (if isFatal s1 then (s1, x1) else if isFatal s2 then (s2, x2) else if isFatal s4 then (s4, x4)
      else if \<not> owesAnswers x4 \<and> ex_state x4 = Leased \<and> silenceExpired (en_now en) (ex_leases x4)
      then (Ok, failAllTransfers en XferTimeout x5) else (Ok, x4))"
    unfolding pumpDevice_def Let_def c1 prod.case c2 x3_def [symmetric] c4 x5_def ..
  then show ?thesis using k1 k2 k4 k5 by simp
qed

lemma pump_keeps:
  assumes "pump en x = Some (s, x')"
  shows "keeps en x x'"
proof -
  obtain s0 l where f: "(if pendingTxBytes (fst (ex_link x)) \<noteq> 0 then linkFlush (en_io en) (ex_link x)
      else (Ok, ex_link x)) = (s0, l)" by (rule prod.exhaust)
  define y where "y = x\<lparr>ex_link := l\<rparr>"
  have "rl_maxRecord (fst l) = rl_maxRecord (fst (ex_link x))"
    using f linkFlush_maxRecord [of "en_io en" "ex_link x"]
    by (cases "pendingTxBytes (fst (ex_link x)) \<noteq> 0") auto
  then have y: "keeps en x y" unfolding y_def by (rule link_keeps)
  have eq: "pump en x = (if s0 \<noteq> Ok then Some (s0, y)
      else case readLoop en y of None \<Rightarrow> None | Some (Return s, z) \<Rightarrow> Some (s, z)
        | Some (Gone, z) \<Rightarrow> Some (TransportLost, transportGone en z)
        | Some (Drained, z) \<Rightarrow> Some (pumpDevice en z))"
    unfolding pump_def Let_def f prod.case y_def [symmetric] ..
  show ?thesis
  proof (cases "readLoop en y")
    case None
    then show ?thesis using assms y unfolding eq by (auto split: if_splits)
  next
    case (Some r)
    obtain e z where r: "r = (e, z)" by (rule prod.exhaust)
    have z: "keeps en x z" using keeps_trans [OF y readLoop_keeps [OF Some]] r by simp
    show ?thesis
      using assms Some r y z keeps_trans [OF z transportGone_keeps] keeps_trans [OF z pumpDevice_keeps]
      unfolding eq by (cases e) (auto split: if_splits)
  qed
qed

section \<open>Histories of a session\<close>

text \<open>
  The owner of a session pumps and closes it; between two calls other sessions and the person at the
  machine may change the lease authority, and the devices change on their own.
\<close>

datatype 'd ExOp = ExPump u64 RecoveryToken | ExClose u64 RecoveryToken | ExWorld LeaseAuthority 'd

fun exStep ::
    "('c, 's, 'p, 'd) Env \<Rightarrow> 'd ExOp \<Rightarrow> ('c, 's, 'p, 'd) ExporterSession \<Rightarrow>
      ('c, 's, 'p, 'd) ExporterSession option" where
  "exStep en (ExPump now rnd) x = map_option snd (pump (en\<lparr>en_now := now, en_rnd := rnd\<rparr>) x)"
| "exStep en (ExClose now rnd) x = Some (ex_close (en\<lparr>en_now := now, en_rnd := rnd\<rparr>) x)"
| "exStep en (ExWorld leases d) x = Some (x\<lparr>ex_leases := leases, ex_devices := d\<rparr>)"

fun exRun ::
    "('c, 's, 'p, 'd) Env \<Rightarrow> 'd ExOp list \<Rightarrow> ('c, 's, 'p, 'd) ExporterSession \<Rightarrow>
      ('c, 's, 'p, 'd) ExporterSession option" where
  "exRun en [] x = Some x"
| "exRun en (op # ops) x = (case exStep en op x of None \<Rightarrow> None | Some x' \<Rightarrow> exRun en ops x')"

lemma keeps_env [simp]: "keeps (en\<lparr>en_now := now, en_rnd := rnd\<rparr>) = keeps en"
  by (simp add: fun_eq_iff keeps_def exInv_def roomy_def)

lemma exStep_keeps:
  assumes "exStep en op x = Some x'"
  shows "keeps en x x'"
proof (cases op)
  case (ExPump now rnd)
  then show ?thesis using assms pump_keeps [of "en\<lparr>en_now := now, en_rnd := rnd\<rparr>" x] by auto
next
  case (ExClose now rnd)
  then show ?thesis using assms close_keeps [of "en\<lparr>en_now := now, en_rnd := rnd\<rparr>" x] by simp
next
  case (ExWorld leases d)
  have "keeps en x (x\<lparr>ex_leases := leases, ex_devices := d\<rparr>)"
    by (rule keeps_inert) (simp_all add: sameTransfers_def)
  then show ?thesis using assms ExWorld by simp
qed

lemma exRun_keeps: "exRun en ops x = Some x' \<Longrightarrow> keeps en x x'"
proof (induction ops arbitrary: x)
  case (Cons op ops)
  then obtain y where y: "exStep en op x = Some y" "exRun en ops y = Some x'" by (auto split: option.splits)
  from keeps_trans [OF exStep_keeps [OF y(1)] Cons.IH [OF y(2)]] show ?case .
qed simp

lemma begin_inv: "roomy en (ex_begin now peer l d la nm) \<Longrightarrow> exInv en (ex_begin now peer l d la nm)"
  by (simp add: exInv_def ex_begin_def queuesOk_def creditOk_def slotsOk_def tokensOk_def queuedTransfers_def queuedBytes_def)

text \<open>What holds after any history of a session that began on a link with room for a COMPLETE.\<close>

lemma exRun_begin:
  fixes x :: "('c, 's, 'p, 'd) ExporterSession"
  assumes "exRun en ops (ex_begin now peer l d la nm) = Some x" "ex_issued x < tokenLimit"
    and "kHeaderSize + kBodyComplete < unat (maxPlaintextBytes (io_cipher (en_io en)) (fst l))"
  shows "exInv en x"
    and "\<exists>lost. mset (ex_taken x) = mset (answered (ex_sent x)) + owedKeys x + lost
      \<and> size lost \<le> count_list (ex_sent x) overrunRecord"
proof -
  let ?b = "ex_begin now peer l d la nm :: ('c, 's, 'p, 'd) ExporterSession"
  have "exInv en ?b" by (rule begin_inv) (use assms(3) in \<open>simp add: roomy_def ex_begin_def\<close>)
  then obtain K new where k: "exInv en x" "emits ?b x K" "ex_taken x = ex_taken ?b @ new" "owedKeys ?b + mset new = owedKeys x + K"
    using exRun_keeps [OF assms(1)] assms(2) unfolding keeps_def by auto
  obtain recs lost where r: "ex_sent x = recs" "K = mset (answered recs) + lost" "size lost \<le> count_list recs overrunRecord"
    using k(2) by (auto simp: emits_def ex_begin_def)
  have "mset (ex_taken x) = mset (answered (ex_sent x)) + owedKeys x + lost"
    using k(3,4) r by (simp add: ex_begin_def owedKeys_def ac_simps)
  then show "exInv en x" "\<exists>lost. mset (ex_taken x) = mset (answered (ex_sent x)) + owedKeys x + lost
      \<and> size lost \<le> count_list (ex_sent x) overrunRecord"
    using k(1) r by auto
qed

end
