(* ===== verification/ExporterGuarantees.thy ===== *)
theory ExporterGuarantees
  imports ExporterSteps
begin

text \<open>
  What a session of the exporter guarantees over all its histories: strangers reach no device, the
  advertised credit is enforced, the device sees one transfer per endpoint and endpoint zero alone, and
  every request is answered once.  A scripted session (ATTACH, then a bulk read that stays on the
  device) is the concrete history the properties are applied to.
\<close>

section \<open>The trust gate\<close>

text \<open>A session that has nothing attached and a peer that is not paired.\<close>

definition barred :: "('c, 's, 'p, 'd) ExporterSession \<Rightarrow> bool" where
  "barred x \<longleftrightarrow> sp_trust (ex_peer x) \<noteq> Paired \<and> ex_port x = None \<and> ex_queues x = [] \<and> ex_inFlight x = []
     \<and> ex_verbs x = [] \<and> ex_state x \<noteq> Leased"

definition harmless :: "bytes \<Rightarrow> bool" where
  "harmless rec \<longleftrightarrow> isType T_Error rec \<or> isType T_Pong rec"

definition gated ::
    "('c, 's, 'p, 'd) ExporterSession \<Rightarrow> ('c, 's, 'p, 'd) ExporterSession \<Rightarrow> bool" where
  "gated x x' \<longleftrightarrow> (barred x \<longrightarrow> barred x' \<and> ex_devices x' = ex_devices x
     \<and> (\<exists>recs. ex_sent x' = ex_sent x @ recs \<and> list_all harmless recs))"

lemma gated_refl [intro]: "gated x x"
  unfolding gated_def by auto

lemma gated_trans [trans]: "\<lbrakk>gated x y; gated y z\<rbrakk> \<Longrightarrow> gated x z"
proof -
  assume a: "gated x y" "gated y z"
  show "gated x z"
    unfolding gated_def
  proof (intro impI)
    assume "barred x"
    with a(1) obtain r where y: "barred y" "ex_devices y = ex_devices x" "ex_sent y = ex_sent x @ r" "list_all harmless r"
      unfolding gated_def by blast
    with a(2) obtain r' where "barred z" "ex_devices z = ex_devices y" "ex_sent z = ex_sent y @ r'" "list_all harmless r'"
      unfolding gated_def by blast
    with y show "barred z \<and> ex_devices z = ex_devices x \<and> (\<exists>recs. ex_sent z = ex_sent x @ recs \<and> list_all harmless recs)"
      by (intro conjI exI [of _ "r @ r'"]) simp_all
  qed
qed

lemma harmless_error: "harmless (errorRecord h st why)"
  by (simp add: harmless_def isType_def errorRecord_def buildError_def Let_def header_record)

lemma harmless_pong: "harmless (simpleRecord a T_Pong st i body)"
  by (simp add: harmless_def isType_def simpleRecord_def header_record)

lemma gated_quiet: "\<lbrakk>quiet x x'; ex_sent x' = ex_sent x @ recs; list_all harmless recs\<rbrakk> \<Longrightarrow> gated x x'"
  unfolding gated_def barred_def by (auto simp: quietD)

lemma refuse_gated: "gated x (snd (refuse en h st why x))"
  by (rule gated_quiet [OF refuse_sent(1,2)], (rule surjective_pairing)+) (simp add: harmless_error)

lemma pong_gated: "gated x (snd (sendSimple en T_Pong st i body x))"
  by (rule gated_quiet [OF sendSimple_sent(1,2)], (rule surjective_pairing)+) (simp add: harmless_pong)

lemma handlePing_gated: "gated x (snd (handlePing en h body x))"
  by (simp add: handlePing_def refuse_gated pong_gated split: option.split)

lemma gated_same:
  "\<lbrakk>barred x \<Longrightarrow> barred x'; ex_devices x' = ex_devices x; ex_sent x' = ex_sent x\<rbrakk> \<Longrightarrow> gated x x'"
  unfolding gated_def by auto

lemma failAllTransfers_gated: "gated x (failAllTransfers en st x)"
proof (cases "barred x")
  case True
  then have "failAllTransfers en st x = x\<lparr>ex_inFlight := [], ex_busyEndpoint := [], ex_queues := [], ex_verbs := []\<rparr>"
    by (simp add: failAllTransfers_def barred_def Let_def)
  then show ?thesis by (intro gated_same) (auto simp: barred_def)
qed (simp add: gated_def)

lemma close_gated: "gated x (ex_close en x)"
  by (cases "barred x") (auto simp: gated_def barred_def ex_close_def resetReassembly_def Let_def)

lemma handle_gated: "gated x (snd (handle en h body x))"
proof (cases "sp_trust (ex_peer x) \<noteq> Paired")
  case stranger: True
  let ?y = "x\<lparr>ex_handled := ex_handled x + 1\<rparr>"
  have y: "gated x ?y" by (rule gated_same) (auto simp: barred_def)
  have c: "gated ?y (?y\<lparr>ex_state := Closed\<rparr>)" by (rule gated_same) (auto simp: barred_def)
  have "gated ?y (snd (handle en h body x))"
  proof (cases "isPreTrustMessage (h_type h)")
    case False
    then show ?thesis using stranger by (simp add: handle_def Let_def permitted_def refuse_gated)
  next
    case True
    have p: "permitted (h_type h) ?y" using True by (simp add: permitted_def)
    from True obtain ty where "typeOf (h_type h) = Some ty" "ty \<in> {T_Ping, T_Pong, T_Goodbye, T_PairRequest, T_PairConfirm, T_PairResult}"
      unfolding isPreTrustMessage_def by (metis insertCI insertE singletonD typeOf_typeCode)
    then show ?thesis using p handlePing_gated gated_trans [OF c close_gated]
      by (auto simp: handle_def Let_def refuse_gated)
  qed
  then show ?thesis by (rule gated_trans [OF y])
qed (simp add: gated_def barred_def)

lemma messages_gated: "gated x (snd (messages en rec at x))"
proof (induction en rec at x rule: messages.induct)
  case (1 en rec at x)
  show ?case
  proof (cases "at < length rec")
    case False
    then show ?thesis by (auto simp: messages.simps [of en rec at x] refuse_gated)
  next
    case True
    show ?thesis
    proof (cases "decodeHeader (drop at rec)")
      case None
      then show ?thesis using True by (simp add: messages.simps [of en rec at x] refuse_gated)
    next
      case (Some h)
      let ?avail = "length (drop at rec) - kHeaderSize"
      let ?v = "validateHeader h ?avail (exLimits x)"
      obtain s y where y: "handle en h (subspan (drop at rec) kHeaderSize (unat (h_bodyLen h))) x = (s, y)"
        by (rule prod.exhaust)
      have k: "gated x y" using handle_gated [of x en h "subspan (drop at rec) kHeaderSize (unat (h_bodyLen h))"] y by simp
      have IH: "gated y (snd (messages en rec (at + kHeaderSize + unat (h_bodyLen h)) y))"
        if "v_ok ?v" "\<not> ?avail < unat (h_bodyLen h)" "\<not> isFatal s"
        by (rule 1 [OF True refl Some refl refl _ _ y [symmetric] refl]) (use that in auto)
      have "messages en rec at x = (if \<not> v_ok ?v then map_prod Some id (refuse en h (v_status ?v) ''header failed validation'' x)
          else if ?avail < unat (h_bodyLen h) then map_prod Some id (refuse en h MalformedFrame ''body shorter than declared'' x)
          else if isFatal s then (Some s, y) else messages en rec (at + kHeaderSize + unat (h_bodyLen h)) y)"
        by (subst messages.simps) (simp only: True if_True Let_def Some option.case y prod.case)
      then show ?thesis using k gated_trans [OF k IH] by (simp add: refuse_gated)
    qed
  qed
qed

lemma heardPeer_gated: "gated x (heardPeer en x)"
  by (rule gated_same) (auto simp: barred_def heardPeer_def)

lemma readLoop_gated:
  assumes "readLoop en x = Some y"
  shows "gated x (snd y)"
  using assms
proof (induction rule: readLoop_induct)
  case (step loop en x y)
  obtain r rec l where rec: "linkReceive (en_io en) (ex_link x) = (r, rec, l)" by (metis prod_cases3)
  define z where "z = heardPeer en (x\<lparr>ex_link := l, ex_lastHeardNs := en_now en\<rparr>)"
  have l: "gated x (x\<lparr>ex_link := l\<rparr>)" "gated x (x\<lparr>ex_link := l, ex_lastHeardNs := en_now en\<rparr>)"
    by (rule gated_same; auto simp: barred_def)+
  have z: "gated x z" unfolding z_def by (rule gated_trans [OF l(2) heardPeer_gated])
  obtain m w where m: "messages en rec 0 z = (m, w)" by (rule prod.exhaust)
  have w: "gated x w" using gated_trans [OF z messages_gated [of z en rec 0]] m by simp
  show ?case
  proof (cases "r = Ok \<and> rec \<noteq> []")
    case False
    then show ?thesis using step(2) rec l by (auto split: if_splits)
  next
    case True
    then have "(case m of None \<Rightarrow> loop en w | Some s \<Rightarrow> Some (Return s, w)) = Some y"
      using step(2) rec m by (simp add: z_def)
    then show ?thesis using w gated_trans [OF w step(1)] by (cases m) auto
  qed
qed

lemma pumpDevice_barred:
  assumes "barred x"
  shows "pumpDevice en x = (Ok, x)"
proof -
  have "x\<lparr>ex_queues := []\<rparr> = x" using assms by (simp add: barred_def)
  moreover have "collect en x = (Ok, x)" "admit en x = x" "\<not> owesAnswers x" "ex_state x \<noteq> Leased"
    using assms by (simp_all add: barred_def collect_def admit_def owesAnswers_def queuedTransfers_def)
  moreover have "sweepDeadlines en x = (Ok, x\<lparr>ex_queues := []\<rparr>)"
    using assms by (simp add: barred_def sweepDeadlines_def Let_def)
  ultimately show ?thesis by (simp add: pumpDevice_def isFatal_def)
qed

lemma pump_gated:
  assumes "pump en x = Some (s, x')"
  shows "gated x x'"
proof -
  obtain s0 l where f: "(if pendingTxBytes (fst (ex_link x)) \<noteq> 0 then linkFlush (en_io en) (ex_link x)
      else (Ok, ex_link x)) = (s0, l)" by (rule prod.exhaust)
  define y where "y = x\<lparr>ex_link := l\<rparr>"
  have y: "gated x y" unfolding y_def by (rule gated_same) (auto simp: barred_def)
  have eq: "pump en x = (if s0 \<noteq> Ok then Some (s0, y)
      else case readLoop en y of None \<Rightarrow> None | Some (Return s, z) \<Rightarrow> Some (s, z)
        | Some (Gone, z) \<Rightarrow> Some (TransportLost, transportGone en z)
        | Some (Drained, z) \<Rightarrow> Some (pumpDevice en z))"
    unfolding pump_def Let_def f prod.case y_def [symmetric] ..
  have gone: "gated z (transportGone en z)" for z
  proof -
    have "gated z (if ex_state z = Leased then z\<lparr>ex_state := Orphaned, ex_leases := quarantine (en_now en) (ex_leases z)\<rparr> else z)"
      by (rule gated_same) (auto simp: barred_def)
    also note failAllTransfers_gated
    also have "gated w (resetReassembly w)" for w :: "('a, 'b, 'c, 'd) ExporterSession"
      by (rule gated_same) (auto simp: barred_def resetReassembly_def)
    finally show ?thesis by (simp add: transportGone_def Let_def)
  qed
  have device: "gated z (snd (pumpDevice en z))" for z
    by (cases "barred z") (auto simp: pumpDevice_barred, simp add: gated_def)
  show ?thesis
  proof (cases "readLoop en y")
    case None
    then show ?thesis using assms y unfolding eq by (auto split: if_splits)
  next
    case (Some r)
    obtain e z where r: "r = (e, z)" by (rule prod.exhaust)
    have z: "gated x z" using gated_trans [OF y readLoop_gated [OF Some]] r by simp
    show ?thesis
      using assms Some r y z gated_trans [OF z gone] gated_trans [OF z device]
      unfolding eq by (cases e) (auto split: if_splits)
  qed
qed


fun worldAfter :: "'d ExOp list \<Rightarrow> 'd \<Rightarrow> 'd" where
  "worldAfter [] d = d"
| "worldAfter (ExWorld la d' # ops) d = worldAfter ops d'"
| "worldAfter (op # ops) d = worldAfter ops d"

lemma exRun_gated:
  "\<lbrakk>exRun en ops x = Some x'; barred x; list_all harmless (ex_sent x)\<rbrakk> \<Longrightarrow>
    barred x' \<and> ex_devices x' = worldAfter ops (ex_devices x) \<and> list_all harmless (ex_sent x')"
proof (induction ops arbitrary: x)
  case (Cons op ops)
  then obtain y where y: "exStep en op x = Some y" "exRun en ops y = Some x'" by (auto split: option.splits)
  have "barred y \<and> ex_devices y = worldAfter [op] (ex_devices x) \<and> list_all harmless (ex_sent y)"
  proof (cases op)
    case (ExPump now rnd)
    then obtain s where "pump (en\<lparr>en_now := now, en_rnd := rnd\<rparr>) x = Some (s, y)" using y(1) by auto
    from pump_gated [OF this] show ?thesis using Cons.prems(2,3) ExPump by (auto simp: gated_def)
  next
    case (ExClose now rnd)
    then show ?thesis using y(1) Cons.prems(2,3) close_gated [of x "en\<lparr>en_now := now, en_rnd := rnd\<rparr>"]
      by (auto simp: gated_def)
  next
    case (ExWorld la d)
    then show ?thesis using y(1) Cons.prems(2,3) by (auto simp: barred_def)
  qed
  moreover have "worldAfter (op # ops) (ex_devices x) = worldAfter ops (worldAfter [op] (ex_devices x))"
    by (cases op) simp_all
  ultimately show ?case using Cons.IH [OF y(2)] by simp
qed simp

section \<open>A scripted session\<close>

text \<open>
  A device that takes transfers and never finishes one, behind a source that hands it out; the link
  is the sink, with the records of the peer already buffered.
\<close>

definition idlePort :: "(nat, u64 list) IAsyncUsbDevicePort" where
  "idlePort =
     \<lparr>ap_submit = (\<lambda>p token t d. (Ok, d @ [token])), ap_cancel = (\<lambda>p token d. (False, d)),
      ap_clearHalt = (\<lambda>p token ep d. (Ok, d @ [token])), ap_poll = (\<lambda>p d. ([], d)),
      ap_abortAll = (\<lambda>p st d. (map (\<lambda>t. \<lparr>oc_token = t, oc_status = st, oc_actualLen = 0, oc_cancelled = True,
         oc_zlpSent = False, oc_dataIn = []\<rparr>) d, [])),
      ap_canIdle = (\<lambda>p. True)\<rparr>"

definition oneDevice :: "(nat, u64 list) IDeviceSource" where
  "oneDevice = \<lparr>ds_list = (\<lambda>d. ([], d)), ds_claim = (\<lambda>uid d. (Ok, Some 0, sampleManifest, 1, [], d)),
     ds_release = (\<lambda>uid d. d)\<rparr>"

definition scriptEnv :: "(unit, nat, nat, u64 list) Env" where
  "scriptEnv = \<lparr>en_io = sinkIo, en_port = idlePort, en_source = oneDevice, en_blake2s = sampleHash,
     en_now = 0, en_rnd = []\<rparr>"

definition scriptLink :: "bytes list \<Rightarrow> (unit, nat) Link" where
  "scriptLink recs = ((setHandshakeComplete 4096 (RecordLayer_new ()))\<lparr>rl_rx := concat (map frame recs)\<rparr>, 0)"

definition message :: "Header \<Rightarrow> bytes \<Rightarrow> bytes" where
  "message h body = encodeHeader (h\<lparr>h_bodyLen := of_nat (length body)\<rparr>) [] @ body"

definition scriptAttach :: AttachBody where
  "scriptAttach = \<lparr>at_uid = replicate 16 7, at_exclusivity = 1, at_attachSlot = 1, at_flags = 0,
     at_importerMaxTransferBytes = 0\<rparr>"

definition attachMessage :: bytes where
  "attachMessage = message (Header0\<lparr>h_type := typeCode T_Attach, h_flags := kFlagSegFirst, h_requestId := 1\<rparr>)
     (encodeAttach scriptAttach [])"

definition scriptRead :: SubmitBody where
  "scriptRead = SubmitBody0\<lparr>sb_epAddr := 0x81, sb_xferType := xferCode XBulk, sb_dir := dirCode DirIn,
     sb_bufferLen := 512\<rparr>"

definition readHeader :: Header where
  "readHeader = Header0\<lparr>h_type := typeCode T_Submit, h_flags := kFlagSegFirst, h_channel := 0x181,
     h_attachId := 1, h_requestId := 5\<rparr>"

definition readMessage :: bytes where
  "readMessage = message readHeader (encodeSubmit scriptRead [])"

definition pairedPeer :: SecurePeer where
  "pairedPeer = \<lparr>sp_trust = Paired, sp_grants = 3, sp_identityKey = [1]\<rparr>"

definition scriptStart :: "SecurePeer \<Rightarrow> bytes list \<Rightarrow> (unit, nat, nat, u64 list) ExporterSession" where
  "scriptStart peer recs = ex_begin 0 peer (scriptLink recs) [] LeaseAuthority_new []"

text \<open>One message per record.\<close>

lemma messages_one:
  assumes "rec = message h body" "length body < 2 ^ 32"
    and "v_ok (validateHeader (h\<lparr>h_bodyLen := of_nat (length body)\<rparr>) (length body) (exLimits x))"
    and "handle en (h\<lparr>h_bodyLen := of_nat (length body)\<rparr>) body x = (s, x')" "\<not> isFatal s"
  shows "messages en rec 0 x = (None, x')"
proof -
  let ?h = "h\<lparr>h_bodyLen := of_nat (length body)\<rparr>"
  have rec: "rec = encodeHeader ?h [] @ body" "length rec = 32 + length body"
    using assms(1) by (simp_all add: message_def length_encodeHeader)
  have len: "unat (h_bodyLen ?h) = length body" using assms(2) by (simp add: unat_of_nat)
  have "decodeHeader (drop 0 rec) = Some ?h" using header_record [of ?h body] rec(1) by simp
  moreover have "messages en rec (0 + kHeaderSize + length body) x' = (None, x')"
    using rec(2) by (subst messages.simps) simp
  ultimately show ?thesis using assms(3-5) rec len
    by (subst messages.simps) (simp add: length_encodeHeader)
qed

text \<open>The sink link between two records.\<close>

definition calm :: "bytes \<Rightarrow> (unit, nat) Link \<Rightarrow> bool" where
  "calm rx l \<longleftrightarrow> rl_rx (fst l) = rx \<and> \<not> rl_fatal (fst l) \<and> rl_tx (fst l) = [] \<and> rl_txSent (fst l) = 0
     \<and> rl_maxRecord (fst l) = 4096 \<and> rl_handshakeDone (fst l)"

lemma send_calm:
  assumes "en_io en = sinkIo" "calm rx (ex_link x)" "length rec \<le> 4096"
  obtains l where "calm rx l" "sendRecord en rec x = (Ok, x\<lparr>ex_link := l, ex_sent := ex_sent x @ [rec]\<rparr>)"
proof -
  obtain rl s where l: "ex_link x = (rl, s)" by (rule prod.exhaust)
  let ?rl = "rl\<lparr>rl_tx := [], rl_txSent := 0, rl_recordsSent := rl_recordsSent rl + 1\<rparr>"
  have "linkSend sinkIo rec (rl, s) = (Ok, ?rl, s)"
    using assms(2,3) l by (intro sinkSend) (simp_all add: calm_def)
  moreover have "linkFlush sinkIo (?rl, s) = (Ok, ?rl, s)" by (rule sinkFlush) simp_all
  ultimately have "sendRecord en rec x = (Ok, x\<lparr>ex_link := (?rl, s), ex_sent := ex_sent x @ [rec]\<rparr>)"
    by (simp add: sendRecord_def assms(1) l)
  moreover have "calm rx (?rl, s)" using assms(2) l by (simp add: calm_def)
  ultimately show thesis using that by blast
qed

lemma sample_manifest_length:
  "length (snd (encodeManifest sampleHash sampleManifest 1 [])) \<le> 4064"
  "0 < length (snd (encodeManifest sampleHash sampleManifest 1 []))"
proof -
  have "validate sampleManifest = Ok" by (simp add: validate_Ok_iff sampleManifest_valid)
  then have "length (snd (encodeManifest sampleHash sampleManifest 1 [])) = 103"
    by (simp add: encodeManifest_def Let_def)
      (simp add: sampleManifest_def DeviceManifest0_def encodeFixedSections_def appendIf_def
        appendTlv_bytes Let_def encodeManifestHeader_def manifestHash_def sampleHash_def grow_def)
  then show "length (snd (encodeManifest sampleHash sampleManifest 1 [])) \<le> 4064"
    "0 < length (snd (encodeManifest sampleHash sampleManifest 1 []))" by simp_all
qed

lemma emit_calm:
  assumes "en_io en = sinkIo" "calm rx (ex_link x)" "length data \<le> 4064" "0 < length data"
  obtains l rec where "calm rx l"
    "emitTransfer base [] data 4064 (sendRecord en) x = (Ok, x\<lparr>ex_link := l, ex_sent := ex_sent x @ [rec]\<rparr>)"
proof -
  define n where "n = (of_nat (length data) :: u32)"
  have n: "unat n = length data" "n \<noteq> 0" "n \<le> 4064"
    using assms(3,4) by (auto simp: n_def unat_of_nat word_le_nat_alt unat_eq_0 [symmetric])
  define sp where "sp = \<lparr>sp_offset = 0, sp_length = n, sp_first = True, sp_more = False\<rparr>"
  have stop: "planLoop k m k = []" for k m by (subst planLoop.simps) simp
  have plan: "planSegments n 4064 = [sp]"
    using n by (simp add: planSegments_def planLoop.simps [of n 4064 0] stop sp_def Let_def min_def word_gt_0)
  have "length (segRecord base [] data 0 sp) \<le> 4096"
    using assms(3) by (simp add: segRecord_def length_encodeHeader)
  from send_calm [OF assms(1,2) this] obtain l where "calm rx l"
    "sendRecord en (segRecord base [] data 0 sp) x = (Ok, x\<lparr>ex_link := l, ex_sent := ex_sent x @ [segRecord base [] data 0 sp]\<rparr>)" .
  then show thesis using that plan by (simp add: emitTransfer_def n_def [symmetric])
qed

text \<open>The ATTACH is granted.\<close>

lemma script_attach:
  assumes "en = scriptEnv\<lparr>en_now := now, en_rnd := rnd\<rparr>" "calm rx (ex_link x)" "ex_peer x = pairedPeer"
    and "ex_state x = Idle" "ex_leases x = LeaseAuthority_new" "h_type h = typeCode T_Attach"
  shows "\<exists>l sent la. calm rx l \<and> handle en h (encodeAttach scriptAttach []) x
    = (Ok, x\<lparr>ex_handled := ex_handled x + 1, ex_port := Some 0, ex_manifest := sampleManifest, ex_configValue := 1,
        ex_uid := replicate 16 7, ex_attachSlot := 1, ex_leases := la, ex_attachId := 1,
        ex_leaseEpoch := sn_leaseEpoch (la_s la), ex_link := l, ex_sent := sent, ex_state := Leased\<rparr>)"
proof -
  define mb where "mb = snd (encodeManifest sampleHash sampleManifest 1 [])"
  have em: "encodeManifest sampleHash sampleManifest 1 [] = (Ok, mb)"
    using sampleManifest_encodes by (simp add: mb_def prod_eq_iff)
  have mb: "length mb \<le> 4064" "0 < length mb" using sample_manifest_length by (simp_all add: mb_def)
  define la where "la = snd (grant now rnd [1] (replicate 16 7) LeaseAuthority_new)"
  have g: "grant now rnd [1] (replicate 16 7) LeaseAuthority_new = (1, la)"
    by (simp add: la_def grant_def Let_def LeaseAuthority_new_def)
  define y where "y = x\<lparr>ex_handled := ex_handled x + 1\<rparr>"
  define z where "z = y\<lparr>ex_port := Some (0 :: nat), ex_manifest := sampleManifest, ex_configValue := 1,
    ex_uid := replicate 16 7, ex_attachSlot := 1, ex_leases := la, ex_attachId := 1, ex_leaseEpoch := sn_leaseEpoch (la_s la)\<rparr>"
  have io: "en_io en = sinkIo" "io_cipher (en_io en) = NullCipher" using assms(1) by (simp_all add: scriptEnv_def sinkIo_def)
  define rec where "rec = simpleRecord 1 T_AttachOk Ok (h_requestId h)
    (encodeAttachOk (attachOkFor 1 (sn_leaseEpoch (la_s la)) sampleManifest (length mb)) [])"
  have "length rec = 72" by (simp add: rec_def simpleRecord_def length_encodeHeader encodeAttachOk_def Let_def grow_def)
  then obtain l1 where l1: "calm rx l1" "sendRecord en rec z = (Ok, z\<lparr>ex_link := l1, ex_sent := ex_sent z @ [rec]\<rparr>)"
    using send_calm [OF io(1), of rx z rec] assms(2) by (auto simp: z_def y_def)
  define w where "w = z\<lparr>ex_link := l1, ex_sent := ex_sent z @ [rec]\<rparr>"
  define base where "base = Header0\<lparr>h_type := typeCode T_DeviceManifest, h_channel := 0,
    h_attachId := ex_attachId w, h_requestId := h_requestId h, h_status := 0\<rparr>"
  obtain l2 r2 where l2: "calm rx l2"
    "emitTransfer base [] mb 4064 (sendRecord en) w = (Ok, w\<lparr>ex_link := l2, ex_sent := ex_sent w @ [r2]\<rparr>)"
    using emit_calm [OF io(1), of rx w mb base] l1(1) mb by (auto simp: w_def)
  have plain: "maxPlaintextBytes (io_cipher (en_io en)) (fst (ex_link w)) = 4096"
    using l1(1) by (simp add: io(1) maxPlaintextBytes_def sinkIo_def NullCipher_def w_def calm_def)
  have dec: "decodeAttach (encodeAttach scriptAttach []) = Some scriptAttach"
    by (rule attach.dec_enc) (simp add: wf_AttachBody_def scriptAttach_def)
  have ty: "typeOf (h_type h) = Some T_Attach" unfolding assms(6) by (rule typeOf_typeCode)
  have "handle en h (encodeAttach scriptAttach []) x = handleAttach en h (encodeAttach scriptAttach []) y"
    using assms(3) ty by (simp add: handle_def Let_def permitted_def pairedPeer_def y_def)
  also have "\<dots> = finishAttach en h scriptAttach 0 sampleManifest 1 y"
    using assms(1,3,4,5) dec
    by (simp add: handleAttach_def y_def mayAttach_def pairedPeer_def mayClaim_def LeaseAuthority_new_def Snapshot0_def
        scriptEnv_def oneDevice_def idlePort_def)
  also have "\<dots> = (Ok, w\<lparr>ex_link := l2, ex_sent := ex_sent w @ [r2], ex_state := Leased\<rparr>)"
  proof -
    have at: "at_uid scriptAttach = replicate 16 7" "at_attachSlot scriptAttach = 1" by (simp_all add: scriptAttach_def)
    have en: "en_now en = now" "en_rnd en = rnd" "en_blake2s en = sampleHash" using assms(1) by (simp_all add: scriptEnv_def)
    have key: "sp_identityKey (ex_peer y) = [1]" "ex_leases y = LeaseAuthority_new"
      using assms(3,5) by (simp_all add: y_def pairedPeer_def)
    have s1: "sendSimple en T_AttachOk Ok (h_requestId h)
        (encodeAttachOk (attachOkFor 1 (sn_leaseEpoch (la_s la)) sampleManifest (length mb)) []) z = (Ok, w)"
      using l1(2) by (simp add: sendSimple_def rec_def w_def) (simp add: z_def)
    have z: "y\<lparr>ex_port := Some 0, ex_manifest := sampleManifest, ex_configValue := 1, ex_uid := replicate 16 7,
        ex_attachSlot := 1, ex_leases := la, ex_attachId := 1, ex_leaseEpoch := sn_leaseEpoch (la_s la)\<rparr> = z"
      by (simp add: z_def)
    have zl: "ex_leaseEpoch z = sn_leaseEpoch (la_s la)" by (simp add: z_def)
    have "finishAttach en h scriptAttach 0 sampleManifest 1 y
        = (let maxPlain = maxPlaintextBytes (io_cipher (en_io en)) (fst (ex_link w))
           in if unat maxPlain \<le> kHeaderSize then (Internal, w)
              else let (s, v) = emitTransfer base [] mb (maxPlain - of_nat kHeaderSize) (sendRecord en) w
                in if s \<noteq> Ok then refuse en h s ''This device's descriptor set could not be sent.'' ((undoAttach en v)\<lparr>ex_state := Idle\<rparr>)
                   else (Ok, v\<lparr>ex_state := Leased\<rparr>))"
      by (simp add: finishAttach_def Let_def at en key g em z zl s1 base_def)
    also have "\<dots> = (Ok, w\<lparr>ex_link := l2, ex_sent := ex_sent w @ [r2], ex_state := Leased\<rparr>)"
      by (simp add: plain Let_def l2(2))
    finally show ?thesis .
  qed
  finally show ?thesis using l2(1)
    by (intro exI [of _ l2] exI [of _ "ex_sent w @ [r2]"] exI [of _ la]) (simp add: w_def z_def y_def)
qed

text \<open>The read is queued.\<close>

definition queuedRead :: "u64 \<Rightarrow> Pending" where
  "queuedRead now = \<lparr>pe_channel = 0x181, pe_requestId = 5, pe_sb = scriptRead, pe_dataOut = [],
     pe_deadline = afterMs now 30000\<rparr>"

lemma script_read:
  assumes "en_now en = now" "ex_peer x = pairedPeer" "ex_state x = Leased" "ex_port x = Some p" "ex_attachId x = 1"
    and "\<not> ex_rxActive x" "ex_queues x = []" "ex_inFlight x = []" "rl_maxRecord (fst (ex_link x)) = 4096"
  shows "handle en (readHeader\<lparr>h_bodyLen := n\<rparr>) (encodeSubmit scriptRead []) x
    = (Ok, x\<lparr>ex_handled := ex_handled x + 1, ex_taken := ex_taken x @ [(0x181, 5)],
        ex_queues := [(0x81, [queuedRead now])]\<rparr>)"
proof -
  have wf: "wf_SubmitBody scriptRead" by (simp add: wf_SubmitBody_def scriptRead_def SubmitBody0_def)
  have dec: "decodeSubmit (encodeSubmit scriptRead []) = Some scriptRead" by (rule submit.dec_enc [OF wf])
  have len: "drop 40 (encodeSubmit scriptRead []) = []" using submit.enc_length [OF wf] by simp
  let ?y = "x\<lparr>ex_handled := ex_handled x + 1\<rparr>"
  let ?h = "readHeader\<lparr>h_bodyLen := n\<rparr>"
  have v: "v_ok (validateSubmit ?h scriptRead [] (exLimits ?y))"
    by (simp add: validateSubmit_def r4_submitIdentity_def readHeader_def scriptRead_def SubmitBody0_def Header0_def
        exLimits_def Limits0_def segMore_def)
  have more: "\<not> segMore ?h" by (simp add: segMore_def readHeader_def Header0_def)
  have ty: "typeOf (h_type ?h) = Some T_Submit" using typeOf_typeCode [of T_Submit] by (simp add: readHeader_def)
  have "handle en ?h (encodeSubmit scriptRead []) x = handleSubmit en ?h (encodeSubmit scriptRead []) ?y"
    using assms(2) ty by (simp add: handle_def Let_def permitted_def pairedPeer_def)
  also have "\<dots> = enqueueTransfer en 0x181 5 scriptRead [] ?y"
    using assms(3-6) dec len v more by (simp add: handleSubmit_def Let_def) (simp add: readHeader_def)
  also have "\<dots> = (Ok, x\<lparr>ex_handled := ex_handled x + 1, ex_taken := ex_taken x @ [(0x181, 5)],
        ex_queues := [(0x81, [queuedRead now])]\<rparr>)"
    using assms(1,7,8)
    by (simp add: enqueueTransfer_def Let_def queuedTransfers_def queuedRead_def scriptRead_def deadlineMsFor_def)
  finally show ?thesis .
qed

text \<open>The reading loop over the sink: one buffered record, or none.\<close>

lemma readLoop_calm_one:
  assumes "en_io en = sinkIo" "calm (frame rec @ rest) (ex_link x)" "rec \<noteq> []" "length rec \<le> 4096"
  shows "\<exists>l. calm rest l \<and>
    (\<forall>x'. messages en rec 0 (heardPeer en (x\<lparr>ex_link := l, ex_lastHeardNs := en_now en\<rparr>)) = (None, x') \<longrightarrow>
      readLoop en x = readLoop en x')"
proof -
  obtain rl s where l: "ex_link x = (rl, s)" by (rule prod.exhaust)
  let ?l = "(rl\<lparr>rl_rx := rest, rl_recordsReceived := rl_recordsReceived rl + 1\<rparr>, s)"
  have "linkReceive sinkIo (rl, s) = (Ok, rec, ?l)"
    using assms(2,4) l by (intro sinkReceive) (simp_all add: calm_def rxCeiling_def)
  then have "readLoop en x = (case messages en rec 0 (heardPeer en (x\<lparr>ex_link := ?l, ex_lastHeardNs := en_now en\<rparr>)) of
      (Some s, x') \<Rightarrow> Some (Return s, x') | (None, x') \<Rightarrow> readLoop en x')"
    using assms(3) by (subst readLoop.simps) (simp add: assms(1) l)
  moreover have "calm rest ?l" using assms(2) l by (simp add: calm_def)
  ultimately show ?thesis by (intro exI [of _ ?l]) simp
qed

lemma readLoop_calm_none:
  assumes "en_io en = sinkIo" "calm [] (ex_link x)"
  shows "readLoop en x = Some (Drained, x)"
proof -
  obtain rl s where l: "ex_link x = (rl, s)" by (rule prod.exhaust)
  then have "linkReceive sinkIo (rl, s) = (Ok, [], rl, s)"
    using assms(2) by (intro sinkDrained) (simp_all add: calm_def)
  moreover have "x\<lparr>ex_link := (rl, s)\<rparr> = x" using l by (metis ExporterSession.surjective ExporterSession.update_convs(2) ExporterSession.select_convs(2))
  ultimately show ?thesis by (subst readLoop.simps) (simp add: assms(1) l)
qed

definition scriptFlight :: "u64 \<Rightarrow> InFlight" where
  "scriptFlight now = (inFlightOf (queuedRead now))\<lparr>fl_deadline := pe_deadline (queuedRead now)\<rparr>"

text \<open>The device takes the queued read and keeps it.\<close>

lemma script_device:
  assumes "en = scriptEnv\<lparr>en_now := 0, en_rnd := rnd\<rparr>" "ex_state x = Leased" "ex_port x = Some p"
    and "ex_queues x = [(0x81, [queuedRead 0])]" "ex_inFlight x = []" "ex_busyEndpoint x = []" "ex_nextToken x = 1"
  shows "\<exists>la. pumpDevice en x = (Ok, x\<lparr>ex_nextToken := 2, ex_issued := ex_issued x + 1, ex_devices := ex_devices x @ [1],
    ex_queues := [(0x81, [])], ex_inFlight := [(1, scriptFlight 0)], ex_busyEndpoint := [(0x81, 1)], ex_leases := la\<rparr>)"
proof -
  define y where "y = x\<lparr>ex_nextToken := 2, ex_issued := ex_issued x + 1, ex_devices := ex_devices x @ [1],
    ex_queues := [(0x81, [])], ex_inFlight := [(1, scriptFlight 0)], ex_busyEndpoint := [(0x81, 1)]\<rparr>"
  have poll: "collect en w = (Ok, w)" for w :: "(unit, nat, nat, u64 list) ExporterSession"
    using assms(1) by (simp add: collect_def scriptEnv_def idlePort_def split: option.split)
  have adm: "admit en x = y"
    using assms by (simp add: admit_def admitEndpoint_def mayAdmit_def isEp0_def Let_def scriptEnv_def idlePort_def
        y_def scriptFlight_def)
  let ?z = "heardPeer en y"
  have late: "\<not> expired 0 (fl_deadline (scriptFlight 0))"
    by (simp add: scriptFlight_def queuedRead_def afterMs_def expired_def)
  have sweep: "sweepDeadlines en ?z = (Ok, ?z)"
    using assms(1) late by (simp add: sweepDeadlines_def Let_def heardPeer_def y_def scriptEnv_def)
  have owes: "owesAnswers y" "owesAnswers ?z" by (simp_all add: owesAnswers_def y_def heardPeer_def)
  have "pumpDevice en x = (Ok, ?z)"
    by (simp add: pumpDevice_def poll adm owes sweep isFatal_def)
  then show ?thesis by (intro exI [of _ "ex_leases ?z"]) (simp add: heardPeer_def y_def)
qed

lemma script_run:
  "\<exists>x. exRun scriptEnv [ExPump 0 []] (scriptStart pairedPeer [attachMessage, readMessage]) = Some x
    \<and> ex_taken x = [(0x181, 5)] \<and> ex_inFlight x = [(1, scriptFlight 0)] \<and> ex_queues x = [(0x81, [])]
    \<and> ex_issued x = 1 \<and> ex_devices x = [1] \<and> ex_state x = Leased"
proof -
  let ?en = "scriptEnv\<lparr>en_now := 0, en_rnd := []\<rparr>"
  let ?x = "scriptStart pairedPeer [attachMessage, readMessage]"
  have io: "en_io ?en = sinkIo" by (simp add: scriptEnv_def)
  have body: "length (encodeAttach scriptAttach []) = 24" "length (encodeSubmit scriptRead []) = 40"
    by (rule attach.enc_length, simp add: wf_AttachBody_def scriptAttach_def)
       (rule submit.enc_length, simp add: wf_SubmitBody_def scriptRead_def SubmitBody0_def)
  have lens: "length attachMessage = 56" "length readMessage = 72"
    by (simp_all add: attachMessage_def readMessage_def message_def length_encodeHeader body)
  have start: "calm (frame attachMessage @ frame readMessage @ []) (ex_link ?x)"
    by (simp add: calm_def scriptStart_def ex_begin_def scriptLink_def setHandshakeComplete_def RecordLayer_new_def)
  have short: "attachMessage \<noteq> []" "length attachMessage \<le> 4096" "readMessage \<noteq> []" "length readMessage \<le> 4096"
    using lens by auto
  obtain l1 where l1: "calm (frame readMessage @ []) l1" "\<forall>x'. messages ?en attachMessage 0
      (heardPeer ?en (?x\<lparr>ex_link := l1, ex_lastHeardNs := en_now ?en\<rparr>)) = (None, x') \<longrightarrow> readLoop ?en ?x = readLoop ?en x'"
    using readLoop_calm_one [OF io start short(1,2)] by (elim exE conjE) (rule that)
  define y where "y = heardPeer ?en (?x\<lparr>ex_link := l1, ex_lastHeardNs := en_now ?en\<rparr>)"
  have y: "calm (frame readMessage @ []) (ex_link y)" "ex_peer y = pairedPeer" "ex_state y = Idle" "ex_leases y = LeaseAuthority_new"
    using l1(1) by (simp_all add: y_def heardPeer_def scriptStart_def ex_begin_def heard_def isOwner_def LeaseAuthority_new_def Snapshot0_def)
  let ?h = "Header0\<lparr>h_type := typeCode T_Attach, h_flags := kFlagSegFirst, h_requestId := 1\<rparr>"
  have ty: "h_type (?h\<lparr>h_bodyLen := of_nat 24\<rparr>) = typeCode T_Attach" by simp
  obtain l2 sent la where l2: "calm (frame readMessage @ []) l2" and h2: "handle ?en (?h\<lparr>h_bodyLen := of_nat 24\<rparr>) (encodeAttach scriptAttach []) y
    = (Ok, y\<lparr>ex_handled := ex_handled y + 1, ex_port := Some 0, ex_manifest := sampleManifest, ex_configValue := 1,
        ex_uid := replicate 16 7, ex_attachSlot := 1, ex_leases := la, ex_attachId := 1,
        ex_leaseEpoch := sn_leaseEpoch (la_s la), ex_link := l2, ex_sent := sent, ex_state := Leased\<rparr>)" (is "_ = (Ok, ?z)")
    using script_attach [OF refl y ty, where now = 0 and rnd = "[]"] by (elim exE conjE) (rule that)
  have lim: "lim_maxTransferBytes (exLimits w) = lim_maxTransferBytes Limits0" for w :: "(unit, nat, nat, u64 list) ExporterSession"
    by (simp add: exLimits_def)
  have sizes: "fixedBodySize 32 = Some 0" "fixedBodySize 64 = Some 40"
    using typeOf_typeCode [of T_Attach] typeOf_typeCode [of T_Submit] by (simp_all add: fixedBodySize_def)
  have "messages ?en attachMessage 0 y = (None, ?z)"
    by (rule messages_one [OF attachMessage_def, of y ?en Ok])
       (use h2 in \<open>simp_all add: body isFatal_def validateHeader_ok_iff lim Limits0_def Header0_def isResponse_def segMore_def sizes isWireLegal_def isDataPlane_def\<close>)
  then have r1: "readLoop ?en ?x = readLoop ?en ?z" using l1(2) unfolding y_def by blast
  have z: "calm (frame readMessage @ []) (ex_link ?z)" using l2 by simp
  obtain l3 where l3: "calm [] l3" "\<forall>x'. messages ?en readMessage 0
      (heardPeer ?en (?z\<lparr>ex_link := l3, ex_lastHeardNs := en_now ?en\<rparr>)) = (None, x') \<longrightarrow> readLoop ?en ?z = readLoop ?en x'"
    using readLoop_calm_one [OF io z short(3,4)] by (elim exE conjE) (rule that)
  define w where "w = heardPeer ?en (?z\<lparr>ex_link := l3, ex_lastHeardNs := en_now ?en\<rparr>)"
  have base: "ex_queues y = []" "ex_inFlight y = []" "ex_busyEndpoint y = []" "ex_nextToken y = 1" "ex_issued y = 0"
    "ex_taken y = []" "ex_devices y = []" "\<not> ex_rxActive y"
    by (simp_all add: y_def heardPeer_def scriptStart_def ex_begin_def)
  let ?v = "w\<lparr>ex_handled := ex_handled w + 1, ex_taken := ex_taken w @ [(0x181, 5)], ex_queues := [(0x81, [queuedRead 0])]\<rparr>"
  have hw: "handle ?en (readHeader\<lparr>h_bodyLen := of_nat 40\<rparr>) (encodeSubmit scriptRead []) w = (Ok, ?v)"
    by (rule script_read [where p = 0]) (use y base l3(1) in \<open>simp_all add: w_def heardPeer_def calm_def\<close>)
  have "messages ?en readMessage 0 w = (None, ?v)"
    by (rule messages_one [OF readMessage_def, of w ?en Ok])
       (use hw in \<open>simp_all add: body isFatal_def validateHeader_ok_iff lim Limits0_def readHeader_def Header0_def isResponse_def segMore_def sizes isWireLegal_def isDataPlane_def\<close>)
  then have r2: "readLoop ?en ?z = readLoop ?en ?v" using l3(2) unfolding w_def by blast
  have "calm [] (ex_link ?v)" using l3(1) by (simp add: w_def heardPeer_def)
  then have r3: "readLoop ?en ?v = Some (Drained, ?v)" by (rule readLoop_calm_none [OF io])
  obtain la' where dev: "pumpDevice ?en ?v = (Ok, ?v\<lparr>ex_nextToken := 2, ex_issued := ex_issued ?v + 1, ex_devices := ex_devices ?v @ [1],
    ex_queues := [(0x81, [])], ex_inFlight := [(1, scriptFlight 0)], ex_busyEndpoint := [(0x81, 1)], ex_leases := la'\<rparr>)"
    using script_device [OF refl, of ?v 0 "[]"] base by (auto simp: w_def heardPeer_def)
  have "pendingTxBytes (fst (ex_link ?x)) = 0" using start by (simp add: pendingTxBytes_def calm_def)
  then have "pump ?en ?x = Some (pumpDevice ?en ?v)" using r1 r2 r3 by (simp add: pump_def)
  then show ?thesis using dev base by (simp add: w_def heardPeer_def)
qed

lemma unpaired_run:
  assumes unpaired: "sp_trust peer \<noteq> Paired"
  shows "\<exists>x. exRun scriptEnv [ExPump 0 []] (scriptStart peer [attachMessage]) = Some x \<and> length (ex_sent x) = 1"
proof -
  let ?en = "scriptEnv\<lparr>en_now := 0, en_rnd := []\<rparr>"
  let ?x = "scriptStart peer [attachMessage]"
  have io: "en_io ?en = sinkIo" by (simp add: scriptEnv_def)
  have body: "length (encodeAttach scriptAttach []) = 24"
    by (rule attach.enc_length) (simp add: wf_AttachBody_def scriptAttach_def)
  have len: "length attachMessage = 56" by (simp add: attachMessage_def message_def length_encodeHeader body)
  then have short: "attachMessage \<noteq> []" "length attachMessage \<le> 4096" by auto
  have start: "calm (frame attachMessage @ []) (ex_link ?x)"
    by (simp add: calm_def scriptStart_def ex_begin_def scriptLink_def setHandshakeComplete_def RecordLayer_new_def)
  obtain l1 where l1: "calm [] l1" "\<forall>x'. messages ?en attachMessage 0
      (heardPeer ?en (?x\<lparr>ex_link := l1, ex_lastHeardNs := en_now ?en\<rparr>)) = (None, x') \<longrightarrow> readLoop ?en ?x = readLoop ?en x'"
    using readLoop_calm_one [OF io start short] by (elim exE conjE) (rule that)
  define y where "y = heardPeer ?en (?x\<lparr>ex_link := l1, ex_lastHeardNs := en_now ?en\<rparr>)"
  let ?h = "Header0\<lparr>h_type := typeCode T_Attach, h_flags := kFlagSegFirst, h_requestId := 1, h_bodyLen := of_nat 24\<rparr>"
  let ?why = "''This Mac has not been paired with yours yet.''"
  define z where "z = y\<lparr>ex_handled := ex_handled y + 1, ex_why := ?why\<rparr>"
  have y: "ex_sent y = []" "ex_queues y = []" "ex_inFlight y = []" "ex_port y = None" "ex_state y = Idle" "ex_peer y = peer"
    "ex_verbs y = []" "ex_link y = l1"
    by (simp_all add: y_def heardPeer_def scriptStart_def ex_begin_def)
  have "length (errorRecord ?h NotPaired ?why) \<le> 4096"
    by (simp add: errorRecord_def buildError_def Let_def length_encodeHeader encodeError_def grow_def appendTlv_bytes textBytes_def)
  from send_calm [OF io _ this, of "[]" z] obtain l2 where l2: "calm [] l2"
    "sendRecord ?en (errorRecord ?h NotPaired ?why) z = (Ok, z\<lparr>ex_link := l2, ex_sent := ex_sent z @ [errorRecord ?h NotPaired ?why]\<rparr>)"
    using l1(1) by (auto simp: z_def y)
  let ?v = "z\<lparr>ex_link := l2, ex_sent := ex_sent z @ [errorRecord ?h NotPaired ?why]\<rparr>"
  have hd: "handle ?en ?h (encodeAttach scriptAttach []) y = (Ok, ?v)"
    using l2(2) y(6)
    by (simp add: handle_def Let_def permitted_def unpaired isPreTrustMessage_def refuse_def z_def errorRecord_def isFatal_def)
  have lim: "lim_maxTransferBytes (exLimits w) = lim_maxTransferBytes Limits0" for w :: "(unit, nat, nat, u64 list) ExporterSession"
    by (simp add: exLimits_def)
  have size: "fixedBodySize 32 = Some 0" using typeOf_typeCode [of T_Attach] by (simp add: fixedBodySize_def)
  have "messages ?en attachMessage 0 y = (None, ?v)"
    by (rule messages_one [OF attachMessage_def, of y ?en Ok])
       (use hd in \<open>simp_all add: body isFatal_def validateHeader_ok_iff lim Limits0_def Header0_def isResponse_def size isWireLegal_def\<close>)
  then have r1: "readLoop ?en ?x = readLoop ?en ?v" using l1(2) unfolding y_def by blast
  have r2: "readLoop ?en ?v = Some (Drained, ?v)" by (rule readLoop_calm_none [OF io]) (simp add: l2(1))
  have "barred ?v" by (simp add: barred_def z_def y unpaired)
  then have "pumpDevice ?en ?v = (Ok, ?v)" by (rule pumpDevice_barred)
  moreover have "pendingTxBytes (fst (ex_link ?x)) = 0" using start by (simp add: pendingTxBytes_def calm_def)
  ultimately have "pump ?en ?x = Some (Ok, ?v)" using r1 r2 by (simp add: pump_def)
  then show ?thesis using y(1) by (simp add: z_def)
qed

section \<open>Properties\<close>

text \<open>
  The trust gate.  Over every history of a session whose peer is not paired, whatever it sends,
  no device is ever claimed, listed, driven or released by the session (the state of the devices is the
  one the rest of the machine left), no port is held, and every record sent back is an ERROR or a PONG.
\<close>

lemma unpaired_reaches_no_device:
  assumes "exRun en ops (ex_begin now peer link d leases name) = Some x" "sp_trust peer \<noteq> Paired"
  shows "ex_devices x = worldAfter ops d \<and> ex_port x = None \<and> ex_queues x = [] \<and> ex_inFlight x = []
    \<and> list_all (\<lambda>rec. isType T_Error rec \<or> isType T_Pong rec) (ex_sent x)"
proof -
  have "barred (ex_begin now peer link d leases name)" "list_all harmless (ex_sent (ex_begin now peer link d leases name))"
    using assms(2) by (simp_all add: barred_def ex_begin_def)
  from exRun_gated [OF assms(1) this] show ?thesis
    by (simp add: barred_def harmless_def [abs_def] ex_begin_def)
qed


lemma script_room: "kHeaderSize + kBodyComplete < unat (maxPlaintextBytes (io_cipher (en_io scriptEnv)) (fst (scriptLink recs)))"
  by (simp add: scriptEnv_def sinkIo_def NullCipher_def maxPlaintextBytes_def scriptLink_def setHandshakeComplete_def)


text \<open>
  C8. One transfer per endpoint, and endpoint zero alone.  Over every history of a session, no two
  transfers in flight are for the same endpoint, and a transfer in flight for endpoint zero is the only
  one in flight.
\<close>

theorem exporter_one_per_endpoint:
  assumes "exRun en ops (ex_begin now peer link d leases name) = Some x" "ex_issued x < 2 ^ 64 - 1"
    and "kHeaderSize + kBodyComplete < unat (maxPlaintextBytes (io_cipher (en_io en)) (fst link))"
  shows "distinct (map (fl_epAddr \<circ> snd) (ex_inFlight x))
    \<and> (list_ex (isEp0 \<circ> fl_epAddr \<circ> snd) (ex_inFlight x) \<longrightarrow> length (ex_inFlight x) = 1)"
proof -
  have sl: "slotsOk (ex_inFlight x) (ex_busyEndpoint x)" using exRun_begin(1) [OF assms] by (simp add: exInv_def)
  then have "distinct (map (the \<circ> map_of (ex_busyEndpoint x)) (map (fl_epAddr \<circ> snd) (ex_inFlight x)))"
  proof -
    have "map (the \<circ> map_of (ex_busyEndpoint x)) (map (fl_epAddr \<circ> snd) (ex_inFlight x)) = keys (ex_inFlight x)"
      using sl by (auto simp: slotsOk_def)
    then show ?thesis using sl unfolding slotsOk_def by (simp only:)
  qed
  then have "distinct (map (fl_epAddr \<circ> snd) (ex_inFlight x))" by (simp add: distinct_map del: map_map)
  moreover have "length (ex_inFlight x) = 1" if "list_ex (isEp0 \<circ> fl_epAddr \<circ> snd) (ex_inFlight x)"
    using that sl unfolding slotsOk_def list_ex_iff by fastforce
  ultimately show ?thesis by blast
qed

theorem exporter_one_per_endpoint_witness:
  "\<exists>x. exRun scriptEnv [ExPump 0 []] (scriptStart pairedPeer [attachMessage, readMessage]) = Some x
    \<and> map (fl_epAddr \<circ> snd) (ex_inFlight x) = [0x81] \<and> distinct (map (fl_epAddr \<circ> snd) (ex_inFlight x))"
proof -
  obtain x where x: "exRun scriptEnv [ExPump 0 []] (scriptStart pairedPeer [attachMessage, readMessage]) = Some x"
    "ex_inFlight x = [(1, scriptFlight 0)]" "ex_issued x = 1"
    using script_run by blast
  from exporter_one_per_endpoint [OF x(1) [unfolded scriptStart_def] _ script_room] x show ?thesis
    by (simp add: scriptFlight_def inFlightOf_def queuedRead_def scriptRead_def)
qed

text \<open>Tearing the transfers down takes no request and issues no token.\<close>

definition sameTaken :: "('c, 's, 'p, 'd) ExporterSession \<Rightarrow> ('c, 's, 'p, 'd) ExporterSession \<Rightarrow> bool" where
  "sameTaken x y \<longleftrightarrow> ex_taken y = ex_taken x \<and> ex_issued y = ex_issued x"

lemma quiet_sameTaken: "quiet x y \<Longrightarrow> sameTaken x y"
  by (simp add: sameTaken_def quietD)

lemma sameTaken_trans: "\<lbrakk>sameTaken x y; sameTaken y z\<rbrakk> \<Longrightarrow> sameTaken x z"
  by (simp add: sameTaken_def)

lemma eachDo_sameTaken: "(\<And>a y. sameTaken y (snd (g a y))) \<Longrightarrow> sameTaken x (eachDo g as x)"
proof (induction as arbitrary: x)
  case (Cons a as)
  from sameTaken_trans [OF Cons.prems Cons.IH [OF Cons.prems]] show ?case by simp
qed (simp add: sameTaken_def eachDo_def)

lemma eachDo_quiet_sameTaken:
  assumes "\<And>a y. quiet y (snd (g a y))"
  shows "ex_taken (eachDo g as x) = ex_taken x" "ex_issued (eachDo g as x) = ex_issued x"
  using eachDo_sameTaken [of g, OF quiet_sameTaken [OF assms]] by (simp_all add: sameTaken_def)

lemma sent_sameTaken:
  "ex_taken (snd (sendSimple en ty st i body x)) = ex_taken x" "ex_issued (snd (sendSimple en ty st i body x)) = ex_issued x"
  "ex_taken (snd (emitComplete en f st n c z payload x)) = ex_taken x"
  "ex_issued (snd (emitComplete en f st n c z payload x)) = ex_issued x"
  by (rule quietD(21,22) [OF sendSimple_sent(1) [OF surjective_pairing]]
      quietD(21,22) [OF emitComplete_quiet [OF surjective_pairing]])+

lemma abortedOutcome_sameTaken: "sameTaken x (snd (abortedOutcome en st o1 x))"
  by (auto simp: abortedOutcome_def sameTaken_def Let_def sent_sameTaken split: option.split)

lemma failAllTransfers_same:
  "ex_taken (failAllTransfers en st x) = ex_taken x \<and> ex_issued (failAllTransfers en st x) = ex_issued x"
proof -
  have e: "quiet y (snd (emitComplete en f st 0 True False [] y))" for f y
    by (rule emitComplete_quiet [OF surjective_pairing])
  have p: "quiet y (snd (answerPending en st True f y))" for f y
    by (rule answerPending_quiet [OF surjective_pairing])
  have v: "quiet y (snd (sendSimple en T_CtrlAck st (vb_requestId f) [] y))" for f y
    by (rule sendSimple_sent(1) [OF surjective_pairing])
  define a where "a = (case ex_port x of None \<Rightarrow> x
    | Some port \<Rightarrow> let (os, d) = ap_abortAll (en_port en) port st (ex_devices x)
        in eachDo (abortedOutcome en st) os (x\<lparr>ex_devices := d\<rparr>))"
  have "sameTaken x a"
  proof (cases "ex_port x")
    case (Some port)
    have "sameTaken (x\<lparr>ex_devices := d\<rparr>) (eachDo (abortedOutcome en st) os (x\<lparr>ex_devices := d\<rparr>))" for os d
      by (rule eachDo_sameTaken abortedOutcome_sameTaken)+
    then show ?thesis using Some by (simp add: a_def sameTaken_def split: prod.split)
  qed (simp add: a_def sameTaken_def)
  moreover have "sameTaken a (failAllTransfers en st x)"
    unfolding failAllTransfers_def Let_def a_def [unfolded Let_def, symmetric] sameTaken_def
    by (simp add: eachDo_quiet_sameTaken [OF e] eachDo_quiet_sameTaken [OF p] eachDo_quiet_sameTaken [OF v])
  ultimately show ?thesis by (simp add: sameTaken_def)
qed

text \<open>
  C6. Every request is answered once.  Over every history of a session, the requests that reached the
  queue are, with multiplicity, those answered by a COMPLETE carrying their channel and identifier,
  those still queued or in flight, and at most one for each ERROR sent because the device reported more
  bytes than were asked for; and tearing the transfers down answers all that remained, leaving none.
\<close>

theorem exporter_answers_once:
  assumes "exRun en ops (ex_begin now peer link d leases name) = Some x" "ex_issued x < 2 ^ 64 - 1"
    and "kHeaderSize + kBodyComplete < unat (maxPlaintextBytes (io_cipher (en_io en)) (fst link))"
  shows "(\<exists>lost. mset (ex_taken x) = mset (answered (ex_sent x)) + owedKeys x + lost
      \<and> size lost \<le> count_list (ex_sent x) overrunRecord)
    \<and> (let x' = failAllTransfers en st x
       in owedKeys x' = {#} \<and> (\<exists>lost. mset (ex_taken x) = mset (answered (ex_sent x')) + lost
            \<and> size lost \<le> count_list (ex_sent x') overrunRecord))"
proof -
  obtain lost where lost: "mset (ex_taken x) = mset (answered (ex_sent x)) + owedKeys x + lost"
    "size lost \<le> count_list (ex_sent x) overrunRecord" using exRun_begin(2) [OF assms] by blast
  let ?x = "failAllTransfers en st x"
  have same: "ex_taken ?x = ex_taken x \<and> ex_issued ?x = ex_issued x" by (rule failAllTransfers_same)
  have owed: "owedKeys ?x = {#}" by (simp add: owedKeys_def failAllTransfers_empty)
  obtain K where K: "emits x ?x K" "owedKeys x = K"
    using failAllTransfers_keeps [of en x st] exRun_begin(1) [OF assms] assms(2) same owed
    unfolding keeps_def by auto
  obtain recs lost' where r: "ex_sent ?x = ex_sent x @ recs" "K = mset (answered recs) + lost'"
    "size lost' \<le> count_list recs overrunRecord" using K(1) unfolding emits_def by blast
  have "mset (ex_taken x) = mset (answered (ex_sent ?x)) + (lost + lost')"
    using lost(1) K(2) r(1,2) by (simp add: ac_simps)
  moreover have "size (lost + lost') \<le> count_list (ex_sent ?x) overrunRecord"
    using lost(2) r(1,3) by (simp add: count_list_append)
  ultimately show ?thesis using lost owed unfolding Let_def by blast
qed

theorem exporter_answers_once_witness:
  "\<exists>x lost. exRun scriptEnv [ExPump 0 []] (scriptStart pairedPeer [attachMessage, readMessage]) = Some x
    \<and> ex_taken x = [(0x181, 5)] \<and> {#(0x181, 5)#} = mset (answered (ex_sent x)) + owedKeys x + lost
    \<and> size lost \<le> count_list (ex_sent x) overrunRecord"
proof -
  obtain x where x: "exRun scriptEnv [ExPump 0 []] (scriptStart pairedPeer [attachMessage, readMessage]) = Some x"
    "ex_issued x = 1" "ex_taken x = [(0x181, 5)]"
    using script_run by blast
  from exporter_answers_once [OF x(1) [unfolded scriptStart_def] _ script_room, of Detaching] x show ?thesis by auto
qed

end
