(* ===== verification/Primitives.thy ===== *)
theory Primitives
  imports Cipher
begin

text \<open>
  The cryptographic building blocks of \<open>crypto/Primitives.cpp\<close> above the vendored libraries: HMAC
  and the key derivation over BLAKE2s, the guarded Diffie-Hellman function, and the comparison in
  constant time.  The functions of the vendored libraries are the fields of \<open>Crypto\<close>: the BLAKE2s
  digest, \<open>crypto_x25519\<close> and \<open>crypto_x25519_public_key\<close>, and the Ed25519 key pair, signature and
  check of Monocypher.  \<open>Blake2s\<close>, the streaming hash, digests the concatenation of its updates.
\<close>

abbreviation (input) kHashLen :: nat where "kHashLen \<equiv> 32"
abbreviation (input) kBlockLen :: nat where "kBlockLen \<equiv> 64"
abbreviation (input) kDhLen :: nat where "kDhLen \<equiv> 32"
abbreviation (input) kSigLen :: nat where "kSigLen \<equiv> 64"
abbreviation (input) kSeedLen :: nat where "kSeedLen \<equiv> 32"

record Crypto =
  cr_aead :: Aead
  cr_blake2s :: "bytes \<Rightarrow> bytes"
  cr_x25519 :: "bytes \<Rightarrow> bytes \<Rightarrow> bytes"
  cr_x25519_public_key :: "bytes \<Rightarrow> bytes"
  cr_ed25519_key_pair :: "bytes \<Rightarrow> bytes \<times> bytes"
  cr_ed25519_sign :: "bytes \<Rightarrow> bytes \<Rightarrow> bytes"
  cr_ed25519_check :: "bytes \<Rightarrow> bytes \<Rightarrow> bytes \<Rightarrow> bool"

section \<open>HMAC and HKDF\<close>

definition hmacBlake2s :: "Crypto \<Rightarrow> bytes \<Rightarrow> bytes \<Rightarrow> bytes" where
  "hmacBlake2s C key data =
     (let short = (if length key > kBlockLen then cr_blake2s C key else key);
          block = short @ replicate (kBlockLen - length short) 0;
          ipad = map (\<lambda>b. b XOR 0x36) block;
          opad = map (\<lambda>b. b XOR 0x5C) block
      in cr_blake2s C (opad @ cr_blake2s C (ipad @ data)))"

definition hkdf2 :: "Crypto \<Rightarrow> bytes \<Rightarrow> bytes \<Rightarrow> bytes \<times> bytes" where
  "hkdf2 C chainingKey ikm =
     (let tempKey = hmacBlake2s C chainingKey ikm;
          out1 = hmacBlake2s C tempKey [1];
          out2 = hmacBlake2s C tempKey (out1 @ [2])
      in (out1, out2))"

definition hkdf3 :: "Crypto \<Rightarrow> bytes \<Rightarrow> bytes \<Rightarrow> bytes \<times> bytes \<times> bytes" where
  "hkdf3 C chainingKey ikm =
     (let tempKey = hmacBlake2s C chainingKey ikm;
          out1 = hmacBlake2s C tempKey [1];
          out2 = hmacBlake2s C tempKey (out1 @ [2]);
          out3 = hmacBlake2s C tempKey (out2 @ [3])
      in (out1, out2, out3))"

section \<open>Diffie-Hellman\<close>

definition x25519PublicKey :: "Crypto \<Rightarrow> bytes \<Rightarrow> bytes" where
  "x25519PublicKey C sk = cr_x25519_public_key C sk"

text \<open>A shared secret of zeros, the mark of a low-order point, is refused.\<close>

definition x25519 :: "Crypto \<Rightarrow> bytes \<Rightarrow> bytes \<Rightarrow> bytes option" where
  "x25519 C sk pk =
     (let shared = cr_x25519 C sk pk
      in if shared = replicate kDhLen 0 then None else Some shared)"

section \<open>Signatures\<close>

definition ed25519KeyPairFromSeed :: "Crypto \<Rightarrow> bytes \<Rightarrow> bytes \<times> bytes" where
  "ed25519KeyPairFromSeed C seed = cr_ed25519_key_pair C seed"

definition ed25519Sign :: "Crypto \<Rightarrow> bytes \<Rightarrow> bytes \<Rightarrow> bytes" where
  "ed25519Sign C sk msg = cr_ed25519_sign C sk msg"

definition ed25519Verify :: "Crypto \<Rightarrow> bytes \<Rightarrow> bytes \<Rightarrow> bytes \<Rightarrow> bool" where
  "ed25519Verify C sig pk msg = cr_ed25519_check C sig pk msg"

section \<open>Comparison\<close>

definition constantTimeEquals :: "bytes \<Rightarrow> bytes \<Rightarrow> bool" where
  "constantTimeEquals a b \<longleftrightarrow>
     length a = length b \<and> fold (\<lambda>(x, y) diff. diff OR (x XOR y)) (zip a b) 0 = 0"

lemma xor_zero: "x XOR y = 0 \<longleftrightarrow> x = (y :: 'a :: len word)"
proof
  assume "x XOR y = 0"
  then have "(x XOR y) XOR y = y" by simp
  then show "x = y" by (simp add: xor.assoc)
qed simp

lemma fold_diff_zero:
  "fold (\<lambda>(x, y) diff. diff OR (x XOR y)) (zip a b) (d :: u8) = 0 \<longleftrightarrow> d = 0 \<and> list_all (\<lambda>(x, y). x = y) (zip a b)"
proof (induction "zip a b" arbitrary: a b d)
  case (Cons p ps)
  obtain x y a' b' where ab: "a = x # a'" "b = y # b'" "p = (x, y)" "ps = zip a' b'"
    using Cons.hyps(2) by (cases a; cases b) auto
  have "d OR (x XOR y) = 0 \<longleftrightarrow> d = 0 \<and> x = y"
    by (simp add: or_eq_0_iff xor_zero)
  then show ?case using Cons.hyps(1) [OF ab(4), of "d OR (x XOR y)"] ab by auto
qed auto

text \<open>The comparison that looks at every byte decides equality.\<close>

lemma constantTimeEquals_iff [simp]: "constantTimeEquals a b \<longleftrightarrow> a = b"
proof -
  have "list_all (\<lambda>(x, y). x = y) (zip a b) \<longleftrightarrow> a = b" if "length a = length b"
    using that by (induction rule: list_induct2) auto
  then show ?thesis by (auto simp: constantTimeEquals_def fold_diff_zero)
qed

section \<open>What the libraries promise\<close>

text \<open>
  The documented behaviour the protocol relies on: the lengths of digests, keys and signatures,
  that two parties reach the same shared secret from opposite halves, that an authenticated
  ciphertext opens under its key and that a signature checks under its key pair.
\<close>

definition dhCorrect :: "Crypto \<Rightarrow> bool" where
  "dhCorrect C \<longleftrightarrow>
     (\<forall>a b. cr_x25519 C a (cr_x25519_public_key C b) = cr_x25519 C b (cr_x25519_public_key C a))
     \<and> (\<forall>a. length (cr_x25519_public_key C a) = kDhLen)"

definition signCorrect :: "Crypto \<Rightarrow> bool" where
  "signCorrect C \<longleftrightarrow> (\<forall>seed sk pk. cr_ed25519_key_pair C seed = (sk, pk) \<longrightarrow>
     length pk = kDhLen \<and> (\<forall>msg. length (cr_ed25519_sign C sk msg) = kSigLen
       \<and> cr_ed25519_check C (cr_ed25519_sign C sk msg) pk msg))"

definition hashCorrect :: "Crypto \<Rightarrow> bool" where
  "hashCorrect C \<longleftrightarrow> (\<forall>x. length (cr_blake2s C x) = kHashLen)"

definition cryptoCorrect :: "Crypto \<Rightarrow> bool" where
  "cryptoCorrect C \<longleftrightarrow> aeadCorrect (cr_aead C) \<and> hashCorrect C \<and> dhCorrect C \<and> signCorrect C"

end
