(* ===== verification/Noise.thy ===== *)
theory Noise
  imports Primitives
begin

text \<open>
  The Noise handshakes XX and IK (\<open>protocol/Noise.h\<close>, \<open>protocol/Noise.cpp\<close>): the symmetric state, the
  message patterns and the handshake state with \<open>start\<close>, \<open>writeMessage\<close>, \<open>readMessage\<close> and \<open>split\<close>.
  The class \<open>CipherState\<close> is in \<open>Cipher\<close>.  A fresh ephemeral secret, drawn from the operating system
  by \<open>x25519KeyPair\<close>, is the argument \<open>fresh\<close> of \<open>writeMessage\<close>.
\<close>

section \<open>SymmetricState\<close>

record SymmetricState =
  ss_cipher :: CipherState
  ss_ck :: bytes
  ss_h :: bytes

definition asciiBytes :: "string \<Rightarrow> bytes" where
  "asciiBytes s = map of_char s"

definition initializeSymmetric :: "Crypto \<Rightarrow> string \<Rightarrow> SymmetricState \<Rightarrow> SymmetricState" where
  "initializeSymmetric C protocolName ss =
     (let name = asciiBytes protocolName;
          h = (if length name \<le> kHashLen then name @ replicate (kHashLen - length name) 0
               else cr_blake2s C name)
      in ss\<lparr>ss_h := h, ss_ck := h, ss_cipher := cs_clear (ss_cipher ss)\<rparr>)"

definition mixKey :: "Crypto \<Rightarrow> bytes \<Rightarrow> SymmetricState \<Rightarrow> SymmetricState" where
  "mixKey C ikm ss =
     (let (newCk, tempK) = hkdf2 C (ss_ck ss) ikm
      in ss\<lparr>ss_ck := newCk, ss_cipher := initializeKey (take kKeyLen tempK) (ss_cipher ss)\<rparr>)"

definition mixHash :: "Crypto \<Rightarrow> bytes \<Rightarrow> SymmetricState \<Rightarrow> SymmetricState" where
  "mixHash C data ss = ss\<lparr>ss_h := cr_blake2s C (ss_h ss @ data)\<rparr>"

text \<open>Sealing returns the bytes appended to the output vector.\<close>

definition encryptAndHash :: "Crypto \<Rightarrow> bytes \<Rightarrow> SymmetricState \<Rightarrow> Status \<times> bytes \<times> SymmetricState" where
  "encryptAndHash C plaintext ss =
     (let (s, ct, c) = encryptWithAd (cr_aead C) (ss_h ss) plaintext (ss_cipher ss);
          ss = ss\<lparr>ss_cipher := c\<rparr>
      in if s \<noteq> Ok then (s, ct, ss) else (Ok, ct, mixHash C ct ss))"

definition decryptAndHash :: "Crypto \<Rightarrow> bytes \<Rightarrow> SymmetricState \<Rightarrow> Status \<times> bytes \<times> SymmetricState" where
  "decryptAndHash C ciphertext ss =
     (let (s, pt, c) = decryptWithAd (cr_aead C) (ss_h ss) ciphertext (ss_cipher ss);
          ss = ss\<lparr>ss_cipher := c\<rparr>
      in if s \<noteq> Ok then (s, pt, ss) else (Ok, pt, mixHash C ciphertext ss))"

definition CipherState0 :: CipherState where
  "CipherState0 = \<lparr>cs_k = replicate kKeyLen 0, cs_hasKey = False, cs_n = 0\<rparr>"

definition ss_split :: "Crypto \<Rightarrow> SymmetricState \<Rightarrow> CipherState \<times> CipherState" where
  "ss_split C ss =
     (let (t1, t2) = hkdf2 C (ss_ck ss) []
      in (initializeKey (take kKeyLen t1) CipherState0, initializeKey (take kKeyLen t2) CipherState0))"

section \<open>Message patterns\<close>

datatype Token = E | S | EE | ES | SE | SS

datatype NoisePattern = XX | IK

record Pattern =
  pt_messages :: "Token list list"
  pt_responderPreSharesStatic :: bool

definition kXx :: Pattern where
  "kXx = \<lparr>pt_messages = [[E], [E, EE, S, ES], [S, SE]], pt_responderPreSharesStatic = False\<rparr>"

definition kIk :: Pattern where
  "kIk = \<lparr>pt_messages = [[E, ES, S, SS], [E, EE, SE]], pt_responderPreSharesStatic = True\<rparr>"

definition patternFor :: "NoisePattern \<Rightarrow> Pattern" where
  "patternFor p = (if p = IK then kIk else kXx)"

definition noiseProtocolName :: "NoisePattern \<Rightarrow> string" where
  "noiseProtocolName p =
     (if p = IK then ''Noise_IK_25519_ChaChaPoly_BLAKE2s'' else ''Noise_XX_25519_ChaChaPoly_BLAKE2s'')"

section \<open>HandshakeState\<close>

record HandshakeState =
  hs_sym :: SymmetricState
  hs_s :: bytes
  hs_sPub :: bytes
  hs_e :: bytes
  hs_ePub :: bytes
  hs_rs :: bytes
  hs_re :: bytes
  hs_haveE :: bool
  hs_haveRs :: bool
  hs_haveRe :: bool
  hs_fixedE :: bytes
  hs_hasFixedE :: bool
  hs_pattern :: NoisePattern
  hs_initiator :: bool
  hs_started :: bool
  hs_complete :: bool
  hs_msgIndex :: u8

definition HandshakeState0 :: HandshakeState where
  "HandshakeState0 =
     \<lparr>hs_sym = \<lparr>ss_cipher = CipherState0, ss_ck = replicate kHashLen 0, ss_h = replicate kHashLen 0\<rparr>,
      hs_s = replicate kDhLen 0, hs_sPub = replicate kDhLen 0, hs_e = replicate kDhLen 0,
      hs_ePub = replicate kDhLen 0, hs_rs = replicate kDhLen 0, hs_re = replicate kDhLen 0,
      hs_haveE = False, hs_haveRs = False, hs_haveRe = False, hs_fixedE = replicate kDhLen 0,
      hs_hasFixedE = False, hs_pattern = XX, hs_initiator = True, hs_started = False,
      hs_complete = False, hs_msgIndex = 0\<rparr>"

record Params =
  pa_pattern :: NoisePattern
  pa_initiator :: bool
  pa_prologue :: bytes
  pa_localStatic :: bytes
  pa_remoteStatic :: bytes
  pa_hasRemoteStatic :: bool

definition hs_start :: "Crypto \<Rightarrow> Params \<Rightarrow> HandshakeState \<Rightarrow> Status \<times> HandshakeState" where
  "hs_start C p hs =
     (let hs = hs\<lparr>hs_pattern := pa_pattern p, hs_initiator := pa_initiator p, hs_msgIndex := 0,
                 hs_complete := False, hs_haveE := False, hs_haveRe := False, hs_haveRs := False,
                 hs_s := pa_localStatic p, hs_sPub := x25519PublicKey C (pa_localStatic p)\<rparr>;
          pat = patternFor (pa_pattern p);
          needsRs = pt_responderPreSharesStatic pat \<and> pa_initiator p
      in if needsRs \<and> \<not> pa_hasRemoteStatic p then (BadArgument, hs)
         else if \<not> needsRs \<and> pa_hasRemoteStatic p then (BadArgument, hs)
         else
           let hs = (if needsRs then hs\<lparr>hs_rs := pa_remoteStatic p, hs_haveRs := True\<rparr> else hs);
               sy = mixHash C (pa_prologue p)
                 (initializeSymmetric C (noiseProtocolName (pa_pattern p)) (hs_sym hs));
               sy = (if pt_responderPreSharesStatic pat
                      then mixHash C (if pa_initiator p then hs_rs hs else hs_sPub hs) sy else sy)
           in (Ok, hs\<lparr>hs_sym := sy, hs_started := True\<rparr>))"

definition setFixedEphemeralForTestingOnly :: "bytes \<Rightarrow> HandshakeState \<Rightarrow> Status \<times> HandshakeState" where
  "setFixedEphemeralForTestingOnly e hs =
     (if hs_msgIndex hs \<noteq> 0 then (BadArgument, hs)
      else (Ok, hs\<lparr>hs_fixedE := e, hs_hasFixedE := True\<rparr>))"

definition mixDh :: "Crypto \<Rightarrow> bytes \<Rightarrow> bytes \<Rightarrow> HandshakeState \<Rightarrow> Status \<times> HandshakeState" where
  "mixDh C sk pk hs =
     (case x25519 C sk pk of
        None \<Rightarrow> (AuthFailed, hs)
      | Some shared \<Rightarrow> (Ok, hs\<lparr>hs_sym := mixKey C shared (hs_sym hs)\<rparr>))"

text \<open>The tokens that mix a shared secret; writer and reader treat them alike.\<close>

fun dhToken :: "Crypto \<Rightarrow> Token \<Rightarrow> HandshakeState \<Rightarrow> Status \<times> HandshakeState" where
  "dhToken C EE hs =
     (if \<not> hs_haveE hs \<or> \<not> hs_haveRe hs then (Internal, hs) else mixDh C (hs_e hs) (hs_re hs) hs)"
| "dhToken C ES hs =
     (if hs_initiator hs then
        (if \<not> hs_haveE hs \<or> \<not> hs_haveRs hs then (Internal, hs) else mixDh C (hs_e hs) (hs_rs hs) hs)
      else (if \<not> hs_haveRe hs then (Internal, hs) else mixDh C (hs_s hs) (hs_re hs) hs))"
| "dhToken C SE hs =
     (if hs_initiator hs then
        (if \<not> hs_haveRe hs then (Internal, hs) else mixDh C (hs_s hs) (hs_re hs) hs)
      else (if \<not> hs_haveE hs \<or> \<not> hs_haveRs hs then (Internal, hs) else mixDh C (hs_e hs) (hs_rs hs) hs))"
| "dhToken C SS hs =
     (if \<not> hs_haveRs hs then (Internal, hs) else mixDh C (hs_s hs) (hs_rs hs) hs)"
| "dhToken C _ hs = (Ok, hs)"

fun writeToken :: "Crypto \<Rightarrow> bytes \<Rightarrow> Token \<Rightarrow> bytes \<Rightarrow> HandshakeState \<Rightarrow> Status \<times> bytes \<times> HandshakeState" where
  "writeToken C fresh E out hs =
     (let e = (if hs_hasFixedE hs then hs_fixedE hs else fresh);
          ePub = x25519PublicKey C e
      in (Ok, out @ ePub,
          hs\<lparr>hs_e := e, hs_ePub := ePub, hs_haveE := True, hs_sym := mixHash C ePub (hs_sym hs)\<rparr>))"
| "writeToken C fresh S out hs =
     (let (s, ct, sy) = encryptAndHash C (hs_sPub hs) (hs_sym hs) in (s, out @ ct, hs\<lparr>hs_sym := sy\<rparr>))"
| "writeToken C fresh t out hs = (let (s, hs) = dhToken C t hs in (s, out, hs))"

fun writeTokens ::
    "Crypto \<Rightarrow> bytes \<Rightarrow> Token list \<Rightarrow> bytes \<Rightarrow> HandshakeState \<Rightarrow> Status \<times> bytes \<times> HandshakeState" where
  "writeTokens C fresh [] out hs = (Ok, out, hs)"
| "writeTokens C fresh (t # ts) out hs =
     (case writeToken C fresh t out hs of
        (s, out, hs) \<Rightarrow> if s \<noteq> Ok then (s, out, hs) else writeTokens C fresh ts out hs)"

text \<open>The end of both \<open>writeMessage\<close> and \<open>readMessage\<close>.\<close>

definition advance :: "HandshakeState \<Rightarrow> HandshakeState" where
  "advance hs =
     (let hs = hs\<lparr>hs_msgIndex := hs_msgIndex hs + 1\<rparr>
      in if unat (hs_msgIndex hs) \<ge> length (pt_messages (patternFor (hs_pattern hs)))
         then hs\<lparr>hs_complete := True\<rparr> else hs)"

definition writeMessage ::
    "Crypto \<Rightarrow> bytes \<Rightarrow> bytes \<Rightarrow> bytes \<Rightarrow> HandshakeState \<Rightarrow> Status \<times> bytes \<times> HandshakeState" where
  "writeMessage C fresh payload out hs =
     (if \<not> hs_started hs \<or> hs_complete hs then (BadArgument, out, hs)
      else if length payload > kNoiseMaxPlaintext then (LimitExceeded, out, hs)
      else
        let pat = patternFor (hs_pattern hs);
            i = unat (hs_msgIndex hs)
        in if i \<ge> length (pt_messages pat) then (BadArgument, out, hs)
           else if (i mod 2 = 0) \<noteq> hs_initiator hs then (BadArgument, out, hs)
           else case writeTokens C fresh (pt_messages pat ! i) out hs of
             (s, out, hs) \<Rightarrow>
               if s \<noteq> Ok then (s, out, hs)
               else case encryptAndHash C payload (hs_sym hs) of
                 (s, ct, sy) \<Rightarrow>
                   let out = out @ ct; hs = hs\<lparr>hs_sym := sy\<rparr>
                   in if s \<noteq> Ok then (s, out, hs)
                      else if length out > kNoiseMaxMessage then (LimitExceeded, out, hs)
                      else (Ok, out, advance hs))"

text \<open>Reading carries the bytes not consumed yet, \<open>message\<close> from position \<open>at\<close> on.\<close>

fun readToken :: "Crypto \<Rightarrow> Token \<Rightarrow> bytes \<Rightarrow> HandshakeState \<Rightarrow> Status \<times> bytes \<times> HandshakeState" where
  "readToken C E msg hs =
     (if length msg < kDhLen then (MalformedFrame, msg, hs)
      else let re = take kDhLen msg
           in (Ok, drop kDhLen msg, hs\<lparr>hs_re := re, hs_haveRe := True, hs_sym := mixHash C re (hs_sym hs)\<rparr>))"
| "readToken C S msg hs =
     (let len = (if cs_hasKey (ss_cipher (hs_sym hs)) then kDhLen + kTagLen else kDhLen)
      in if length msg < len then (MalformedFrame, msg, hs)
         else case decryptAndHash C (take len msg) (hs_sym hs) of
           (s, plain, sy) \<Rightarrow>
             let hs = hs\<lparr>hs_sym := sy\<rparr>
             in if s \<noteq> Ok then (s, msg, hs)
                else if length plain \<noteq> kDhLen then (MalformedFrame, msg, hs)
                else if hs_haveRs hs \<and> hs_pattern hs = XX then (MalformedFrame, msg, hs)
                else (Ok, drop len msg, hs\<lparr>hs_rs := plain, hs_haveRs := True\<rparr>))"
| "readToken C t msg hs = (let (s, hs) = dhToken C t hs in (s, msg, hs))"

fun readTokens :: "Crypto \<Rightarrow> Token list \<Rightarrow> bytes \<Rightarrow> HandshakeState \<Rightarrow> Status \<times> bytes \<times> HandshakeState" where
  "readTokens C [] msg hs = (Ok, msg, hs)"
| "readTokens C (t # ts) msg hs =
     (case readToken C t msg hs of
        (s, msg, hs) \<Rightarrow> if s \<noteq> Ok then (s, msg, hs) else readTokens C ts msg hs)"

definition readMessage ::
    "Crypto \<Rightarrow> bytes \<Rightarrow> HandshakeState \<Rightarrow> Status \<times> bytes \<times> HandshakeState" where
  "readMessage C message hs =
     (if \<not> hs_started hs \<or> hs_complete hs then (BadArgument, [], hs)
      else if length message > kNoiseMaxMessage then (LimitExceeded, [], hs)
      else
        let pat = patternFor (hs_pattern hs);
            i = unat (hs_msgIndex hs)
        in if i \<ge> length (pt_messages pat) then (BadArgument, [], hs)
           else if (i mod 2 = 0) = hs_initiator hs then (BadArgument, [], hs)
           else case readTokens C (pt_messages pat ! i) message hs of
             (s, rest, hs) \<Rightarrow>
               if s \<noteq> Ok then (s, [], hs)
               else case decryptAndHash C rest (hs_sym hs) of
                 (s, payload, sy) \<Rightarrow>
                   let hs = hs\<lparr>hs_sym := sy\<rparr>
                   in if s \<noteq> Ok then (s, [], hs) else (Ok, payload, advance hs))"

definition handshakeHash :: "HandshakeState \<Rightarrow> bytes" where
  "handshakeHash hs = ss_h (hs_sym hs)"

definition hs_split :: "Crypto \<Rightarrow> HandshakeState \<Rightarrow> Status \<times> CipherState \<times> CipherState \<times> HandshakeState" where
  "hs_split C hs =
     (if \<not> hs_complete hs then (BadArgument, CipherState0, CipherState0, hs)
      else
        let (c1, c2) = ss_split C (hs_sym hs);
            (send, recv) = (if hs_initiator hs then (c1, c2) else (c2, c1))
        in (Ok, send, recv, hs\<lparr>hs_e := replicate kDhLen 0, hs_haveE := False\<rparr>))"

end
