(* ===== verification/Handshake.thy ===== *)
theory Handshake
  imports Noise
begin

text \<open>
  Two honest parties of a Noise handshake, the messages of one read by the other: they complete
  with the same transcript hash, know each other's static key and hold transport keys that match
  crosswise.
\<close>

section \<open>The symmetric state of the two ends\<close>

text \<open>
  One step of the exchange: what one end sealed under a symmetric state, the other opens under the
  same state, and both reach the same next state.  \<open>room n ss\<close> says that the nonce is at most \<open>n\<close>.
\<close>

definition room :: "nat \<Rightarrow> SymmetricState \<Rightarrow> bool" where
  "room n ss \<longleftrightarrow> unat (cs_n (ss_cipher ss)) \<le> n"

definition sealedLen :: "SymmetricState \<Rightarrow> nat \<Rightarrow> nat" where
  "sealedLen ss k = (if cs_hasKey (ss_cipher ss) then k + kTagLen else k)"

lemma encrypt_decrypt:
  assumes "aeadCorrect (cr_aead C)" "room n ss" "n < 2 ^ 64 - 1"
  obtains ct ss' where "encryptAndHash C pt ss = (Ok, ct, ss')" "decryptAndHash C ct ss = (Ok, pt, ss')"
    "length ct = sealedLen ss (length pt)" "room (Suc n) ss'"
proof (cases "cs_hasKey (ss_cipher ss)")
  case False
  show thesis
    by (rule that [of pt "mixHash C pt ss"])
       (use False assms(2) in \<open>simp_all add: encryptAndHash_def decryptAndHash_def encryptWithAd_def
          decryptWithAd_def sealedLen_def room_def mixHash_def\<close>)
next
  case True
  have n: "cs_n (ss_cipher ss) \<noteq> kNoiseMaxNonce" using assms(2,3) by (auto simp: room_def)
  obtain ct where ct: "encryptWithAd (cr_aead C) (ss_h ss) pt (ss_cipher ss)
        = (Ok, ct, (ss_cipher ss)\<lparr>cs_n := cs_n (ss_cipher ss) + 1\<rparr>)"
      "decryptWithAd (cr_aead C) (ss_h ss) ct (ss_cipher ss)
        = (Ok, pt, (ss_cipher ss)\<lparr>cs_n := cs_n (ss_cipher ss) + 1\<rparr>)" "length ct = length pt + kTagLen"
    by (rule cipherState_roundtrip [OF assms(1) True n])
  have "unat (cs_n (ss_cipher ss) + 1) \<le> Suc n"
    using assms(2,3) unat_add_of_nat [of "cs_n (ss_cipher ss)" 1] by (simp add: room_def)
  then show thesis
    using that [of ct "mixHash C ct (ss\<lparr>ss_cipher := (ss_cipher ss)\<lparr>cs_n := cs_n (ss_cipher ss) + 1\<rparr>\<rparr>)"] ct True
    by (simp add: encryptAndHash_def decryptAndHash_def sealedLen_def room_def mixHash_def)
qed

lemma mixHash_simps [simp]: "ss_cipher (mixHash C d ss) = ss_cipher ss" "ss_ck (mixHash C d ss) = ss_ck ss"
  by (simp_all add: mixHash_def)

lemma room_mixHash [simp]: "room n (mixHash C d ss) = room n ss"
  by (simp add: room_def)

lemma room_mixKey [simp]: "room n (mixKey C d ss)"
  by (simp add: room_def mixKey_def initializeKey_def split: prod.split)

lemma room_mono: "\<lbrakk>room n ss; n \<le> m\<rbrakk> \<Longrightarrow> room m ss"
  by (simp add: room_def)

section \<open>What each end knows of the other\<close>

text \<open>
  The secret keys of an exchange, and which public keys have travelled: the ephemeral keys of both
  ends, the responder's static key (known to the initiator) and the initiator's (known to the
  responder).  \<open>linked C K n kn i r\<close>: with these keys and this knowledge, the initiator \<open>i\<close> and the
  responder \<open>r\<close> are at the same point of the same handshake.
\<close>

record Keys =
  ky_si :: bytes
  ky_ei :: bytes
  ky_sr :: bytes
  ky_er :: bytes

record Known =
  kn_eI :: bool
  kn_eR :: bool
  kn_sR :: bool
  kn_sI :: bool

definition linked :: "Crypto \<Rightarrow> Keys \<Rightarrow> nat \<Rightarrow> Known \<Rightarrow> HandshakeState \<Rightarrow> HandshakeState \<Rightarrow> bool" where
  "linked C K n kn i r \<longleftrightarrow>
     hs_sym i = hs_sym r \<and> room n (hs_sym i) \<and> hs_pattern i = hs_pattern r \<and> hs_msgIndex i = hs_msgIndex r
     \<and> hs_initiator i \<and> \<not> hs_initiator r \<and> hs_started i \<and> hs_started r
     \<and> hs_complete i = hs_complete r \<and> \<not> hs_hasFixedE i \<and> \<not> hs_hasFixedE r
     \<and> hs_s i = ky_si K \<and> hs_s r = ky_sr K
     \<and> hs_sPub i = cr_x25519_public_key C (ky_si K) \<and> hs_sPub r = cr_x25519_public_key C (ky_sr K)
     \<and> hs_haveE i = kn_eI kn \<and> hs_haveRe r = kn_eI kn \<and> hs_haveE r = kn_eR kn \<and> hs_haveRe i = kn_eR kn
     \<and> hs_haveRs i = kn_sR kn \<and> hs_haveRs r = kn_sI kn
     \<and> (kn_eI kn \<longrightarrow> hs_e i = ky_ei K \<and> hs_re r = cr_x25519_public_key C (ky_ei K))
     \<and> (kn_eR kn \<longrightarrow> hs_e r = ky_er K \<and> hs_re i = cr_x25519_public_key C (ky_er K))
     \<and> (kn_sR kn \<longrightarrow> hs_rs i = hs_sPub r) \<and> (kn_sI kn \<longrightarrow> hs_rs r = hs_sPub i)"

text \<open>No shared secret of the exchange is all zero: no key involved is of low order.\<close>

definition soundPair :: "Crypto \<Rightarrow> bytes \<Rightarrow> bytes \<Rightarrow> bool" where
  "soundPair C a b \<longleftrightarrow> cr_x25519 C a (cr_x25519_public_key C b) \<noteq> replicate kDhLen 0"

definition soundKeys :: "Crypto \<Rightarrow> Keys \<Rightarrow> bool" where
  "soundKeys C K \<longleftrightarrow> soundPair C (ky_ei K) (ky_er K) \<and> soundPair C (ky_ei K) (ky_sr K)
     \<and> soundPair C (ky_si K) (ky_er K) \<and> soundPair C (ky_si K) (ky_sr K)"

section \<open>One token\<close>

text \<open>When a token may be written by the initiator (\<open>w\<close>) or the responder, and what is known after it.\<close>

fun allowed :: "NoisePattern \<Rightarrow> bool \<Rightarrow> Known \<Rightarrow> Token \<Rightarrow> bool" where
  "allowed p w kn E = True"
| "allowed p w kn S = (p = XX \<longrightarrow> \<not> (if w then kn_sI kn else kn_sR kn))"
| "allowed p w kn EE = (kn_eI kn \<and> kn_eR kn)"
| "allowed p w kn ES = (kn_eI kn \<and> kn_sR kn)"
| "allowed p w kn SE = (kn_eR kn \<and> kn_sI kn)"
| "allowed p w kn SS = (kn_sR kn \<and> kn_sI kn)"

fun learnt :: "bool \<Rightarrow> Token \<Rightarrow> Known \<Rightarrow> Known" where
  "learnt w E kn = (if w then kn\<lparr>kn_eI := True\<rparr> else kn\<lparr>kn_eR := True\<rparr>)"
| "learnt w S kn = (if w then kn\<lparr>kn_sI := True\<rparr> else kn\<lparr>kn_sR := True\<rparr>)"
| "learnt w t kn = kn"

definition linkedW where
  "linkedW w C K n kn a b \<longleftrightarrow> (if w then linked C K n kn a b else linked C K n kn b a)"

definition freshOf :: "bool \<Rightarrow> Keys \<Rightarrow> bytes" where
  "freshOf w K = (if w then ky_ei K else ky_er K)"

text \<open>A token leaves the position in the handshake alone.\<close>

definition samePlace :: "HandshakeState \<Rightarrow> HandshakeState \<Rightarrow> bool" where
  "samePlace a a' \<longleftrightarrow> hs_pattern a' = hs_pattern a \<and> hs_msgIndex a' = hs_msgIndex a \<and> hs_complete a' = hs_complete a"

lemma samePlace_refl [simp]: "samePlace a a"
  by (simp add: samePlace_def)

lemma samePlace_trans: "\<lbrakk>samePlace a b; samePlace b c\<rbrakk> \<Longrightarrow> samePlace a c"
  by (simp add: samePlace_def)

lemma mixDh_agree:
  assumes "dhCorrect C" "soundPair C a b" "hs_sym i = hs_sym r"
  shows "\<exists>sy. mixDh C a (cr_x25519_public_key C b) i = (Ok, i\<lparr>hs_sym := sy\<rparr>)
    \<and> mixDh C b (cr_x25519_public_key C a) r = (Ok, r\<lparr>hs_sym := sy\<rparr>) \<and> (\<forall>n. room n sy)"
  using assms by (auto simp: mixDh_def x25519_def soundPair_def dhCorrect_def Let_def)

lemma dhToken_agree:
  assumes C: "dhCorrect C" and l: "linked C K n kn i r" and t: "t \<in> {EE, ES, SE, SS}" "allowed p w kn t"
    and snd: "soundKeys C K"
  shows "\<exists>sy. dhToken C t i = (Ok, i\<lparr>hs_sym := sy\<rparr>) \<and> dhToken C t r = (Ok, r\<lparr>hs_sym := sy\<rparr>)
    \<and> linked C K n kn (i\<lparr>hs_sym := sy\<rparr>) (r\<lparr>hs_sym := sy\<rparr>)"
proof -
  have keep: "linked C K n kn (i\<lparr>hs_sym := sy\<rparr>) (r\<lparr>hs_sym := sy\<rparr>)" if "room n sy" for sy
    using l that by (simp add: linked_def)
  note eq = l [unfolded linked_def] and snd' = snd [unfolded soundKeys_def]
  consider "t = EE" | "t = ES" | "t = SE" | "t = SS" using t(1) by blast
  then show ?thesis
  proof cases
    case 1
    then show ?thesis
      using mixDh_agree [OF C, of "ky_ei K" "ky_er K" i r] keep t(2) snd' eq by auto
  next
    case 2
    then show ?thesis
      using mixDh_agree [OF C, of "ky_ei K" "ky_sr K" i r] keep t(2) snd' eq by auto
  next
    case 3
    then show ?thesis
      using mixDh_agree [OF C, of "ky_si K" "ky_er K" i r] keep t(2) snd' eq by auto
  next
    case 4
    then show ?thesis
      using mixDh_agree [OF C, of "ky_si K" "ky_sr K" i r] keep t(2) snd' eq by auto
  qed
qed

lemma linked_mono: "\<lbrakk>linked C K n kn i r; n \<le> m\<rbrakk> \<Longrightarrow> linked C K m kn i r"
  unfolding linked_def by (elim conjE) (intro conjI; (assumption | erule (1) room_mono))

lemma linkedW_mono: "\<lbrakk>linkedW w C K n kn a b; n \<le> m\<rbrakk> \<Longrightarrow> linkedW w C K m kn a b"
  by (auto simp: linkedW_def split: if_splits intro: linked_mono)

lemma linkedW_place:
  assumes "linkedW w C K n kn a b"
  shows "hs_started a" "hs_started b" "hs_complete b = hs_complete a" "hs_msgIndex b = hs_msgIndex a"
    "hs_pattern b = hs_pattern a" "hs_initiator a = w" "hs_initiator b = (\<not> w)" "hs_sym b = hs_sym a"
    "room n (hs_sym a)"
  using assms unfolding linkedW_def linked_def by (cases w; simp)+

lemma linkedW_sPub: "\<lbrakk>linkedW w C K n kn a b; dhCorrect C\<rbrakk> \<Longrightarrow> length (hs_sPub a) = kDhLen"
  by (cases w) (simp_all add: linkedW_def linked_def dhCorrect_def)

text \<open>A token written by one end and read by the other keeps them linked.\<close>

lemma token_E:
  assumes C: "dhCorrect C" and l: "linkedW w C K n kn a b"
  shows "\<exists>ct a' b'. writeToken C (freshOf w K) E out a = (Ok, out @ ct, a')
    \<and> (\<forall>rest. readToken C E (ct @ rest) b = (Ok, rest, b'))
    \<and> linkedW w C K n (learnt w E kn) a' b' \<and> length ct = kDhLen \<and> samePlace a a' \<and> samePlace b b'"
proof -
  let ?p = "cr_x25519_public_key C (freshOf w K)"
  let ?sy = "mixHash C ?p (hs_sym a)"
  have len: "length ?p = kDhLen" using C by (simp add: dhCorrect_def)
  have sy: "hs_sym b = hs_sym a" "\<not> hs_hasFixedE a" using l by (auto simp: linkedW_def linked_def split: if_splits)
  have "writeToken C (freshOf w K) E out a
      = (Ok, out @ ?p, a\<lparr>hs_e := freshOf w K, hs_ePub := ?p, hs_haveE := True, hs_sym := ?sy\<rparr>)"
    using sy by (simp add: x25519PublicKey_def Let_def)
  moreover have "readToken C E (?p @ rest) b
      = (Ok, rest, b\<lparr>hs_re := ?p, hs_haveRe := True, hs_sym := ?sy\<rparr>)" for rest
    using sy len by (simp add: Let_def)
  moreover have "linkedW w C K n (learnt w E kn)
      (a\<lparr>hs_e := freshOf w K, hs_ePub := ?p, hs_haveE := True, hs_sym := ?sy\<rparr>)
      (b\<lparr>hs_re := ?p, hs_haveRe := True, hs_sym := ?sy\<rparr>)"
    by (insert l, unfold linkedW_def linked_def freshOf_def, cases w;
        simp only: if_True if_False learnt.simps; elim conjE; intro conjI; simp)
  ultimately show ?thesis using len unfolding samePlace_def by (intro exI conjI allI) (assumption | simp)+
qed

lemma token_S:
  assumes C: "dhCorrect C" "aeadCorrect (cr_aead C)" and l: "linkedW w C K n kn a b" and n: "n < 2 ^ 64 - 1"
    and ok: "allowed (hs_pattern a) w kn S"
  shows "\<exists>ct a' b'. writeToken C fresh S out a = (Ok, out @ ct, a')
    \<and> (\<forall>rest. readToken C S (ct @ rest) b = (Ok, rest, b'))
    \<and> linkedW w C K (Suc n) (learnt w S kn) a' b' \<and> length ct \<le> kDhLen + kTagLen \<and> samePlace a a' \<and> samePlace b b'"
proof -
  have sy: "hs_sym b = hs_sym a" "room n (hs_sym a)" "length (hs_sPub a) = kDhLen"
    using linkedW_place [OF l] linkedW_sPub [OF l C(1)] by simp_all
  obtain ct sy' where e: "encryptAndHash C (hs_sPub a) (hs_sym a) = (Ok, ct, sy')"
      "decryptAndHash C ct (hs_sym a) = (Ok, hs_sPub a, sy')"
      "length ct = sealedLen (hs_sym a) (length (hs_sPub a))" "room (Suc n) sy'"
    by (rule encrypt_decrypt [OF C(2) sy(2) n])
  have new: "\<not> (hs_haveRs b \<and> hs_pattern b = XX)"
    using l ok by (auto simp: linkedW_def linked_def split: if_splits)
  have "writeToken C fresh S out a = (Ok, out @ ct, a\<lparr>hs_sym := sy'\<rparr>)" using e(1) by simp
  moreover have "readToken C S (ct @ rest) b = (Ok, rest, b\<lparr>hs_sym := sy', hs_rs := hs_sPub a, hs_haveRs := True\<rparr>)" for rest
    using e(2,3) sy new by (simp add: sealedLen_def Let_def split: if_splits)
  moreover have "linkedW w C K (Suc n) (learnt w S kn) (a\<lparr>hs_sym := sy'\<rparr>)
      (b\<lparr>hs_sym := sy', hs_rs := hs_sPub a, hs_haveRs := True\<rparr>)"
    using l e(4) by (cases w) (simp_all add: linkedW_def linked_def)
  moreover have "length ct \<le> kDhLen + kTagLen" using e(3) sy(3) by (simp add: sealedLen_def)
  ultimately show ?thesis unfolding samePlace_def by (intro exI conjI allI) (assumption | simp)+
qed

lemma token_dh:
  assumes C: "dhCorrect C" and l: "linkedW w C K n kn a b" and t: "t \<in> {EE, ES, SE, SS}" "allowed p w kn t"
    and snd: "soundKeys C K"
  shows "\<exists>a' b'. writeToken C fresh t out a = (Ok, out, a') \<and> (\<forall>rest. readToken C t rest b = (Ok, rest, b'))
    \<and> linkedW w C K n kn a' b' \<and> samePlace a a' \<and> samePlace b b'"
proof -
  obtain sy where "dhToken C t a = (Ok, a\<lparr>hs_sym := sy\<rparr>)" "dhToken C t b = (Ok, b\<lparr>hs_sym := sy\<rparr>)"
    "linkedW w C K n kn (a\<lparr>hs_sym := sy\<rparr>) (b\<lparr>hs_sym := sy\<rparr>)"
  proof (cases w)
    case True
    with l have "linked C K n kn a b" by (simp add: linkedW_def)
    from dhToken_agree [OF C this t snd] show ?thesis using that True by (auto simp: linkedW_def)
  next
    case False
    with l have "linked C K n kn b a" by (simp add: linkedW_def)
    from dhToken_agree [OF C this t snd] show ?thesis using that False by (auto simp: linkedW_def)
  qed
  then show ?thesis using t(1) by (auto simp: samePlace_def)
qed


lemma token_agree:
  assumes C: "cryptoCorrect C" and l: "linkedW w C K n kn a b" and n: "n < 2 ^ 64 - 1"
    and ok: "allowed (hs_pattern a) w kn t" and snd: "soundKeys C K"
  shows "\<exists>ct a' b'. writeToken C (freshOf w K) t out a = (Ok, out @ ct, a')
    \<and> (\<forall>rest. readToken C t (ct @ rest) b = (Ok, rest, b'))
    \<and> linkedW w C K (Suc n) (learnt w t kn) a' b' \<and> length ct \<le> kDhLen + kTagLen \<and> samePlace a a' \<and> samePlace b b'"
proof -
  have C': "dhCorrect C" "aeadCorrect (cr_aead C)" using C by (simp_all add: cryptoCorrect_def)
  consider "t = E" | "t = S" | "t \<in> {EE, ES, SE, SS}" by (cases t) auto
  then show ?thesis
  proof cases
    case 1
    obtain ct a' b' where x: "writeToken C (freshOf w K) E out a = (Ok, out @ ct, a')"
      "\<forall>rest. readToken C E (ct @ rest) b = (Ok, rest, b')"
      "linkedW w C K n (learnt w E kn) a' b'" "length ct = kDhLen" "samePlace a a'" "samePlace b b'"
      using token_E [OF C'(1) l] by blast
    from x(3) have "linkedW w C K (Suc n) (learnt w E kn) a' b'" by (rule linkedW_mono) simp
    with x 1 show ?thesis by (intro exI [of _ ct] exI [of _ a'] exI [of _ b']) simp
  next
    case 2
    with token_S [OF C' l n, of "freshOf w K" out] ok show ?thesis by simp
  next
    case 3
    obtain a' b' where x: "writeToken C (freshOf w K) t out a = (Ok, out, a')"
      "\<forall>rest. readToken C t rest b = (Ok, rest, b')" "linkedW w C K n kn a' b'" "samePlace a a'" "samePlace b b'"
      using token_dh [OF C'(1) l 3 ok snd] by blast
    from x(3) have "linkedW w C K (Suc n) (learnt w t kn) a' b'"
      using 3 by (auto intro: linkedW_mono)
    with x show ?thesis by (intro exI [of _ "[]"] exI [of _ a'] exI [of _ b']) simp
  qed
qed

section \<open>One message\<close>

fun allowedAll :: "NoisePattern \<Rightarrow> bool \<Rightarrow> Known \<Rightarrow> Token list \<Rightarrow> bool" where
  "allowedAll p w kn [] = True"
| "allowedAll p w kn (t # ts) = (allowed p w kn t \<and> allowedAll p w (learnt w t kn) ts)"

lemma tokens_agree:
  assumes C: "cryptoCorrect C" and snd: "soundKeys C K"
  shows "\<lbrakk>linkedW w C K n kn a b; n + length ts < 2 ^ 64 - 1; allowedAll (hs_pattern a) w kn ts\<rbrakk> \<Longrightarrow>
    \<exists>ct a' b'. writeTokens C (freshOf w K) ts out a = (Ok, out @ ct, a')
      \<and> (\<forall>rest. readTokens C ts (ct @ rest) b = (Ok, rest, b'))
      \<and> linkedW w C K (n + length ts) (fold (learnt w) ts kn) a' b' \<and> length ct \<le> length ts * (kDhLen + kTagLen)
      \<and> samePlace a a' \<and> samePlace b b'"
proof (induction ts arbitrary: n kn a b out)
  case Nil
  then show ?case by (intro exI [of _ "[]"] exI [of _ a] exI [of _ b]) simp
next
  case (Cons t ts)
  from Cons.prems have n: "n < 2 ^ 64 - 1" and ok: "allowed (hs_pattern a) w kn t" by simp_all
  obtain ct a' b' where x: "writeToken C (freshOf w K) t out a = (Ok, out @ ct, a')"
    "\<forall>rest. readToken C t (ct @ rest) b = (Ok, rest, b')" "linkedW w C K (Suc n) (learnt w t kn) a' b'"
    "length ct \<le> kDhLen + kTagLen" "samePlace a a'" "samePlace b b'"
    using token_agree [OF C Cons.prems(1) n ok snd] by blast
  have "allowedAll (hs_pattern a') w (learnt w t kn) ts" using Cons.prems(3) x(5) by (simp add: samePlace_def)
  from Cons.IH [OF x(3) _ this, of "out @ ct"] Cons.prems(2) obtain ct' a'' b''
    where y: "writeTokens C (freshOf w K) ts (out @ ct) a' = (Ok, (out @ ct) @ ct', a'')"
      "\<forall>rest. readTokens C ts (ct' @ rest) b' = (Ok, rest, b'')"
      "linkedW w C K (Suc n + length ts) (fold (learnt w) ts (learnt w t kn)) a'' b''"
      "length ct' \<le> length ts * (kDhLen + kTagLen)" "samePlace a' a''" "samePlace b' b''"
    by auto
  have "\<forall>rest. readTokens C (t # ts) ((ct @ ct') @ rest) b = (Ok, rest, b'')"
    using x(2) y(2) by simp
  with x y samePlace_trans [OF x(5) y(5)] samePlace_trans [OF x(6) y(6)] show ?case
    by (intro exI [of _ "ct @ ct'"] exI [of _ a''] exI [of _ b'']) simp
qed

lemma linked_advance:
  assumes "linkedW w C K n kn a b"
  shows "linkedW w C K n kn (advance a) (advance b)"
proof -
  have eq: "advance a = a\<lparr>hs_msgIndex := hs_msgIndex a + 1, hs_complete := (hs_complete a
      \<or> unat (hs_msgIndex a + 1) \<ge> length (pt_messages (patternFor (hs_pattern a))))\<rparr>" for a
    by (cases a) (simp add: advance_def Let_def)
  have "linked C K n kn (advance i) (advance r)" if "linked C K n kn i r" for i r
    by (insert that, unfold linked_def eq, elim conjE, intro conjI; simp)
  then show ?thesis using assms by (simp add: linkedW_def split: if_splits)
qed

lemma linked_setSym:
  assumes "linkedW w C K n kn a b" "room m sy"
  shows "linkedW w C K m kn (a\<lparr>hs_sym := sy\<rparr>) (b\<lparr>hs_sym := sy\<rparr>)"
  using assms by (cases w) (simp_all add: linkedW_def linked_def)

text \<open>A whole message: the payload arrives and both ends advance together.\<close>

lemma message_agree:
  assumes C: "cryptoCorrect C" and snd: "soundKeys C K" and l: "linkedW w C K n kn a b"
    and k: "hs_msgIndex a = of_nat k" "k < length (pt_messages (patternFor (hs_pattern a)))" "k < 256"
    and w: "w = even k" and open': "\<not> hs_complete a"
    and ts: "ts = pt_messages (patternFor (hs_pattern a)) ! k" "allowedAll (hs_pattern a) w kn ts"
    and n: "n + length ts < 2 ^ 64 - 1"
    and len: "length payload + length ts * (kDhLen + kTagLen) + kTagLen \<le> kNoiseMaxMessage"
  shows "\<exists>m a' b'. writeMessage C (freshOf w K) payload [] a = (Ok, m, a')
    \<and> readMessage C m b = (Ok, payload, b')
    \<and> length payload \<le> length m \<and> length m \<le> length payload + length ts * (kDhLen + kTagLen) + kTagLen
    \<and> linkedW w C K (Suc (n + length ts)) (fold (learnt w) ts kn) a' b'
    \<and> hs_pattern a' = hs_pattern a \<and> hs_msgIndex a' = of_nat (Suc k)
    \<and> hs_complete a' = (Suc k \<ge> length (pt_messages (patternFor (hs_pattern a))))"
proof -
  note pl = linkedW_place [OF l]
  have idx: "unat (hs_msgIndex a) = k" using k by (simp add: unat_of_nat)
  obtain ct a1 b1 where t: "writeTokens C (freshOf w K) ts [] a = (Ok, ct, a1)"
    "\<And>rest. readTokens C ts (ct @ rest) b = (Ok, rest, b1)"
    "linkedW w C K (n + length ts) (fold (learnt w) ts kn) a1 b1" "length ct \<le> length ts * (kDhLen + kTagLen)"
    "samePlace a a1" "samePlace b b1"
    using tokens_agree [OF C snd l n ts(2), of "[]"] by auto
  have r1: "hs_sym b1 = hs_sym a1" "room (n + length ts) (hs_sym a1)" using linkedW_place [OF t(3)] by simp_all
  have ae: "aeadCorrect (cr_aead C)" using C by (simp add: cryptoCorrect_def)
  obtain pt sy where e: "encryptAndHash C payload (hs_sym a1) = (Ok, pt, sy)"
    "decryptAndHash C pt (hs_sym a1) = (Ok, payload, sy)" "length pt = sealedLen (hs_sym a1) (length payload)"
    "room (Suc (n + length ts)) sy"
    by (rule encrypt_decrypt [OF ae r1(2) n])
  let ?a = "advance (a1\<lparr>hs_sym := sy\<rparr>)" and ?b = "advance (b1\<lparr>hs_sym := sy\<rparr>)"
  have size: "length (ct @ pt) \<le> kNoiseMaxMessage" using e(3) t(4) len by (auto simp: sealedLen_def split: if_splits)
  have "writeMessage C (freshOf w K) payload [] a = (Ok, ct @ pt, ?a)"
    using pl(1,6) open' k idx w t(1) e(1) size len
    by (simp add: writeMessage_def Let_def ts(1) [symmetric] even_iff_mod_2_eq_zero not_less not_le)
  moreover have "readMessage C (ct @ pt) b = (Ok, payload, ?b)"
    using pl(2-7) open' k idx w t(2) [of pt] e(2) size r1(1)
    by (simp add: readMessage_def Let_def ts(1) [symmetric] even_iff_mod_2_eq_zero not_less not_le)
  moreover have "linkedW w C K (Suc (n + length ts)) (fold (learnt w) ts kn) ?a ?b"
    by (rule linked_advance [OF linked_setSym [OF t(3) e(4)]])
  moreover have "unat (of_nat k + 1 :: u8) = Suc k" if "Suc k < 256"
    using that unat_of_nat [of "Suc k", where 'a = 8] by (simp add: add.commute)
  moreover have "length (pt_messages (patternFor (hs_pattern a))) \<le> 3"
    by (simp add: patternFor_def kXx_def kIk_def)
  moreover have "length payload \<le> length (ct @ pt)"
    "length (ct @ pt) \<le> length payload + length ts * (kDhLen + kTagLen) + kTagLen"
    using e(3) t(4) by (auto simp: sealedLen_def split: if_splits)
  ultimately show ?thesis
    using t(5) k open'
    by (intro exI [of _ "ct @ pt"] exI [of _ ?a] exI [of _ ?b])
       (auto simp: advance_def samePlace_def Let_def add.commute)
qed


section \<open>A whole handshake\<close>

text \<open>
  The messages of a handshake in turn, each with the ephemeral secret its writer draws and its
  payload: the payloads as they were read, and the two ends afterwards.
\<close>

fun converse ::
    "Crypto \<Rightarrow> (bytes \<times> bytes) list \<Rightarrow> HandshakeState \<Rightarrow> HandshakeState \<Rightarrow>
      (bytes list \<times> HandshakeState \<times> HandshakeState) option" where
  "converse C [] a b = Some ([], a, b)"
| "converse C ((fresh, payload) # ms) a b =
     (case writeMessage C fresh payload [] a of
        (s, m, a') \<Rightarrow>
          if s \<noteq> Ok then None
          else case readMessage C m b of
            (s, got, b') \<Rightarrow>
              if s \<noteq> Ok then None
              else map_option (\<lambda>(ps, b, a). (got # ps, a, b)) (converse C ms b' a'))"

definition startParams :: "Crypto \<Rightarrow> NoisePattern \<Rightarrow> bool \<Rightarrow> bytes \<Rightarrow> bytes \<Rightarrow> bytes \<Rightarrow> Params" where
  "startParams C p initiator prologue s peer =
     \<lparr>pa_pattern = p, pa_initiator = initiator, pa_prologue = prologue, pa_localStatic = s,
      pa_remoteStatic = x25519PublicKey C peer, pa_hasRemoteStatic = (p = IK \<and> initiator)\<rparr>"

definition known0 :: "NoisePattern \<Rightarrow> Known" where
  "known0 p = \<lparr>kn_eI = False, kn_eR = False, kn_sR = (p = IK), kn_sI = False\<rparr>"

lemma start_linked:
  fixes C p prologue K
  defines "i \<equiv> hs_start C (startParams C p True prologue (ky_si K) (ky_sr K)) HandshakeState0"
    and "r \<equiv> hs_start C (startParams C p False prologue (ky_sr K) (ky_si K)) HandshakeState0"
  shows "fst i = Ok \<and> fst r = Ok \<and> linked C K 0 (known0 p) (snd i) (snd r)
    \<and> hs_pattern (snd i) = p \<and> hs_msgIndex (snd i) = 0 \<and> \<not> hs_complete (snd i)"
  unfolding i_def r_def
  by (cases p)
     (simp_all add: hs_start_def startParams_def patternFor_def kXx_def kIk_def Let_def linked_def known0_def
        HandshakeState0_def CipherState0_def initializeSymmetric_def mixHash_def room_def cs_clear_def
        x25519PublicKey_def)

lemma linkedW_flip: "linkedW w C K n kn a b \<Longrightarrow> linkedW (\<not> w) C K n kn b a"
  by (simp add: linkedW_def)

text \<open>The writers of the messages in turn, from message \<open>k\<close> on.\<close>

fun turns :: "Keys \<Rightarrow> nat \<Rightarrow> bytes list \<Rightarrow> (bytes \<times> bytes) list" where
  "turns K k [] = []"
| "turns K k (p # ps) = (freshOf (even k) K, p) # turns K (Suc k) ps"

fun allowedFrom :: "NoisePattern \<Rightarrow> nat \<Rightarrow> Known \<Rightarrow> Token list list \<Rightarrow> bool" where
  "allowedFrom p k kn [] = True"
| "allowedFrom p k kn (ts # tss) = (allowedAll p (even k) kn ts \<and> allowedFrom p (Suc k) (fold (learnt (even k)) ts kn) tss)"

fun knownAfter :: "nat \<Rightarrow> Known \<Rightarrow> Token list list \<Rightarrow> Known" where
  "knownAfter k kn [] = kn"
| "knownAfter k kn (ts # tss) = knownAfter (Suc k) (fold (learnt (even k)) ts kn) tss"

lemma converse_agree:
  assumes C: "cryptoCorrect C" and snd: "soundKeys C K" and msgs: "pt_messages (patternFor p) = done' @ rest"
  shows "\<lbrakk>linkedW (even (length done')) C K n kn a b; n + 5 * length rest < 2 ^ 64 - 1; hs_pattern a = p;
      hs_msgIndex a = of_nat (length done'); hs_complete a = (rest = []); allowedFrom p (length done') kn rest;
      length payloads = length rest; \<forall>q \<in> set payloads. length q \<le> 65000\<rbrakk> \<Longrightarrow>
    \<exists>a' b'. converse C (turns K (length done') payloads) a b = Some (payloads, a', b')
      \<and> linkedW (even (length done')) C K (n + 5 * length rest) (knownAfter (length done') kn rest) a' b'
      \<and> hs_complete a' \<and> hs_pattern a' = p"
  using msgs
proof (induction rest arbitrary: done' n kn a b payloads)
  case Nil
  then show ?case by (intro exI [of _ a] exI [of _ b]) simp
next
  case (Cons ts rest)
  obtain q ps where q: "payloads = q # ps" "length ps = length rest" "length q \<le> 65000"
    "\<forall>q \<in> set ps. length q \<le> 65000"
    using Cons.prems(7,8) by (cases payloads) auto
  let ?k = "length done'"
  have k: "?k < length (pt_messages (patternFor (hs_pattern a)))" "?k < 256"
    "pt_messages (patternFor (hs_pattern a)) ! ?k = ts" "length ts \<le> 4"
    using Cons.prems(3,9) by (auto simp: patternFor_def kXx_def kIk_def Cons_eq_append_conv append_eq_Cons_conv
        split: if_splits)
  have lt: "n + length ts < 2 ^ 64 - 1" "length q + length ts * (kDhLen + kTagLen) + kTagLen \<le> kNoiseMaxMessage"
    using Cons.prems(2) k(4) q(3) by simp_all
  obtain m a1 b1 where m: "writeMessage C (freshOf (even ?k) K) q [] a = (Ok, m, a1)"
    "readMessage C m b = (Ok, q, b1)"
    "linkedW (even ?k) C K (Suc (n + length ts)) (fold (learnt (even ?k)) ts kn) a1 b1"
    "hs_pattern a1 = hs_pattern a" "hs_msgIndex a1 = of_nat (Suc ?k)"
    "hs_complete a1 = (Suc ?k \<ge> length (pt_messages (patternFor (hs_pattern a))))"
    using message_agree [OF C snd Cons.prems(1,4) k(1,2) refl _ k(3) [symmetric] _ lt] Cons.prems(3,5,6) by auto
  have "Suc (n + length ts) \<le> n + 5" using k(4) by simp
  from linkedW_mono [OF m(3) this] have l1: "linkedW (even (length (done' @ [ts]))) C K (n + 5) (fold (learnt (even ?k)) ts kn) b1 a1"
    by (auto dest: linkedW_flip)
  note p1 = linkedW_place [OF m(3)]
  have "\<exists>b' a'. converse C (turns K (length (done' @ [ts])) ps) b1 a1 = Some (ps, b', a')
      \<and> linkedW (even (length (done' @ [ts]))) C K (n + 5 + 5 * length rest)
          (knownAfter (length (done' @ [ts])) (fold (learnt (even ?k)) ts kn) rest) b' a'
      \<and> hs_complete b' \<and> hs_pattern b' = p"
    by (rule Cons.IH [OF l1]) (use Cons.prems(2,3,6,9) p1 m(4-6) q in auto)
  then obtain b' a' where r: "converse C (turns K (Suc ?k) ps) b1 a1 = Some (ps, b', a')"
      "linkedW (\<not> even ?k) C K (n + 5 + 5 * length rest) (knownAfter (Suc ?k) (fold (learnt (even ?k)) ts kn) rest) b' a'"
      "hs_complete b'" "hs_pattern b' = p" by auto
  note p2 = linkedW_place [OF r(2)]
  have "linkedW (even ?k) C K (n + 5 * length (ts # rest)) (knownAfter ?k kn (ts # rest)) a' b'"
    using linkedW_flip [OF r(2)] by (simp add: add.commute add.assoc)
  then show ?case using m(1,2) r(1,3,4) p2(3,5) q(1) by (intro exI [of _ a'] exI [of _ b']) simp
qed


lemma patterns_allowed: "allowedFrom p 0 (known0 p) (pt_messages (patternFor p))"
  by (cases p) (simp_all add: patternFor_def kXx_def kIk_def known0_def)

lemma patterns_known:
  "kn_sR (knownAfter 0 (known0 p) (pt_messages (patternFor p)))" "kn_sI (knownAfter 0 (known0 p) (pt_messages (patternFor p)))"
  by (cases p; simp add: patternFor_def kXx_def kIk_def known0_def)+

lemma split_cross:
  assumes "hs_sym i = hs_sym r" "hs_complete i" "hs_complete r" "hs_initiator i" "\<not> hs_initiator r"
  shows "\<exists>a b i' r'. hs_split C i = (Ok, a, b, i') \<and> hs_split C r = (Ok, b, a, r') \<and> cs_hasKey a \<and> cs_hasKey b
    \<and> cs_n a = 0 \<and> cs_n b = 0"
  using assms by (simp add: hs_split_def ss_split_def initializeKey_def split: prod.split)

text \<open>
  C14. The handshake works and agrees.  Two ends that start the pattern XX, or IK with the
  responder's key known to the initiator, with the same prologue, and read each other's messages,
  both complete: every payload arrives unchanged, the transcript hashes are equal, each end knows
  the other's static key, and the transport keys of one end are those of the other crosswise.
\<close>

theorem noise_agreement:
  assumes "cryptoCorrect C" "soundKeys C K" "length payloads = length (pt_messages (patternFor p))"
    and "\<forall>q \<in> set payloads. length q \<le> 65000"
  shows "\<exists>i r a b i' r'.
    converse C (turns K 0 payloads)
      (snd (hs_start C (startParams C p True prologue (ky_si K) (ky_sr K)) HandshakeState0))
      (snd (hs_start C (startParams C p False prologue (ky_sr K) (ky_si K)) HandshakeState0)) = Some (payloads, i, r)
    \<and> hs_complete i \<and> hs_complete r \<and> handshakeHash i = handshakeHash r
    \<and> hs_rs i = x25519PublicKey C (ky_sr K) \<and> hs_rs r = x25519PublicKey C (ky_si K)
    \<and> hs_split C i = (Ok, a, b, i') \<and> hs_split C r = (Ok, b, a, r') \<and> cs_hasKey a \<and> cs_hasKey b"
proof -
  let ?i = "snd (hs_start C (startParams C p True prologue (ky_si K) (ky_sr K)) HandshakeState0)"
    and ?r = "snd (hs_start C (startParams C p False prologue (ky_sr K) (ky_si K)) HandshakeState0)"
  let ?msgs = "pt_messages (patternFor p)"
  have l: "linked C K 0 (known0 p) ?i ?r" "hs_pattern ?i = p" "hs_msgIndex ?i = 0" "\<not> hs_complete ?i"
    using start_linked [of C p prologue K] by blast+
  have m: "?msgs \<noteq> []" "length ?msgs \<le> 3" by (simp_all add: patternFor_def kXx_def kIk_def)
  obtain i r where c: "converse C (turns K 0 payloads) ?i ?r = Some (payloads, i, r)"
    "linked C K (5 * length ?msgs) (knownAfter 0 (known0 p) ?msgs) i r" "hs_complete i"
    using converse_agree [of C K p "[]" ?msgs 0 "known0 p" ?i ?r payloads] assms l m patterns_allowed
    by (auto simp: linkedW_def)
  note eq = c(2) [unfolded linked_def]
  obtain a b i' r' where "hs_split C i = (Ok, a, b, i')" "hs_split C r = (Ok, b, a, r')" "cs_hasKey a" "cs_hasKey b"
    using split_cross [of i r C] eq c(3) by blast
  moreover have "hs_rs i = x25519PublicKey C (ky_sr K)" "hs_rs r = x25519PublicKey C (ky_si K)"
    using eq patterns_known [of p] by (simp_all add: x25519PublicKey_def)
  moreover have "hs_complete r" "handshakeHash i = handshakeHash r" using eq c(3) by (simp_all add: handshakeHash_def)
  ultimately show ?thesis using c(1,3) by blast
qed

text \<open>A small instance of the parameters, and an exchange under it.\<close>

definition firstByte :: "bytes \<Rightarrow> u8" where
  "firstByte bs = (case bs of [] \<Rightarrow> 0 | b # _ \<Rightarrow> b)"

definition toyCrypto :: Crypto where
  "toyCrypto =
     \<lparr>cr_aead = \<lparr>ae_write = (\<lambda>k n ad pt. (pt, replicate 16 0)),
                 ae_read = (\<lambda>k n mac ad ct. if mac = replicate 16 0 then Some ct else None)\<rparr>,
      cr_blake2s = (\<lambda>x. take 32 (x @ replicate 32 0)),
      cr_x25519 = (\<lambda>a b. replicate 32 ((firstByte a * firstByte b) OR 1)),
      cr_x25519_public_key = (\<lambda>a. replicate 32 (firstByte a)),
      cr_ed25519_key_pair = (\<lambda>seed. (seed, replicate 32 (firstByte seed OR 1))),
      cr_ed25519_sign = (\<lambda>sk msg. replicate 64 7),
      cr_ed25519_check = (\<lambda>sig pk msg. sig = replicate 64 7)\<rparr>"

lemma or_one_nonzero: "(x :: u8) OR 1 \<noteq> 0"
proof
  assume "x OR 1 = 0"
  then have "bit (x OR 1) 0 = bit (0 :: u8) 0" by simp
  then show False by (simp add: bit_simps)
qed

lemma toyCrypto_correct: "cryptoCorrect toyCrypto"
proof -
  have "firstByte (replicate 32 b) = b" for b by (simp add: firstByte_def numeral_eq_Suc)
  then show ?thesis
    by (simp add: cryptoCorrect_def aeadCorrect_def hashCorrect_def dhCorrect_def signCorrect_def toyCrypto_def
        mult.commute min_def)
qed

lemma toyCrypto_sound: "soundKeys toyCrypto K"
  by (simp add: soundKeys_def soundPair_def toyCrypto_def numeral_eq_Suc or_one_nonzero)

definition toyKeys :: Keys where
  "toyKeys = \<lparr>ky_si = [3], ky_ei = [5], ky_sr = [7], ky_er = [11]\<rparr>"

theorem noise_agreement_witness:
  "\<exists>i r. converse toyCrypto [([5], []), ([11], [1, 2]), ([5], [3])]
      (snd (hs_start toyCrypto (startParams toyCrypto XX True [9] [3] [7]) HandshakeState0))
      (snd (hs_start toyCrypto (startParams toyCrypto XX False [9] [7] [3]) HandshakeState0))
        = Some ([[], [1, 2], [3]], i, r)
    \<and> hs_complete i \<and> hs_complete r \<and> handshakeHash i = handshakeHash r
    \<and> hs_rs i = replicate 32 7 \<and> hs_rs r = replicate 32 3"
proof -
  have "length [[], [1, 2], [3 :: u8]] = length (pt_messages (patternFor XX))" by (simp add: patternFor_def kXx_def)
  from noise_agreement [OF toyCrypto_correct toyCrypto_sound this, of toyKeys "[9]"] show ?thesis
    by (auto simp: toyKeys_def freshOf_def x25519PublicKey_def toyCrypto_def firstByte_def)
qed

end
