(* ===== verification/Identity.thy ===== *)
theory Identity
  imports Noise PeerStore
begin

text \<open>
  The long-term identity of a machine (\<open>crypto/Identity.h\<close>, \<open>crypto/Identity.cpp\<close>): one seed expanded
  into the Ed25519 identity and the X25519 key of the handshake, the signature that binds them, the
  payload that presents it, the fingerprint and the six digits two people compare.
\<close>

section \<open>Identities\<close>

definition kBindingContext :: string where "kBindingContext = ''AirUSB-identity-binding-v1''"
definition kFingerprintContext :: string where "kFingerprintContext = ''AirUSB-fp-v1''"
definition kSasContext :: string where "kSasContext = ''AirUSB-SAS-v1''"
definition kSeedLabelIdentity :: string where "kSeedLabelIdentity = ''AirUSB-seed-identity-v1''"
definition kSeedLabelNoise :: string where "kSeedLabelNoise = ''AirUSB-seed-noise-v1''"

abbreviation (input) kFingerprintLen :: nat where "kFingerprintLen \<equiv> 20"
abbreviation (input) kIdentityPayloadLen :: nat where "kIdentityPayloadLen \<equiv> kDhLen + kSigLen"

record LocalIdentity =
  li_seed :: bytes
  li_idSk :: bytes
  li_idPub :: bytes
  li_noiseSk :: bytes
  li_noisePub :: bytes
  li_binding :: bytes

definition expandSeed :: "Crypto \<Rightarrow> bytes \<Rightarrow> string \<Rightarrow> bytes" where
  "expandSeed C seed label = take kSeedLen (hmacBlake2s C seed (asciiBytes label))"

definition bindingMessage :: "bytes \<Rightarrow> bytes \<Rightarrow> bytes" where
  "bindingMessage identityKey noiseKey = asciiBytes kBindingContext @ identityKey @ noiseKey"

definition fromSeed :: "Crypto \<Rightarrow> bytes \<Rightarrow> LocalIdentity" where
  "fromSeed C seed =
     (let (idSk, idPub) = ed25519KeyPairFromSeed C (expandSeed C seed kSeedLabelIdentity);
          noiseSk = expandSeed C seed kSeedLabelNoise;
          noisePub = x25519PublicKey C noiseSk
      in \<lparr>li_seed = seed, li_idSk = idSk, li_idPub = idPub, li_noiseSk = noiseSk, li_noisePub = noisePub,
          li_binding = ed25519Sign C idSk (bindingMessage idPub noisePub)\<rparr>)"

definition publicIdentity :: "LocalIdentity \<Rightarrow> PeerIdentity" where
  "publicIdentity me = \<lparr>pi_identityKey = li_idPub me, pi_noiseKey = li_noisePub me, pi_binding = li_binding me\<rparr>"

definition verifyBinding :: "Crypto \<Rightarrow> PeerIdentity \<Rightarrow> bool" where
  "verifyBinding C peer =
     ed25519Verify C (pi_binding peer) (pi_identityKey peer)
       (bindingMessage (pi_identityKey peer) (pi_noiseKey peer))"

section \<open>The identity payload\<close>

definition encodeIdentityPayload :: "LocalIdentity \<Rightarrow> bytes \<Rightarrow> bytes" where
  "encodeIdentityPayload me out = out @ li_idPub me @ li_binding me"

definition decodeAndVerifyIdentityPayload :: "Crypto \<Rightarrow> bytes \<Rightarrow> bytes \<Rightarrow> PeerIdentity option" where
  "decodeAndVerifyIdentityPayload C payload negotiatedNoiseKey =
     (if length payload \<noteq> kIdentityPayloadLen then None
      else
        let p = \<lparr>pi_identityKey = take kDhLen payload, pi_noiseKey = negotiatedNoiseKey,
                 pi_binding = subspan payload kDhLen kSigLen\<rparr>
        in if verifyBinding C p then Some p else None)"

section \<open>Fingerprint and comparison digits\<close>

definition fingerprint :: "Crypto \<Rightarrow> bytes \<Rightarrow> bytes" where
  "fingerprint C identityKey = take kFingerprintLen (cr_blake2s C (asciiBytes kFingerprintContext @ identityKey))"

definition kAlphabet :: string where "kAlphabet = ''ABCDEFGHIJKLMNOPQRSTUVWXYZ234567''"

text \<open>The inner loop of \<open>fingerprintText\<close>: five bits at a time from the buffer.\<close>

fun emitDigits :: "u32 \<Rightarrow> nat \<Rightarrow> nat \<Rightarrow> string \<Rightarrow> nat \<times> nat \<times> string" where
  "emitDigits buffer bits emitted out =
     (if bits \<ge> 5 then
        let bits = bits - 5;
            out = (if emitted \<noteq> 0 \<and> emitted mod 8 = 0 then out @ '' '' else out);
            out = out @ [kAlphabet ! unat (drop_bit bits buffer AND 0x1F)]
        in emitDigits buffer bits (emitted + 1) out
      else (bits, emitted, out))"

declare emitDigits.simps [simp del]

fun fingerprintLoop :: "bytes \<Rightarrow> u32 \<Rightarrow> nat \<Rightarrow> nat \<Rightarrow> string \<Rightarrow> string" where
  "fingerprintLoop [] buffer bits emitted out = out"
| "fingerprintLoop (b # bs) buffer bits emitted out =
     (let buffer = push_bit 8 buffer OR ucast b;
          (bits, emitted, out) = emitDigits buffer (bits + 8) emitted out
      in fingerprintLoop bs buffer bits emitted out)"

definition fingerprintText :: "bytes \<Rightarrow> string" where
  "fingerprintText fp = fingerprintLoop fp 0 0 0 []"

definition sasDigits :: "Crypto \<Rightarrow> bytes \<Rightarrow> u32" where
  "sasDigits C channelBinding =
     (let (o1, o2) = hkdf2 C channelBinding (asciiBytes kSasContext);
          v = fold (\<lambda>i (v :: u64). push_bit 8 v OR ucast (o1 ! i)) [0 ..< 8] 0
      in ucast (v mod 1000000))"

fun padSix :: "nat \<Rightarrow> string \<Rightarrow> string" where
  "padSix 0 s = s"
| "padSix (Suc n) s = (if length s < 6 then padSix n (CHR ''0'' # s) else s)"

definition sasText :: "u32 \<Rightarrow> string" where
  "sasText sas = padSix 6 (showNat (unat (sas mod 1000000)))"

section \<open>An honest identity is accepted\<close>

lemma fromSeed_sizes:
  assumes "cryptoCorrect C"
  shows "length (li_idPub (fromSeed C seed)) = kDhLen" "length (li_binding (fromSeed C seed)) = kSigLen"
    "li_noisePub (fromSeed C seed) = x25519PublicKey C (li_noiseSk (fromSeed C seed))"
  using assms
  by (auto simp: fromSeed_def Let_def cryptoCorrect_def signCorrect_def ed25519KeyPairFromSeed_def ed25519Sign_def
      split: prod.split)

lemma fromSeed_bound: "cryptoCorrect C \<Longrightarrow> verifyBinding C (publicIdentity (fromSeed C seed))"
  by (auto simp: fromSeed_def Let_def cryptoCorrect_def signCorrect_def ed25519KeyPairFromSeed_def ed25519Sign_def
      verifyBinding_def ed25519Verify_def publicIdentity_def split: prod.split)

text \<open>
  The payload of a machine's own identity is accepted under its handshake key and shows exactly the
  public identity; whatever is accepted under a key is a signature by the identity it names over
  that identity and that very key.
\<close>

lemma identity_payload:
  assumes "cryptoCorrect C"
  shows "decodeAndVerifyIdentityPayload C (encodeIdentityPayload (fromSeed C seed) []) (li_noisePub (fromSeed C seed))
      = Some (publicIdentity (fromSeed C seed))"
    and "decodeAndVerifyIdentityPayload C payload key = Some p \<Longrightarrow>
      pi_noiseKey p = key \<and> verifyBinding C p \<and> payload = pi_identityKey p @ pi_binding p
        \<and> length (pi_identityKey p) = kDhLen"
proof -
  let ?id = "fromSeed C seed"
  have "\<lparr>pi_identityKey = take kDhLen (encodeIdentityPayload ?id []), pi_noiseKey = li_noisePub ?id,
      pi_binding = subspan (encodeIdentityPayload ?id []) kDhLen kSigLen\<rparr> = publicIdentity ?id"
    using fromSeed_sizes [OF assms] by (simp add: encodeIdentityPayload_def publicIdentity_def)
  moreover have "length (encodeIdentityPayload ?id []) = kIdentityPayloadLen"
    using fromSeed_sizes [OF assms] by (simp add: encodeIdentityPayload_def)
  ultimately show "decodeAndVerifyIdentityPayload C (encodeIdentityPayload ?id []) (li_noisePub ?id)
      = Some (publicIdentity ?id)"
    using fromSeed_bound [OF assms] by (simp add: decodeAndVerifyIdentityPayload_def Let_def)
next
  assume "decodeAndVerifyIdentityPayload C payload key = Some p"
  then show "pi_noiseKey p = key \<and> verifyBinding C p \<and> payload = pi_identityKey p @ pi_binding p
      \<and> length (pi_identityKey p) = kDhLen"
    by (auto simp: decodeAndVerifyIdentityPayload_def Let_def split: if_splits)
qed

lemma length_padSix: "length s \<le> 6 \<Longrightarrow> 6 \<le> length s + n \<Longrightarrow> length (padSix n s) = 6"
  by (induction n arbitrary: s) auto

end
