(* ===== verification/SecureSession.thy ===== *)
theory SecureSession
  imports Identity Codec Link Trust
begin

text \<open>
  The secure session (\<open>session/SecureSession.h\<close>, \<open>session/SecureSession.cpp\<close>): preamble, Noise
  handshake, trust gate and greeting, driven by \<open>pump\<close>.

  The record \<open>Platform\<close> holds what the session finds in its environment: the cryptographic library,
  the byte stream's two operations, the ephemeral secret the handshake draws (a session draws one)
  and the platform number compiled in.  The state of the stream is the field \<open>se_stream\<close>, also once
  the stream has moved into the record layer; a null pointer is \<open>None\<close>.
\<close>

section \<open>Capabilities, roles and platforms\<close>

abbreviation (input) kRoleCanExport :: u8 where "kRoleCanExport \<equiv> 1"
abbreviation (input) kRoleCanImport :: u8 where "kRoleCanImport \<equiv> 2"
abbreviation (input) kPlatformMacos :: u8 where "kPlatformMacos \<equiv> 1"
abbreviation (input) kPlatformWindows :: u8 where "kPlatformWindows \<equiv> 2"
abbreviation (input) kPlatformLinux :: u8 where "kPlatformLinux \<equiv> 3"
abbreviation (input) kCapSegmentation :: u64 where "kCapSegmentation \<equiv> 2"
abbreviation (input) kCapManifestAuthoritative :: u64 where "kCapManifestAuthoritative \<equiv> 0x20"
abbreviation (input) kCapCancel :: u64 where "kCapCancel \<equiv> 0x200"
abbreviation (input) kCapReset :: u64 where "kCapReset \<equiv> 0x400"

section \<open>The cipher of a session\<close>

text \<open>The record layer's cipher pointer: the null cipher during the handshake, then a Noise cipher.\<close>

datatype SessionCipher = PlainCipher | KeyedCipher NoiseCipherState

fun sessionSeal :: "Aead \<Rightarrow> bytes \<Rightarrow> SessionCipher \<Rightarrow> Status \<times> bytes \<times> SessionCipher" where
  "sessionSeal P b PlainCipher = (let (s, ct, _) = ic_seal NullCipher b () in (s, ct, PlainCipher))"
| "sessionSeal P b (KeyedCipher c) = (let (s, ct, c') = ic_seal (NoiseCipher P) b c in (s, ct, KeyedCipher c'))"

fun sessionOpen :: "Aead \<Rightarrow> bytes \<Rightarrow> SessionCipher \<Rightarrow> Status \<times> bytes \<times> SessionCipher" where
  "sessionOpen P b PlainCipher = (let (s, pt, _) = ic_open NullCipher b () in (s, pt, PlainCipher))"
| "sessionOpen P b (KeyedCipher c) = (let (s, pt, c') = ic_open (NoiseCipher P) b c in (s, pt, KeyedCipher c'))"

fun sessionOverhead :: "SessionCipher \<Rightarrow> nat" where
  "sessionOverhead PlainCipher = 0"
| "sessionOverhead (KeyedCipher c) = kTagLen"

definition sessionCipher :: "Aead \<Rightarrow> SessionCipher \<Rightarrow> SessionCipher IRecordCipher" where
  "sessionCipher P c = \<lparr>ic_seal = sessionSeal P, ic_open = sessionOpen P, ic_overhead = sessionOverhead c\<rparr>"

section \<open>State\<close>

record 's Platform =
  pf_crypto :: Crypto
  pf_write :: "bytes \<Rightarrow> 's \<Rightarrow> Status \<times> nat \<times> 's"
  pf_read :: "nat \<Rightarrow> 's \<Rightarrow> Status \<times> bytes \<times> 's"
  pf_fresh :: bytes
  pf_platformId :: u8

record Config =
  cf_initiator :: bool
  cf_identity :: "LocalIdentity option"
  cf_peers :: "PeerStore option"
  cf_expectedPeer :: bytes
  cf_hasExpectedPeer :: bool
  cf_negotiatedMaxRecordBytes :: u32
  cf_capabilities :: u64
  cf_maxTransferBytes :: u32
  cf_keepaliveMs :: u32
  cf_roleBits :: u8

definition Config0 :: Config where
  "Config0 =
     \<lparr>cf_initiator = True, cf_identity = None, cf_peers = None, cf_expectedPeer = replicate kDhLen 0,
      cf_hasExpectedPeer = False, cf_negotiatedMaxRecordBytes = kRecordBytesDefault,
      cf_capabilities = kCapCancel OR kCapReset OR kCapManifestAuthoritative,
      cf_maxTransferBytes = kTransferBytesDefault, cf_keepaliveMs = 500,
      cf_roleBits = kRoleCanExport OR kRoleCanImport\<rparr>"

record Negotiated =
  ng_maxRecordBytes :: u32
  ng_maxTransferBytes :: u32
  ng_capabilities :: u64
  ng_keepaliveMs :: u32
  ng_peerRoleBits :: u8
  ng_peerPlatform :: u8

definition Negotiated0 :: Negotiated where
  "Negotiated0 = \<lparr>ng_maxRecordBytes = kHandshakeRecordMax, ng_maxTransferBytes = 0, ng_capabilities = 0,
     ng_keepaliveMs = 0, ng_peerRoleBits = 0, ng_peerPlatform = 0\<rparr>"

datatype SessionState = Idle | AwaitingPreamble | Handshaking | Greeting | Established | Failed

record 's SecureSession =
  se_stream :: "'s option"
  se_record :: "SessionCipher RecordLayer"
  se_cfg :: Config
  se_state :: SessionState
  se_trust :: Trust
  se_grants :: u32
  se_why :: string
  se_ourPreamble :: bytes
  se_theirPreamble :: bytes
  se_pattern :: NoisePattern
  se_hs :: HandshakeState
  se_peer :: PeerIdentity
  se_channelBinding :: bytes
  se_sas :: u32
  se_msgIndex :: u8
  se_negotiated :: Negotiated
  se_helloSent :: bool
  se_greetSent :: bool

definition PeerIdentity0 :: PeerIdentity where
  "PeerIdentity0 = \<lparr>pi_identityKey = replicate kDhLen 0, pi_noiseKey = replicate kDhLen 0, pi_binding = replicate kSigLen 0\<rparr>"

definition SecureSession0 :: "'s SecureSession" where
  "SecureSession0 =
     \<lparr>se_stream = None, se_record = RecordLayer_new PlainCipher, se_cfg = Config0, se_state = Idle,
      se_trust = Unknown, se_grants = 0, se_why = [], se_ourPreamble = [], se_theirPreamble = [],
      se_pattern = XX, se_hs = HandshakeState0, se_peer = PeerIdentity0,
      se_channelBinding = replicate kHashLen 0, se_sas = 0, se_msgIndex = 0, se_negotiated = Negotiated0,
      se_helloSent = False, se_greetSent = False\<rparr>"

section \<open>Helpers\<close>

definition messageCount :: "NoisePattern \<Rightarrow> nat" where
  "messageCount p = (if p = IK then 2 else 3)"

definition carriesIdentity :: "NoisePattern \<Rightarrow> u8 \<Rightarrow> bool" where
  "carriesIdentity p i = (if p = IK then i = 0 \<or> i = 1 else i = 1 \<or> i = 2)"

definition buildPrologue :: "bytes \<Rightarrow> bytes \<Rightarrow> bytes" where
  "buildPrologue initiatorPreamble responderPreamble = initiatorPreamble @ responderPreamble"

definition fail :: "Status \<Rightarrow> string \<Rightarrow> 's SecureSession \<Rightarrow> Status \<times> 's SecureSession" where
  "fail st why s = (st, s\<lparr>se_state := Failed, se_why := why, se_trust := Unknown\<rparr>)"

text \<open>The record layer's operations on the session's stream.\<close>

definition ioFor :: "'s Platform \<Rightarrow> 's SecureSession \<Rightarrow> (SessionCipher, 's) LinkIo" where
  "ioFor pf s = \<lparr>io_cipher = sessionCipher (cr_aead (pf_crypto pf)) (rl_cipher (se_record s)),
     io_write = pf_write pf, io_read = pf_read pf\<rparr>"

definition se_link :: "'s SecureSession \<Rightarrow> (SessionCipher, 's) Link" where
  "se_link s = (se_record s, the (se_stream s))"

definition withLink :: "(SessionCipher, 's) Link \<Rightarrow> 's SecureSession \<Rightarrow> 's SecureSession" where
  "withLink l s = s\<lparr>se_record := fst l, se_stream := Some (snd l)\<rparr>"

definition seFlush :: "'s Platform \<Rightarrow> 's SecureSession \<Rightarrow> Status \<times> 's SecureSession" where
  "seFlush pf s = (let (st, l) = linkFlush (ioFor pf s) (se_link s) in (st, withLink l s))"

definition seSend :: "'s Platform \<Rightarrow> bytes \<Rightarrow> 's SecureSession \<Rightarrow> Status \<times> 's SecureSession" where
  "seSend pf rec s = (let (st, l) = linkSend (ioFor pf s) rec (se_link s) in (st, withLink l s))"

definition seReceive :: "'s Platform \<Rightarrow> 's SecureSession \<Rightarrow> Status \<times> bytes \<times> 's SecureSession" where
  "seReceive pf s = (let (st, rec, l) = linkReceive (ioFor pf s) (se_link s) in (st, rec, withLink l s))"

section \<open>Preamble\<close>

definition choosePattern :: "Config \<Rightarrow> NoisePattern" where
  "choosePattern cfg =
     (case cf_peers cfg of
        Some store \<Rightarrow> if cf_initiator cfg \<and> cf_hasExpectedPeer cfg \<and> ps_find store (cf_expectedPeer cfg) \<noteq> None
                      then IK else XX
      | None \<Rightarrow> XX)"

definition ourPreamble :: "NoisePattern \<Rightarrow> bytes" where
  "ourPreamble p =
     encodePreamble \<lparr>pre_wireMajor = kWireMajor, pre_wireMinor = kWireMinor,
       pre_flags = (if p = IK then kSecNoiseXX OR kSecNoiseIK else kSecNoiseXX)\<rparr> []"

definition se_begin :: "'s Platform \<Rightarrow> 's option \<Rightarrow> Config \<Rightarrow> 's SecureSession \<Rightarrow> Status \<times> 's SecureSession" where
  "se_begin pf stream cfg s =
     (if se_state s \<noteq> Idle then (BadArgument, s)
      else case stream of
        None \<Rightarrow> fail BadArgument ''no byte stream'' s
      | Some st \<Rightarrow>
          if cf_identity cfg = None then fail BadArgument ''no local identity'' s
          else
            let pattern = choosePattern cfg;
                pre = ourPreamble pattern;
                (ws, n, st') = pf_write pf pre st;
                s = s\<lparr>se_stream := Some st', se_cfg := cfg, se_pattern := pattern, se_ourPreamble := pre\<rparr>
            in if ws \<noteq> Ok \<or> n \<noteq> length pre then fail TransportLost ''could not send the preamble'' s
               else (Busy, s\<lparr>se_state := AwaitingPreamble\<rparr>))"

text \<open>One byte at a time, up to the size of the preamble.\<close>

function readPreambleLoop ::
    "(nat \<Rightarrow> 's \<Rightarrow> Status \<times> bytes \<times> 's) \<Rightarrow> bytes \<Rightarrow> 's \<Rightarrow> Status \<times> bytes \<times> 's" where
  "readPreambleLoop rd theirs st =
     (if length theirs < kPreambleSize then
        (case rd 1 st of
           (s, bs, st') \<Rightarrow>
             if s \<noteq> Ok then (TransportLost, theirs, st')
             else case bs of
               [] \<Rightarrow> (Busy, theirs, st')
             | b # _ \<Rightarrow> readPreambleLoop rd (theirs @ [b]) st')
      else (Ok, theirs, st))"
  by pat_completeness auto

termination readPreambleLoop
  by (relation "measure (\<lambda>(rd, theirs, st). kPreambleSize - length theirs)") auto

declare readPreambleLoop.simps [simp del]

definition startHandshake :: "'s Platform \<Rightarrow> 's SecureSession \<Rightarrow> Status \<times> 's SecureSession" where
  "startHandshake pf s =
     (let cfg = se_cfg s;
          prologue = (if cf_initiator cfg then buildPrologue (se_ourPreamble s) (se_theirPreamble s)
                      else buildPrologue (se_theirPreamble s) (se_ourPreamble s));
          hp = \<lparr>pa_pattern = se_pattern s, pa_initiator = cf_initiator cfg, pa_prologue = prologue,
                pa_localStatic = li_noiseSk (the (cf_identity cfg)), pa_remoteStatic = replicate kDhLen 0,
                pa_hasRemoteStatic = False\<rparr>;
          go = (\<lambda>hp. case hs_start (pf_crypto pf) hp (se_hs s) of
            (st, hs) \<Rightarrow>
              let s = s\<lparr>se_hs := hs\<rparr>
              in if st \<noteq> Ok then fail st ''could not start the handshake'' s
                 else (Ok, s\<lparr>se_record := RecordLayer_new PlainCipher, se_state := Handshaking\<rparr>))
      in if se_pattern s = IK \<and> cf_initiator cfg then
           (case cf_peers cfg of
              None \<Rightarrow> fail Internal ''IK chosen without a pinned peer'' s
            | Some store \<Rightarrow>
                if \<not> cf_hasExpectedPeer cfg then fail Internal ''IK chosen without a pinned peer'' s
                else case ps_find store (cf_expectedPeer cfg) of
                  None \<Rightarrow> fail Internal ''IK chosen but the pin vanished'' s
                | Some p \<Rightarrow> go (hp\<lparr>pa_remoteStatic := pp_noiseKey p, pa_hasRemoteStatic := True\<rparr>))
         else go hp)"

definition readPeerPreamble :: "'s Platform \<Rightarrow> 's SecureSession \<Rightarrow> Status \<times> 's SecureSession" where
  "readPeerPreamble pf s =
     (case readPreambleLoop (pf_read pf) (se_theirPreamble s) (the (se_stream s)) of
        (st, theirs, stream) \<Rightarrow>
          let s = s\<lparr>se_theirPreamble := theirs, se_stream := Some stream\<rparr>
          in if st \<noteq> Ok then (st, s)
             else case decodePreamble theirs of
               None \<Rightarrow> fail MalformedFrame ''the peer's preamble is not AirUSB'' s
             | Some p \<Rightarrow>
                 if pre_wireMajor p \<noteq> kWireMajor
                 then fail UnsupportedVersion
                        (''peer speaks wire major '' @ showNat (unat (pre_wireMajor p)) @ '', this build speaks ''
                          @ showNat (unat kWireMajor)) s
                 else if pre_flags p AND kSecNoiseXX = 0
                 then fail UnsupportedVersion ''peer did not offer Noise; SEC_NOISE_XX is mandatory on TCP'' s
                 else startHandshake pf
                   (if cf_initiator (se_cfg s) then s
                    else s\<lparr>se_pattern := (if pre_flags p AND kSecNoiseIK \<noteq> 0 then IK else XX)\<rparr>))"

section \<open>Greeting\<close>

definition helloBody :: "u8 \<Rightarrow> Config \<Rightarrow> bytes \<Rightarrow> Negotiated option \<Rightarrow> HelloBody" where
  "helloBody platform cfg channelBinding agreed =
     (let maxRecord = (case agreed of None \<Rightarrow> cf_negotiatedMaxRecordBytes cfg | Some n \<Rightarrow> ng_maxRecordBytes n)
      in \<lparr>hel_protoMin = kProtoVersionV1, hel_protoMax = kProtoVersionV1,
          hel_caps = (case agreed of None \<Rightarrow> cf_capabilities cfg OR kCapSegmentation
                      | Some n \<Rightarrow> ng_capabilities n),
          hel_maxTransfer = (case agreed of None \<Rightarrow> cf_maxTransferBytes cfg | Some n \<Rightarrow> ng_maxTransferBytes n),
          hel_maxRecord = maxRecord, hel_maxSegment = maxRecord, hel_maxIsoPackets = 0,
          hel_maxChannels = ucast kMaxChannels, hel_maxLinks = 1,
          hel_keepaliveMs = (case agreed of None \<Rightarrow> cf_keepaliveMs cfg | Some n \<Rightarrow> ng_keepaliveMs n),
          hel_platformId = platform, hel_roleBits = cf_roleBits cfg, hel_reserved = 0,
          hel_sessionId = take kSessionIdBytes channelBinding\<rparr>)"

definition helloRecord :: "Type \<Rightarrow> HelloBody \<Rightarrow> bytes" where
  "helloRecord ty b =
     (let body = encodeHello b []
      in encodeHeader (Header0\<lparr>h_type := typeCode ty, h_flags := kFlagSegFirst,
           h_bodyLen := of_nat (length body), h_totalLen := 0\<rparr>) [] @ body)"

definition sendHello :: "'s Platform \<Rightarrow> Type \<Rightarrow> Negotiated option \<Rightarrow> 's SecureSession \<Rightarrow> Status \<times> 's SecureSession" where
  "sendHello pf ty agreed s =
     (case seSend pf (helloRecord ty (helloBody (pf_platformId pf) (se_cfg s) (se_channelBinding s) agreed)) s of
        (st, s) \<Rightarrow> if st \<noteq> Ok then (st, s) else seFlush pf s)"

definition applyNegotiated :: "'s SecureSession \<Rightarrow> Status \<times> 's SecureSession" where
  "applyNegotiated s =
     (case adoptRecordSize (ng_maxRecordBytes (se_negotiated s)) (se_record s) of
        (st, rl) \<Rightarrow>
          let s = s\<lparr>se_record := rl\<rparr>
          in if st \<noteq> Ok then fail st ''the agreed record size is not one this build can use'' s
             else (Ok, s\<lparr>se_state := Established\<rparr>))"

text \<open>The checks on a greeting that was received: the refusal, or the peer's HELLO.\<close>

definition checkGreeting :: "Config \<Rightarrow> bytes \<Rightarrow> bytes \<Rightarrow> (Status \<times> string) + HelloBody" where
  "checkGreeting cfg channelBinding rec =
     (case decodeHeader rec of
        None \<Rightarrow> Inl (MalformedFrame, ''unparseable greeting'')
      | Some hdr \<Rightarrow>
          if length rec - kHeaderSize < unat (h_bodyLen hdr)
          then Inl (MalformedFrame, ''greeting shorter than declared'')
          else if h_type hdr \<noteq> typeCode (if cf_initiator cfg then T_HelloOk else T_Hello)
          then Inl (MalformedFrame, ''the peer said something other than hello'')
          else case decodeHello (subspan rec kHeaderSize (unat (h_bodyLen hdr))) of
            None \<Rightarrow> Inl (MalformedFrame, ''malformed HELLO'')
          | Some peer \<Rightarrow>
              if hel_protoMax peer < kProtoVersionV1 \<or> hel_protoMin peer > kProtoVersionV1
              then Inl (UnsupportedVersion, ''the other machine speaks a different version of this protocol'')
              else if hel_sessionId peer \<noteq> take kSessionIdBytes channelBinding
              then Inl (AuthFailed, ''the greeting does not belong to this session'')
              else if hel_caps peer AND kCapSegmentation = 0
              then Inl (UnsupportedVersion,
                ''the other machine cannot split large transfers, so it cannot carry a real USB device'')
              else if hel_maxRecord peer < kRecordBytesFloor \<or> hel_maxRecord peer > kRecordBytesCeiling
              then Inl (LimitExceeded, ''the peer proposed an illegal record size'')
              else Inr peer)"

text \<open>The initiator adopts the answer; the responder takes minima and the common capabilities.\<close>

definition negotiate :: "Config \<Rightarrow> HelloBody \<Rightarrow> Negotiated" where
  "negotiate cfg peer =
     (if cf_initiator cfg then
        \<lparr>ng_maxRecordBytes = hel_maxRecord peer, ng_maxTransferBytes = hel_maxTransfer peer,
         ng_capabilities = hel_caps peer, ng_keepaliveMs = hel_keepaliveMs peer,
         ng_peerRoleBits = hel_roleBits peer, ng_peerPlatform = hel_platformId peer\<rparr>
      else
        \<lparr>ng_maxRecordBytes = min (cf_negotiatedMaxRecordBytes cfg) (hel_maxRecord peer),
         ng_maxTransferBytes = min (cf_maxTransferBytes cfg) (hel_maxTransfer peer),
         ng_capabilities = (cf_capabilities cfg OR kCapSegmentation) AND hel_caps peer,
         ng_keepaliveMs = min (cf_keepaliveMs cfg) (hel_keepaliveMs peer),
         ng_peerRoleBits = hel_roleBits peer, ng_peerPlatform = hel_platformId peer\<rparr>)"

definition greeted :: "'s Platform \<Rightarrow> bytes \<Rightarrow> 's SecureSession \<Rightarrow> Status \<times> 's SecureSession" where
  "greeted pf rec s =
     (case checkGreeting (se_cfg s) (se_channelBinding s) rec of
        Inl (st, why) \<Rightarrow> fail st why s
      | Inr peer \<Rightarrow>
          let s = s\<lparr>se_negotiated := negotiate (se_cfg s) peer\<rparr>
          in if cf_initiator (se_cfg s) then applyNegotiated s
             else case sendHello pf T_HelloOk (Some (se_negotiated s)) s of
               (st, s) \<Rightarrow>
                 if st \<noteq> Ok then fail st ''could not send HELLO_OK'' s
                 else
                   let s = s\<lparr>se_greetSent := True\<rparr>
                   in if pendingTxBytes (se_record s) \<noteq> 0 then (Busy, s) else applyNegotiated s)"

definition awaitGreeting :: "'s Platform \<Rightarrow> 's SecureSession \<Rightarrow> Status \<times> 's SecureSession" where
  "awaitGreeting pf s =
     (if se_greetSent s then
        (if pendingTxBytes (se_record s) \<noteq> 0 then (Busy, s) else applyNegotiated s)
      else case seReceive pf s of
        (r, rec, s) \<Rightarrow>
          if r = Busy then (Busy, s)
          else if r \<noteq> Ok then fail r ''the peer did not complete the greeting'' s
          else if rec = [] then (Busy, s)
          else greeted pf rec s)"

definition driveGreeting :: "'s Platform \<Rightarrow> 's SecureSession \<Rightarrow> Status \<times> 's SecureSession" where
  "driveGreeting pf s =
     (case (if pendingTxBytes (se_record s) \<noteq> 0 then seFlush pf s else (Ok, s)) of
        (st, s) \<Rightarrow>
          if st \<noteq> Ok then fail st ''could not finish sending the greeting'' s
          else if cf_initiator (se_cfg s) \<and> \<not> se_helloSent s then
            (case sendHello pf T_Hello None s of
               (st, s) \<Rightarrow>
                 if st \<noteq> Ok then fail st ''could not send HELLO'' s
                 else awaitGreeting pf (s\<lparr>se_helloSent := True\<rparr>))
          else awaitGreeting pf s)"

section \<open>Handshake\<close>

definition trustOf :: "PeerStore option \<Rightarrow> bytes \<Rightarrow> Trust \<times> u32" where
  "trustOf stores identityKey =
     (case stores of
        None \<Rightarrow> (Unpaired, 0)
      | Some store \<Rightarrow>
          (case ps_find store identityKey of None \<Rightarrow> (Unpaired, 0) | Some p \<Rightarrow> (Paired, pp_grants p)))"

definition finish :: "'s Platform \<Rightarrow> 's SecureSession \<Rightarrow> Status \<times> 's SecureSession" where
  "finish pf s =
     (if \<not> hs_complete (se_hs s) then fail Internal ''handshake ended incomplete'' s
      else if pi_identityKey (se_peer s) = replicate kDhLen 0
      then fail AuthFailed ''the peer never presented an identity'' s
      else
        let cb = handshakeHash (se_hs s);
            s = s\<lparr>se_channelBinding := cb, se_sas := sasDigits (pf_crypto pf) cb\<rparr>
        in case hs_split (pf_crypto pf) (se_hs s) of
          (st, send, recv, hs) \<Rightarrow>
            let s = s\<lparr>se_hs := hs\<rparr>
            in if st \<noteq> Ok then fail st ''could not derive transport keys'' s
               else case adoptCipher (Some (KeyedCipher (NoiseCipher_new send recv kRekeyInterval)))
                           kHandshakeRecordMax (se_record s) of
                 (st, rl) \<Rightarrow>
                   let s = s\<lparr>se_record := rl\<rparr>
                   in if st \<noteq> Ok then fail st ''could not install the transport cipher'' s
                      else
                        let (trust, grants) = trustOf (cf_peers (se_cfg s)) (pi_identityKey (se_peer s))
                        in driveGreeting pf (s\<lparr>se_trust := trust, se_grants := grants, se_state := Greeting\<rparr>))"

text \<open>
  One turn of the loop of \<open>driveHandshake\<close>: a message written or read.  \<open>Some st\<close> is a return with
  \<open>st\<close>, \<open>None\<close> goes on with the next message.
\<close>

definition writeTurn :: "'s Platform \<Rightarrow> 's SecureSession \<Rightarrow> Status option \<times> 's SecureSession" where
  "writeTurn pf s =
     (let payload = (if carriesIdentity (se_pattern s) (se_msgIndex s)
                     then encodeIdentityPayload (the (cf_identity (se_cfg s))) [] else [])
      in case writeMessage (pf_crypto pf) (pf_fresh pf) payload [] (se_hs s) of
        (st, msg, hs) \<Rightarrow>
          let s = s\<lparr>se_hs := hs\<rparr>
          in if st \<noteq> Ok
             then map_prod Some (\<lambda>x. x) (fail st (''could not write handshake message '' @ showNat (unat (se_msgIndex s))) s)
             else case seSend pf msg s of
               (st, s) \<Rightarrow>
                 if st \<noteq> Ok then map_prod Some (\<lambda>x. x) (fail st ''could not queue handshake message'' s)
                 else case seFlush pf s of
                   (st, s) \<Rightarrow>
                     if st \<noteq> Ok then map_prod Some (\<lambda>x. x) (fail st ''could not send handshake message'' s)
                     else (None, s))"

definition readTurn :: "'s Platform \<Rightarrow> 's SecureSession \<Rightarrow> Status option \<times> 's SecureSession" where
  "readTurn pf s =
     (case seReceive pf s of
        (r, msg, s) \<Rightarrow>
          if r = Ok \<and> msg = [] then (Some Busy, s)
          else if r = Busy then (Some Busy, s)
          else if r \<noteq> Ok then map_prod Some (\<lambda>x. x) (fail r ''could not read handshake message'' s)
          else case readMessage (pf_crypto pf) msg (se_hs s) of
            (st, payload, hs) \<Rightarrow>
              let s = s\<lparr>se_hs := hs\<rparr>
              in if st \<noteq> Ok
                 then map_prod Some (\<lambda>x. x)
                   (fail st (''handshake message '' @ showNat (unat (se_msgIndex s)) @ '' did not authenticate'') s)
                 else if carriesIdentity (se_pattern s) (se_msgIndex s) then
                   (if \<not> hs_haveRs hs
                    then map_prod Some (\<lambda>x. x) (fail Internal ''no remote static after an identity message'' s)
                    else case decodeAndVerifyIdentityPayload (pf_crypto pf) payload (hs_rs hs) of
                      None \<Rightarrow> map_prod Some (\<lambda>x. x)
                        (fail AuthFailed ''the peer's identity does not bind to the key it used'' s)
                    | Some peer \<Rightarrow> (None, s\<lparr>se_peer := peer\<rparr>))
                 else (None, s))"

function handshakeLoop :: "'s Platform \<Rightarrow> NoisePattern \<Rightarrow> 's SecureSession \<Rightarrow> Status option \<times> 's SecureSession" where
  "handshakeLoop pf p s =
     (if unat (se_msgIndex s) < messageCount p then
        (case (if (unat (se_msgIndex s) mod 2 = 0) = cf_initiator (se_cfg s) then writeTurn pf s else readTurn pf s) of
           (Some st, s') \<Rightarrow> (Some st, s')
         | (None, s') \<Rightarrow> handshakeLoop pf p (s'\<lparr>se_msgIndex := se_msgIndex s + 1\<rparr>))
      else (None, s))"
  by pat_completeness auto

termination handshakeLoop
proof (relation "measure (\<lambda>(pf, p, s). messageCount p - unat (se_msgIndex s))")
  fix p and s :: "'s SecureSession"
  assume "unat (se_msgIndex s) < messageCount p"
  then have "unat (se_msgIndex s) + 1 < 256" by (auto simp: messageCount_def split: if_splits)
  then have "unat (se_msgIndex s + 1) = unat (se_msgIndex s) + 1" by (simp add: unat_word_ariths)
  then show "((pf, p, s'\<lparr>se_msgIndex := se_msgIndex s + 1\<rparr>), pf, p, s)
      \<in> measure (\<lambda>(pf, p, s). messageCount p - unat (se_msgIndex s))" for pf :: "'s Platform" and s'
    using \<open>unat (se_msgIndex s) < messageCount p\<close> by simp
qed simp

declare handshakeLoop.simps [simp del]

definition driveHandshake :: "'s Platform \<Rightarrow> 's SecureSession \<Rightarrow> Status \<times> 's SecureSession" where
  "driveHandshake pf s =
     (case (if pendingTxBytes (se_record s) \<noteq> 0 then seFlush pf s else (Ok, s)) of
        (st, s) \<Rightarrow>
          if st \<noteq> Ok then fail st ''could not finish sending a handshake message'' s
          else case handshakeLoop pf (se_pattern s) s of
            (Some st, s) \<Rightarrow> (st, s)
          | (None, s) \<Rightarrow> if pendingTxBytes (se_record s) \<noteq> 0 then (Busy, s) else finish pf s)"

section \<open>The driver\<close>

definition se_pump :: "'s Platform \<Rightarrow> 's SecureSession \<Rightarrow> Status \<times> 's SecureSession" where
  "se_pump pf s =
     (case se_state s of
        Idle \<Rightarrow> (BadArgument, s)
      | AwaitingPreamble \<Rightarrow>
          (case readPeerPreamble pf s of
             (st, s) \<Rightarrow> if st \<noteq> Ok then (st, s) else driveHandshake pf s)
      | Handshaking \<Rightarrow> driveHandshake pf s
      | Greeting \<Rightarrow> driveGreeting pf s
      | Established \<Rightarrow> (Ok, s)
      | Failed \<Rightarrow> (AuthFailed, s))"

text \<open>What the layer above sees of the session.\<close>

definition securePeer :: "'s SecureSession \<Rightarrow> SecurePeer" where
  "securePeer s = \<lparr>sp_trust = se_trust s, sp_grants = se_grants s, sp_identityKey = pi_identityKey (se_peer s)\<rparr>"

end
