(* ===== verification/SessionSafety.thy ===== *)
theory SessionSafety
  imports SecureSession
begin

text \<open>
  What an established session guarantees whatever the peer and the network do: the invariant of
  \<open>SecureSession::pump\<close> over every sequence of pumps and arbitrary changes of the byte stream.
\<close>

section \<open>The cipher stays installed\<close>

fun keyed :: "SessionCipher \<Rightarrow> bool" where
  "keyed PlainCipher = False"
| "keyed (KeyedCipher c) = True"

lemma sessionSeal_keyed: "sessionSeal P b c = (st, ct, c') \<Longrightarrow> keyed c' = keyed c"
  by (cases c) (auto split: prod.splits)

lemma sessionOpen_keyed: "sessionOpen P b c = (st, pt, c') \<Longrightarrow> keyed c' = keyed c"
  by (cases c) (auto split: prod.splits)

lemma flush_cipher: "flush wr rl s = (st, rl', s') \<Longrightarrow> rl_cipher rl' = rl_cipher rl"
  by (auto simp: flush_def Let_def split: prod.splits if_splits)

lemma tryRecord_keyed:
  "tryRecord (sessionCipher P c0) rl = Some (st, out, rl') \<Longrightarrow> keyed (rl_cipher rl') = keyed (rl_cipher rl)"
  by (auto simp: tryRecord_def sessionCipher_def Let_def dest: sessionOpen_keyed split: if_splits prod.splits)

lemma receiveLoop_keyed:
  "receiveLoop (sessionCipher P c0) rd rl s = (st, out, rl', s') \<Longrightarrow> keyed (rl_cipher rl') = keyed (rl_cipher rl)"
proof (induction "sessionCipher P c0" rd rl s arbitrary: st out rl' s' rule: receiveLoop.induct)
  case (1 rd rl s)
  show ?case
  proof (cases "tryRecord (sessionCipher P c0) rl")
    case (Some r)
    then show ?thesis using "1.prems" tryRecord_keyed
      by (cases r) (auto simp: receiveLoop.simps [of _ rd rl s])
  next
    case None
    obtain ts d s1 where r: "rd rxChunk s = (ts, d, s1)" by (rule prod_cases3)
    show ?thesis
      using "1.prems" "1.hyps" [OF None r [symmetric] refl refl] None r
      by (auto simp: receiveLoop.simps [of _ rd rl s] Let_def split: if_splits)
  qed
qed

text \<open>Sending, flushing and receiving touch the stream and the record layer only.\<close>

definition sameSession :: "'s SecureSession \<Rightarrow> 's SecureSession \<Rightarrow> bool" where
  "sameSession s s' \<longleftrightarrow>
     (\<exists>rl st. s' = s\<lparr>se_record := rl, se_stream := st\<rparr> \<and> keyed (rl_cipher rl) = keyed (rl_cipher (se_record s))
        \<and> rl_maxRecord rl = rl_maxRecord (se_record s))"

lemma sameSessionI:
  "\<lbrakk>keyed (rl_cipher (fst l)) = keyed (rl_cipher (se_record s)); rl_maxRecord (fst l) = rl_maxRecord (se_record s)\<rbrakk> \<Longrightarrow>
    sameSession s (withLink l s)"
  unfolding sameSession_def withLink_def by (intro exI [of _ "fst l"] exI [of _ "Some (snd l)"]) simp

lemma seFlush_same: "seFlush pf s = (st, s') \<Longrightarrow> sameSession s s'"
  using linkFlush_maxRecord [of "ioFor pf s" "se_link s"]
  by (auto simp: seFlush_def linkFlush_def se_link_def dest: flush_cipher intro!: sameSessionI split: prod.splits)

lemma sendRecord_keyed:
  "sendRecord (sessionCipher P c0) wr b rl s = (st, rl', s') \<Longrightarrow> keyed (rl_cipher rl') = keyed (rl_cipher rl)"
  by (auto simp: sendRecord_def sessionCipher_def Let_def dest!: sessionSeal_keyed flush_cipher split: if_splits prod.splits)

lemma seSend_same: "seSend pf rec s = (st, s') \<Longrightarrow> sameSession s s'"
  using linkSend_maxRecord [of "ioFor pf s" rec "se_link s"]
  by (auto simp: seSend_def linkSend_def se_link_def ioFor_def dest: sendRecord_keyed intro!: sameSessionI
      split: prod.splits)

lemma seReceive_same: "seReceive pf s = (st, rec, s') \<Longrightarrow> sameSession s s'"
  using linkReceive_maxRecord [of "ioFor pf s" "se_link s"]
  by (auto simp: seReceive_def linkReceive_def receiveRecord_def se_link_def ioFor_def dest: receiveLoop_keyed
      intro!: sameSessionI split: prod.splits if_splits)

lemma sameSession_refl [simp]: "sameSession s s"
  unfolding sameSession_def by (intro exI [of _ "se_record s"] exI [of _ "se_stream s"]) simp

lemma sameSession_trans: "\<lbrakk>sameSession s s'; sameSession s' s''\<rbrakk> \<Longrightarrow> sameSession s s''"
proof -
  assume "sameSession s s'" "sameSession s' s''"
  then obtain rl st rl' st' where "s' = s\<lparr>se_record := rl, se_stream := st\<rparr>"
      "keyed (rl_cipher rl) = keyed (rl_cipher (se_record s))" "rl_maxRecord rl = rl_maxRecord (se_record s)"
      "s'' = s'\<lparr>se_record := rl', se_stream := st'\<rparr>"
      "keyed (rl_cipher rl') = keyed (rl_cipher (se_record s'))" "rl_maxRecord rl' = rl_maxRecord (se_record s')"
    unfolding sameSession_def by blast
  then show "sameSession s s''" unfolding sameSession_def by (intro exI [of _ rl'] exI [of _ st']) simp
qed

lemma sameSessionD:
  assumes "sameSession s s'"
  shows "se_cfg s' = se_cfg s" "se_state s' = se_state s" "se_trust s' = se_trust s" "se_grants s' = se_grants s"
    "se_pattern s' = se_pattern s" "se_hs s' = se_hs s" "se_peer s' = se_peer s" "se_msgIndex s' = se_msgIndex s"
    "se_channelBinding s' = se_channelBinding s" "se_sas s' = se_sas s" "se_negotiated s' = se_negotiated s"
    "se_helloSent s' = se_helloSent s" "se_greetSent s' = se_greetSent s"
    "keyed (rl_cipher (se_record s')) = keyed (rl_cipher (se_record s))"
    "rl_maxRecord (se_record s') = rl_maxRecord (se_record s)"
  using assms by (auto simp: sameSession_def)

section \<open>The invariant\<close>

text \<open>No message is left to be read from the peer: what is left is ours to write.\<close>

definition readsDone :: "'s SecureSession \<Rightarrow> bool" where
  "readsDone s \<longleftrightarrow> (\<forall>k. unat (se_msgIndex s) \<le> k \<and> k < messageCount (se_pattern s) \<longrightarrow> even k = cf_initiator (se_cfg s))"

text \<open>The peer's identity, once presented, is one that signed the static key of this handshake.\<close>

definition peerBound :: "Crypto \<Rightarrow> 's SecureSession \<Rightarrow> bool" where
  "peerBound C s \<longleftrightarrow> verifyBinding C (se_peer s) \<and> pi_noiseKey (se_peer s) = hs_rs (se_hs s)"

definition peerOk :: "Crypto \<Rightarrow> 's SecureSession \<Rightarrow> bool" where
  "peerOk C s \<longleftrightarrow> se_peer s = PeerIdentity0 \<or> (peerBound C s \<and> readsDone s)"

definition gaveUp :: "'s SecureSession \<Rightarrow> bool" where
  "gaveUp s \<longleftrightarrow> se_state s = Failed \<and> se_trust s = Unknown"

definition handshaking :: "Crypto \<Rightarrow> Config \<Rightarrow> 's SecureSession \<Rightarrow> bool" where
  "handshaking C cfg s \<longleftrightarrow>
     se_state s = Handshaking \<and> se_cfg s = cfg \<and> se_trust s = Unknown \<and> \<not> se_greetSent s \<and> peerOk C s"

definition secured :: "Crypto \<Rightarrow> Config \<Rightarrow> 's SecureSession \<Rightarrow> bool" where
  "secured C cfg s \<longleftrightarrow>
     se_cfg s = cfg \<and> hs_complete (se_hs s) \<and> peerBound C s \<and> pi_identityKey (se_peer s) \<noteq> replicate kDhLen 0
     \<and> se_channelBinding s = handshakeHash (se_hs s)
     \<and> (se_trust s, se_grants s) = trustOf (cf_peers cfg) (pi_identityKey (se_peer s))
     \<and> keyed (rl_cipher (se_record s))
     \<and> (se_greetSent s \<longrightarrow> ng_capabilities (se_negotiated s) AND kCapSegmentation \<noteq> 0)"

definition agreedLimits :: "'s SecureSession \<Rightarrow> bool" where
  "agreedLimits s \<longleftrightarrow>
     rl_maxRecord (se_record s) = ng_maxRecordBytes (se_negotiated s)
     \<and> kRecordBytesFloor \<le> ng_maxRecordBytes (se_negotiated s) \<and> ng_maxRecordBytes (se_negotiated s) \<le> kRecordBytesCeiling
     \<and> ng_capabilities (se_negotiated s) AND kCapSegmentation \<noteq> 0"

fun secInv :: "Crypto \<Rightarrow> Config \<Rightarrow> SessionState \<Rightarrow> 's SecureSession \<Rightarrow> bool" where
  "secInv C cfg Idle s = False"
| "secInv C cfg AwaitingPreamble s =
     (se_cfg s = cfg \<and> se_trust s = Unknown \<and> \<not> se_greetSent s \<and> se_peer s = PeerIdentity0)"
| "secInv C cfg Handshaking s = handshaking C cfg s"
| "secInv C cfg Greeting s = secured C cfg s"
| "secInv C cfg Established s = (secured C cfg s \<and> agreedLimits s)"
| "secInv C cfg Failed s = (se_trust s = Unknown)"

definition sessionInv :: "Crypto \<Rightarrow> Config \<Rightarrow> 's SecureSession \<Rightarrow> bool" where
  "sessionInv C cfg s \<longleftrightarrow> secInv C cfg (se_state s) s"

lemma fail_gaveUp [simp]: "gaveUp (snd (fail st why s))"
  by (simp add: gaveUp_def fail_def)

lemma gaveUp_inv: "gaveUp s \<Longrightarrow> sessionInv C cfg s"
  by (simp add: gaveUp_def sessionInv_def)

lemma fail_inv: "fail st why s = (r, s') \<Longrightarrow> sessionInv C cfg s'"
  using fail_gaveUp [of st why s] gaveUp_inv by (metis snd_conv)

lemma same_secured: "\<lbrakk>sameSession s s'; secured C cfg s\<rbrakk> \<Longrightarrow> secured C cfg s'"
  by (simp add: secured_def peerBound_def sameSessionD)

lemma same_handshaking: "\<lbrakk>sameSession s s'; handshaking C cfg s\<rbrakk> \<Longrightarrow> handshaking C cfg s'"
  by (auto simp: handshaking_def peerOk_def peerBound_def readsDone_def sameSessionD)

section \<open>Greeting\<close>

lemma checkGreeting_accepts:
  "checkGreeting cfg cb rec = Inr peer \<Longrightarrow> hel_caps peer AND kCapSegmentation \<noteq> 0
    \<and> kRecordBytesFloor \<le> hel_maxRecord peer \<and> hel_maxRecord peer \<le> kRecordBytesCeiling"
  by (auto simp: checkGreeting_def not_less split: option.splits if_splits)

lemma common_mask: "((a OR m) AND c) AND m = c AND (m :: 'a :: len word)"
  by (rule bit_word_eqI) (auto simp: bit_simps)

lemma segmentation_agreed:
  "hel_caps peer AND kCapSegmentation \<noteq> 0 \<Longrightarrow> ng_capabilities (negotiate cfg peer) AND kCapSegmentation \<noteq> 0"
  by (simp add: negotiate_def common_mask)

lemma applyNegotiated_inv:
  assumes "applyNegotiated s = (st, s')" "secured C cfg s"
    and "ng_capabilities (se_negotiated s) AND kCapSegmentation \<noteq> 0"
  shows "sessionInv C cfg s'"
  using assms
  by (auto simp: applyNegotiated_def adoptRecordSize_def sessionInv_def secured_def peerBound_def agreedLimits_def
      fail_def not_less split: if_splits prod.splits)

lemma sendHello_same: "sendHello pf ty ag s = (st, s') \<Longrightarrow> sameSession s s'"
  unfolding sendHello_def
  by (auto split: prod.splits if_splits dest: seSend_same intro: sameSession_trans [OF seSend_same seFlush_same])

lemma sameSession_caps:
  "\<lbrakk>sameSession s s'; ng_capabilities (se_negotiated s) AND kCapSegmentation \<noteq> 0; secured C cfg s\<rbrakk> \<Longrightarrow>
    secured C cfg (s'\<lparr>se_greetSent := True\<rparr>)"
  using same_secured [of s s' C cfg] by (auto simp: secured_def peerBound_def sameSessionD)


lemma greeted_inv:
  assumes "greeted pf rec s = (st, s')" "secured C cfg s" "se_state s = Greeting"
  shows "sessionInv C cfg s'"
proof (cases "checkGreeting (se_cfg s) (se_channelBinding s) rec")
  case (Inl e)
  then show ?thesis using assms(1) by (cases e) (auto simp: greeted_def intro: fail_inv)
next
  case (Inr peer)
  let ?s = "s\<lparr>se_negotiated := negotiate (se_cfg s) peer\<rparr>"
  have seg: "ng_capabilities (negotiate (se_cfg s) peer) AND kCapSegmentation \<noteq> 0"
    by (rule segmentation_agreed) (use checkGreeting_accepts [OF Inr] in blast)
  with assms(2) have sec: "secured C cfg ?s" "ng_capabilities (se_negotiated ?s) AND kCapSegmentation \<noteq> 0"
    by (auto simp: secured_def peerBound_def)
  show ?thesis
  proof (cases "cf_initiator (se_cfg s)")
    case True
    then show ?thesis using assms(1) Inr applyNegotiated_inv [OF _ sec] by (simp add: greeted_def)
  next
    case False
    obtain st1 s1 where h: "sendHello pf T_HelloOk (Some (se_negotiated ?s)) ?s = (st1, s1)" by (rule prod.exhaust)
    note same = sendHello_same [OF h]
    have sec1: "secured C cfg (s1\<lparr>se_greetSent := True\<rparr>)" by (rule sameSession_caps [OF same sec(2,1)])
    have caps1: "ng_capabilities (se_negotiated (s1\<lparr>se_greetSent := True\<rparr>)) AND kCapSegmentation \<noteq> 0"
      using sec(2) sameSessionD(11) [OF same] by simp
    have st1: "se_state (s1\<lparr>se_greetSent := True\<rparr>) = Greeting" using sameSessionD(2) [OF same] assms(3) by simp
    then have busy: "sessionInv C cfg (s1\<lparr>se_greetSent := True\<rparr>)" using sec1 by (simp add: sessionInv_def)
    show ?thesis
      using assms(1) Inr False h
      by (auto simp: greeted_def Let_def split: if_splits
          intro: fail_inv busy applyNegotiated_inv [OF _ sec1 caps1])
  qed
qed


lemma greeting_inv: "\<lbrakk>secured C cfg s; se_state s = Greeting\<rbrakk> \<Longrightarrow> sessionInv C cfg s"
  by (simp add: sessionInv_def)

lemma awaitGreeting_inv:
  assumes "awaitGreeting pf s = (st, s')" "secured C cfg s" "se_state s = Greeting"
  shows "sessionInv C cfg s'"
proof (cases "se_greetSent s")
  case True
  then have "ng_capabilities (se_negotiated s) AND kCapSegmentation \<noteq> 0" using assms(2) by (simp add: secured_def)
  from applyNegotiated_inv [OF _ assms(2) this] show ?thesis
    using assms True greeting_inv by (auto simp: awaitGreeting_def split: if_splits)
next
  case False
  obtain r rec s1 where x: "seReceive pf s = (r, rec, s1)" by (rule prod_cases3)
  note same = seReceive_same [OF x]
  have sec: "secured C cfg s1" "se_state s1 = Greeting"
    using same_secured [OF same assms(2)] sameSessionD(2) [OF same] assms(3) by simp_all
  show ?thesis
    using assms(1) False x greeting_inv [OF sec]
    by (auto simp: awaitGreeting_def split: if_splits intro: fail_inv greeted_inv [OF _ sec])
qed

lemma driveGreeting_inv:
  assumes "driveGreeting pf s = (st, s')" "secured C cfg s" "se_state s = Greeting"
  shows "sessionInv C cfg s'"
proof -
  obtain st1 s1 where f: "(if pendingTxBytes (se_record s) \<noteq> 0 then seFlush pf s else (Ok, s)) = (st1, s1)"
    by (rule prod.exhaust)
  then have same: "sameSession s s1" by (auto split: if_splits dest: seFlush_same)
  have sec: "secured C cfg s1" "se_state s1 = Greeting"
    using same_secured [OF same assms(2)] sameSessionD(2) [OF same] assms(3) by simp_all
  obtain st2 s2 where h: "sendHello pf T_Hello None s1 = (st2, s2)" by (rule prod.exhaust)
  note same2 = sendHello_same [OF h]
  have sec2: "secured C cfg (s2\<lparr>se_helloSent := True\<rparr>)" "se_state (s2\<lparr>se_helloSent := True\<rparr>) = Greeting"
    using same_secured [OF same2 sec(1)] sameSessionD(2) [OF same2] sec(2) by (simp_all add: secured_def peerBound_def)
  show ?thesis
    using assms(1) f h
    by (auto simp: driveGreeting_def split: if_splits
        intro: fail_inv awaitGreeting_inv [OF _ sec] awaitGreeting_inv [OF _ sec2])
qed

section \<open>Handshake\<close>

text \<open>Writing never changes what is known of the peer.\<close>

lemma dhToken_rs: "dhToken C t hs = (st, hs') \<Longrightarrow> hs_rs hs' = hs_rs hs"
  by (cases t) (auto simp: mixDh_def split: if_splits option.splits)

lemma writeToken_rs: "writeToken C fresh t out hs = (st, out', hs') \<Longrightarrow> hs_rs hs' = hs_rs hs"
  by (cases t) (auto simp: Let_def mixDh_def split: prod.splits if_splits option.splits)

lemma writeTokens_rs: "writeTokens C fresh ts out hs = (st, out', hs') \<Longrightarrow> hs_rs hs' = hs_rs hs"
  by (induction ts arbitrary: out hs) (auto dest: writeToken_rs split: prod.splits if_splits)

lemma writeMessage_rs: "writeMessage C fresh payload out hs = (st, out', hs') \<Longrightarrow> hs_rs hs' = hs_rs hs"
  by (auto simp: writeMessage_def Let_def advance_def dest: writeTokens_rs split: prod.splits if_splits)

lemma writeTurn_inv:
  assumes "writeTurn pf s = (r, s')" "handshaking C cfg s"
  shows "(case r of None \<Rightarrow> handshaking C cfg s' \<and> se_msgIndex s' = se_msgIndex s \<and> se_pattern s' = se_pattern s
    | Some st \<Rightarrow> gaveUp s')"
proof -
  obtain payload st hs msg where w: "writeMessage (pf_crypto pf) (pf_fresh pf) payload [] (se_hs s) = (st, msg, hs)"
    and p: "payload = (if carriesIdentity (se_pattern s) (se_msgIndex s)
                     then encodeIdentityPayload (the (cf_identity (se_cfg s))) [] else [])"
    by (metis prod_cases3)
  have h: "handshaking C cfg (s\<lparr>se_hs := hs\<rparr>)"
    using assms(2) writeMessage_rs [OF w] by (auto simp: handshaking_def peerOk_def peerBound_def readsDone_def)
  obtain st1 s1 where s1: "seSend pf msg (s\<lparr>se_hs := hs\<rparr>) = (st1, s1)" by (rule prod.exhaust)
  obtain st2 s2 where s2: "seFlush pf s1 = (st2, s2)" by (rule prod.exhaust)
  note same = sameSession_trans [OF seSend_same [OF s1] seFlush_same [OF s2]]
  have "handshaking C cfg s2" "se_msgIndex s2 = se_msgIndex s" "se_pattern s2 = se_pattern s"
    using same_handshaking [OF same h] sameSessionD [OF same] by simp_all
  then show ?thesis
    using assms(1) w s1 s2 by (auto simp: writeTurn_def Let_def p [symmetric] gaveUp_def fail_def split: if_splits)
qed

lemma identity_last:
  assumes "carriesIdentity p i" "(unat i mod 2 = 0) \<noteq> ini" "unat i < k" "k < messageCount p"
  shows "even k = ini"
proof -
  from assms(4) consider "k = 0" | "k = 1" | "k = 2" "p = XX"
    by (cases p) (auto simp: messageCount_def split: if_splits, linarith+)
  then show ?thesis using assms by cases (auto simp: carriesIdentity_def split: if_splits)
qed

lemma readTurn_inv:
  assumes "readTurn pf s = (r, s')" "handshaking (pf_crypto pf) cfg s" "se_peer s = PeerIdentity0"
    and turn: "(unat (se_msgIndex s) mod 2 = 0) \<noteq> cf_initiator cfg" and idx: "unat (se_msgIndex s) < messageCount (se_pattern s)"
  shows "(case r of
      None \<Rightarrow> handshaking (pf_crypto pf) cfg (s'\<lparr>se_msgIndex := se_msgIndex s + 1\<rparr>) \<and> se_pattern s' = se_pattern s
    | Some st \<Rightarrow> gaveUp s' \<or> handshaking (pf_crypto pf) cfg s')"
proof -
  obtain rs msg s1 where x: "seReceive pf s = (rs, msg, s1)" by (rule prod_cases3)
  note same = seReceive_same [OF x]
  have h1: "handshaking (pf_crypto pf) cfg s1" "se_peer s1 = PeerIdentity0" "se_msgIndex s1 = se_msgIndex s"
    "se_pattern s1 = se_pattern s" "se_cfg s1 = cfg"
    using same_handshaking [OF same assms(2)] sameSessionD [OF same] assms(2,3) by (simp_all add: handshaking_def)
  obtain st payload hs where m: "readMessage (pf_crypto pf) msg (se_hs s1) = (st, payload, hs)" by (rule prod_cases3)
  have next_idx: "unat (se_msgIndex s + 1) = unat (se_msgIndex s) + 1"
    using idx by (simp add: unat_word_ariths messageCount_def split: if_splits)
  have plain: "handshaking (pf_crypto pf) cfg (s1\<lparr>se_hs := hs, se_msgIndex := se_msgIndex s + 1\<rparr>)"
    using h1 by (simp add: handshaking_def peerOk_def)
  have bound: "handshaking (pf_crypto pf) cfg (s1\<lparr>se_hs := hs, se_peer := peer, se_msgIndex := se_msgIndex s + 1\<rparr>)"
    if "carriesIdentity (se_pattern s) (se_msgIndex s)"
      and "decodeAndVerifyIdentityPayload (pf_crypto pf) payload (hs_rs hs) = Some peer" for peer
  proof -
    have "verifyBinding (pf_crypto pf) peer" "pi_noiseKey peer = hs_rs hs"
      using that(2) by (auto simp: decodeAndVerifyIdentityPayload_def Let_def split: if_splits)
    moreover have "even k = cf_initiator cfg" if "unat (se_msgIndex s) + 1 \<le> k" "k < messageCount (se_pattern s)" for k
      using identity_last [OF \<open>carriesIdentity _ _\<close> turn] that by simp
    ultimately show ?thesis
      using h1 next_idx by (auto simp: handshaking_def peerOk_def peerBound_def readsDone_def)
  qed
  show ?thesis
    using assms(1) x m h1 plain bound
    by (auto simp: readTurn_def Let_def gaveUp_def fail_def split: if_splits option.splits)
qed


lemma handshakeLoop_inv:
  assumes "handshakeLoop pf (se_pattern s) s = (r, s')" "handshaking (pf_crypto pf) cfg s"
  shows "gaveUp s' \<and> r \<noteq> None \<or> handshaking (pf_crypto pf) cfg s'"
  using assms
proof (induction pf "se_pattern s" s arbitrary: r s' rule: handshakeLoop.induct)
  case (1 pf s)
  note step = handshakeLoop.simps [of pf "se_pattern s" s]
  show ?case
  proof (cases "unat (se_msgIndex s) < messageCount (se_pattern s)")
    case False
    then show ?thesis using "1.prems" step by simp
  next
    case True
    have cfg: "se_cfg s = cfg" using "1.prems"(2) by (simp add: handshaking_def)
    let ?w = "(unat (se_msgIndex s) mod 2 = 0) = cf_initiator (se_cfg s)"
    obtain r1 s1 where t: "(if ?w then writeTurn pf s else readTurn pf s) = (r1, s1)" by (rule prod.exhaust)
    have ok: "case r1 of None \<Rightarrow> handshaking (pf_crypto pf) cfg (s1\<lparr>se_msgIndex := se_msgIndex s + 1\<rparr>)
          \<and> se_pattern s1 = se_pattern s
        | Some st \<Rightarrow> gaveUp s1 \<or> handshaking (pf_crypto pf) cfg s1"
    proof (cases ?w)
      case w: True
      from w t have wt: "writeTurn pf s = (r1, s1)" by simp
      show ?thesis
      proof (cases r1)
        case None
        with writeTurn_inv [OF wt "1.prems"(2)]
        have h: "handshaking (pf_crypto pf) cfg s1" "se_msgIndex s1 = se_msgIndex s" "se_pattern s1 = se_pattern s" by simp_all
        have "unat (se_msgIndex s + 1) = unat (se_msgIndex s) + 1"
          using True by (simp add: unat_word_ariths messageCount_def split: if_splits)
        with h show ?thesis using None by (auto simp: handshaking_def peerOk_def peerBound_def readsDone_def)
      qed (use writeTurn_inv [OF wt "1.prems"(2)] in simp)
    next
      case w: False
      have "se_peer s = PeerIdentity0"
        using "1.prems"(2) True w cfg by (auto simp: handshaking_def peerOk_def readsDone_def even_iff_mod_2_eq_zero)
      from readTurn_inv [OF _ "1.prems"(2) this _ True] w t cfg show ?thesis by auto
    qed
    show ?thesis
    proof (cases r1)
      case (Some st)
      then show ?thesis using "1.prems"(1) ok True t step by auto
    next
      case None
      let ?s = "s1\<lparr>se_msgIndex := se_msgIndex s + 1\<rparr>"
      have eq: "handshakeLoop pf (se_pattern s) s = handshakeLoop pf (se_pattern s) ?s"
        using True t None step by simp
      have h: "handshaking (pf_crypto pf) cfg ?s" "se_pattern ?s = se_pattern s" using ok None by simp_all
      from "1.hyps" [OF True t [symmetric] None] "1.prems"(1) h eq show ?thesis by simp
    qed
  qed
qed


lemma hs_split_keeps: "hs_split C hs = (st, a, b, hs') \<Longrightarrow> hs_rs hs' = hs_rs hs \<and> hs_complete hs' = hs_complete hs \<and> hs_sym hs' = hs_sym hs"
  by (auto simp: hs_split_def Let_def split: if_splits prod.splits)

lemma finish_inv:
  assumes "finish pf s = (st, s')" "handshaking (pf_crypto pf) cfg s"
  shows "sessionInv (pf_crypto pf) cfg s'"
proof (cases "hs_complete (se_hs s) \<and> pi_identityKey (se_peer s) \<noteq> replicate kDhLen 0")
  case False
  then show ?thesis using assms(1) by (auto simp: finish_def split: if_splits intro: fail_inv)
next
  case True
  then have "peerBound (pf_crypto pf) s" using assms(2) by (auto simp: handshaking_def peerOk_def PeerIdentity0_def)
  obtain st1 send recv hs where sp: "hs_split (pf_crypto pf) (se_hs s) = (st1, send, recv, hs)"
    by (metis prod_cases4)
  obtain st2 rl where ad: "adoptCipher (Some (KeyedCipher (NoiseCipher_new send recv kRekeyInterval))) kHandshakeRecordMax (se_record s) = (st2, rl)"
    by (rule prod.exhaust)
  obtain trust grants where tg: "trustOf (cf_peers cfg) (pi_identityKey (se_peer s)) = (trust, grants)" by (rule prod.exhaust)
  let ?cb = "handshakeHash (se_hs s)"
  let ?s = "s\<lparr>se_channelBinding := ?cb, se_sas := sasDigits (pf_crypto pf) ?cb, se_hs := hs, se_record := rl,
    se_trust := trust, se_grants := grants, se_state := Greeting\<rparr>"
  have cfg: "se_cfg s = cfg" "\<not> se_greetSent s" using assms(2) by (simp_all add: handshaking_def)
  have "secured (pf_crypto pf) cfg ?s" if "st2 = Ok"
    using True \<open>peerBound _ s\<close> cfg tg hs_split_keeps [OF sp] ad that
    by (auto simp: secured_def peerBound_def handshakeHash_def adoptCipher_def setHandshakeComplete_def split: if_splits)
  then show ?thesis
    using assms(1) True sp ad tg cfg
    by (auto simp: finish_def Let_def split: if_splits intro: fail_inv driveGreeting_inv)
qed

lemma handshaking_inv: "handshaking C cfg s \<Longrightarrow> sessionInv C cfg s"
  by (simp add: sessionInv_def handshaking_def)

lemma driveHandshake_inv:
  assumes "driveHandshake pf s = (st, s')" "handshaking (pf_crypto pf) cfg s"
  shows "sessionInv (pf_crypto pf) cfg s'"
proof -
  obtain st1 s1 where f: "(if pendingTxBytes (se_record s) \<noteq> 0 then seFlush pf s else (Ok, s)) = (st1, s1)"
    by (rule prod.exhaust)
  then have same: "sameSession s s1" by (auto split: if_splits dest: seFlush_same)
  have h: "handshaking (pf_crypto pf) cfg s1" by (rule same_handshaking [OF same assms(2)])
  obtain r s2 where l: "handshakeLoop pf (se_pattern s1) s1 = (r, s2)" by (rule prod.exhaust)
  from handshakeLoop_inv [OF l h] consider "gaveUp s2" "r \<noteq> None" | "handshaking (pf_crypto pf) cfg s2" by blast
  then show ?thesis
    using assms(1) f l
    by cases (auto simp: driveHandshake_def split: if_splits option.splits
        intro: fail_inv gaveUp_inv handshaking_inv finish_inv)
qed

lemma startHandshake_inv:
  assumes "startHandshake pf s = (st, s')" "secInv C cfg AwaitingPreamble s"
  shows "gaveUp s' \<and> st \<noteq> Ok \<or> handshaking C cfg s'"
  using assms
  by (auto simp: startHandshake_def Let_def gaveUp_def fail_def handshaking_def peerOk_def
      split: if_splits option.splits prod.splits)

lemma readPeerPreamble_inv:
  assumes "readPeerPreamble pf s = (st, s')" "secInv C cfg AwaitingPreamble s" "se_state s = AwaitingPreamble"
  shows "sessionInv C cfg s' \<and> (st = Ok \<longrightarrow> handshaking C cfg s')"
proof -
  obtain st1 theirs stream where l: "readPreambleLoop (pf_read pf) (se_theirPreamble s) (the (se_stream s)) = (st1, theirs, stream)"
    by (rule prod_cases3)
  let ?s = "s\<lparr>se_theirPreamble := theirs, se_stream := Some stream\<rparr>"
  have w: "secInv C cfg AwaitingPreamble ?s" "secInv C cfg AwaitingPreamble (?s\<lparr>se_pattern := p\<rparr>)" for p
    using assms(2) by simp_all
  have start: "sessionInv C cfg s' \<and> (st = Ok \<longrightarrow> handshaking C cfg s')"
    if "startHandshake pf x = (st, s')" "secInv C cfg AwaitingPreamble x" for x
    using startHandshake_inv [OF that] gaveUp_inv handshaking_inv by blast
  have failed: "sessionInv C cfg s' \<and> (st = Ok \<longrightarrow> handshaking C cfg s')" if "fail e why x = (st, s')" "e \<noteq> Ok" for e why x
    using that fail_inv [OF that(1)] by (auto simp: fail_def)
  have early: "sessionInv C cfg ?s" using assms(2,3) by (simp add: sessionInv_def)
  show ?thesis
    using assms(1) l early start [OF _ w(1)] start [OF _ w(2)] failed
    by (auto simp: readPeerPreamble_def Let_def split: if_splits option.splits)
qed

lemma se_pump_inv:
  assumes "se_pump pf s = (st, s')" "sessionInv (pf_crypto pf) cfg s"
  shows "sessionInv (pf_crypto pf) cfg s'"
proof (cases "se_state s")
  case AwaitingPreamble
  obtain st1 s1 where r: "readPeerPreamble pf s = (st1, s1)" by (rule prod.exhaust)
  have "sessionInv (pf_crypto pf) cfg s1 \<and> (st1 = Ok \<longrightarrow> handshaking (pf_crypto pf) cfg s1)"
    by (rule readPeerPreamble_inv [OF r]) (use assms(2) AwaitingPreamble in \<open>simp_all add: sessionInv_def\<close>)
  then show ?thesis
    using assms(1) AwaitingPreamble r by (auto simp: se_pump_def split: if_splits intro: driveHandshake_inv)
next
  case Handshaking
  then show ?thesis using assms driveHandshake_inv by (auto simp: se_pump_def sessionInv_def)
next
  case Greeting
  then show ?thesis using assms driveGreeting_inv by (auto simp: se_pump_def sessionInv_def)
qed (use assms in \<open>auto simp: se_pump_def sessionInv_def\<close>)

section \<open>Every run\<close>

text \<open>A pump, or any change of the byte stream by the peer and the network.\<close>

datatype 's SessionOp = SessionPump | SessionNet 's

fun sessionStep :: "'s Platform \<Rightarrow> 's SessionOp \<Rightarrow> 's SecureSession \<Rightarrow> 's SecureSession" where
  "sessionStep pf SessionPump s = snd (se_pump pf s)"
| "sessionStep pf (SessionNet st) s = s\<lparr>se_stream := Some st\<rparr>"

definition sessionRun :: "'s Platform \<Rightarrow> 's SessionOp list \<Rightarrow> 's SecureSession \<Rightarrow> 's SecureSession" where
  "sessionRun pf ops s = fold (sessionStep pf) ops s"

lemma stream_inv: "sessionInv C cfg s \<Longrightarrow> sessionInv C cfg (s\<lparr>se_stream := st\<rparr>)"
  by (cases "se_state s")
     (auto simp: sessionInv_def handshaking_def secured_def peerOk_def peerBound_def readsDone_def agreedLimits_def)

lemma sessionStep_inv: "sessionInv (pf_crypto pf) cfg s \<Longrightarrow> sessionInv (pf_crypto pf) cfg (sessionStep pf op s)"
  by (cases op) (auto intro: stream_inv se_pump_inv [OF surjective_pairing])

lemma sessionRun_inv: "sessionInv (pf_crypto pf) cfg s \<Longrightarrow> sessionInv (pf_crypto pf) cfg (sessionRun pf ops s)"
  by (induction ops arbitrary: s) (auto simp: sessionRun_def intro: sessionStep_inv)

lemma se_begin_inv: "se_begin pf stream cfg SecureSession0 = (st, s) \<Longrightarrow> sessionInv C cfg s"
  by (auto simp: se_begin_def SecureSession0_def sessionInv_def fail_def Let_def split: option.splits if_splits prod.splits)

end
