(* ===== verification/SessionLine.thy ===== *)
theory SessionLine
  imports SessionSafety Handshake Transport
begin

text \<open>
  The secure session over an open line of unbounded capacity: what one turn of the handshake and
  one greeting do to the two queues of the line.
\<close>

section \<open>The record layer over an open line\<close>

text \<open>
  The contract: a write takes everything, a read of enough bytes gives all that is there, a read of
  one byte gives the first.  \<open>mk out inn\<close> is the line with \<open>out\<close> on its way to the peer and \<open>inn\<close>
  waiting to be read.
\<close>

locale line =
  fixes wr :: "bytes \<Rightarrow> 's \<Rightarrow> Status \<times> nat \<times> 's"
    and rd :: "nat \<Rightarrow> 's \<Rightarrow> Status \<times> bytes \<times> 's"
    and mk :: "bytes \<Rightarrow> bytes \<Rightarrow> 's"
  assumes wr_all: "wr src (mk out inn) = (Ok, length src, mk (out @ src) inn)"
    and rd_all: "length inn \<le> n \<Longrightarrow> rd n (mk out inn) = (Ok, inn, mk out [])"
    and rd_one: "rd 1 (mk out (b # inn)) = (Ok, [b], mk out inn)"

definition pipe :: "bytes \<Rightarrow> bytes \<Rightarrow> MemoryPipe" where
  "pipe ab ba = MemoryPipe_new\<lparr>mp_aToB := ab, mp_bToA := ba\<rparr>"

interpretation lineA: line writeA readA "\<lambda>out inn. pipe out inn"
  by unfold_locales
     (auto simp: writeA_def readA_def endpointWrite_def endpointRead_def pipe_def MemoryPipe_new_def)

interpretation lineB: line writeB readB "\<lambda>out inn. pipe inn out"
  by unfold_locales
     (auto simp: writeB_def readB_def endpointWrite_def endpointRead_def pipe_def MemoryPipe_new_def)

text \<open>A record layer with nothing to send, \<open>rx\<close> read but not consumed, and the cipher \<open>c\<close>.\<close>

definition resting :: "bytes \<Rightarrow> 'c \<Rightarrow> u32 \<Rightarrow> bool \<Rightarrow> 'c RecordLayer \<Rightarrow> bool" where
  "resting rx c m d rl \<longleftrightarrow>
     rl_tx rl = [] \<and> rl_txSent rl = 0 \<and> \<not> rl_fatal rl \<and> rl_rx rl = rx \<and> rl_cipher rl = c \<and> rl_maxRecord rl = m
     \<and> rl_handshakeDone rl = d"

lemma resting_pending [simp]: "resting rx c m d rl \<Longrightarrow> pendingTxBytes rl = 0"
  by (simp add: resting_def pendingTxBytes_def)

lemma resting_new: "resting [] c kHandshakeRecordMax False (RecordLayer_new c)"
  by (simp add: resting_def RecordLayer_new_def)

context line
begin

lemma flush_resting: "resting rx c m d rl \<Longrightarrow> flush wr rl s = (Ok, rl, s)"
  by (simp add: flush_def resting_def flushLoop.simps [of wr "[]"])

lemma flush_all:
  assumes "rl_tx rl \<noteq> []" "rl_txSent rl = 0"
  shows "flush wr rl (mk out inn) = (Ok, rl\<lparr>rl_tx := [], rl_txSent := 0\<rparr>, mk (out @ rl_tx rl) inn)"
  using assms wr_all [of "rl_tx rl" out inn]
  by (simp add: flush_def flushLoop.simps [of wr "rl_tx rl"])

lemma send_all:
  assumes r: "resting rx c m d rl" and fits: "length b + ic_overhead ci \<le> unat m"
    and sl: "ic_seal ci b c = (Ok, ct, c')" "length ct = length b + ic_overhead ci"
  obtains rl' where "sendRecord ci wr b rl (mk out inn) = (Ok, rl', mk (out @ frame ct) inn)" "resting rx c' m d rl'"
proof -
  let ?rl = "rl\<lparr>rl_tx := frame ct, rl_cipher := c', rl_recordsSent := rl_recordsSent rl + 1\<rparr>"
  have "flush wr ?rl (mk out inn) = (Ok, ?rl\<lparr>rl_tx := [], rl_txSent := 0\<rparr>, mk (out @ frame ct) inn)"
    using flush_all [of ?rl out inn] r by (simp add: resting_def frame_def le32_def)
  then have "sendRecord ci wr b rl (mk out inn) = (Ok, ?rl\<lparr>rl_tx := [], rl_txSent := 0\<rparr>, mk (out @ frame ct) inn)"
    using r fits sl by (simp add: sendRecord_def resting_def frame_def Let_def)
  then show thesis by (rule that) (use r in \<open>simp add: resting_def\<close>)
qed

lemma receive_buffered:
  assumes r: "resting (frame ct @ rest) c m d rl" and le: "length ct \<le> rxCeiling rl" "ic_overhead ci \<le> length ct"
    and op: "ic_open ci ct c = (Ok, b, c')"
  obtains rl' where "receiveLoop ci rd rl s = (Ok, b, rl', s)" "resting rest c' m d rl'"
proof -
  have small: "length ct < 2 ^ 32" using le(1) rxCeiling_less [of rl] by simp
  have len: "unat (rd_u32 (rl_rx rl) 0) = length ct"
    by (rule rd_frame [of _ "[]" _ rest]) (use r small in \<open>simp_all add: resting_def\<close>)
  let ?rl = "rl\<lparr>rl_cipher := c', rl_rx := rest, rl_recordsReceived := rl_recordsReceived rl + 1\<rparr>"
  have "v_ok (r1_recordSize (rd_u32 (rl_rx rl) 0) (Limits0\<lparr>lim_maxRecordBytes := rl_maxRecord rl\<rparr>) (rl_handshakeDone rl))"
    using len le(1) by (simp add: r1_ok)
  then have "tryRecord ci rl = Some (Ok, b, ?rl)"
    using r le op len by (simp add: tryRecord_def Let_def resting_def frame_def)
  then have "receiveLoop ci rd rl s = (Ok, b, ?rl, s)" by (simp add: receiveLoop.simps [of ci rd rl])
  then show thesis by (rule that) (use r in \<open>simp add: resting_def\<close>)
qed

lemma receive_nothing:
  assumes "resting [] c m d rl"
  shows "receiveLoop ci rd rl (mk out []) = (Ok, [], rl, mk out [])"
  using assms rd_all [of "[]" rxChunk out]
  by (simp add: receiveLoop.simps [of ci rd rl] tryRecord_def resting_def)

lemma receive_fresh:
  assumes r: "resting [] c m d rl" and le: "length ct \<le> rxCeiling rl" "ic_overhead ci \<le> length ct"
    and op: "ic_open ci ct c = (Ok, b, c')" and short: "length (frame ct @ rest) \<le> rxChunk"
  obtains rl' where "receiveLoop ci rd rl (mk out (frame ct @ rest)) = (Ok, b, rl', mk out [])" "resting rest c' m d rl'"
proof -
  let ?rl = "rl\<lparr>rl_rx := frame ct @ rest\<rparr>"
  have r': "resting (frame ct @ rest) c m d ?rl" using r by (simp add: resting_def)
  obtain rl' where rl': "receiveLoop ci rd ?rl (mk out []) = (Ok, b, rl', mk out [])" "resting rest c' m d rl'"
    by (rule receive_buffered [OF r' _ le(2) op]) (use le in simp)
  have "frame ct \<noteq> []" by (simp add: frame_def le32_def)
  then have "receiveLoop ci rd rl (mk out (frame ct @ rest)) = receiveLoop ci rd ?rl (mk out [])"
    using r rd_all [OF short, of out]
    by (simp add: receiveLoop.simps [of ci rd rl] tryRecord_def resting_def Let_def)
  then show thesis using that rl' by simp
qed

text \<open>The preamble, byte by byte.\<close>

lemma read_preamble:
  "\<lbrakk>length (got @ pre) = kPreambleSize; pre @ rest = inn\<rbrakk> \<Longrightarrow>
    readPreambleLoop rd got (mk out inn) = (Ok, got @ pre, mk out rest)"
proof (induction pre arbitrary: got inn)
  case Nil
  then show ?case by (simp add: readPreambleLoop.simps)
next
  case (Cons b pre)
  have "readPreambleLoop rd got (mk out inn) = readPreambleLoop rd (got @ [b]) (mk out (pre @ rest))"
    using Cons.prems rd_one [of out b "pre @ rest"] by (auto simp: readPreambleLoop.simps [of rd got])
  also have "\<dots> = (Ok, (got @ [b]) @ pre, mk out rest)" by (rule Cons.IH) (use Cons.prems in auto)
  finally show ?case by simp
qed

end

end
