(* ===== verification/Greetings.thy ===== *)
theory Greetings
  imports SessionSafety
begin

text \<open>
  The greeting: a HELLO, as it stands in its record, is accepted by the other end of the same
  handshake and shows exactly what was said; the answer to it leaves both ends with the same limits.
\<close>

lemma length_helloRecord:
  "wf_HelloBody b \<Longrightarrow> length (helloRecord ty b) = kHeaderSize + kBodyHello"
  using header.enc_length hello.enc_length by (simp add: helloRecord_def Let_def)

lemma checkGreeting_hello:
  assumes wf: "wf_HelloBody b" and ty: "ty = (if cf_initiator cfg then T_HelloOk else T_Hello)"
  shows "checkGreeting cfg cb (helloRecord ty b) =
     (if hel_protoMax b < kProtoVersionV1 \<or> hel_protoMin b > kProtoVersionV1
      then Inl (UnsupportedVersion, ''the other machine speaks a different version of this protocol'')
      else if hel_sessionId b \<noteq> take kSessionIdBytes cb
      then Inl (AuthFailed, ''the greeting does not belong to this session'')
      else if hel_caps b AND kCapSegmentation = 0
      then Inl (UnsupportedVersion,
        ''the other machine cannot split large transfers, so it cannot carry a real USB device'')
      else if hel_maxRecord b < kRecordBytesFloor \<or> hel_maxRecord b > kRecordBytesCeiling
      then Inl (LimitExceeded, ''the peer proposed an illegal record size'')
      else Inr b)"
proof -
  let ?h = "Header0\<lparr>h_type := typeCode ty, h_flags := kFlagSegFirst,
           h_bodyLen := of_nat kBodyHello, h_totalLen := 0\<rparr>"
  have len: "length (encodeHello b []) = kBodyHello" by (rule hello.enc_length [OF wf])
  have rec: "helloRecord ty b = encodeHeader ?h [] @ encodeHello b []"
    using len by (simp add: helloRecord_def Let_def)
  have hl: "length (encodeHeader ?h []) = kHeaderSize" by (rule header.enc_length) simp
  have "decodeHeader (helloRecord ty b) = Some ?h" unfolding rec by (rule header.dec_enc_append) simp
  moreover have "subspan (helloRecord ty b) kHeaderSize kBodyHello = encodeHello b []"
    unfolding rec using hl len by simp
  moreover have "decodeHello (encodeHello b []) = Some b" by (rule hello.dec_enc [OF wf])
  ultimately show ?thesis
    using length_helloRecord [OF wf, of ty] ty len by (simp add: checkGreeting_def)
qed

lemma or_mask_nonzero: "(a OR kCapSegmentation) AND kCapSegmentation \<noteq> 0"
  using common_mask [of a kCapSegmentation "- 1"] by simp

lemma wf_helloBody: "kSessionIdBytes \<le> length cb \<Longrightarrow> wf_HelloBody (helloBody pl cfg cb ag)"
  by (simp add: wf_HelloBody_def helloBody_def Let_def)

text \<open>A record size both ends may use.\<close>

definition legalRecord :: "u32 \<Rightarrow> bool" where
  "legalRecord n \<longleftrightarrow> kRecordBytesFloor \<le> n \<and> n \<le> kRecordBytesCeiling"

lemma hello_accepted:
  assumes "kSessionIdBytes \<le> length cb" "\<not> cf_initiator cfgB" "legalRecord (cf_negotiatedMaxRecordBytes cfgA)"
  shows "checkGreeting cfgB cb (helloRecord T_Hello (helloBody plA cfgA cb None)) = Inr (helloBody plA cfgA cb None)"
  using assms or_mask_nonzero [of "cf_capabilities cfgA"]
  by (simp add: checkGreeting_hello wf_helloBody)
     (simp add: helloBody_def Let_def legalRecord_def not_less)

lemma hello_ok_accepted:
  assumes "kSessionIdBytes \<le> length cb" "cf_initiator cfgA" "legalRecord (ng_maxRecordBytes n)"
    and "ng_capabilities n AND kCapSegmentation \<noteq> 0"
  shows "checkGreeting cfgA cb (helloRecord T_HelloOk (helloBody plB cfgB cb (Some n))) = Inr (helloBody plB cfgB cb (Some n))"
  using assms
  by (simp add: checkGreeting_hello wf_helloBody)
     (simp add: helloBody_def Let_def legalRecord_def not_less)

lemma answer_legal:
  fixes cfgB :: Config and plA cb
  assumes "\<not> cf_initiator cfgB" "legalRecord (cf_negotiatedMaxRecordBytes cfgA)" "legalRecord (cf_negotiatedMaxRecordBytes cfgB)"
  defines "n \<equiv> negotiate cfgB (helloBody plA cfgA cb None)"
  shows "legalRecord (ng_maxRecordBytes n)" "ng_capabilities n AND kCapSegmentation \<noteq> 0"
  using assms segmentation_agreed [of "helloBody plA cfgA cb None" cfgB] or_mask_nonzero [of "cf_capabilities cfgA"]
  by (auto simp: n_def negotiate_def helloBody_def Let_def legalRecord_def min_def)

lemma answer_adopted:
  assumes "cf_initiator cfgA"
  shows "negotiate cfgA (helloBody plB cfgB cb (Some n)) = n\<lparr>ng_peerRoleBits := cf_roleBits cfgB, ng_peerPlatform := plB\<rparr>"
  using assms by (cases n) (simp add: negotiate_def helloBody_def Let_def)

text \<open>
  C15. The greeting agrees.  The responder accepts the HELLO of the other end of its own handshake
  and computes the minima of the two proposals and the capabilities both have; its answer, accepted
  by the initiator, makes the initiator adopt exactly those limits (the role and platform it notes
  are the responder's).  The record size is legal and segmentation is on.  A HELLO of any other
  session is refused as a failed authentication.
\<close>

theorem greeting_agreement:
  assumes "cf_initiator cfgA" "\<not> cf_initiator cfgB" "kSessionIdBytes \<le> length cb"
    and "legalRecord (cf_negotiatedMaxRecordBytes cfgA)" "legalRecord (cf_negotiatedMaxRecordBytes cfgB)"
  shows "(\<exists>p n q. checkGreeting cfgB cb (helloRecord T_Hello (helloBody plA cfgA cb None)) = Inr p
      \<and> n = negotiate cfgB p
      \<and> checkGreeting cfgA cb (helloRecord T_HelloOk (helloBody plB cfgB cb (Some n))) = Inr q
      \<and> negotiate cfgA q = n\<lparr>ng_peerRoleBits := cf_roleBits cfgB, ng_peerPlatform := plB\<rparr>
      \<and> ng_peerRoleBits n = cf_roleBits cfgA \<and> ng_peerPlatform n = plA
      \<and> ng_maxRecordBytes n = min (cf_negotiatedMaxRecordBytes cfgA) (cf_negotiatedMaxRecordBytes cfgB)
      \<and> ng_maxTransferBytes n = min (cf_maxTransferBytes cfgA) (cf_maxTransferBytes cfgB)
      \<and> ng_keepaliveMs n = min (cf_keepaliveMs cfgA) (cf_keepaliveMs cfgB)
      \<and> ng_capabilities n = (cf_capabilities cfgA OR kCapSegmentation) AND (cf_capabilities cfgB OR kCapSegmentation)
      \<and> ng_capabilities n AND kCapSegmentation \<noteq> 0)
    \<and> (\<forall>cb'. kSessionIdBytes \<le> length cb' \<and> take kSessionIdBytes cb' \<noteq> take kSessionIdBytes cb \<longrightarrow>
        checkGreeting cfgB cb' (helloRecord T_Hello (helloBody plA cfgA cb None))
          = Inl (AuthFailed, ''the greeting does not belong to this session''))"
    (is "?agree \<and> ?refuse")
proof
  let ?p = "helloBody plA cfgA cb None"
  let ?n = "negotiate cfgB ?p"
  let ?q = "helloBody plB cfgB cb (Some ?n)"
  note legal = answer_legal [OF assms(2,4,5), of plA cb]
  have "checkGreeting cfgB cb (helloRecord T_Hello ?p) = Inr ?p" by (rule hello_accepted [OF assms(3,2,4)])
  moreover have "checkGreeting cfgA cb (helloRecord T_HelloOk ?q) = Inr ?q"
    by (rule hello_ok_accepted [OF assms(3,1) legal])
  moreover have "ng_peerRoleBits ?n = cf_roleBits cfgA" "ng_peerPlatform ?n = plA"
    "ng_maxRecordBytes ?n = min (cf_negotiatedMaxRecordBytes cfgA) (cf_negotiatedMaxRecordBytes cfgB)"
    "ng_maxTransferBytes ?n = min (cf_maxTransferBytes cfgA) (cf_maxTransferBytes cfgB)"
    "ng_keepaliveMs ?n = min (cf_keepaliveMs cfgA) (cf_keepaliveMs cfgB)"
    "ng_capabilities ?n = (cf_capabilities cfgA OR kCapSegmentation) AND (cf_capabilities cfgB OR kCapSegmentation)"
    using assms(2) by (simp_all add: negotiate_def helloBody_def Let_def min.commute and.commute)
  ultimately show ?agree using answer_adopted [OF assms(1)] legal(2) by blast
  show ?refuse using assms(2,3) by (simp add: checkGreeting_hello wf_helloBody) (simp add: helloBody_def Let_def)
qed

theorem greeting_agreement_witness:
  "(\<exists>p n. checkGreeting (Config0\<lparr>cf_initiator := False, cf_negotiatedMaxRecordBytes := 2048\<rparr>) (replicate 32 7)
       (helloRecord T_Hello (helloBody 1 Config0 (replicate 32 7) None)) = Inr p
     \<and> n = negotiate (Config0\<lparr>cf_initiator := False, cf_negotiatedMaxRecordBytes := 2048\<rparr>) p
     \<and> ng_maxRecordBytes n = 2048 \<and> ng_keepaliveMs n = 500)
   \<and> checkGreeting (Config0\<lparr>cf_initiator := False, cf_negotiatedMaxRecordBytes := 2048\<rparr>) (replicate 32 8)
       (helloRecord T_Hello (helloBody 1 Config0 (replicate 32 7) None))
     = Inl (AuthFailed, ''the greeting does not belong to this session'')"
proof -
  let ?B = "Config0\<lparr>cf_initiator := False, cf_negotiatedMaxRecordBytes := 2048\<rparr>" and ?cb = "replicate 32 (7 :: u8)"
  have h: "cf_initiator Config0" "\<not> cf_initiator ?B" "kSessionIdBytes \<le> length ?cb"
    "legalRecord (cf_negotiatedMaxRecordBytes Config0)" "legalRecord (cf_negotiatedMaxRecordBytes ?B)"
    by (simp_all add: Config0_def legalRecord_def)
  note g = greeting_agreement [OF h, of 1 2]
  from conjunct1 [OF g] have "\<exists>p n. checkGreeting ?B ?cb (helloRecord T_Hello (helloBody 1 Config0 ?cb None)) = Inr p
     \<and> n = negotiate ?B p \<and> ng_maxRecordBytes n = 2048 \<and> ng_keepaliveMs n = 500"
    by (auto simp: Config0_def)
  moreover have "checkGreeting ?B (replicate 32 8) (helloRecord T_Hello (helloBody 1 Config0 ?cb None))
     = Inl (AuthFailed, ''the greeting does not belong to this session'')"
    by (rule mp [OF spec [OF conjunct2 [OF g]]]) (simp add: numeral_eq_Suc)
  ultimately show ?thesis by blast
qed

end
