(* ===== verification/Establish.thy ===== *)
theory Establish
  imports SessionLine Greetings
begin

text \<open>
  Two honest machines that meet for the first time over an open line: the handshake XX, the
  exchange of identities and the greeting bring both sessions to \<open>Established\<close>, each with the other's
  identity, the same channel binding and the same limits.
\<close>

section \<open>Turns of the handshake\<close>

text \<open>A session in the middle of the handshake, with message \<open>k\<close> next.\<close>

definition hsAt where
  "hsAt cfg p hs k peer rx stream s \<longleftrightarrow>
     se_state s = Handshaking \<and> se_cfg s = cfg \<and> se_pattern s = p \<and> se_hs s = hs \<and> se_msgIndex s = of_nat k
     \<and> se_peer s = peer \<and> \<not> se_helloSent s \<and> \<not> se_greetSent s \<and> se_stream s = Some stream
     \<and> resting rx PlainCipher kHandshakeRecordMax False (se_record s)"

lemma plain_seal: "ic_seal (sessionCipher P PlainCipher) b PlainCipher = (Ok, b, PlainCipher)"
  "ic_open (sessionCipher P PlainCipher) b PlainCipher = (Ok, b, PlainCipher)"
  "ic_overhead (sessionCipher P PlainCipher) = 0"
  by (simp_all add: sessionCipher_def NullCipher_def)

lemma resting_ceiling: "resting rx c m d rl \<Longrightarrow> rxCeiling rl = (if d then unat m else 8192)"
  by (simp add: resting_def rxCeiling_def)

context line
begin

definition onLine :: "'s Platform \<Rightarrow> bool" where
  "onLine pf \<longleftrightarrow> pf_write pf = wr \<and> pf_read pf = rd"

lemma write_turn:
  assumes pf: "onLine pf" and s: "hsAt cfg p hs k peer rx (mk out inn) s"
    and pay: "payload = (if carriesIdentity p (of_nat k) then encodeIdentityPayload (the (cf_identity cfg)) [] else [])"
    and w: "writeMessage (pf_crypto pf) (pf_fresh pf) payload [] hs = (Ok, m, hs')" "length m \<le> 8192"
  shows "\<exists>s'. writeTurn pf s = (None, s') \<and> hsAt cfg p hs' k peer rx (mk (out @ frame m) inn) s'"
proof -
  let ?P = "cr_aead (pf_crypto pf)" and ?s = "s\<lparr>se_hs := hs'\<rparr>"
  have r: "resting rx PlainCipher kHandshakeRecordMax False (se_record s)" using s by (simp add: hsAt_def)
  have rc: "rl_cipher (se_record s) = PlainCipher" using r by (simp add: resting_def)
  obtain rl' where rl': "sendRecord (sessionCipher ?P PlainCipher) wr m (se_record s) (mk out inn) = (Ok, rl', mk (out @ frame m) inn)"
    "resting rx PlainCipher kHandshakeRecordMax False rl'"
    by (rule send_all [OF r _ plain_seal(1)]) (use w(2) in \<open>simp_all add: plain_seal\<close>)
  let ?s' = "?s\<lparr>se_record := rl', se_stream := Some (mk (out @ frame m) inn)\<rparr>"
  have "seSend pf m ?s = (Ok, ?s')"
    using s pf rl'(1) rc by (simp add: seSend_def linkSend_def ioFor_def se_link_def onLine_def hsAt_def withLink_def)
  moreover have "seFlush pf ?s' = (Ok, ?s')"
    using pf flush_resting [OF rl'(2)]
    by (simp add: seFlush_def linkFlush_def ioFor_def se_link_def onLine_def withLink_def)
  moreover have "(if carriesIdentity (se_pattern s) (se_msgIndex s)
      then encodeIdentityPayload (the (cf_identity (se_cfg s))) [] else []) = payload" "se_hs s = hs"
    using s pay by (simp_all add: hsAt_def)
  ultimately have "writeTurn pf s = (None, ?s')"
    using w(1) by (simp add: writeTurn_def Let_def split del: if_split)
  moreover have "hsAt cfg p hs' k peer rx (mk (out @ frame m) inn) ?s'" using s rl'(2) by (simp add: hsAt_def)
  ultimately show ?thesis by blast
qed

text \<open>A message that waits at the head of the line, or already in the buffer.\<close>

definition waiting :: "bytes \<Rightarrow> bytes \<Rightarrow> bytes \<Rightarrow> bytes \<Rightarrow> bool" where
  "waiting ct rest rx inn \<longleftrightarrow> rx = [] \<and> inn = frame ct @ rest \<and> length inn \<le> rxChunk \<or> rx = frame ct @ rest \<and> inn = []"

lemma receive_waiting:
  assumes r: "resting rx c m d rl" and le: "length ct \<le> rxCeiling rl" "ic_overhead ci \<le> length ct"
    and op: "ic_open ci ct c = (Ok, b, c')" and wt: "waiting ct rest rx inn"
  obtains rl' where "receiveRecord ci rd rl (mk out inn) = (Ok, b, rl', mk out [])" "resting rest c' m d rl'"
proof -
  have nf: "\<not> rl_fatal rl" using r by (simp add: resting_def)
  from wt consider "rx = []" "inn = frame ct @ rest" "length inn \<le> rxChunk" | "rx = frame ct @ rest" "inn = []"
    unfolding waiting_def by blast
  then show thesis
  proof cases
    case 1
    from r 1(1) have r0: "resting [] c m d rl" by simp
    from 1(2,3) have sh: "length (frame ct @ rest) \<le> rxChunk" by simp
    show thesis by (rule receive_fresh [OF r0 le op sh, of out]) (use that nf 1(2) in \<open>simp add: receiveRecord_def\<close>)
  next
    case 2
    from r 2(1) have r0: "resting (frame ct @ rest) c m d rl" by simp
    show thesis by (rule receive_buffered [OF r0 le op, of "mk out inn"]) (use that nf 2(2) in \<open>simp add: receiveRecord_def\<close>)
  qed
qed

lemma read_turn:
  assumes pf: "onLine pf" and s: "hsAt cfg p hs k peer rx (mk out inn) s"
    and wt: "waiting m rest rx inn" and m: "m \<noteq> []" "length m \<le> 8192"
    and rm: "readMessage (pf_crypto pf) m hs = (Ok, payload, hs')"
    and idn: "if carriesIdentity p (of_nat k)
      then hs_haveRs hs' \<and> decodeAndVerifyIdentityPayload (pf_crypto pf) payload (hs_rs hs') = Some peer' else peer' = peer"
  shows "\<exists>s'. readTurn pf s = (None, s') \<and> hsAt cfg p hs' k peer' rest (mk out []) s'"
proof -
  let ?P = "cr_aead (pf_crypto pf)"
  have r: "resting rx PlainCipher kHandshakeRecordMax False (se_record s)" using s by (simp add: hsAt_def)
  have rc: "rl_cipher (se_record s) = PlainCipher" using r by (simp add: resting_def)
  obtain rl' where rl': "receiveRecord (sessionCipher ?P PlainCipher) rd (se_record s) (mk out inn) = (Ok, m, rl', mk out [])"
    "resting rest PlainCipher kHandshakeRecordMax False rl'"
    by (rule receive_waiting [OF r _ _ plain_seal(2) wt, of ?P out])
       (use m resting_ceiling [OF r] in \<open>simp_all add: plain_seal\<close>)
  let ?s1 = "s\<lparr>se_record := rl', se_stream := Some (mk out [])\<rparr>"
  have "seReceive pf s = (Ok, m, ?s1)"
    using s pf rl'(1) rc by (simp add: seReceive_def linkReceive_def ioFor_def se_link_def onLine_def hsAt_def withLink_def)
  then have "readTurn pf s = (None, ?s1\<lparr>se_hs := hs', se_peer := peer'\<rparr>)"
    using s m(1) rm idn by (simp add: readTurn_def Let_def hsAt_def split: if_splits)
  moreover have "hsAt cfg p hs' k peer' rest (mk out []) (?s1\<lparr>se_hs := hs', se_peer := peer'\<rparr>)"
    using s rl'(2) by (simp add: hsAt_def)
  ultimately show ?thesis by blast
qed

lemma read_turn_wait:
  assumes pf: "onLine pf" and s: "hsAt cfg p hs k peer [] (mk out []) s"
  shows "readTurn pf s = (Some Busy, s)"
proof -
  let ?P = "cr_aead (pf_crypto pf)"
  have r: "resting [] PlainCipher kHandshakeRecordMax False (se_record s)" using s by (simp add: hsAt_def)
  have rc: "rl_cipher (se_record s) = PlainCipher" "\<not> rl_fatal (se_record s)" using r by (simp_all add: resting_def)
  have "s\<lparr>se_record := se_record s, se_stream := Some (mk out [])\<rparr> = s"
    using s by (cases s) (simp add: hsAt_def)
  then have "seReceive pf s = (Ok, [], s)"
    using s pf rc receive_nothing [OF r]
    by (simp add: seReceive_def linkReceive_def receiveRecord_def ioFor_def se_link_def onLine_def hsAt_def withLink_def)
  then show ?thesis by (simp add: readTurn_def)
qed

text \<open>The loop of the handshake, turn by turn.\<close>

lemma next_index: "unat ((of_nat k :: u8)) = k \<and> (of_nat k :: u8) + 1 = of_nat (Suc k)" if "k < messageCount p"
  using that by (simp add: unat_of_nat messageCount_def split: if_splits)

lemma hsAt_index: "hsAt cfg p hs k peer rx stream s \<Longrightarrow>
    hsAt cfg p hs (Suc k) peer rx stream (s\<lparr>se_msgIndex := of_nat (Suc k)\<rparr>)"
  by (simp add: hsAt_def)

lemma loop_write:
  assumes pf: "onLine pf" and s: "hsAt cfg p hs k peer rx (mk out inn) s"
    and k: "k < messageCount p" "even k = cf_initiator cfg"
    and pay: "payload = (if carriesIdentity p (of_nat k) then encodeIdentityPayload (the (cf_identity cfg)) [] else [])"
    and w: "writeMessage (pf_crypto pf) (pf_fresh pf) payload [] hs = (Ok, m, hs')" "length m \<le> 8192"
  obtains s' where "handshakeLoop pf p s = handshakeLoop pf p s'"
    "hsAt cfg p hs' (Suc k) peer rx (mk (out @ frame m) inn) s'"
proof -
  obtain s1 where s1: "writeTurn pf s = (None, s1)" "hsAt cfg p hs' k peer rx (mk (out @ frame m) inn) s1"
    using write_turn [OF pf s pay w] by blast
  have "handshakeLoop pf p s = handshakeLoop pf p (s1\<lparr>se_msgIndex := of_nat (Suc k)\<rparr>)"
    using s s1(1) k next_index [OF k(1)]
    by (simp add: handshakeLoop.simps [of pf p s] hsAt_def even_iff_mod_2_eq_zero del: of_nat_Suc)
  then show thesis by (rule that [OF _ hsAt_index [OF s1(2)]])
qed

lemma loop_read:
  assumes pf: "onLine pf" and s: "hsAt cfg p hs k peer rx (mk out inn) s"
    and k: "k < messageCount p" "even k \<noteq> cf_initiator cfg"
    and wt: "waiting m rest rx inn" and m: "m \<noteq> []" "length m \<le> 8192"
    and rm: "readMessage (pf_crypto pf) m hs = (Ok, payload, hs')"
    and idn: "if carriesIdentity p (of_nat k)
      then hs_haveRs hs' \<and> decodeAndVerifyIdentityPayload (pf_crypto pf) payload (hs_rs hs') = Some peer' else peer' = peer"
  obtains s' where "handshakeLoop pf p s = handshakeLoop pf p s'"
    "hsAt cfg p hs' (Suc k) peer' rest (mk out []) s'"
proof -
  obtain s1 where s1: "readTurn pf s = (None, s1)" "hsAt cfg p hs' k peer' rest (mk out []) s1"
    using read_turn [OF pf s wt m rm idn] by blast
  have "handshakeLoop pf p s = handshakeLoop pf p (s1\<lparr>se_msgIndex := of_nat (Suc k)\<rparr>)"
    using s s1(1) k next_index [OF k(1)]
    by (simp add: handshakeLoop.simps [of pf p s] hsAt_def even_iff_mod_2_eq_zero del: of_nat_Suc)
  then show thesis by (rule that [OF _ hsAt_index [OF s1(2)]])
qed

lemma loop_wait:
  assumes pf: "onLine pf" and s: "hsAt cfg p hs k peer [] (mk out []) s"
    and k: "k < messageCount p" "even k \<noteq> cf_initiator cfg"
  shows "handshakeLoop pf p s = (Some Busy, s)"
  using read_turn_wait [OF pf s] s k next_index [OF k(1)]
  by (simp add: handshakeLoop.simps [of pf p s] hsAt_def even_iff_mod_2_eq_zero)

end

lemma loop_end: "hsAt cfg p hs (messageCount p) peer rx stream s \<Longrightarrow> handshakeLoop pf p s = (None, s)"
  by (simp add: handshakeLoop.simps [of pf p s] hsAt_def unat_of_nat messageCount_def split: if_splits)

lemma hsAt_pending: "hsAt cfg p hs k peer rx stream s \<Longrightarrow> pendingTxBytes (se_record s) = 0"
  by (auto simp: hsAt_def intro: resting_pending)

lemma hsAt_drive: "hsAt cfg p hs k peer rx stream s \<Longrightarrow>
    driveHandshake pf s = (case handshakeLoop pf p s of
            (Some st, s) \<Rightarrow> (st, s)
          | (None, s) \<Rightarrow> if pendingTxBytes (se_record s) \<noteq> 0 then (Busy, s) else finish pf s)"
  using hsAt_pending by (fastforce simp: driveHandshake_def hsAt_def)

section \<open>The preamble and the start\<close>

text \<open>A session that has begun with the pattern XX and waits for the other preamble.\<close>

definition begunAt where
  "begunAt cfg stream s \<longleftrightarrow>
     se_state s = AwaitingPreamble \<and> se_cfg s = cfg \<and> se_pattern s = XX \<and> se_ourPreamble s = ourPreamble XX
     \<and> se_theirPreamble s = [] \<and> se_hs s = HandshakeState0 \<and> se_peer s = PeerIdentity0 \<and> se_msgIndex s = 0
     \<and> \<not> se_helloSent s \<and> \<not> se_greetSent s \<and> se_stream s = Some stream"

lemma preamble_XX:
  "length (ourPreamble XX) = kPreambleSize"
  "decodePreamble (ourPreamble XX) = Some \<lparr>pre_wireMajor = kWireMajor, pre_wireMinor = kWireMinor, pre_flags = kSecNoiseXX\<rparr>"
  by (simp_all add: ourPreamble_def preamble.enc_length preamble.dec_enc)

lemma hs_start_XX:
  "hs_start C \<lparr>pa_pattern = XX, pa_initiator = ini, pa_prologue = pro, pa_localStatic = sk,
      pa_remoteStatic = x, pa_hasRemoteStatic = False\<rparr> h = hs_start C (startParams C XX ini pro sk peer) h"
  by (simp add: hs_start_def startParams_def patternFor_def kXx_def Let_def)

lemma hs_start_ok: "fst (hs_start C (startParams C XX ini pro sk peer) HandshakeState0) = Ok"
  by (simp add: hs_start_def startParams_def patternFor_def kXx_def Let_def HandshakeState0_def)

context line
begin

lemma preamble_turn:
  assumes pf: "onLine pf" and s: "begunAt cfg (mk out (ourPreamble XX @ rest)) s"
  obtains s' where "se_pump pf s = driveHandshake pf s'"
    "hsAt cfg XX (snd (hs_start (pf_crypto pf) (startParams (pf_crypto pf) XX (cf_initiator cfg)
        (ourPreamble XX @ ourPreamble XX) (li_noiseSk (the (cf_identity cfg))) peer) HandshakeState0))
      0 PeerIdentity0 [] (mk out rest) s'"
proof -
  let ?C = "pf_crypto pf"
  let ?hs = "snd (hs_start ?C (startParams ?C XX (cf_initiator cfg)
        (ourPreamble XX @ ourPreamble XX) (li_noiseSk (the (cf_identity cfg))) peer) HandshakeState0)"
  have rp: "readPreambleLoop rd [] (mk out (ourPreamble XX @ rest)) = (Ok, ourPreamble XX, mk out rest)"
    using read_preamble [of "[]" "ourPreamble XX" rest] preamble_XX(1) by simp
  have go: "hs_start ?C \<lparr>pa_pattern = XX, pa_initiator = cf_initiator cfg, pa_prologue = ourPreamble XX @ ourPreamble XX,
      pa_localStatic = li_noiseSk (the (cf_identity cfg)), pa_remoteStatic = replicate kDhLen 0,
      pa_hasRemoteStatic = False\<rparr> HandshakeState0 = (Ok, ?hs)"
    unfolding hs_start_XX [where peer = peer] by (rule prod_eqI) (simp_all add: hs_start_ok)
  let ?s = "s\<lparr>se_theirPreamble := ourPreamble XX, se_stream := Some (mk out rest), se_pattern := XX, se_hs := ?hs,
    se_record := RecordLayer_new PlainCipher, se_state := Handshaking\<rparr>"
  have keep: "s\<lparr>se_theirPreamble := ourPreamble XX, se_stream := Some (mk out rest), se_pattern := XX\<rparr>
      = s\<lparr>se_theirPreamble := ourPreamble XX, se_stream := Some (mk out rest)\<rparr>"
    using s by (cases s) (simp add: begunAt_def)
  have start: "startHandshake pf (s\<lparr>se_theirPreamble := ourPreamble XX, se_stream := Some (mk out rest), se_pattern := XX\<rparr>) = (Ok, ?s)"
    using s go by (cases "cf_initiator cfg") (simp_all add: startHandshake_def Let_def begunAt_def buildPrologue_def)
  have start': "startHandshake pf (s\<lparr>se_theirPreamble := ourPreamble XX, se_stream := Some (mk out rest)\<rparr>) = (Ok, ?s)"
    using start unfolding keep .
  have "readPeerPreamble pf s = (Ok, ?s)"
    using s pf rp preamble_XX(2) start start'
    by (cases "cf_initiator cfg") (simp_all add: readPeerPreamble_def begunAt_def onLine_def Let_def)
  then have "se_pump pf s = driveHandshake pf ?s" using s by (simp add: se_pump_def begunAt_def)
  moreover have "hsAt cfg XX ?hs 0 PeerIdentity0 [] (mk out rest) ?s"
    using s resting_new [of PlainCipher] by (simp add: hsAt_def begunAt_def)
  ultimately show thesis by (rule that)
qed

end

section \<open>The greeting\<close>

text \<open>A session under its transport keys, the greeting not done yet, and one that is established.\<close>

definition gsAt where
  "gsAt C cfg peer cb c rx hello stream s \<longleftrightarrow>
     se_state s = Greeting \<and> se_cfg s = cfg \<and> se_peer s = peer \<and> se_channelBinding s = cb \<and> se_sas s = sasDigits C cb
     \<and> se_helloSent s = hello \<and> \<not> se_greetSent s \<and> se_stream s = Some stream
     \<and> resting rx (KeyedCipher c) kHandshakeRecordMax True (se_record s)"

definition upAt where
  "upAt C cfg peer cb n stream s \<longleftrightarrow>
     se_state s = Established \<and> se_cfg s = cfg \<and> se_peer s = peer \<and> se_channelBinding s = cb \<and> se_sas s = sasDigits C cb
     \<and> se_negotiated s = n \<and> se_stream s = Some stream"

lemma keyed_seal:
  "ic_seal (NoiseCipher P) b c = (Ok, ct, c') \<Longrightarrow> ic_seal (sessionCipher P k) b (KeyedCipher c) = (Ok, ct, KeyedCipher c')"
  "ic_open (NoiseCipher P) ct c = (Ok, b, c') \<Longrightarrow> ic_open (sessionCipher P k) ct (KeyedCipher c) = (Ok, b, KeyedCipher c')"
  "ic_overhead (sessionCipher P (KeyedCipher c)) = kTagLen"
  by (simp_all add: sessionCipher_def)

lemma finish_greets:
  assumes s: "hsAt cfg p hs k peer rx stream s" and hs: "hs_complete hs" "pi_identityKey peer \<noteq> replicate kDhLen 0"
    and sp: "hs_split (pf_crypto pf) hs = (Ok, snd', rcv, hs')"
  obtains s' where "finish pf s = driveGreeting pf s'"
    "gsAt (pf_crypto pf) cfg peer (handshakeHash hs) (NoiseCipher_new snd' rcv kRekeyInterval) rx False stream s'"
proof -
  obtain tr gr where tg: "trustOf (cf_peers cfg) (pi_identityKey peer) = (tr, gr)" by (rule prod.exhaust)
  let ?cb = "handshakeHash hs" and ?c = "KeyedCipher (NoiseCipher_new snd' rcv kRekeyInterval)"
  let ?s = "s\<lparr>se_channelBinding := ?cb, se_sas := sasDigits (pf_crypto pf) ?cb, se_hs := hs',
    se_record := setHandshakeComplete kHandshakeRecordMax ((se_record s)\<lparr>rl_cipher := ?c\<rparr>),
    se_trust := tr, se_grants := gr, se_state := Greeting\<rparr>"
  have "finish pf s = driveGreeting pf ?s"
    using s hs sp tg hsAt_pending [OF s] by (simp add: finish_def hsAt_def adoptCipher_def Let_def)
  moreover have "gsAt (pf_crypto pf) cfg peer ?cb (NoiseCipher_new snd' rcv kRekeyInterval) rx False stream ?s"
    using s by (simp add: gsAt_def hsAt_def resting_def setHandshakeComplete_def)
  ultimately show thesis by (rule that)
qed

lemma gsAt_pending: "gsAt C cfg peer cb c rx hello stream s \<Longrightarrow> pendingTxBytes (se_record s) = 0"
  by (auto simp: gsAt_def intro: resting_pending)

lemma applyNegotiated_up:
  assumes s: "gsAt C cfg peer cb c rx hello stream (s\<lparr>se_greetSent := False\<rparr>)" and n: "se_negotiated s = n" "legalRecord (ng_maxRecordBytes n)"
  shows "\<exists>s'. applyNegotiated s = (Ok, s') \<and> upAt C cfg peer cb n stream s'"
  using s n by (auto simp: applyNegotiated_def adoptRecordSize_def legalRecord_def gsAt_def upAt_def not_less)

context line
begin

lemma hello_sent:
  assumes pf: "onLine pf" and s: "gsAt C cfg peer cb c rx hello (mk out inn) s"
    and len: "kSessionIdBytes \<le> length cb"
    and sl: "ic_seal (NoiseCipher (cr_aead (pf_crypto pf))) (helloRecord ty (helloBody (pf_platformId pf) cfg cb ag)) c = (Ok, ct, c')"
      "length ct = kHeaderSize + kBodyHello + kTagLen"
  obtains s' where "sendHello pf ty ag s = (Ok, s')" "gsAt C cfg peer cb c' rx hello (mk (out @ frame ct) inn) s'"
    "se_negotiated s' = se_negotiated s"
proof -
  let ?P = "cr_aead (pf_crypto pf)" and ?b = "helloRecord ty (helloBody (pf_platformId pf) cfg cb ag)"
  have r: "resting rx (KeyedCipher c) kHandshakeRecordMax True (se_record s)" using s by (simp add: gsAt_def)
  have rc: "rl_cipher (se_record s) = KeyedCipher c" using r by (simp add: resting_def)
  have bl: "length ?b = kHeaderSize + kBodyHello" by (rule length_helloRecord [OF wf_helloBody [OF len]])
  obtain rl' where rl': "sendRecord (sessionCipher ?P (KeyedCipher c)) wr ?b (se_record s) (mk out inn)
      = (Ok, rl', mk (out @ frame ct) inn)" "resting rx (KeyedCipher c') kHandshakeRecordMax True rl'"
    by (rule send_all [OF r _ keyed_seal(1) [OF sl(1), where k = "KeyedCipher c"]]) (use sl(2) bl in \<open>simp_all add: keyed_seal\<close>)
  let ?s' = "s\<lparr>se_record := rl', se_stream := Some (mk (out @ frame ct) inn)\<rparr>"
  have "seSend pf ?b s = (Ok, ?s')"
    using s pf rl'(1) rc by (simp add: seSend_def linkSend_def ioFor_def se_link_def onLine_def gsAt_def withLink_def)
  moreover have "seFlush pf ?s' = (Ok, ?s')"
    using pf flush_resting [OF rl'(2)]
    by (simp add: seFlush_def linkFlush_def ioFor_def se_link_def onLine_def withLink_def)
  ultimately have "sendHello pf ty ag s = (Ok, ?s')" using s by (simp add: sendHello_def gsAt_def)
  moreover have "gsAt C cfg peer cb c' rx hello (mk (out @ frame ct) inn) ?s'" using s rl'(2) by (simp add: gsAt_def)
  ultimately show thesis by (rule that) simp
qed

lemma hello_received:
  assumes pf: "onLine pf" and s: "gsAt C cfg peer cb c rx hello (mk out inn) s" and wt: "waiting ct rest rx inn"
    and op: "ic_open (NoiseCipher (cr_aead (pf_crypto pf))) ct c = (Ok, b, c')" "length ct \<le> 8192" "kTagLen \<le> length ct" "b \<noteq> []"
    and hello: "cf_initiator cfg \<longrightarrow> hello"
  obtains s' where "driveGreeting pf s = greeted pf b s'"
    "gsAt C cfg peer cb c' rest hello (mk out []) s'"
proof -
  let ?P = "cr_aead (pf_crypto pf)"
  have r: "resting rx (KeyedCipher c) kHandshakeRecordMax True (se_record s)" using s by (simp add: gsAt_def)
  have rc: "rl_cipher (se_record s) = KeyedCipher c" using r by (simp add: resting_def)
  obtain rl' where rl': "receiveRecord (sessionCipher ?P (KeyedCipher c)) rd (se_record s) (mk out inn) = (Ok, b, rl', mk out [])"
    "resting rest (KeyedCipher c') kHandshakeRecordMax True rl'"
    by (rule receive_waiting [OF r _ _ keyed_seal(2) [OF op(1), where k = "KeyedCipher c"] wt, of out])
       (use op resting_ceiling [OF r] in \<open>simp_all add: keyed_seal\<close>)
  let ?s' = "s\<lparr>se_record := rl', se_stream := Some (mk out [])\<rparr>"
  have "seReceive pf s = (Ok, b, ?s')"
    using s pf rl'(1) rc by (simp add: seReceive_def linkReceive_def ioFor_def se_link_def onLine_def gsAt_def withLink_def)
  then have "driveGreeting pf s = greeted pf b ?s'"
    using s gsAt_pending [OF s] op(4) hello by (auto simp: driveGreeting_def awaitGreeting_def gsAt_def)
  moreover have "gsAt C cfg peer cb c' rest hello (mk out []) ?s'" using s rl'(2) by (simp add: gsAt_def)
  ultimately show thesis by (rule that)
qed

lemma greeting_wait:
  assumes pf: "onLine pf" and s: "gsAt C cfg peer cb c [] hello (mk out []) s"
  shows "awaitGreeting pf s = (Busy, s)"
proof -
  have r: "resting [] (KeyedCipher c) kHandshakeRecordMax True (se_record s)" using s by (simp add: gsAt_def)
  have rc: "rl_cipher (se_record s) = KeyedCipher c" "\<not> rl_fatal (se_record s)" using r by (simp_all add: resting_def)
  have "s\<lparr>se_record := se_record s, se_stream := Some (mk out [])\<rparr> = s"
    using s by (cases s) (simp add: gsAt_def)
  then have "seReceive pf s = (Ok, [], s)"
    using s pf rc receive_nothing [OF r]
    by (simp add: seReceive_def linkReceive_def receiveRecord_def ioFor_def se_link_def onLine_def gsAt_def withLink_def)
  then show ?thesis using s by (simp add: awaitGreeting_def gsAt_def)
qed

end

section \<open>The three messages of XX\<close>

text \<open>The messages, and the two handshake states before and after each.\<close>

definition trace where
  "trace C K qA qB i0 r0 ms \<longleftrightarrow> (case ms of (m0, m1, m2, i1, i2, i3, r1, r2, r3) \<Rightarrow>
     writeMessage C (ky_ei K) [] [] i0 = (Ok, m0, i1) \<and> readMessage C m0 r0 = (Ok, [], r1)
     \<and> writeMessage C (ky_er K) qB [] r1 = (Ok, m1, r2) \<and> readMessage C m1 i1 = (Ok, qB, i2)
     \<and> writeMessage C (ky_ei K) qA [] i2 = (Ok, m2, i3) \<and> readMessage C m2 r2 = (Ok, qA, r3)
     \<and> (\<forall>m \<in> {m0, m1, m2}. m \<noteq> [] \<and> length m \<le> 8000)
     \<and> hs_haveRs i2 \<and> hs_rs i2 = x25519PublicKey C (ky_sr K)
     \<and> hs_haveRs r3 \<and> hs_rs r3 = x25519PublicKey C (ky_si K)
     \<and> hs_complete i3 \<and> hs_complete r3 \<and> hs_sym i3 = hs_sym r3 \<and> hs_initiator i3 \<and> \<not> hs_initiator r3)"

lemma no_empty_message: "readMessage C [] r = (Ok, p, r') \<Longrightarrow> hs_msgIndex r = 0 \<Longrightarrow> hs_pattern r = XX \<Longrightarrow> False"
  by (auto simp: readMessage_def patternFor_def kXx_def Let_def split: if_splits)

lemma XX_messages: "pt_messages (patternFor XX) = [[E], [E, EE, S, ES], [S, SE]]"
  by (simp add: patternFor_def kXx_def)

lemma XX_message:
  assumes C: "cryptoCorrect C" "soundKeys C K"
    and l: "linkedW (even k) C K n kn a b" "hs_pattern a = XX" "hs_msgIndex a = of_nat k" "\<not> hs_complete a" "k < 3"
    and ts: "ts = pt_messages (patternFor XX) ! k" "allowedAll XX (even k) kn ts" "n \<le> 20" "length payload \<le> kIdentityPayloadLen"
  obtains m a' b' where "writeMessage C (freshOf (even k) K) payload [] a = (Ok, m, a')" "readMessage C m b = (Ok, payload, b')"
    "length payload \<le> length m" "length m \<le> 8000" "linkedW (even k) C K (n + 5) (fold (learnt (even k)) ts kn) a' b'"
    "hs_pattern a' = XX" "hs_msgIndex a' = of_nat (Suc k)" "hs_complete a' = (k = 2)"
proof -
  have len: "length (pt_messages (patternFor (hs_pattern a))) = 3" by (simp add: l(2) XX_messages)
  have four: "length ts \<le> 4" using l(5) ts(1) by (auto simp: XX_messages less_Suc_eq numeral_eq_Suc)
  have ts': "ts = pt_messages (patternFor (hs_pattern a)) ! k" "allowedAll (hs_pattern a) (even k) kn ts"
    using ts(1,2) l(2) by simp_all
  have k: "k < length (pt_messages (patternFor (hs_pattern a)))" "k < 256" using l(5) len by simp_all
  have room: "n + length ts < 2 ^ 64 - 1" "length payload + length ts * (kDhLen + kTagLen) + kTagLen \<le> kNoiseMaxMessage"
    using four ts(3,4) by simp_all
  obtain m a' b' where m: "writeMessage C (freshOf (even k) K) payload [] a = (Ok, m, a')" "readMessage C m b = (Ok, payload, b')"
    "length payload \<le> length m" "length m \<le> length payload + length ts * (kDhLen + kTagLen) + kTagLen"
    "linkedW (even k) C K (Suc (n + length ts)) (fold (learnt (even k)) ts kn) a' b'" "hs_pattern a' = hs_pattern a"
    "hs_msgIndex a' = of_nat (Suc k)" "hs_complete a' = (Suc k \<ge> length (pt_messages (patternFor (hs_pattern a))))"
    using message_agree [OF C l(1,3) k refl l(4) ts' room] by blast
  show thesis
  proof (rule that [OF m(1-3)])
    show "length m \<le> 8000" using m(4) four ts(4) by simp
    show "linkedW (even k) C K (n + 5) (fold (learnt (even k)) ts kn) a' b'" by (rule linkedW_mono [OF m(5)]) (use four in simp)
  qed (use m len l in auto)
qed

lemma XX_trace:
  assumes C: "cryptoCorrect C" "soundKeys C K" and q: "length qA = kIdentityPayloadLen" "length qB = kIdentityPayloadLen"
  obtains ms where "trace C K qA qB
    (snd (hs_start C (startParams C XX True pro (ky_si K) (ky_sr K)) HandshakeState0))
    (snd (hs_start C (startParams C XX False pro (ky_sr K) (ky_si K)) HandshakeState0)) ms"
proof -
  let ?i = "snd (hs_start C (startParams C XX True pro (ky_si K) (ky_sr K)) HandshakeState0)"
    and ?r = "snd (hs_start C (startParams C XX False pro (ky_sr K) (ky_si K)) HandshakeState0)"
  have l0: "linkedW (even 0) C K 0 (known0 XX) ?i ?r" "hs_pattern ?i = XX" "hs_msgIndex ?i = of_nat 0" "\<not> hs_complete ?i"
    using start_linked [of C XX pro K] by (auto simp: linkedW_def)
  note p0 = linkedW_place [OF l0(1)]
  obtain m0 i1 r1 where m0: "writeMessage C (freshOf (even 0) K) [] [] ?i = (Ok, m0, i1)" "readMessage C m0 ?r = (Ok, [], r1)"
    "length [] \<le> length m0" "length m0 \<le> 8000" "linkedW (even 0) C K (0 + 5) (fold (learnt (even 0)) [E] (known0 XX)) i1 r1"
    "hs_pattern i1 = XX" "hs_msgIndex i1 = of_nat (Suc 0)" "hs_complete i1 = (0 = (2 :: nat))"
    by (rule XX_message [OF C l0, of "[E]" "[]"]) (simp_all add: XX_messages)
  note p1 = linkedW_place [OF m0(5)]
  let ?k1 = "fold (learnt (even (0 :: nat))) [E] (known0 XX)"
  have l1: "linkedW (even (Suc 0)) C K 5 ?k1 r1 i1" using linkedW_flip [OF m0(5)] by simp
  obtain m1 r2 i2 where m1: "writeMessage C (freshOf (even (Suc 0)) K) qB [] r1 = (Ok, m1, r2)" "readMessage C m1 i1 = (Ok, qB, i2)"
    "length qB \<le> length m1" "length m1 \<le> 8000"
    "linkedW (even (Suc 0)) C K (5 + 5) (fold (learnt (even (Suc 0))) [E, EE, S, ES] ?k1) r2 i2"
    "hs_pattern r2 = XX" "hs_msgIndex r2 = of_nat (Suc (Suc 0))" "hs_complete r2 = (Suc 0 = 2)"
    by (rule XX_message [OF C l1, of "[E, EE, S, ES]" qB]) (use p1 m0(6-8) q in \<open>simp_all add: XX_messages known0_def\<close>)
  note p2 = linkedW_place [OF m1(5)]
  let ?k2 = "fold (learnt (even (Suc 0))) [E, EE, S, ES] ?k1"
  have l2: "linkedW (even (Suc (Suc 0))) C K 10 ?k2 i2 r2" using linkedW_flip [OF m1(5)] by simp
  obtain m2 i3 r3 where m2: "writeMessage C (freshOf (even (Suc (Suc 0))) K) qA [] i2 = (Ok, m2, i3)" "readMessage C m2 r2 = (Ok, qA, r3)"
    "length qA \<le> length m2" "length m2 \<le> 8000"
    "linkedW (even (Suc (Suc 0))) C K (10 + 5) (fold (learnt (even (Suc (Suc 0)))) [S, SE] ?k2) i3 r3"
    "hs_pattern i3 = XX" "hs_msgIndex i3 = of_nat (Suc (Suc (Suc 0)))" "hs_complete i3 = (Suc (Suc 0) = 2)"
    by (rule XX_message [OF C l2, of "[S, SE]" qA]) (use p2 m1(6-8) q in \<open>simp_all add: XX_messages known0_def\<close>)
  note p3 = linkedW_place [OF m2(5)]
  have "m0 \<noteq> []" using no_empty_message m0(2) p0 l0(2,3) by fastforce
  moreover have "m1 \<noteq> []" "m2 \<noteq> []" using m1(3) m2(3) q by auto
  moreover have "hs_haveRs i2 \<and> hs_rs i2 = x25519PublicKey C (ky_sr K)"
    using l2 by (simp add: linkedW_def linked_def known0_def x25519PublicKey_def)
  moreover have "hs_haveRs r3 \<and> hs_rs r3 = x25519PublicKey C (ky_si K)"
    using m2(5) by (simp add: linkedW_def linked_def known0_def x25519PublicKey_def)
  ultimately show thesis
    using m0 m1 m2 p3 by (intro that [of "(m0, m1, m2, i1, i2, i3, r1, r2, r3)"]) (simp add: trace_def freshOf_def)
qed

section \<open>The two greetings under the transport keys\<close>

lemma noiseSeal_keeps: "ic_seal (NoiseCipher P) b c = (st, ct, c') \<Longrightarrow>
    nc_recv c' = nc_recv c \<and> nc_opened c' = nc_opened c \<and> nc_rekeyInterval c' = nc_rekeyInterval c"
  by (auto simp: NoiseCipher_def noiseSeal_def Let_def split: if_splits prod.splits)

lemma noiseOpen_keeps: "ic_open (NoiseCipher P) ct c = (st, b, c') \<Longrightarrow>
    nc_send c' = nc_send c \<and> nc_sealed c' = nc_sealed c \<and> nc_rekeyInterval c' = nc_rekeyInterval c"
  by (auto simp: NoiseCipher_def noiseOpen_def Let_def split: if_splits prod.splits)

lemma two_way:
  fixes P a b interval
  defines "cA \<equiv> NoiseCipher_new a b interval" and "cB \<equiv> NoiseCipher_new b a interval"
  assumes P: "aeadCorrect P" and k: "cs_hasKey a" "cs_hasKey b" "cs_n a = 0" "cs_n b = 0"
    and len: "length q \<le> 8000" "length r \<le> 8000"
  obtains ct cA' cB' ct' cB'' cA''
  where "ic_seal (NoiseCipher P) q cA = (Ok, ct, cA')" "ic_open (NoiseCipher P) ct cB = (Ok, q, cB')"
    "length ct = length q + kTagLen"
    "ic_seal (NoiseCipher P) r cB' = (Ok, ct', cB'')" "ic_open (NoiseCipher P) ct' cA' = (Ok, r, cA'')"
    "length ct' = length r + kTagLen"
proof -
  have ov: "ic_overhead (NoiseCipher P) = kTagLen" by (simp add: NoiseCipher_def)
  have "noiseReady P (Suc 0) cA cB" using P k by (simp add: noiseReady_def cA_def cB_def NoiseCipher_new_def)
  from noise.seal_open [OF this, of q] len ov obtain ct cA' cB'
    where x: "ic_seal (NoiseCipher P) q cA = (Ok, ct, cA')" "ic_open (NoiseCipher P) ct cB = (Ok, q, cB')"
      "length ct = length q + kTagLen" by auto
  have "noiseReady P (Suc 0) cB' cA'"
    using P k noiseSeal_keeps [OF x(1)] noiseOpen_keeps [OF x(2)]
    by (simp add: noiseReady_def cA_def cB_def NoiseCipher_new_def)
  from noise.seal_open [OF this, of r] len ov obtain ct' cB'' cA''
    where y: "ic_seal (NoiseCipher P) r cB' = (Ok, ct', cB'')" "ic_open (NoiseCipher P) ct' cA' = (Ok, r, cA'')"
      "length ct' = length r + kTagLen" by auto
  from x y show thesis by (rule that)
qed

lemma transcript_length:
  assumes "writeMessage C fresh payload out hs = (Ok, m, hs')" "hashCorrect C"
  shows "length (handshakeHash hs') = kHashLen"
  using assms
  by (auto simp: writeMessage_def advance_def handshakeHash_def encryptAndHash_def mixHash_def hashCorrect_def Let_def
      split: if_splits prod.splits)

section \<open>The five pumps\<close>

context line
begin

lemma pump_opens:
  assumes pf: "onLine pf" and s: "begunAt cfg (mk out (ourPreamble XX)) s" and ini: "cf_initiator cfg"
    and hs: "hs = snd (hs_start (pf_crypto pf) (startParams (pf_crypto pf) XX True
        (ourPreamble XX @ ourPreamble XX) (li_noiseSk (the (cf_identity cfg))) peer) HandshakeState0)"
    and w: "writeMessage (pf_crypto pf) (pf_fresh pf) [] [] hs = (Ok, m, hs')" "length m \<le> 8000"
  obtains s' where "se_pump pf s = (Busy, s')" "hsAt cfg XX hs' 1 PeerIdentity0 [] (mk (out @ frame m) []) s'"
proof -
  from s have s0: "begunAt cfg (mk out (ourPreamble XX @ [])) s" by simp
  obtain s1 where s1: "se_pump pf s = driveHandshake pf s1" "hsAt cfg XX hs 0 PeerIdentity0 [] (mk out []) s1"
    by (rule preamble_turn [OF pf s0, of peer]) (use ini hs in simp)
  obtain s2 where s2: "handshakeLoop pf XX s1 = handshakeLoop pf XX s2"
      "hsAt cfg XX hs' (Suc 0) PeerIdentity0 [] (mk (out @ frame m) []) s2"
    by (rule loop_write [OF pf s1(2) _ _ refl, of m hs']) (use ini w in \<open>simp_all add: messageCount_def carriesIdentity_def\<close>)
  have "handshakeLoop pf XX s2 = (Some Busy, s2)"
    by (rule loop_wait [OF pf s2(2)]) (use ini in \<open>simp_all add: messageCount_def\<close>)
  then have "se_pump pf s = (Busy, s2)" using s1(1) s2(1) hsAt_drive [OF s1(2)] by simp
  then show thesis by (rule that) (use s2(2) in simp)
qed

lemma pump_answers:
  assumes pf: "onLine pf" and s: "begunAt cfg (mk out (ourPreamble XX @ frame m)) s" and ini: "\<not> cf_initiator cfg"
    and hs: "hs = snd (hs_start (pf_crypto pf) (startParams (pf_crypto pf) XX False
        (ourPreamble XX @ ourPreamble XX) (li_noiseSk (the (cf_identity cfg))) peer) HandshakeState0)"
    and m: "readMessage (pf_crypto pf) m hs = (Ok, [], hs')" "m \<noteq> []" "length m \<le> 8000"
    and w: "writeMessage (pf_crypto pf) (pf_fresh pf) (encodeIdentityPayload (the (cf_identity cfg)) []) [] hs' = (Ok, m', hs'')"
      "length m' \<le> 8000"
  obtains s' where "se_pump pf s = (Busy, s')" "hsAt cfg XX hs'' 2 PeerIdentity0 [] (mk (out @ frame m') []) s'"
proof -
  obtain s1 where s1: "se_pump pf s = driveHandshake pf s1" "hsAt cfg XX hs 0 PeerIdentity0 [] (mk out (frame m)) s1"
    by (rule preamble_turn [OF pf s, of peer]) (use ini hs in simp)
  obtain s2 where s2: "handshakeLoop pf XX s1 = handshakeLoop pf XX s2"
      "hsAt cfg XX hs' (Suc 0) PeerIdentity0 [] (mk out []) s2"
    by (rule loop_read [OF pf s1(2), of m "[]" "[]" hs' PeerIdentity0])
       (use ini m in \<open>simp_all add: messageCount_def carriesIdentity_def waiting_def\<close>)
  obtain s3 where s3: "handshakeLoop pf XX s2 = handshakeLoop pf XX s3"
      "hsAt cfg XX hs'' (Suc (Suc 0)) PeerIdentity0 [] (mk (out @ frame m') []) s3"
    by (rule loop_write [OF pf s2(2) _ _ refl, of m' hs'']) (use ini w in \<open>simp_all add: messageCount_def carriesIdentity_def\<close>)
  have "handshakeLoop pf XX s3 = (Some Busy, s3)"
    by (rule loop_wait [OF pf s3(2)]) (use ini in \<open>simp_all add: messageCount_def\<close>)
  then have "se_pump pf s = (Busy, s3)" using s1(1) s2(1) s3(1) hsAt_drive [OF s1(2)] by simp
  then show thesis by (rule that) (use s3(2) in \<open>simp add: numeral_2_eq_2\<close>)
qed

lemma pump_confirms:
  assumes pf: "onLine pf" and s: "hsAt cfg XX hs 1 PeerIdentity0 [] (mk out (frame m)) s" and ini: "cf_initiator cfg"
    and m: "readMessage (pf_crypto pf) m hs = (Ok, payload, hs')" "m \<noteq> []" "length m \<le> 8000"
    and peer: "hs_haveRs hs'" "decodeAndVerifyIdentityPayload (pf_crypto pf) payload (hs_rs hs') = Some peer"
      "pi_identityKey peer \<noteq> replicate kDhLen 0"
    and w: "writeMessage (pf_crypto pf) (pf_fresh pf) (encodeIdentityPayload (the (cf_identity cfg)) []) [] hs' = (Ok, m', hs'')"
      "length m' \<le> 8000" "hs_complete hs''"
    and cb: "cb = handshakeHash hs''" "kSessionIdBytes \<le> length cb"
    and sp: "hs_split (pf_crypto pf) hs'' = (Ok, snd', rcv, hsEnd)"
    and sl: "ic_seal (NoiseCipher (cr_aead (pf_crypto pf))) (helloRecord T_Hello (helloBody (pf_platformId pf) cfg cb None))
        (NoiseCipher_new snd' rcv kRekeyInterval) = (Ok, ct, c)" "length ct = kHeaderSize + kBodyHello + kTagLen"
  obtains s' where "se_pump pf s = (Busy, s')"
    "gsAt (pf_crypto pf) cfg peer cb c [] True (mk (out @ frame m' @ frame ct) []) s'"
proof -
  let ?C = "pf_crypto pf"
  obtain s2 where s2: "handshakeLoop pf XX s = handshakeLoop pf XX s2" "hsAt cfg XX hs' (Suc 1) peer [] (mk out []) s2"
    by (rule loop_read [OF pf s, of m "[]" payload hs' peer])
       (use ini m peer in \<open>simp_all add: messageCount_def carriesIdentity_def waiting_def\<close>)
  obtain s3 where s3: "handshakeLoop pf XX s2 = handshakeLoop pf XX s3"
      "hsAt cfg XX hs'' (Suc (Suc 1)) peer [] (mk (out @ frame m') []) s3"
    by (rule loop_write [OF pf s2(2) _ _ refl, of m' hs'']) (use ini w in \<open>simp_all add: messageCount_def carriesIdentity_def\<close>)
  have "handshakeLoop pf XX s3 = (None, s3)"
    by (rule loop_end) (use s3(2) in \<open>simp add: messageCount_def numeral_3_eq_3\<close>)
  then have drive: "se_pump pf s = finish pf s3"
    using s s2(1) s3(1) hsAt_drive [OF s, of pf] hsAt_pending [OF s3(2)] by (simp add: se_pump_def hsAt_def)
  obtain s4 where s4: "finish pf s3 = driveGreeting pf s4"
    "gsAt ?C cfg peer cb (NoiseCipher_new snd' rcv kRekeyInterval) [] False (mk (out @ frame m') []) s4"
    by (rule finish_greets [OF s3(2) w(3) peer(3) sp]) (use cb(1) in simp)
  obtain s5 where s5: "sendHello pf T_Hello None s4 = (Ok, s5)"
      "gsAt ?C cfg peer cb c [] False (mk ((out @ frame m') @ frame ct) []) s5"
    by (rule hello_sent [OF pf s4(2) cb(2) sl])
  let ?s = "s5\<lparr>se_helloSent := True\<rparr>"
  have g: "gsAt ?C cfg peer cb c [] True (mk (out @ frame m' @ frame ct) []) ?s" using s5(2) by (simp add: gsAt_def)
  have "driveGreeting pf s4 = awaitGreeting pf ?s"
    using s4(2) s5(1) ini gsAt_pending [OF s4(2)] by (simp add: driveGreeting_def gsAt_def)
  with greeting_wait [OF pf g] drive s4(1) have "se_pump pf s = (Busy, ?s)" by simp
  then show thesis by (rule that [OF _ g])
qed

lemma pump_settles:
  assumes pf: "onLine pf" and s: "hsAt cfg XX hs 2 PeerIdentity0 [] (mk out (frame m @ frame ct)) s" and ini: "\<not> cf_initiator cfg"
    and m: "readMessage (pf_crypto pf) m hs = (Ok, payload, hs')" "m \<noteq> []" "length m \<le> 8000"
    and peer: "hs_haveRs hs'" "decodeAndVerifyIdentityPayload (pf_crypto pf) payload (hs_rs hs') = Some peer"
      "pi_identityKey peer \<noteq> replicate kDhLen 0" "hs_complete hs'"
    and cb: "cb = handshakeHash hs'" "kSessionIdBytes \<le> length cb"
    and sp: "hs_split (pf_crypto pf) hs' = (Ok, snd', rcv, hsEnd)"
    and op: "ic_open (NoiseCipher (cr_aead (pf_crypto pf))) ct (NoiseCipher_new snd' rcv kRekeyInterval) = (Ok, b, c)"
      "length ct = kHeaderSize + kBodyHello + kTagLen" "b \<noteq> []"
    and gr: "checkGreeting cfg cb b = Inr h" "n = negotiate cfg h" "legalRecord (ng_maxRecordBytes n)"
    and sl: "ic_seal (NoiseCipher (cr_aead (pf_crypto pf))) (helloRecord T_HelloOk (helloBody (pf_platformId pf) cfg cb (Some n)))
        c = (Ok, ct', c')" "length ct' = kHeaderSize + kBodyHello + kTagLen"
  obtains s' where "se_pump pf s = (Ok, s')" "upAt (pf_crypto pf) cfg peer cb n (mk (out @ frame ct') []) s'"
proof -
  let ?C = "pf_crypto pf"
  obtain s2 where s2: "handshakeLoop pf XX s = handshakeLoop pf XX s2"
      "hsAt cfg XX hs' (Suc 2) peer (frame ct) (mk out []) s2"
    by (rule loop_read [OF pf s, of m "frame ct" payload hs' peer])
       (use ini m peer op(2) in \<open>simp_all add: messageCount_def carriesIdentity_def waiting_def\<close>)
  have "handshakeLoop pf XX s2 = (None, s2)"
    by (rule loop_end) (use s2(2) in \<open>simp add: messageCount_def numeral_3_eq_3 numeral_2_eq_2\<close>)
  then have drive: "se_pump pf s = finish pf s2"
    using s s2(1) hsAt_drive [OF s, of pf] hsAt_pending [OF s2(2)] by (simp add: se_pump_def hsAt_def)
  obtain s4 where s4: "finish pf s2 = driveGreeting pf s4"
    "gsAt ?C cfg peer cb (NoiseCipher_new snd' rcv kRekeyInterval) (frame ct) False (mk out []) s4"
    by (rule finish_greets [OF s2(2) peer(4,3) sp]) (use cb(1) in simp)
  obtain s5 where s5: "driveGreeting pf s4 = greeted pf b s5" "gsAt ?C cfg peer cb c [] False (mk out []) s5"
    by (rule hello_received [OF pf s4(2), of ct "[]" b c]) (use op ini in \<open>simp_all add: waiting_def\<close>)
  let ?s5 = "s5\<lparr>se_negotiated := n\<rparr>"
  have g5: "gsAt ?C cfg peer cb c [] False (mk out []) ?s5" using s5(2) by (simp add: gsAt_def)
  obtain s6 where s6: "sendHello pf T_HelloOk (Some n) ?s5 = (Ok, s6)"
      "gsAt ?C cfg peer cb c' [] False (mk (out @ frame ct') []) s6" "se_negotiated s6 = n"
    by (rule hello_sent [OF pf g5 cb(2) sl]) simp
  let ?s6 = "s6\<lparr>se_greetSent := True\<rparr>"
  have g6: "gsAt ?C cfg peer cb c' [] False (mk (out @ frame ct') []) (?s6\<lparr>se_greetSent := False\<rparr>)"
    using s6(2) by (simp add: gsAt_def)
  obtain s7 where s7: "applyNegotiated ?s6 = (Ok, s7)" "upAt ?C cfg peer cb n (mk (out @ frame ct') []) s7"
    using applyNegotiated_up [OF g6, of n] s6(3) gr(3) by auto
  have "greeted pf b s5 = (Ok, s7)"
    using s5(2) s6(1) s7(1) gr(1,2) ini gsAt_pending [OF s6(2)] by (simp add: greeted_def gsAt_def)
  with drive s4(1) s5(1) have "se_pump pf s = (Ok, s7)" by simp
  then show thesis by (rule that [OF _ s7(2)])
qed

lemma pump_adopts:
  assumes pf: "onLine pf" and s: "gsAt (pf_crypto pf) cfg peer cb c [] True (mk out (frame ct)) s" and ini: "cf_initiator cfg"
    and op: "ic_open (NoiseCipher (cr_aead (pf_crypto pf))) ct c = (Ok, b, c')"
      "length ct = kHeaderSize + kBodyHello + kTagLen" "b \<noteq> []"
    and gr: "checkGreeting cfg cb b = Inr h" "n = negotiate cfg h" "legalRecord (ng_maxRecordBytes n)"
  obtains s' where "se_pump pf s = (Ok, s')" "upAt (pf_crypto pf) cfg peer cb n (mk out []) s'"
proof -
  obtain s5 where s5: "driveGreeting pf s = greeted pf b s5" "gsAt (pf_crypto pf) cfg peer cb c' [] True (mk out []) s5"
    by (rule hello_received [OF pf s, of ct "[]" b c']) (use op ini in \<open>simp_all add: waiting_def\<close>)
  let ?s5 = "s5\<lparr>se_negotiated := n\<rparr>"
  have g5: "gsAt (pf_crypto pf) cfg peer cb c' [] True (mk out []) (?s5\<lparr>se_greetSent := False\<rparr>)" using s5(2) by (simp add: gsAt_def)
  obtain s7 where s7: "applyNegotiated ?s5 = (Ok, s7)" "upAt (pf_crypto pf) cfg peer cb n (mk out []) s7"
    using applyNegotiated_up [OF g5, of n] gr(3) by auto
  have "greeted pf b s5 = (Ok, s7)" using s5(2) s7(1) gr(1,2) ini by (simp add: greeted_def gsAt_def)
  then have "se_pump pf s = (Ok, s7)" using s s5(1) by (simp add: se_pump_def gsAt_def)
  then show thesis by (rule that [OF _ s7(2)])
qed

end

end
