(* ===== verification/FirstContact.thy ===== *)
theory FirstContact
  imports Establish
begin

text \<open>
  Two machines that meet: the sessions of both, run against each other over one line, end
  established and in agreement; and what any established session guarantees.
\<close>

section \<open>Two sessions over one line\<close>

text \<open>The sessions are pumped in turn, the first one first; both act on the same line.\<close>

fun exchange :: "'s Platform \<Rightarrow> 's Platform \<Rightarrow> nat \<Rightarrow> 's SecureSession \<Rightarrow> 's SecureSession \<Rightarrow>
    's SecureSession \<times> 's SecureSession" where
  "exchange pfA pfB 0 a b = (a, b)"
| "exchange pfA pfB (Suc n) a b =
     (let a' = snd (se_pump pfA a);
          (b', a'') = exchange pfB pfA n (b\<lparr>se_stream := Some (the (se_stream a'))\<rparr>) a'
      in (a'', b'))"

text \<open>Both sessions begin, the initiator first, and are then pumped \<open>n\<close> times in turn.\<close>

definition meet :: "nat \<Rightarrow> MemoryPipe Platform \<Rightarrow> Config \<Rightarrow> MemoryPipe Platform \<Rightarrow> Config \<Rightarrow>
    MemoryPipe SecureSession \<times> MemoryPipe SecureSession" where
  "meet n pfA cfgA pfB cfgB =
     (let a = snd (se_begin pfA (Some MemoryPipe_new) cfgA SecureSession0);
          b = snd (se_begin pfB (se_stream a) cfgB SecureSession0)
      in exchange pfA pfB n (a\<lparr>se_stream := Some (the (se_stream b))\<rparr>) b)"

definition keysOf :: "Crypto \<Rightarrow> 's Platform \<Rightarrow> bytes \<Rightarrow> 's Platform \<Rightarrow> bytes \<Rightarrow> Keys" where
  "keysOf C pfA seedA pfB seedB =
     \<lparr>ky_si = li_noiseSk (fromSeed C seedA), ky_ei = pf_fresh pfA,
      ky_sr = li_noiseSk (fromSeed C seedB), ky_er = pf_fresh pfB\<rparr>"

text \<open>The two ends of the line, and configurations of machines that have not paired before.\<close>

definition strangers :: "Crypto \<Rightarrow> MemoryPipe Platform \<Rightarrow> Config \<Rightarrow> bytes \<Rightarrow> MemoryPipe Platform \<Rightarrow> Config \<Rightarrow> bytes \<Rightarrow> bool" where
  "strangers C pfA cfgA seedA pfB cfgB seedB \<longleftrightarrow>
     pf_crypto pfA = C \<and> pf_write pfA = writeA \<and> pf_read pfA = readA
     \<and> pf_crypto pfB = C \<and> pf_write pfB = writeB \<and> pf_read pfB = readB
     \<and> cf_initiator cfgA \<and> cf_identity cfgA = Some (fromSeed C seedA) \<and> choosePattern cfgA = XX
     \<and> \<not> cf_initiator cfgB \<and> cf_identity cfgB = Some (fromSeed C seedB)
     \<and> legalRecord (cf_negotiatedMaxRecordBytes cfgA) \<and> legalRecord (cf_negotiatedMaxRecordBytes cfgB)
     \<and> (\<forall>seed \<in> {seedA, seedB}. li_idPub (fromSeed C seed) \<noteq> replicate kDhLen 0)"

lemma pipe_new: "MemoryPipe_new = pipe [] []"
  by (simp add: pipe_def MemoryPipe_new_def)

lemma exchange_run:
  "(\<exists>ops. fst (exchange pfA pfB n a b) = sessionRun pfA ops a) \<and> (\<exists>ops. snd (exchange pfA pfB n a b) = sessionRun pfB ops b)"
proof (induction n arbitrary: pfA pfB a b)
  case 0
  show ?case by (auto simp: sessionRun_def intro: exI [of _ "[]"])
next
  case (Suc n)
  let ?a = "snd (se_pump pfA a)"
  let ?b = "b\<lparr>se_stream := Some (the (se_stream ?a))\<rparr>"
  from Suc.IH [of pfB pfA ?b ?a] obtain ops ops' where
    r: "fst (exchange pfB pfA n ?b ?a) = sessionRun pfB ops ?b" "snd (exchange pfB pfA n ?b ?a) = sessionRun pfA ops' ?a" by blast
  have "sessionRun pfA ops' ?a = sessionRun pfA (SessionPump # ops') a"
    "sessionRun pfB ops ?b = sessionRun pfB (SessionNet (the (se_stream ?a)) # ops) b"
    by (simp_all add: sessionRun_def)
  with r show ?case by (auto simp: Let_def split: prod.split)
qed

lemma begins:
  assumes "pf_write pf p st = (Ok, length p, st')" "p = ourPreamble XX" "cf_identity cfg \<noteq> None" "choosePattern cfg = XX"
  shows "begunAt cfg st' (snd (se_begin pf (Some st) cfg SecureSession0))"
  using assms by (auto simp: se_begin_def SecureSession0_def begunAt_def Let_def)

lemma identity_roundtrip:
  assumes "cryptoCorrect C"
  shows "decodeAndVerifyIdentityPayload C (encodeIdentityPayload (fromSeed C seed) [])
      (x25519PublicKey C (li_noiseSk (fromSeed C seed))) = Some (publicIdentity (fromSeed C seed))"
    and "length (encodeIdentityPayload (fromSeed C seed) []) = kIdentityPayloadLen"
  using identity_payload(1) [OF assms, of seed] fromSeed_sizes [OF assms, of seed] by (simp_all add: encodeIdentityPayload_def)

lemma newStream:
  "begunAt cfg st s \<Longrightarrow> begunAt cfg st' (s\<lparr>se_stream := Some st'\<rparr>)"
  "hsAt cfg p hs k peer rx st s \<Longrightarrow> hsAt cfg p hs k peer rx st' (s\<lparr>se_stream := Some st'\<rparr>)"
  "gsAt C cfg peer cb c rx hello st s \<Longrightarrow> gsAt C cfg peer cb c rx hello st' (s\<lparr>se_stream := Some st'\<rparr>)"
  "upAt C cfg peer cb n st s \<Longrightarrow> upAt C cfg peer cb n st' (s\<lparr>se_stream := Some st'\<rparr>)"
  by (simp_all add: begunAt_def hsAt_def gsAt_def upAt_def)

lemma theStream:
  "begunAt cfg st s \<Longrightarrow> se_stream s = Some st"
  "hsAt cfg p hs k peer rx st s \<Longrightarrow> se_stream s = Some st"
  "gsAt C cfg peer cb c rx hello st s \<Longrightarrow> se_stream s = Some st"
  "upAt C cfg peer cb n st s \<Longrightarrow> se_stream s = Some st"
  by (simp_all add: begunAt_def hsAt_def gsAt_def upAt_def)

lemma exchange_step:
  "\<lbrakk>se_pump pfA a = (st, a'); se_stream a' = Some x; exchange pfB pfA n (b\<lparr>se_stream := Some x\<rparr>) a' = (b', a'')\<rbrakk> \<Longrightarrow>
    exchange pfA pfB (Suc n) a b = (a'', b')"
  by simp

text \<open>
  Everything that travels: the handshake messages and the two sealed greetings, under states that
  fit together.
\<close>

definition initState where
  "initState C w K =
     snd (hs_start C (startParams C XX w (ourPreamble XX @ ourPreamble XX) (if w then ky_si K else ky_sr K)
       (if w then ky_sr K else ky_si K)) HandshakeState0)"

definition answerOf where
  "answerOf pfA cfgA cfgB cb = negotiate cfgB (helloBody (pf_platformId pfA) cfgA cb None)"

definition script where
  "script C pfA cfgA seedA pfB cfgB seedB m0 m1 m2 i1 i2 i3 r1 r2 r3 ct ct' \<longleftrightarrow>
     trace C (keysOf C pfA seedA pfB seedB) (encodeIdentityPayload (fromSeed C seedA) []) (encodeIdentityPayload (fromSeed C seedB) [])
       (initState C True (keysOf C pfA seedA pfB seedB)) (initState C False (keysOf C pfA seedA pfB seedB))
       (m0, m1, m2, i1, i2, i3, r1, r2, r3)
     \<and> handshakeHash i3 = handshakeHash r3 \<and> kSessionIdBytes \<le> length (handshakeHash i3)
     \<and> (\<exists>x y i4 r4 cA cB cB' cA'. hs_split C i3 = (Ok, x, y, i4) \<and> hs_split C r3 = (Ok, y, x, r4)
         \<and> ic_seal (NoiseCipher (cr_aead C)) (helloRecord T_Hello (helloBody (pf_platformId pfA) cfgA (handshakeHash i3) None))
             (NoiseCipher_new x y kRekeyInterval) = (Ok, ct, cA)
         \<and> ic_open (NoiseCipher (cr_aead C)) ct (NoiseCipher_new y x kRekeyInterval)
             = (Ok, helloRecord T_Hello (helloBody (pf_platformId pfA) cfgA (handshakeHash i3) None), cB)
         \<and> ic_seal (NoiseCipher (cr_aead C)) (helloRecord T_HelloOk (helloBody (pf_platformId pfB) cfgB (handshakeHash i3)
             (Some (answerOf pfA cfgA cfgB (handshakeHash i3))))) cB = (Ok, ct', cB')
         \<and> ic_open (NoiseCipher (cr_aead C)) ct' cA = (Ok, helloRecord T_HelloOk (helloBody (pf_platformId pfB) cfgB
             (handshakeHash i3) (Some (answerOf pfA cfgA cfgB (handshakeHash i3)))), cA'))
     \<and> length ct = kHeaderSize + kBodyHello + kTagLen \<and> length ct' = kHeaderSize + kBodyHello + kTagLen"

lemma hello_nonempty: "kSessionIdBytes \<le> length cb \<Longrightarrow> helloRecord ty (helloBody pl cfg cb ag) \<noteq> []"
  using length_helloRecord [OF wf_helloBody, of cb ty pl cfg ag] by auto

lemma script_exists:
  fixes pfA :: "'s Platform"
  assumes C: "cryptoCorrect C" and snd: "soundKeys C (keysOf C pfA seedA pfB seedB)"
  obtains m0 m1 m2 i1 i2 i3 r1 r2 r3 ct ct' where "script C pfA cfgA seedA pfB cfgB seedB m0 m1 m2 i1 i2 i3 r1 r2 r3 ct ct'"
proof -
  let ?K = "keysOf C pfA seedA pfB seedB"
    and ?qA = "encodeIdentityPayload (fromSeed C seedA) []" and ?qB = "encodeIdentityPayload (fromSeed C seedB) []"
  obtain ms where ms: "trace C ?K ?qA ?qB (initState C True ?K) (initState C False ?K) ms"
    unfolding initState_def if_True if_False
    by (rule XX_trace [OF C snd identity_roundtrip(2) [OF C] identity_roundtrip(2) [OF C]])
  obtain m0 m1 m2 i1 i2 i3 r1 r2 r3 where eq: "ms = (m0, m1, m2, i1, i2, i3, r1, r2, r3)" by (metis surj_pair)
  note tr = ms [unfolded trace_def eq, simplified]
  let ?cb = "handshakeHash i3"
  have cb: "?cb = handshakeHash r3" "kSessionIdBytes \<le> length ?cb"
    using tr C transcript_length [of C "ky_ei ?K" ?qA "[]" i2 m2 i3] by (simp_all add: handshakeHash_def cryptoCorrect_def)
  obtain x y i4 r4 where sp: "hs_split C i3 = (Ok, x, y, i4)" "hs_split C r3 = (Ok, y, x, r4)" "cs_hasKey x" "cs_hasKey y"
      "cs_n x = 0" "cs_n y = 0"
    using split_cross [of i3 r3 C] tr by auto
  let ?hA = "helloRecord T_Hello (helloBody (pf_platformId pfA) cfgA ?cb None)"
  let ?hB = "helloRecord T_HelloOk (helloBody (pf_platformId pfB) cfgB ?cb (Some (answerOf pfA cfgA cfgB ?cb)))"
  have wf: "length ?hA = kHeaderSize + kBodyHello" "length ?hB = kHeaderSize + kBodyHello"
    using length_helloRecord [OF wf_helloBody [OF cb(2)]] by blast+
  have P: "aeadCorrect (cr_aead C)" using C by (simp add: cryptoCorrect_def)
  obtain ct cA cB ct' cB' cA' where g:
    "ic_seal (NoiseCipher (cr_aead C)) ?hA (NoiseCipher_new x y kRekeyInterval) = (Ok, ct, cA)"
    "ic_open (NoiseCipher (cr_aead C)) ct (NoiseCipher_new y x kRekeyInterval) = (Ok, ?hA, cB)"
    "length ct = length ?hA + kTagLen"
    "ic_seal (NoiseCipher (cr_aead C)) ?hB cB = (Ok, ct', cB')"
    "ic_open (NoiseCipher (cr_aead C)) ct' cA = (Ok, ?hB, cA')"
    "length ct' = length ?hB + kTagLen"
    by (rule two_way [OF P sp(3-6), of ?hA ?hB]) (use wf in simp_all)
  have lens: "length ct = kHeaderSize + kBodyHello + kTagLen" "length ct' = kHeaderSize + kBodyHello + kTagLen"
    using g(3,6) wf by simp_all
  show thesis
    by (rule that [of m0 m1 m2 i1 i2 i3 r1 r2 r3 ct ct'])
       (unfold script_def, intro conjI ms [unfolded eq] cb lens exI, (rule sp g)+)
qed

lemma meet_establishes:
  assumes C: "cryptoCorrect C" and m: "strangers C pfA cfgA seedA pfB cfgB seedB"
    and snd: "soundKeys C (keysOf C pfA seedA pfB seedB)"
  obtains a b cb n where "meet 5 pfA cfgA pfB cfgB = (a, b)"
    "upAt C cfgB (publicIdentity (fromSeed C seedA)) cb n (pipe [] []) b"
    "upAt C cfgA (publicIdentity (fromSeed C seedB)) cb (n\<lparr>ng_peerRoleBits := cf_roleBits cfgB, ng_peerPlatform := pf_platformId pfB\<rparr>)
      (pipe [] []) a"
    "n = answerOf pfA cfgA cfgB cb"
proof -
  let ?K = "keysOf C pfA seedA pfB seedB" and ?pre = "ourPreamble XX"
    and ?qA = "encodeIdentityPayload (fromSeed C seedA) []" and ?qB = "encodeIdentityPayload (fromSeed C seedB) []"
    and ?A = "publicIdentity (fromSeed C seedA)" and ?B = "publicIdentity (fromSeed C seedB)"
  note m = m [unfolded strangers_def]
  have onA: "lineA.onLine pfA" "pf_crypto pfA = C" "cf_initiator cfgA" "the (cf_identity cfgA) = fromSeed C seedA"
    and onB: "lineB.onLine pfB" "pf_crypto pfB = C" "\<not> cf_initiator cfgB" "the (cf_identity cfgB) = fromSeed C seedB"
    using m by (simp_all add: lineA.onLine_def lineB.onLine_def)
  have legal: "legalRecord (cf_negotiatedMaxRecordBytes cfgA)" "legalRecord (cf_negotiatedMaxRecordBytes cfgB)"
    and keys: "pi_identityKey ?A \<noteq> replicate kDhLen 0" "pi_identityKey ?B \<noteq> replicate kDhLen 0"
    using m by (simp_all add: publicIdentity_def)
  obtain m0 m1 m2 i1 i2 i3 r1 r2 r3 ct ct'
    where sc: "script C pfA cfgA seedA pfB cfgB seedB m0 m1 m2 i1 i2 i3 r1 r2 r3 ct ct'"
    by (rule script_exists [OF C snd])
  let ?cb = "handshakeHash i3"
  let ?hA = "helloBody (pf_platformId pfA) cfgA ?cb None"
  let ?n = "answerOf pfA cfgA cfgB ?cb"
  let ?hB = "helloBody (pf_platformId pfB) cfgB ?cb (Some ?n)"
  obtain x y i4 r4 cA cB cB' cA' where g: "hs_split C i3 = (Ok, x, y, i4)" "hs_split C r3 = (Ok, y, x, r4)"
    "ic_seal (NoiseCipher (cr_aead C)) (helloRecord T_Hello ?hA) (NoiseCipher_new x y kRekeyInterval) = (Ok, ct, cA)"
    "ic_open (NoiseCipher (cr_aead C)) ct (NoiseCipher_new y x kRekeyInterval) = (Ok, helloRecord T_Hello ?hA, cB)"
    "ic_seal (NoiseCipher (cr_aead C)) (helloRecord T_HelloOk ?hB) cB = (Ok, ct', cB')"
    "ic_open (NoiseCipher (cr_aead C)) ct' cA = (Ok, helloRecord T_HelloOk ?hB, cA')"
    "length ct = kHeaderSize + kBodyHello + kTagLen" "length ct' = kHeaderSize + kBodyHello + kTagLen"
    "?cb = handshakeHash r3" "kSessionIdBytes \<le> length ?cb"
    using sc unfolding script_def by blast
  have tr: "trace C ?K ?qA ?qB (initState C True ?K) (initState C False ?K) (m0, m1, m2, i1, i2, i3, r1, r2, r3)"
    using sc unfolding script_def by blast
  note tr = tr [unfolded trace_def, simplified, unfolded keysOf_def, simplified, folded keysOf_def]
  note ne = hello_nonempty [OF g(10)]
  note legalN = answer_legal [OF onB(3) legal, of "pf_platformId pfA" ?cb, folded answerOf_def]
  note acc = hello_accepted [OF g(10) onB(3) legal(1), of "pf_platformId pfA"]
    hello_ok_accepted [OF g(10) onA(3) legalN, of "pf_platformId pfB" cfgB]
  note adopted = answer_adopted [OF onA(3), of "pf_platformId pfB" cfgB ?cb ?n]

  define a0 where "a0 = snd (se_begin pfA (Some MemoryPipe_new) cfgA SecureSession0)"
  have a0: "begunAt cfgA (pipe ?pre []) a0" unfolding a0_def
    by (rule begins [OF _ refl]) (use m lineA.wr_all [of ?pre "[]" "[]"] in \<open>simp_all add: pipe_new\<close>)
  define b0 where "b0 = snd (se_begin pfB (se_stream a0) cfgB SecureSession0)"
  have b0: "begunAt cfgB (pipe ?pre ?pre) b0" unfolding b0_def theStream(1) [OF a0]
    by (rule begins [OF _ refl]) (use m lineB.wr_all [of ?pre ?pre "[]"] in \<open>simp_all add: choosePattern_def split: option.split\<close>)
  obtain a1 where a1: "se_pump pfA (a0\<lparr>se_stream := Some (pipe ?pre ?pre)\<rparr>) = (Busy, a1)"
      "hsAt cfgA XX i1 1 PeerIdentity0 [] (pipe (?pre @ frame m0) []) a1"
    by (rule lineA.pump_opens [where hs = "initState C True ?K" and peer = "ky_sr ?K" and m = m0 and hs' = i1, OF onA(1) newStream(1) [OF a0] onA(3)])
       (use tr onA in \<open>simp_all add: initState_def keysOf_def\<close>)
  obtain b1 where b1: "se_pump pfB (b0\<lparr>se_stream := Some (pipe (?pre @ frame m0) [])\<rparr>) = (Busy, b1)"
      "hsAt cfgB XX r2 2 PeerIdentity0 [] (pipe [] ([] @ frame m1)) b1"
    by (rule lineB.pump_answers [where out = "[]" and m = m0 and hs = "initState C False ?K" and peer = "ky_si ?K" and hs' = r1 and m' = m1 and hs'' = r2,
          OF onB(1) newStream(1) [OF b0] onB(3)])
       (use tr onB in \<open>simp_all add: initState_def keysOf_def\<close>)
  obtain a2 where a2: "se_pump pfA (a1\<lparr>se_stream := Some (pipe [] (frame m1))\<rparr>) = (Busy, a2)"
      "gsAt C cfgA ?B ?cb cA [] True (pipe (frame m2 @ frame ct) []) a2"
    by (rule lineA.pump_confirms [where out = "[]" and m = m1 and payload = ?qB and hs' = i2 and peer = ?B and m' = m2 and hs'' = i3
          and cb = ?cb and snd' = x and rcv = y and hsEnd = i4 and ct = ct and c = cA, OF onA(1) newStream(2) [OF a1(2)] onA(3)])
       (use tr onA keys g identity_roundtrip(1) [OF C] in \<open>simp_all\<close>)
  obtain b2 where b2: "se_pump pfB (b1\<lparr>se_stream := Some (pipe (frame m2 @ frame ct) [])\<rparr>) = (Ok, b2)"
      "upAt C cfgB ?A ?cb ?n (pipe [] (frame ct')) b2"
    by (rule lineB.pump_settles [where out = "[]" and m = m2 and ct = ct and payload = ?qA and hs' = r3 and peer = ?A and cb = ?cb
          and snd' = y and rcv = x and hsEnd = r4 and b = "helloRecord T_Hello ?hA" and c = cB and h = ?hA and n = ?n
          and ct' = ct' and c' = cB', OF onB(1) newStream(2) [OF b1(2)] onB(3)])
       (use tr onB keys g ne acc legalN identity_roundtrip(1) [OF C] in \<open>simp_all add: answerOf_def\<close>)
  have a2': "gsAt (pf_crypto pfA) cfgA ?B ?cb cA [] True (pipe [] (frame ct')) (a2\<lparr>se_stream := Some (pipe [] (frame ct'))\<rparr>)"
    using newStream(3) [OF a2(2)] onA(2) by simp
  obtain a3 where a3: "se_pump pfA (a2\<lparr>se_stream := Some (pipe [] (frame ct'))\<rparr>) = (Ok, a3)"
      "upAt C cfgA ?B ?cb (?n\<lparr>ng_peerRoleBits := cf_roleBits cfgB, ng_peerPlatform := pf_platformId pfB\<rparr>) (pipe [] []) a3"
    by (rule lineA.pump_adopts [where out = "[]" and ct = ct' and b = "helloRecord T_HelloOk ?hB" and c' = cA' and h = ?hB and c = cA
          and peer = ?B and cb = ?cb and n = "?n\<lparr>ng_peerRoleBits := cf_roleBits cfgB, ng_peerPlatform := pf_platformId pfB\<rparr>",
          OF onA(1) a2' onA(3)])
       (use onA g ne acc legalN adopted in \<open>simp_all\<close>)
  let ?b = "b2\<lparr>se_stream := Some (pipe [] [])\<rparr>"
  have "exchange pfA pfB 5 (a0\<lparr>se_stream := Some (pipe ?pre ?pre)\<rparr>) b0 = (a3, ?b)"
    using a1 b1 a2 b2 a3 theStream(2) [OF a1(2)] theStream(2) [OF b1(2)] theStream(3) [OF a2(2)]
      theStream(4) [OF b2(2)] theStream(4) [OF a3(2)]
    by (simp add: eval_nat_numeral)
  then have "meet 5 pfA cfgA pfB cfgB = (a3, ?b)"
    using theStream(1) [OF b0] by (simp add: meet_def a0_def b0_def Let_def)
  then show thesis by (rule that [OF _ newStream(4) [OF b2(2)] a3(2) refl])
qed

section \<open>First contact\<close>

text \<open>
  C3. Two machines that meet get an authenticated session.  Over an open line, five pumps in turn
  bring both sessions to \<open>Established\<close>, the initiator with the responder's identity as its peer and
  the other way round; both have the same channel binding and the same six digits to compare, and
  the same limits (each notes the other's role and platform).
\<close>

theorem first_contact:
  assumes "cryptoCorrect C" "strangers C pfA cfgA seedA pfB cfgB seedB" "soundKeys C (keysOf C pfA seedA pfB seedB)"
  shows "\<exists>a b. meet 5 pfA cfgA pfB cfgB = (a, b)
    \<and> se_state a = Established \<and> se_state b = Established
    \<and> se_peer a = publicIdentity (fromSeed C seedB) \<and> se_peer b = publicIdentity (fromSeed C seedA)
    \<and> se_channelBinding a = se_channelBinding b \<and> se_sas a = se_sas b
    \<and> se_negotiated b = negotiate cfgB (helloBody (pf_platformId pfA) cfgA (se_channelBinding a) None)
    \<and> se_negotiated a = (se_negotiated b)\<lparr>ng_peerRoleBits := cf_roleBits cfgB, ng_peerPlatform := pf_platformId pfB\<rparr>"
proof -
  obtain a b cb n where "meet 5 pfA cfgA pfB cfgB = (a, b)"
    "upAt C cfgB (publicIdentity (fromSeed C seedA)) cb n (pipe [] []) b"
    "upAt C cfgA (publicIdentity (fromSeed C seedB)) cb
      (n\<lparr>ng_peerRoleBits := cf_roleBits cfgB, ng_peerPlatform := pf_platformId pfB\<rparr>) (pipe [] []) a"
    "n = answerOf pfA cfgA cfgB cb"
    by (rule meet_establishes [OF assms])
  then show ?thesis by (intro exI [of _ a] exI [of _ b]) (simp add: upAt_def answerOf_def)
qed

text \<open>Two machines of the small instance; the responder has pinned the initiator.\<close>

definition toyA :: "MemoryPipe Platform" where
  "toyA = \<lparr>pf_crypto = toyCrypto, pf_write = writeA, pf_read = readA, pf_fresh = [5], pf_platformId = kPlatformMacos\<rparr>"

definition toyB :: "MemoryPipe Platform" where
  "toyB = \<lparr>pf_crypto = toyCrypto, pf_write = writeB, pf_read = readB, pf_fresh = [11], pf_platformId = kPlatformLinux\<rparr>"

definition toyPin :: PeerStore where
  "toyPin = [(storeKey (li_idPub (fromSeed toyCrypto [1])),
     \<lparr>pp_identityKey = li_idPub (fromSeed toyCrypto [1]), pp_noiseKey = li_noisePub (fromSeed toyCrypto [1]),
      pp_name = ''A'', pp_grants = kMayAttach, pp_firstSeenNs = 0, pp_lastSeenNs = 0\<rparr>)]"

definition toyCfgA :: Config where
  "toyCfgA = Config0\<lparr>cf_identity := Some (fromSeed toyCrypto [1])\<rparr>"

definition toyCfgB :: "PeerStore \<Rightarrow> Config" where
  "toyCfgB store = Config0\<lparr>cf_initiator := False, cf_identity := Some (fromSeed toyCrypto [2]), cf_peers := Some store,
     cf_negotiatedMaxRecordBytes := 2048\<rparr>"

lemma toy_key: "li_idPub (fromSeed toyCrypto seed) \<noteq> replicate kDhLen 0"
  using or_one_nonzero
  by (simp add: fromSeed_def Let_def ed25519KeyPairFromSeed_def toyCrypto_def numeral_eq_Suc split: prod.split)

lemma toy_strangers: "strangers toyCrypto toyA toyCfgA [1] toyB (toyCfgB store) [2]"
  by (simp add: strangers_def toy_key toyA_def toyB_def toyCfgA_def toyCfgB_def Config0_def choosePattern_def legalRecord_def)

theorem first_contact_witness:
  "\<exists>a b. meet 5 toyA toyCfgA toyB (toyCfgB []) = (a, b) \<and> se_state a = Established \<and> se_state b = Established
    \<and> se_peer a = publicIdentity (fromSeed toyCrypto [2]) \<and> se_sas a = se_sas b
    \<and> ng_maxRecordBytes (se_negotiated a) = 2048 \<and> ng_peerPlatform (se_negotiated b) = kPlatformMacos"
  using first_contact [OF toyCrypto_correct toy_strangers toyCrypto_sound, of "[]"]
  by (auto simp: negotiate_def helloBody_def toyCfgA_def toyCfgB_def toyA_def Config0_def min_def)

section \<open>Every established session\<close>

text \<open>What holds of a session that has passed its handshake, in the words of its fields.\<close>

lemma established_run_inv:
  assumes "se_begin pf stream cfg SecureSession0 = (st, s0)"
  shows "sessionInv (pf_crypto pf) cfg (sessionRun pf ops s0)"
  by (rule sessionRun_inv [OF se_begin_inv [OF assms]])

lemma keyed_cases: "keyed c \<Longrightarrow> \<exists>k. c = KeyedCipher k"
  by (cases c) simp_all

text \<open>
  C2. An established session is authentic, whatever the peer and the network did.  After any
  sequence of pumps and changes of the byte stream, a session in \<open>Established\<close> has a complete
  handshake, and its peer signed, with its long-term key, the very static key the handshake used.
  The trust and the grants are those of that key in the peer store, records are under the transport
  keys, the agreed record size is in range and in use, and segmentation is on.
\<close>

theorem established_authentic:
  assumes "se_begin pf stream cfg SecureSession0 = (st, s0)" "s = sessionRun pf ops s0" "se_state s = Established"
  shows "hs_complete (se_hs s) \<and> verifyBinding (pf_crypto pf) (se_peer s) \<and> pi_noiseKey (se_peer s) = hs_rs (se_hs s)
    \<and> pi_identityKey (se_peer s) \<noteq> replicate kDhLen 0
    \<and> se_channelBinding s = handshakeHash (se_hs s)
    \<and> (se_trust s, se_grants s) = trustOf (cf_peers cfg) (pi_identityKey (se_peer s))
    \<and> (\<exists>c. rl_cipher (se_record s) = KeyedCipher c)
    \<and> rl_maxRecord (se_record s) = ng_maxRecordBytes (se_negotiated s)
    \<and> kRecordBytesFloor \<le> ng_maxRecordBytes (se_negotiated s) \<and> ng_maxRecordBytes (se_negotiated s) \<le> kRecordBytesCeiling
    \<and> ng_capabilities (se_negotiated s) AND kCapSegmentation \<noteq> 0"
  using established_run_inv [OF assms(1), of ops] assms(2,3) keyed_cases
  by (simp add: sessionInv_def secured_def peerBound_def agreedLimits_def)

lemma toy_run:
  obtains stream st s0 ops where "se_begin toyB stream (toyCfgB store) SecureSession0 = (st, s0)"
    "se_state (sessionRun toyB ops s0) = Established"
    "se_peer (sessionRun toyB ops s0) = publicIdentity (fromSeed toyCrypto [1])"
proof -
  obtain a b cb n where m: "meet 5 toyA toyCfgA toyB (toyCfgB store) = (a, b)"
    "upAt toyCrypto (toyCfgB store) (publicIdentity (fromSeed toyCrypto [1])) cb n (pipe [] []) b"
    by (rule meet_establishes [OF toyCrypto_correct toy_strangers toyCrypto_sound])
  let ?a = "snd (se_begin toyA (Some MemoryPipe_new) toyCfgA SecureSession0)"
  let ?b = "se_begin toyB (se_stream ?a) (toyCfgB store) SecureSession0"
  obtain ops where "b = sessionRun toyB ops (snd ?b)"
    using exchange_run [of toyA toyB 5] m(1) by (metis meet_def snd_conv)
  with m(2) show thesis
    by (intro that [of "se_stream ?a" "fst ?b" "snd ?b" ops]) (simp_all add: upAt_def)
qed

theorem established_authentic_witness:
  "\<exists>stream st s0 ops. se_begin toyB stream (toyCfgB toyPin) SecureSession0 = (st, s0)
    \<and> se_state (sessionRun toyB ops s0) = Established
    \<and> verifyBinding toyCrypto (se_peer (sessionRun toyB ops s0))
    \<and> pi_noiseKey (se_peer (sessionRun toyB ops s0)) = hs_rs (se_hs (sessionRun toyB ops s0))
    \<and> se_trust (sessionRun toyB ops s0) = Paired"
proof -
  obtain stream st s0 ops where r: "se_begin toyB stream (toyCfgB toyPin) SecureSession0 = (st, s0)"
    "se_state (sessionRun toyB ops s0) = Established"
    "se_peer (sessionRun toyB ops s0) = publicIdentity (fromSeed toyCrypto [1])"
    by (rule toy_run)
  have "trustOf (Some toyPin) (li_idPub (fromSeed toyCrypto [1])) = (Paired, kMayAttach)"
    by (simp add: trustOf_def toyPin_def ps_find_def)
  moreover have "pi_identityKey (se_peer (sessionRun toyB ops s0)) = li_idPub (fromSeed toyCrypto [1])"
    "pf_crypto toyB = toyCrypto" "cf_peers (toyCfgB toyPin) = Some toyPin"
    using r(3) by (simp_all add: publicIdentity_def toyB_def toyCfgB_def)
  ultimately show ?thesis
    using established_authentic [OF r(1) refl r(2)] r(1,2)
    by (intro exI [of _ stream] exI [of _ st] exI [of _ s0] exI [of _ ops]) auto
qed

text \<open>The rights of the peer, in every state of the session.\<close>

lemma rights_pinned:
  assumes "sessionInv C cfg s" "se_trust s = Paired"
  shows "\<exists>store p. cf_peers cfg = Some store \<and> ps_find store (pi_identityKey (se_peer s)) = Some p \<and> se_grants s = pp_grants p
    \<and> verifyBinding C (se_peer s) \<and> pi_noiseKey (se_peer s) = hs_rs (se_hs s) \<and> hs_complete (se_hs s)"
proof -
  have "secured C cfg s" using assms by (cases "se_state s") (simp_all add: sessionInv_def handshaking_def)
  then show ?thesis
    using assms(2) by (auto simp: secured_def peerBound_def trustOf_def split: option.splits)
qed

text \<open>
  Nobody attaches without a pin.  Whatever the peer and the network did, and in whatever state
  the session is, it lets its peer attach only when the peer store pins the identity the peer proved
  in the completed handshake, with the attach grant.
\<close>

lemma attach_needs_pin:
  assumes "se_begin pf stream cfg SecureSession0 = (st, s0)" "s = sessionRun pf ops s0" "mayAttach (securePeer s)"
  shows "\<exists>store p. cf_peers cfg = Some store \<and> ps_find store (pi_identityKey (se_peer s)) = Some p
    \<and> pp_grants p AND kMayAttach \<noteq> 0 \<and> verifyBinding (pf_crypto pf) (se_peer s)
    \<and> pi_noiseKey (se_peer s) = hs_rs (se_hs s) \<and> hs_complete (se_hs s)"
proof -
  have "se_trust s = Paired" "se_grants s AND kMayAttach \<noteq> 0" using assms(3) by (simp_all add: mayAttach_def securePeer_def)
  with rights_pinned [OF established_run_inv [OF assms(1), of ops]] assms(2) show ?thesis by auto
qed

lemma unpinned_unpaired:
  assumes "sessionInv C cfg s" "\<forall>store. cf_peers cfg = Some store \<longrightarrow> ps_find store (pi_identityKey (se_peer s)) = None"
  shows "sp_trust (securePeer s) \<noteq> Paired"
  using rights_pinned [OF assms(1)] assms(2) by (auto simp: securePeer_def)

end
