(* ===== verification/Spec2Isabelle.thy ===== *)
theory Spec2Isabelle
  imports Segmentation ManifestCodec Ep0 RequestTable Credit RecordLayer Scheduler Lease
    PairingGate PeerStore Delivery ExporterGuarantees Handshake FirstContact
begin

text \<open>
  Verification of AirUSB Hub (sources under \<open>src/airusb\<close>), which shares a USB device of one
  machine (the exporter) with another (the importer) over a network.
\<close>

text \<open>
  C1. A machine that is not pinned reaches no device.  Whatever a peer and the network do to the
  secure session, and whatever the peer then sends to the exporter that serves this session, as long
  as the identity the peer proved is not in the peer store no device is ever listed, claimed, driven
  or released for it (the devices are as the rest of the machine left them), no port is held, no
  transfer is queued, and every record sent back is an ERROR or a PONG.
\<close>

theorem unpinned_reaches_no_device:
  assumes "se_begin pf stream cfg SecureSession0 = (st, s0)" "s = sessionRun pf sops s0"
    and "\<forall>store. cf_peers cfg = Some store \<longrightarrow> ps_find store (pi_identityKey (se_peer s)) = None"
    and "exRun en ops (ex_begin now (securePeer s) link d leases name) = Some x"
  shows "ex_devices x = worldAfter ops d \<and> ex_port x = None \<and> ex_queues x = [] \<and> ex_inFlight x = []
    \<and> list_all (\<lambda>rec. isType T_Error rec \<or> isType T_Pong rec) (ex_sent x)"
proof -
  have "sessionInv (pf_crypto pf) cfg s" using established_run_inv [OF assms(1)] assms(2) by simp
  from unpaired_reaches_no_device [OF assms(4) unpinned_unpaired [OF this assms(3)]] show ?thesis .
qed

theorem unpinned_reaches_no_device_witness:
  "\<exists>stream st s0 ops x. se_begin toyB stream (toyCfgB []) SecureSession0 = (st, s0)
    \<and> se_state (sessionRun toyB ops s0) = Established
    \<and> exRun scriptEnv [ExPump 0 []] (scriptStart (securePeer (sessionRun toyB ops s0)) [attachMessage]) = Some x
    \<and> ex_devices x = [] \<and> ex_port x = None \<and> (\<exists>rec. ex_sent x = [rec] \<and> (isType T_Error rec \<or> isType T_Pong rec))"
proof -
  obtain stream st s0 ops where r: "se_begin toyB stream (toyCfgB []) SecureSession0 = (st, s0)"
    "se_state (sessionRun toyB ops s0) = Established"
    by (rule toy_run)
  let ?s = "sessionRun toyB ops s0"
  have none: "\<forall>store. cf_peers (toyCfgB []) = Some store \<longrightarrow> ps_find store (pi_identityKey (se_peer ?s)) = None"
    by (simp add: toyCfgB_def ps_find_def)
  have "sp_trust (securePeer ?s) \<noteq> Paired" by (rule unpinned_unpaired [OF established_run_inv [OF r(1)] none])
  then obtain x where x: "exRun scriptEnv [ExPump 0 []] (scriptStart (securePeer ?s) [attachMessage]) = Some x" "length (ex_sent x) = 1"
    using unpaired_run by blast
  from unpinned_reaches_no_device [OF r(1) refl none x(1) [unfolded scriptStart_def]]
  have "ex_devices x = [] \<and> ex_port x = None" "list_all (\<lambda>rec. isType T_Error rec \<or> isType T_Pong rec) (ex_sent x)" by simp_all
  moreover from this(2) x(2) have "\<exists>rec. ex_sent x = [rec] \<and> (isType T_Error rec \<or> isType T_Pong rec)"
    by (cases "ex_sent x") auto
  ultimately show ?thesis using r x(1) by blast
qed
end
